(* ===== verification/Prelude.thy ===== *)
theory Prelude
  imports Main "HOL-Library.Monad_Syntax"
begin

text \<open>
  Shared material of the development: the conventions that turn C into HOL, the collections
  the component proofs draw on, and generic lemmas.

  Conventions.
  \<^item> A pointer that the code compares with \<^verbatim>\<open>NULL\<close> is an \<open>option\<close>; \<open>None\<close> is \<^verbatim>\<open>NULL\<close>.
  \<^item> A C string is a HOL \<open>string\<close> without NUL characters; \<^verbatim>\<open>util_strdup_s\<close> (which aborts when
    memory is exhausted and maps NULL to NULL) copies it, so it is the identity on \<open>string option\<close>.
  \<^item> \<^verbatim>\<open>int\<close> results that only say success or failure keep the source's values 0 and -1.
  \<^item> A 32-bit signed counter is an \<open>int\<close> whose arithmetic is wrapped by \<open>wrap32\<close>.
  \<^item> What the code reads from outside (the clock, the allocator, a lock operation, the container
    runtime) is an argument of the operation that reads it.
\<close>

named_theorems state_defs \<open>definitions of the container state setters and getters\<close>
named_theorems map_laws \<open>what a search of a map returns after each operation\<close>

section \<open>Machine integers\<close>

definition INT_MAX :: int where
  "INT_MAX = 2 ^ 31 - 1"

definition INT_MIN :: int where
  "INT_MIN = - (2 ^ 31)"

definition SIZE_MAX :: nat where
  "SIZE_MAX = 2 ^ 64 - 1"

text \<open>Two's complement reading of a value in 32 bits.\<close>

definition wrap32 :: "int \<Rightarrow> int" where
  "wrap32 x = (x + 2 ^ 31) mod 2 ^ 32 - 2 ^ 31"

lemma wrap32_id [simp]: "INT_MIN \<le> x \<Longrightarrow> x \<le> INT_MAX \<Longrightarrow> wrap32 x = x"
  by (simp add: wrap32_def INT_MIN_def INT_MAX_def)

lemma wrap32_range: "INT_MIN \<le> wrap32 x \<and> wrap32 x \<le> INT_MAX"
proof -
  have "0 \<le> (x + 2 ^ 31) mod 2 ^ 32" "(x + 2 ^ 31) mod 2 ^ 32 < (2::int) ^ 32"
    by simp_all
  then show ?thesis by (simp add: wrap32_def INT_MIN_def INT_MAX_def)
qed

text \<open>The overflow test by division: it is exact for a positive divisor.\<close>

lemma div_less_iff: "0 < (m :: int) \<Longrightarrow> x div m < n \<longleftrightarrow> x < n * m"
proof
  assume m: "0 < m" and "x div m < n"
  then have "m * (x div m + 1) \<le> m * n" by (intro mult_left_mono) auto
  moreover have "x < m * (x div m) + m" using m mult_div_mod_eq [of m x] pos_mod_bound [of m x] by linarith
  ultimately show "x < n * m" by (simp add: algebra_simps)
next
  assume m: "0 < m" and x: "x < n * m"
  show "x div m < n"
  proof (rule ccontr)
    assume "\<not> x div m < n"
    then have "m * n \<le> m * (x div m)" using m by (intro mult_left_mono) auto
    also have "\<dots> \<le> x" using mult_div_mod_eq [of m x] pos_mod_sign [of m x] m by linarith
    finally show False using x by (simp add: mult.commute)
  qed
qed

section \<open>Options\<close>

lemma map_option_Some_iff:
  "map_option f x = Some y \<longleftrightarrow> (\<exists>z. x = Some z \<and> f z = y)"
  by (cases x) auto

section \<open>Lists\<close>

lemma sorted_wrt_irrefl: "(\<And>a. \<not> P a a) \<Longrightarrow> sorted_wrt P xs \<Longrightarrow> distinct xs"
  by (induction xs) auto

end
