(* ===== verification/Rb_Tree.thy ===== *)
theory Rb_Tree
  imports Prelude
begin

text \<open>
  The red-black tree of \<^verbatim>\<open>src/utils/cutils/map/rb_tree.c\<close>, which stores every map of the daemon.
  The C code works on linked nodes with parent pointers and one sentinel \<^verbatim>\<open>nil\<close>; the model keeps
  that representation: a heap from addresses to nodes, address 0 for NULL, and every read or write
  through a pointer is a step of the option monad that fails on an address that is not allocated.
  A result \<open>None\<close> therefore stands for undefined behaviour or a loop that never ends, and a lemma
  that an operation returns \<open>Some\<close> says that the C neither touches freed or NULL memory nor loops.
  The calls of \<^verbatim>\<open>tree->kvfreer\<close> are recorded, in order, in the field \<open>freed\<close>.
\<close>

section \<open>Data\<close>

type_synonym addr = nat

datatype rbtree_colour = RED | BLACK

record ('k, 'v) rb_node =
  nkey :: "'k option"
  nvalue :: "'v option"
  colour :: rbtree_colour
  left :: addr
  right :: addr
  parent :: addr

record ('k, 'v) rb_tree =
  root :: addr
  comparator :: "'k \<Rightarrow> 'k \<Rightarrow> int"
  kvfreer :: bool
  nil :: addr
  heap :: "addr \<rightharpoonup> ('k, 'v) rb_node"
  freed :: "('k option \<times> 'v option) list"

section \<open>Comparators\<close>

definition rbtree_ptr_cmp :: "addr \<Rightarrow> addr \<Rightarrow> int" where
  "rbtree_ptr_cmp x y = of_bool (x > y) - of_bool (x < y)"

definition rbtree_int_cmp :: "int \<Rightarrow> int \<Rightarrow> int" where
  "rbtree_int_cmp key1 key2 = of_bool (key1 > key2) - of_bool (key1 < key2)"

text \<open>
  C leaves the signedness of \<^verbatim>\<open>char\<close> to the platform; \<open>char_value\<close> gives the integer value of a
  character either way. A C string is the list of its characters before the terminating NUL, whose
  value is 0: the loop stops at the first difference or when both strings end.
\<close>

definition char_value :: "bool \<Rightarrow> char \<Rightarrow> int" where
  "char_value signed c =
     (let n = of_char c :: int in if signed \<and> n \<ge> 128 then n - 256 else n)"

fun rbtree_str_cmp :: "bool \<Rightarrow> string \<Rightarrow> string \<Rightarrow> int" where
  "rbtree_str_cmp sg [] [] = 0"
| "rbtree_str_cmp sg [] (b # bs) = of_bool (0 > char_value sg b) - of_bool (0 < char_value sg b)"
| "rbtree_str_cmp sg (a # as) [] = of_bool (char_value sg a > 0) - of_bool (char_value sg a < 0)"
| "rbtree_str_cmp sg (a # as) (b # bs) =
     (if a \<noteq> b
      then of_bool (char_value sg a > char_value sg b) - of_bool (char_value sg a < char_value sg b)
      else rbtree_str_cmp sg as bs)"

section \<open>Reading and writing node fields\<close>

definition deref :: "('k, 'v) rb_tree \<Rightarrow> addr \<Rightarrow> ('k, 'v) rb_node option" where
  "deref t p = heap t p"

definition set_left :: "('k, 'v) rb_tree \<Rightarrow> addr \<Rightarrow> addr \<Rightarrow> ('k, 'v) rb_tree option" where
  "set_left t p q = do { n \<leftarrow> heap t p; Some (t\<lparr>heap := (heap t)(p \<mapsto> n\<lparr>left := q\<rparr>)\<rparr>) }"

definition set_right :: "('k, 'v) rb_tree \<Rightarrow> addr \<Rightarrow> addr \<Rightarrow> ('k, 'v) rb_tree option" where
  "set_right t p q = do { n \<leftarrow> heap t p; Some (t\<lparr>heap := (heap t)(p \<mapsto> n\<lparr>right := q\<rparr>)\<rparr>) }"

definition set_parent :: "('k, 'v) rb_tree \<Rightarrow> addr \<Rightarrow> addr \<Rightarrow> ('k, 'v) rb_tree option" where
  "set_parent t p q = do { n \<leftarrow> heap t p; Some (t\<lparr>heap := (heap t)(p \<mapsto> n\<lparr>parent := q\<rparr>)\<rparr>) }"

definition set_colour :: "('k, 'v) rb_tree \<Rightarrow> addr \<Rightarrow> rbtree_colour \<Rightarrow> ('k, 'v) rb_tree option" where
  "set_colour t p c = do { n \<leftarrow> heap t p; Some (t\<lparr>heap := (heap t)(p \<mapsto> n\<lparr>colour := c\<rparr>)\<rparr>) }"

definition set_value :: "('k, 'v) rb_tree \<Rightarrow> addr \<Rightarrow> 'v \<Rightarrow> ('k, 'v) rb_tree option" where
  "set_value t p v = do { n \<leftarrow> heap t p; Some (t\<lparr>heap := (heap t)(p \<mapsto> n\<lparr>nvalue := Some v\<rparr>)\<rparr>) }"

definition call_kvfreer :: "('k, 'v) rb_tree \<Rightarrow> 'k option \<Rightarrow> 'v option \<Rightarrow> ('k, 'v) rb_tree" where
  "call_kvfreer t k v = (if kvfreer t then t\<lparr>freed := freed t @ [(k, v)]\<rparr> else t)"

definition free_node :: "('k, 'v) rb_tree \<Rightarrow> addr \<Rightarrow> ('k, 'v) rb_tree option" where
  "free_node t p = do { n \<leftarrow> heap t p; Some (t\<lparr>heap := (heap t)(p := None)\<rparr>) }"

section \<open>Search\<close>

definition create_node :: "'k option \<Rightarrow> 'v option \<Rightarrow> addr \<Rightarrow> addr \<Rightarrow> addr \<Rightarrow> ('k, 'v) rb_node" where
  "create_node k v l r p =
     \<lparr>nkey = k, nvalue = v, colour = BLACK, left = l, right = r, parent = p\<rparr>"

text \<open>\<open>alloc\<close> is the address \<^verbatim>\<open>util_common_calloc_s\<close> returns, \<open>None\<close> when it fails.\<close>

definition rbtree_create_node ::
  "addr option \<Rightarrow> ('k, 'v) rb_tree \<Rightarrow> 'k option \<Rightarrow> 'v option \<Rightarrow> addr \<Rightarrow> addr \<Rightarrow> addr
     \<Rightarrow> (addr \<times> ('k, 'v) rb_tree) option" where
  "rbtree_create_node alloc t k v l r p =
     (case alloc of
        None \<Rightarrow> None
      | Some a \<Rightarrow> Some (a, t\<lparr>heap := (heap t)(a \<mapsto> create_node k v l r p)\<rparr>))"

partial_function (option) rbtree_recursive_search ::
  "('k, 'v) rb_tree \<Rightarrow> addr \<Rightarrow> 'k \<Rightarrow> addr option" where
  "rbtree_recursive_search t node key =
     (if node = nil t then Some node
      else do {
        n \<leftarrow> deref t node;
        nk \<leftarrow> nkey n;
        if comparator t key nk = 0 then Some node
        else if comparator t key nk < 0 then rbtree_recursive_search t (left n) key
        else rbtree_recursive_search t (right n) key
      })"

definition rbtree_find :: "('k, 'v) rb_tree option \<Rightarrow> 'k option \<Rightarrow> addr option" where
  "rbtree_find tp kp =
     (case (tp, kp) of
        (Some t, Some key) \<Rightarrow> rbtree_recursive_search t (root t) key
      | _ \<Rightarrow> Some 0)"

text \<open>The outer option is the monad's, the inner one the \<^verbatim>\<open>void *\<close> that is returned.\<close>

definition rbtree_search ::
  "('k, 'v) rb_tree option \<Rightarrow> 'k option \<Rightarrow> 'v option option" where
  "rbtree_search tp kp =
     (case (tp, kp) of
        (Some t, Some key) \<Rightarrow> do {
          found \<leftarrow> rbtree_find tp kp;
          if found = nil t then Some None
          else do { n \<leftarrow> deref t found; Some (nvalue n) }
        }
      | _ \<Rightarrow> Some None)"

section \<open>Construction and destruction\<close>

definition rbtree_new ::
  "bool \<Rightarrow> addr option \<Rightarrow> ('k \<Rightarrow> 'k \<Rightarrow> int) \<Rightarrow> bool \<Rightarrow> ('k, 'v) rb_tree option" where
  "rbtree_new alloc_tree alloc_nil cmp freer =
     (if \<not> alloc_tree then None
      else do {
        (nl, t) \<leftarrow> rbtree_create_node alloc_nil
                    \<lparr>root = 0, comparator = cmp, kvfreer = freer, nil = 0, heap = Map.empty,
                     freed = []\<rparr> None None 0 0 0;
        Some (t\<lparr>nil := nl, root := nl\<rparr>)
      })"

partial_function (option) rbtree_destroy_all ::
  "('k, 'v) rb_tree \<Rightarrow> addr \<Rightarrow> ('k, 'v) rb_tree option" where
  "rbtree_destroy_all t node =
     (if node = nil t then Some t
      else do {
        n \<leftarrow> deref t node;
        t1 \<leftarrow> (if left n \<noteq> nil t then rbtree_destroy_all t (left n) else Some t);
        n1 \<leftarrow> deref t1 node;
        t2 \<leftarrow> (if right n1 \<noteq> nil t1 then rbtree_destroy_all t1 (right n1) else Some t1);
        n2 \<leftarrow> deref t2 node;
        free_node (call_kvfreer t2 (nkey n2) (nvalue n2)) node
      })"

definition rbtree_clear :: "('k, 'v) rb_tree option \<Rightarrow> ('k, 'v) rb_tree option option" where
  "rbtree_clear tp =
     (case tp of
        None \<Rightarrow> Some None
      | Some t \<Rightarrow> do {
          t1 \<leftarrow> rbtree_destroy_all t (root t);
          Some (Some (t1\<lparr>root := nil t1\<rparr>))
        })"

text \<open>The tree object itself is freed last; the result shows the heap and the log at that point.\<close>

definition rbtree_free :: "('k, 'v) rb_tree option \<Rightarrow> ('k, 'v) rb_tree option option" where
  "rbtree_free tp =
     (case tp of
        None \<Rightarrow> Some None
      | Some t \<Rightarrow> do {
          tp1 \<leftarrow> rbtree_clear (Some t);
          t1 \<leftarrow> tp1;
          t2 \<leftarrow> free_node t1 (nil t1);
          Some (Some (t2\<lparr>nil := 0\<rparr>))
        })"

section \<open>Rotations\<close>

definition left_rot :: "('k, 'v) rb_tree \<Rightarrow> addr \<Rightarrow> ('k, 'v) rb_tree option" where
  "left_rot t0 node = do {
     n0 \<leftarrow> deref t0 node;
     let y = right n0;
     y0 \<leftarrow> deref t0 y;
     t1 \<leftarrow> set_right t0 node (left y0);
     y1 \<leftarrow> deref t1 y;
     t2 \<leftarrow> (if left y1 \<noteq> nil t1 then set_parent t1 (left y1) node else Some t1);
     n2 \<leftarrow> deref t2 node;
     t3 \<leftarrow> set_parent t2 y (parent n2);
     n3 \<leftarrow> deref t3 node;
     t4 \<leftarrow> (if parent n3 = nil t3 then Some (t3\<lparr>root := y\<rparr>)
            else do {
              p3 \<leftarrow> deref t3 (parent n3);
              if node = left p3 then set_left t3 (parent n3) y
              else set_right t3 (parent n3) y
            });
     t5 \<leftarrow> set_left t4 y node;
     set_parent t5 node y
   }"

definition right_rot :: "('k, 'v) rb_tree \<Rightarrow> addr \<Rightarrow> ('k, 'v) rb_tree option" where
  "right_rot t0 node = do {
     n0 \<leftarrow> deref t0 node;
     let y = left n0;
     y0 \<leftarrow> deref t0 y;
     t1 \<leftarrow> set_left t0 node (right y0);
     y1 \<leftarrow> deref t1 y;
     t2 \<leftarrow> (if right y1 \<noteq> nil t1 then set_parent t1 (right y1) node else Some t1);
     n2 \<leftarrow> deref t2 node;
     t3 \<leftarrow> set_parent t2 y (parent n2);
     n3 \<leftarrow> deref t3 node;
     t4 \<leftarrow> (if parent n3 = nil t3 then Some (t3\<lparr>root := y\<rparr>)
            else do {
              p3 \<leftarrow> deref t3 (parent n3);
              if node = right p3 then set_right t3 (parent n3) y
              else set_left t3 (parent n3) y
            });
     t5 \<leftarrow> set_right t4 y node;
     set_parent t5 node y
   }"

section \<open>Insertion\<close>

text \<open>\<^verbatim>\<open>node->parent->parent\<close>, read through both pointers.\<close>

definition grandparent :: "('k, 'v) rb_tree \<Rightarrow> addr \<Rightarrow> addr option" where
  "grandparent t node = do { n \<leftarrow> deref t node; p \<leftarrow> deref t (parent n); Some (parent p) }"

text \<open>The recolouring of the red-uncle case: parent and uncle black, grandparent red.\<close>

definition recolour_up ::
  "('k, 'v) rb_tree \<Rightarrow> addr \<Rightarrow> addr \<Rightarrow> addr \<Rightarrow> ('k, 'v) rb_tree option" where
  "recolour_up t p y g = do {
     t1 \<leftarrow> set_colour t p BLACK;
     t2 \<leftarrow> set_colour t1 y BLACK;
     set_colour t2 g RED
   }"

text \<open>
  The black-uncle case, by the side the parent hangs on: an inner node is rotated outwards first, then
  parent and grandparent change colours and the grandparent is rotated down. The result is the node
  the loop goes on with and the tree.
\<close>

definition insert_finish_left ::
  "('k, 'v) rb_tree \<Rightarrow> addr \<Rightarrow> ('k, 'v) rb_tree option" where
  "insert_finish_left t node = do {
     n \<leftarrow> deref t node;
     t1 \<leftarrow> set_colour t (parent n) BLACK;
     g1 \<leftarrow> grandparent t1 node;
     t2 \<leftarrow> set_colour t1 g1 RED;
     g2 \<leftarrow> grandparent t2 node;
     right_rot t2 g2
   }"

definition insert_rot_left_case ::
  "('k, 'v) rb_tree \<Rightarrow> addr \<Rightarrow> (addr \<times> ('k, 'v) rb_tree) option" where
  "insert_rot_left_case t node = do {
     n \<leftarrow> deref t node;
     p \<leftarrow> deref t (parent n);
     (node1, t1) \<leftarrow> (if node = right p
                     then do { t' \<leftarrow> left_rot t (parent n); Some (parent n, t') }
                     else Some (node, t));
     t2 \<leftarrow> insert_finish_left t1 node1;
     Some (node1, t2)
   }"

definition insert_finish_right ::
  "('k, 'v) rb_tree \<Rightarrow> addr \<Rightarrow> ('k, 'v) rb_tree option" where
  "insert_finish_right t node = do {
     n \<leftarrow> deref t node;
     t1 \<leftarrow> set_colour t (parent n) BLACK;
     g1 \<leftarrow> grandparent t1 node;
     t2 \<leftarrow> set_colour t1 g1 RED;
     g2 \<leftarrow> grandparent t2 node;
     left_rot t2 g2
   }"

definition insert_rot_right_case ::
  "('k, 'v) rb_tree \<Rightarrow> addr \<Rightarrow> (addr \<times> ('k, 'v) rb_tree) option" where
  "insert_rot_right_case t node = do {
     n \<leftarrow> deref t node;
     p \<leftarrow> deref t (parent n);
     (node1, t1) \<leftarrow> (if node = left p
                     then do { t' \<leftarrow> right_rot t (parent n); Some (parent n, t') }
                     else Some (node, t));
     t2 \<leftarrow> insert_finish_right t1 node1;
     Some (node1, t2)
   }"

partial_function (option) rbtree_insert_fixup ::
  "('k, 'v) rb_tree \<Rightarrow> addr \<Rightarrow> ('k, 'v) rb_tree option" where
  "rbtree_insert_fixup t node = do {
     n \<leftarrow> deref t node;
     p \<leftarrow> deref t (parent n);
     if colour p = RED then do {
       g \<leftarrow> deref t (parent p);
       if parent n = left g then
         (if right g = 0 then Some t
          else do {
            y \<leftarrow> deref t (right g);
            if colour y = RED then do {
              t1 \<leftarrow> recolour_up t (parent n) (right g) (parent p);
              rbtree_insert_fixup t1 (parent p)
            } else do {
              r \<leftarrow> insert_rot_left_case t node;
              rbtree_insert_fixup (snd r) (fst r)
            }
          })
       else
         (if left g = 0 then Some t
          else do {
            y \<leftarrow> deref t (left g);
            if colour y = RED then do {
              t1 \<leftarrow> recolour_up t (parent n) (left g) (parent p);
              rbtree_insert_fixup t1 (parent p)
            } else do {
              r \<leftarrow> insert_rot_right_case t node;
              rbtree_insert_fixup (snd r) (fst r)
            }
          })
     } else set_colour t (root t) BLACK
   }"

text \<open>The descent of \<^verbatim>\<open>insert_node\<close>: the loop over \<^verbatim>\<open>index\<close>, returning \<^verbatim>\<open>previous\<close>.\<close>

partial_function (option) insert_descend ::
  "('k, 'v) rb_tree \<Rightarrow> 'k \<Rightarrow> addr \<Rightarrow> addr \<Rightarrow> addr option" where
  "insert_descend t key previous index =
     (if index = nil t then Some previous
      else do {
        i \<leftarrow> deref t index;
        ik \<leftarrow> nkey i;
        if comparator t key ik < 0 then insert_descend t key index (left i)
        else insert_descend t key index (right i)
      })"

definition insert_node :: "('k, 'v) rb_tree \<Rightarrow> addr \<Rightarrow> ('k, 'v) rb_tree option" where
  "insert_node t node = do {
     n \<leftarrow> deref t node;
     key \<leftarrow> nkey n;
     previous \<leftarrow> insert_descend t key (nil t) (root t);
     t1 \<leftarrow> set_parent t node previous;
     t2 \<leftarrow> (if previous = nil t1 then Some (t1\<lparr>root := node\<rparr>)
            else do {
              p \<leftarrow> deref t1 previous;
              pk \<leftarrow> nkey p;
              if comparator t1 key pk < 0 then set_left t1 previous node
              else set_right t1 previous node
            });
     t3 \<leftarrow> set_left t2 node (nil t2);
     t4 \<leftarrow> set_right t3 node (nil t3);
     t5 \<leftarrow> set_colour t4 node RED;
     rbtree_insert_fixup t5 node
   }"

definition rbtree_insert ::
  "addr option \<Rightarrow> ('k, 'v) rb_tree option \<Rightarrow> 'k option \<Rightarrow> 'v option
     \<Rightarrow> (bool \<times> ('k, 'v) rb_tree option) option" where
  "rbtree_insert alloc tp kp vp =
     (case (tp, kp, vp) of
        (Some t, Some key, Some val) \<Rightarrow> do {
          found \<leftarrow> rbtree_find tp kp;
          if found \<noteq> nil t then Some (False, Some t)
          else (case rbtree_create_node alloc t (Some key) (Some val) (nil t) (nil t) (nil t) of
                  None \<Rightarrow> Some (False, Some t)
                | Some (node, t1) \<Rightarrow> do { t2 \<leftarrow> insert_node t1 node; Some (True, Some t2) })
        }
      | _ \<Rightarrow> Some (False, tp))"

definition rbtree_replace ::
  "addr option \<Rightarrow> ('k, 'v) rb_tree option \<Rightarrow> 'k option \<Rightarrow> 'v option
     \<Rightarrow> (bool \<times> ('k, 'v) rb_tree option) option" where
  "rbtree_replace alloc tp kp vp =
     (case (tp, kp, vp) of
        (Some t, Some key, Some val) \<Rightarrow> do {
          node \<leftarrow> rbtree_find tp kp;
          if node = nil t then rbtree_insert alloc tp kp vp
          else do {
            n \<leftarrow> deref t node;
            t1 \<leftarrow> set_value (call_kvfreer t (Some key) (nvalue n)) node val;
            Some (True, Some t1)
          }
        }
      | _ \<Rightarrow> Some (False, tp))"

section \<open>Minimum and maximum\<close>

partial_function (option) min_loop :: "('k, 'v) rb_tree \<Rightarrow> addr \<Rightarrow> addr option" where
  "min_loop t node = do {
     n \<leftarrow> deref t node;
     if left n \<noteq> nil t then min_loop t (left n) else Some node
   }"

definition rbtree_minimum :: "('k, 'v) rb_tree \<Rightarrow> addr \<Rightarrow> addr option" where
  "rbtree_minimum t node = (if node = nil t then Some (nil t) else min_loop t node)"

partial_function (option) max_loop :: "('k, 'v) rb_tree \<Rightarrow> addr \<Rightarrow> addr option" where
  "max_loop t node = do {
     n \<leftarrow> deref t node;
     if right n \<noteq> nil t then max_loop t (right n) else Some node
   }"

definition rbtree_maximum :: "('k, 'v) rb_tree \<Rightarrow> addr \<Rightarrow> addr option" where
  "rbtree_maximum t node = (if node = nil t then Some (nil t) else max_loop t node)"

section \<open>Removal\<close>

text \<open>A child counts as black when it is the sentinel or coloured black.\<close>

definition black_child :: "('k, 'v) rb_tree \<Rightarrow> addr \<Rightarrow> bool option" where
  "black_child t p =
     (if p = nil t then Some True else do { n \<leftarrow> deref t p; Some (colour n = BLACK) })"

text \<open>
  One round of the removal loop, by the side the deficient node hangs on. A red sibling is rotated
  away first; then the sibling is recoloured and the deficit moves up, or the nephews decide which
  rotations end the loop. Each step returns the node the code continues with and the tree.
\<close>

definition red_sibling_left ::
  "('k, 'v) rb_tree \<Rightarrow> addr \<Rightarrow> (addr \<times> ('k, 'v) rb_tree) option" where
  "red_sibling_left t node = do {
     n \<leftarrow> deref t node;
     p \<leftarrow> deref t (parent n);
     let sibling = right p;
     s \<leftarrow> deref t sibling;
     if colour s = RED then do {
       ta \<leftarrow> set_colour t (parent n) RED;
       tb \<leftarrow> set_colour ta sibling BLACK;
       tc \<leftarrow> left_rot tb (parent n);
       nc \<leftarrow> deref tc node;
       pc \<leftarrow> deref tc (parent nc);
       Some (right pc, tc)
     } else Some (sibling, t)
   }"

definition inner_nephew_left ::
  "('k, 'v) rb_tree \<Rightarrow> addr \<Rightarrow> addr \<Rightarrow> (addr \<times> ('k, 'v) rb_tree) option" where
  "inner_nephew_left t node sibling = do {
     ta \<leftarrow> set_colour t sibling RED;
     s \<leftarrow> deref ta sibling;
     tb \<leftarrow> set_colour ta (left s) BLACK;
     tc \<leftarrow> right_rot tb sibling;
     n \<leftarrow> deref tc node;
     p \<leftarrow> deref tc (parent n);
     Some (right p, tc)
   }"

definition outer_nephew_left ::
  "('k, 'v) rb_tree \<Rightarrow> addr \<Rightarrow> addr \<Rightarrow> (addr \<times> ('k, 'v) rb_tree) option" where
  "outer_nephew_left t node sibling = do {
     n \<leftarrow> deref t node;
     p \<leftarrow> deref t (parent n);
     t1 \<leftarrow> set_colour t sibling (colour p);
     t2 \<leftarrow> set_colour t1 (parent n) BLACK;
     s \<leftarrow> deref t2 sibling;
     t3 \<leftarrow> set_colour t2 (right s) BLACK;
     t4 \<leftarrow> left_rot t3 (parent n);
     Some (root t4, t4)
   }"

definition black_sibling_left ::
  "('k, 'v) rb_tree \<Rightarrow> addr \<Rightarrow> addr \<Rightarrow> (addr \<times> ('k, 'v) rb_tree) option" where
  "black_sibling_left t node sibling = do {
     s \<leftarrow> deref t sibling;
     bl \<leftarrow> black_child t (left s);
     br \<leftarrow> black_child t (right s);
     if bl \<and> br then do {
       t1 \<leftarrow> set_colour t sibling RED;
       n \<leftarrow> deref t1 node;
       Some (parent n, t1)
     } else if br then do {
       q \<leftarrow> inner_nephew_left t node sibling;
       outer_nephew_left (snd q) node (fst q)
     } else outer_nephew_left t node sibling
   }"

definition do_with_left_node_not_null ::
  "('k, 'v) rb_tree \<Rightarrow> addr \<Rightarrow> (addr \<times> ('k, 'v) rb_tree) option" where
  "do_with_left_node_not_null t node = do {
     q \<leftarrow> red_sibling_left t node;
     black_sibling_left (snd q) node (fst q)
   }"

definition red_sibling_right ::
  "('k, 'v) rb_tree \<Rightarrow> addr \<Rightarrow> (addr \<times> ('k, 'v) rb_tree) option" where
  "red_sibling_right t node = do {
     n \<leftarrow> deref t node;
     p \<leftarrow> deref t (parent n);
     let sibling = left p;
     s \<leftarrow> deref t sibling;
     if colour s = RED then do {
       ta \<leftarrow> set_colour t sibling BLACK;
       tb \<leftarrow> set_colour ta (parent n) RED;
       tc \<leftarrow> right_rot tb (parent n);
       nc \<leftarrow> deref tc node;
       pc \<leftarrow> deref tc (parent nc);
       Some (left pc, tc)
     } else Some (sibling, t)
   }"

definition inner_nephew_right ::
  "('k, 'v) rb_tree \<Rightarrow> addr \<Rightarrow> addr \<Rightarrow> (addr \<times> ('k, 'v) rb_tree) option" where
  "inner_nephew_right t node sibling = do {
     ta \<leftarrow> set_colour t sibling RED;
     s \<leftarrow> deref ta sibling;
     tb \<leftarrow> set_colour ta (right s) BLACK;
     tc \<leftarrow> left_rot tb sibling;
     n \<leftarrow> deref tc node;
     p \<leftarrow> deref tc (parent n);
     Some (left p, tc)
   }"

definition outer_nephew_right ::
  "('k, 'v) rb_tree \<Rightarrow> addr \<Rightarrow> addr \<Rightarrow> (addr \<times> ('k, 'v) rb_tree) option" where
  "outer_nephew_right t node sibling = do {
     n \<leftarrow> deref t node;
     p \<leftarrow> deref t (parent n);
     t1 \<leftarrow> set_colour t sibling (colour p);
     t2 \<leftarrow> set_colour t1 (parent n) BLACK;
     s \<leftarrow> deref t2 sibling;
     t3 \<leftarrow> set_colour t2 (left s) BLACK;
     t4 \<leftarrow> right_rot t3 (parent n);
     Some (root t4, t4)
   }"

definition black_sibling_right ::
  "('k, 'v) rb_tree \<Rightarrow> addr \<Rightarrow> addr \<Rightarrow> (addr \<times> ('k, 'v) rb_tree) option" where
  "black_sibling_right t node sibling = do {
     s \<leftarrow> deref t sibling;
     br \<leftarrow> black_child t (right s);
     bl \<leftarrow> black_child t (left s);
     if br \<and> bl then do {
       t1 \<leftarrow> set_colour t sibling RED;
       n \<leftarrow> deref t1 node;
       Some (parent n, t1)
     } else if bl then do {
       q \<leftarrow> inner_nephew_right t node sibling;
       outer_nephew_right (snd q) node (fst q)
     } else outer_nephew_right t node sibling
   }"

definition do_with_left_node_null ::
  "('k, 'v) rb_tree \<Rightarrow> addr \<Rightarrow> (addr \<times> ('k, 'v) rb_tree) option" where
  "do_with_left_node_null t node = do {
     q \<leftarrow> red_sibling_right t node;
     black_sibling_right (snd q) node (fst q)
   }"

partial_function (option) rbtree_erase_fixup ::
  "('k, 'v) rb_tree \<Rightarrow> addr \<Rightarrow> ('k, 'v) rb_tree option" where
  "rbtree_erase_fixup t node = do {
     b \<leftarrow> black_child t node;
     if b \<and> node \<noteq> root t then do {
       n \<leftarrow> deref t node;
       p \<leftarrow> deref t (parent n);
       if node = left p then do {
         r \<leftarrow> do_with_left_node_not_null t node;
         rbtree_erase_fixup (snd r) (fst r)
       } else do {
         r \<leftarrow> do_with_left_node_null t node;
         rbtree_erase_fixup (snd r) (fst r)
       }
     } else if node \<noteq> 0 then set_colour t node BLACK
     else Some t
   }"

definition rbtree_transplant ::
  "('k, 'v) rb_tree \<Rightarrow> addr \<Rightarrow> addr \<Rightarrow> ('k, 'v) rb_tree option" where
  "rbtree_transplant t u v = do {
     un \<leftarrow> deref t u;
     t1 \<leftarrow> (if parent un = nil t then Some (t\<lparr>root := v\<rparr>)
            else do {
              p \<leftarrow> deref t (parent un);
              if u = left p then set_left t (parent un) v
              else set_right t (parent un) v
            });
     un1 \<leftarrow> deref t1 u;
     set_parent t1 v (parent un1)
   }"

text \<open>The last four assignments of the two-child case: the successor takes the removed node's place.\<close>

definition adopt :: "('k, 'v) rb_tree \<Rightarrow> addr \<Rightarrow> addr \<Rightarrow> ('k, 'v) rb_tree option" where
  "adopt t node y = do {
     t2 \<leftarrow> rbtree_transplant t node y;
     n2 \<leftarrow> deref t2 node;
     t3 \<leftarrow> set_left t2 y (left n2);
     y3 \<leftarrow> deref t3 y;
     t4 \<leftarrow> set_parent t3 (left y3) y;
     n4 \<leftarrow> deref t4 node;
     set_colour t4 y (colour n4)
   }"

text \<open>
  The three ways \<^verbatim>\<open>rbtree_erase\<close> takes the node out of the tree; each returns \<^verbatim>\<open>x\<close>, the node that
  moved into the hole, the colour that was lost, and the tree.
\<close>

definition erase_unlink ::
  "('k, 'v) rb_tree \<Rightarrow> addr \<Rightarrow> (addr \<times> rbtree_colour \<times> ('k, 'v) rb_tree) option" where
  "erase_unlink t node = do {
     n \<leftarrow> deref t node;
     if left n = nil t then do {
       t1 \<leftarrow> rbtree_transplant t node (right n);
       Some (right n, colour n, t1)
     } else if right n = nil t then do {
       t1 \<leftarrow> rbtree_transplant t node (left n);
       Some (left n, colour n, t1)
     } else do {
       y \<leftarrow> rbtree_minimum t (right n);
       yn \<leftarrow> deref t y;
       let x = right yn;
       t1 \<leftarrow> (if parent yn = node then set_parent t x y
              else do {
                ta \<leftarrow> rbtree_transplant t y x;
                na \<leftarrow> deref ta node;
                tb \<leftarrow> set_right ta y (right na);
                yb \<leftarrow> deref tb y;
                set_parent tb (right yb) y
              });
       t2 \<leftarrow> adopt t1 node y;
       Some (x, colour yn, t2)
     }
   }"

definition rbtree_erase :: "('k, 'v) rb_tree \<Rightarrow> addr \<Rightarrow> ('k, 'v) rb_tree option" where
  "rbtree_erase t node = do {
     (x, y_original_colour, t1) \<leftarrow> erase_unlink t node;
     t2 \<leftarrow> (if y_original_colour = BLACK then rbtree_erase_fixup t1 x else Some t1);
     n \<leftarrow> deref t2 node;
     free_node (call_kvfreer t2 (nkey n) (nvalue n)) node
   }"

definition rbtree_remove ::
  "('k, 'v) rb_tree option \<Rightarrow> 'k option \<Rightarrow> (bool \<times> ('k, 'v) rb_tree option) option" where
  "rbtree_remove tp kp =
     (case (tp, kp) of
        (Some t, Some key) \<Rightarrow> do {
          node \<leftarrow> rbtree_find tp kp;
          if node = nil t then Some (False, Some t)
          else do { t1 \<leftarrow> rbtree_erase t node; Some (True, Some t1) }
        }
      | _ \<Rightarrow> Some (False, tp))"

section \<open>Size\<close>

partial_function (option) number_of_nodes :: "('k, 'v) rb_tree \<Rightarrow> addr \<Rightarrow> nat option" where
  "number_of_nodes t node =
     (if node = nil t then Some 0
      else do {
        n \<leftarrow> deref t node;
        a \<leftarrow> number_of_nodes t (left n);
        b \<leftarrow> number_of_nodes t (right n);
        Some (1 + a + b)
      })"

definition rbtree_size :: "('k, 'v) rb_tree option \<Rightarrow> nat option" where
  "rbtree_size tp = (case tp of None \<Rightarrow> Some 0 | Some t \<Rightarrow> number_of_nodes t (root t))"

section \<open>Iteration\<close>

text \<open>
  An iterator pointer: \<open>None\<close> is NULL, \<open>Some node\<close> an iterator whose current node is \<open>node\<close>. The tree
  it refers to is the first argument of each operation.
\<close>

type_synonym rb_iterator = "addr option"

definition rbtree_iterator_first ::
  "('k, 'v) rb_tree \<Rightarrow> rb_iterator \<Rightarrow> (bool \<times> rb_iterator) option" where
  "rbtree_iterator_first t itor =
     (case itor of
        None \<Rightarrow> Some (False, None)
      | Some _ \<Rightarrow> do { m \<leftarrow> rbtree_minimum t (root t); Some (m \<noteq> nil t, Some m) })"

definition rbtree_iterator_last ::
  "('k, 'v) rb_tree \<Rightarrow> rb_iterator \<Rightarrow> (bool \<times> rb_iterator) option" where
  "rbtree_iterator_last t itor =
     (case itor of
        None \<Rightarrow> Some (False, None)
      | Some _ \<Rightarrow> do { m \<leftarrow> rbtree_maximum t (root t); Some (m \<noteq> nil t, Some m) })"

definition rbtree_iterator_new ::
  "bool \<Rightarrow> ('k, 'v) rb_tree option \<Rightarrow> rb_iterator option" where
  "rbtree_iterator_new alloc tp =
     (case tp of
        None \<Rightarrow> Some None
      | Some t \<Rightarrow> if \<not> alloc then Some None
                  else do { r \<leftarrow> rbtree_iterator_first t (Some 0); Some (snd r) })"

definition rbtree_iterator_valid :: "('k, 'v) rb_tree \<Rightarrow> rb_iterator \<Rightarrow> bool" where
  "rbtree_iterator_valid t itor = (case itor of None \<Rightarrow> False | Some node \<Rightarrow> node \<noteq> nil t)"

partial_function (option) successor_loop ::
  "('k, 'v) rb_tree \<Rightarrow> addr \<Rightarrow> addr \<Rightarrow> addr option" where
  "successor_loop t node successor =
     (if successor \<noteq> nil t then do {
        s \<leftarrow> deref t successor;
        if node = right s then successor_loop t successor (parent s) else Some successor
      } else Some successor)"

definition rbtree_successor :: "('k, 'v) rb_tree \<Rightarrow> addr \<Rightarrow> addr option" where
  "rbtree_successor t node =
     (if node = 0 then Some 0
      else do {
        n \<leftarrow> deref t node;
        if right n \<noteq> nil t then rbtree_minimum t (right n)
        else successor_loop t node (parent n)
      })"

definition rbtree_iterator_next ::
  "('k, 'v) rb_tree \<Rightarrow> rb_iterator \<Rightarrow> (bool \<times> rb_iterator) option" where
  "rbtree_iterator_next t itor =
     (case itor of
        None \<Rightarrow> Some (False, None)
      | Some node \<Rightarrow>
          if node = nil t then Some (False, itor)
          else do { s \<leftarrow> rbtree_successor t node; Some (s \<noteq> nil t, Some s) })"

partial_function (option) predecessor_loop ::
  "('k, 'v) rb_tree \<Rightarrow> addr \<Rightarrow> addr \<Rightarrow> addr option" where
  "predecessor_loop t node predecessor =
     (if predecessor \<noteq> nil t then do {
        s \<leftarrow> deref t predecessor;
        if node = left s then predecessor_loop t predecessor (parent s) else Some predecessor
      } else Some predecessor)"

definition rbtree_predecessor :: "('k, 'v) rb_tree \<Rightarrow> addr \<Rightarrow> addr option" where
  "rbtree_predecessor t node = do {
     n \<leftarrow> deref t node;
     if left n \<noteq> nil t then rbtree_maximum t (left n)
     else predecessor_loop t node (parent n)
   }"

definition rbtree_iterator_prev ::
  "('k, 'v) rb_tree \<Rightarrow> rb_iterator \<Rightarrow> (bool \<times> rb_iterator) option" where
  "rbtree_iterator_prev t itor =
     (case itor of
        None \<Rightarrow> Some (False, None)
      | Some node \<Rightarrow>
          if node = nil t then Some (False, itor)
          else do { s \<leftarrow> rbtree_predecessor t node; Some (s \<noteq> nil t, Some s) })"

definition rbtree_iterator_key :: "('k, 'v) rb_tree \<Rightarrow> rb_iterator \<Rightarrow> 'k option option" where
  "rbtree_iterator_key t itor =
     (case itor of
        None \<Rightarrow> Some None
      | Some node \<Rightarrow> if node \<noteq> 0 then do { n \<leftarrow> deref t node; Some (nkey n) } else Some None)"

definition rbtree_iterator_value :: "('k, 'v) rb_tree \<Rightarrow> rb_iterator \<Rightarrow> 'v option option" where
  "rbtree_iterator_value t itor =
     (case itor of
        None \<Rightarrow> Some None
      | Some node \<Rightarrow> if node \<noteq> 0 then do { n \<leftarrow> deref t node; Some (nvalue n) } else Some None)"

text \<open>
  The loop every client writes: \<^verbatim>\<open>for (; map_itor_valid(itor); map_itor_next(itor))\<close>, collecting the
  key and value at each step.
\<close>

partial_function (option) iterate_from ::
  "('k, 'v) rb_tree \<Rightarrow> rb_iterator \<Rightarrow> ('k option \<times> 'v option) list option" where
  "iterate_from t itor =
     (if \<not> rbtree_iterator_valid t itor then Some []
      else do {
        k \<leftarrow> rbtree_iterator_key t itor;
        v \<leftarrow> rbtree_iterator_value t itor;
        s \<leftarrow> rbtree_iterator_next t itor;
        rest \<leftarrow> iterate_from t (snd s);
        Some ((k, v) # rest)
      })"

end
