(* ===== verification/Rb_Shape.thy ===== *)
theory Rb_Shape
  imports Rb_Tree
begin

text \<open>
  The abstraction between the linked nodes of \<open>Rb_Tree\<close> and trees. A heap represents a binary tree
  whose labels are node addresses (\<open>rept\<close>); a zipper (a list of frames, innermost first) stands for
  the path from the root to the node an operation works at (\<open>repc\<close>), so that an update at a node is a
  local change of the focused subtree. The rotations, recolourings and the search are proved here
  against this abstraction.
\<close>

section \<open>Trees and contexts of addresses\<close>

datatype atree = Leaf | Node atree addr atree

primrec set_tree :: "atree \<Rightarrow> addr set" where
  "set_tree Leaf = {}"
| "set_tree (Node l a r) = insert a (set_tree l \<union> set_tree r)"

primrec inorder :: "atree \<Rightarrow> addr list" where
  "inorder Leaf = []"
| "inorder (Node l a r) = inorder l @ a # inorder r"

datatype frame = LF addr atree | RF atree addr

type_synonym ctxt = "frame list"

fun plug :: "ctxt \<Rightarrow> atree \<Rightarrow> atree" where
  "plug [] t = t"
| "plug (LF a r # C) t = plug C (Node t a r)"
| "plug (RF l a # C) t = plug C (Node l a t)"

fun set_ctx :: "ctxt \<Rightarrow> addr set" where
  "set_ctx [] = {}"
| "set_ctx (LF a r # C) = insert a (set_tree r \<union> set_ctx C)"
| "set_ctx (RF l a # C) = insert a (set_tree l \<union> set_ctx C)"

fun dist_ctx :: "ctxt \<Rightarrow> bool" where
  "dist_ctx [] = True"
| "dist_ctx (LF a r # C) =
     (distinct (inorder r) \<and> a \<notin> set_tree r \<and> a \<notin> set_ctx C \<and> set_tree r \<inter> set_ctx C = {} \<and> dist_ctx C)"
| "dist_ctx (RF l a # C) =
     (distinct (inorder l) \<and> a \<notin> set_tree l \<and> a \<notin> set_ctx C \<and> set_tree l \<inter> set_ctx C = {} \<and> dist_ctx C)"

fun ctx_before :: "ctxt \<Rightarrow> addr list" where
  "ctx_before [] = []"
| "ctx_before (LF a r # C) = ctx_before C"
| "ctx_before (RF l a # C) = ctx_before C @ inorder l @ [a]"

fun ctx_after :: "ctxt \<Rightarrow> addr list" where
  "ctx_after [] = []"
| "ctx_after (LF a r # C) = a # inorder r @ ctx_after C"
| "ctx_after (RF l a # C) = ctx_after C"

text \<open>The address of a tree's root node, and of the node above a focus.\<close>

fun ra :: "addr \<Rightarrow> atree \<Rightarrow> addr" where
  "ra nl Leaf = nl"
| "ra nl (Node l a r) = a"

fun pa :: "addr \<Rightarrow> ctxt \<Rightarrow> addr" where
  "pa nl [] = nl"
| "pa nl (LF a r # C) = a"
| "pa nl (RF l a # C) = a"

section \<open>Representation\<close>

definition nd ::
  "'k option \<times> 'v option \<Rightarrow> rbtree_colour \<Rightarrow> addr \<Rightarrow> addr \<Rightarrow> addr \<Rightarrow> ('k, 'v) rb_node" where
  "nd kv c l r p = \<lparr>nkey = fst kv, nvalue = snd kv, colour = c, left = l, right = r, parent = p\<rparr>"

type_synonym ('k, 'v) kvmap = "addr \<Rightarrow> 'k option \<times> 'v option"
type_synonym colmap = "addr \<Rightarrow> rbtree_colour"

fun rept :: "('k, 'v) kvmap \<Rightarrow> colmap \<Rightarrow> (addr \<rightharpoonup> ('k, 'v) rb_node) \<Rightarrow> addr \<Rightarrow> addr \<Rightarrow> atree \<Rightarrow> bool"
  where
  "rept kv c h nl p Leaf = True"
| "rept kv c h nl p (Node l a r) =
     (h a = Some (nd (kv a) (c a) (ra nl l) (ra nl r) p) \<and> rept kv c h nl a l \<and> rept kv c h nl a r)"

fun repc :: "('k, 'v) kvmap \<Rightarrow> colmap \<Rightarrow> (addr \<rightharpoonup> ('k, 'v) rb_node) \<Rightarrow> addr \<Rightarrow> addr \<Rightarrow> ctxt \<Rightarrow> bool"
  where
  "repc kv c h nl q [] = True"
| "repc kv c h nl q (LF a r # C) =
     (h a = Some (nd (kv a) (c a) q (ra nl r) (pa nl C)) \<and> rept kv c h nl a r \<and> repc kv c h nl a C)"
| "repc kv c h nl q (RF l a # C) =
     (h a = Some (nd (kv a) (c a) (ra nl l) q (pa nl C)) \<and> rept kv c h nl a l \<and> repc kv c h nl a C)"

text \<open>
  \<open>shape kv c t T\<close>: the tree object \<open>t\<close> holds the address tree \<open>T\<close>, whose node at address \<open>a\<close> has key
  and value \<open>kv a\<close> and colour \<open>c a\<close>; the sentinel is a black node of its own.
\<close>

definition shape :: "('k, 'v) kvmap \<Rightarrow> colmap \<Rightarrow> ('k, 'v) rb_tree \<Rightarrow> atree \<Rightarrow> bool" where
  "shape kv c t T \<longleftrightarrow>
     root t = ra (nil t) T \<and> rept kv c (heap t) (nil t) (nil t) T \<and> distinct (inorder T) \<and>
     nil t \<notin> set_tree T \<and> 0 \<notin> set_tree T \<and> nil t \<noteq> 0 \<and>
     (\<exists>np. heap t (nil t) = Some (nd (None, None) BLACK 0 0 np))"

text \<open>
  What an operation on the nodes \<open>A\<close> leaves alone: the object's other fields, every other node, and
  the set of allocated addresses.
\<close>

definition same_but :: "addr set \<Rightarrow> ('k, 'v) rb_tree \<Rightarrow> ('k, 'v) rb_tree \<Rightarrow> bool" where
  "same_but A t t' \<longleftrightarrow>
     comparator t' = comparator t \<and> kvfreer t' = kvfreer t \<and> nil t' = nil t \<and> freed t' = freed t \<and>
     dom (heap t') = dom (heap t) \<and> (\<forall>a. a \<notin> A \<longrightarrow> heap t' a = heap t a)"

section \<open>Lemmas on contexts\<close>

lemma set_inorder [simp]: "set (inorder t) = set_tree t"
  by (induction t) auto

lemma plug_append: "plug (C @ D) t = plug D (plug C t)"
  by (induction C t rule: plug.induct) auto

lemma set_plug [simp]: "set_tree (plug C t) = set_tree t \<union> set_ctx C"
  by (induction C t rule: plug.induct) auto

lemma inorder_plug: "inorder (plug C t) = ctx_before C @ inorder t @ ctx_after C"
  by (induction C t rule: plug.induct) auto

lemma set_ctx_lists: "set_ctx C = set (ctx_before C) \<union> set (ctx_after C)"
  by (induction C rule: set_ctx.induct) auto

lemma distinct_plug [simp]:
  "distinct (inorder (plug C t)) \<longleftrightarrow>
     distinct (inorder t) \<and> dist_ctx C \<and> set_tree t \<inter> set_ctx C = {}"
  by (induction C t rule: plug.induct) auto

lemma set_ctx_append [simp]: "set_ctx (C @ D) = set_ctx C \<union> set_ctx D"
  by (induction C rule: set_ctx.induct) auto

lemma pa_append: "pa nl (C @ D) = (if C = [] then pa nl D else pa nl C)"
  by (cases C rule: set_ctx.cases) auto

lemma ra_plug: "ra nl (plug C t) = (if C = [] then ra nl t else ra nl (plug C t'))"
proof (induction C arbitrary: t t')
  case (Cons f C)
  then show ?case by (cases f; cases C) (auto; metis ra.simps(2))+
qed simp

lemma ra_plug_cong: "C \<noteq> [] \<or> ra nl s = ra nl t \<Longrightarrow> ra nl (plug C s) = ra nl (plug C t)"
  by (metis ra_plug)

lemma rept_plug [simp]:
  "rept kv c h nl nl (plug C t) \<longleftrightarrow> rept kv c h nl (pa nl C) t \<and> repc kv c h nl (ra nl t) C"
  by (induction C t rule: plug.induct) auto

lemma nd_simps [simp]:
  "nkey (nd kv c l r p) = fst kv" "nvalue (nd kv c l r p) = snd kv" "colour (nd kv c l r p) = c"
  "left (nd kv c l r p) = l" "right (nd kv c l r p) = r" "parent (nd kv c l r p) = p"
  "(nd kv c l r p)\<lparr>left := q\<rparr> = nd kv c q r p" "(nd kv c l r p)\<lparr>right := q\<rparr> = nd kv c l q p"
  "(nd kv c l r p)\<lparr>parent := q\<rparr> = nd kv c l r q" "(nd kv c l r p)\<lparr>colour := k\<rparr> = nd kv k l r p"
  "(nd kv c l r p)\<lparr>nvalue := v\<rparr> = nd (fst kv, v) c l r p"
  by (simp_all add: nd_def)

lemma rept_upd [simp]:
  "a \<notin> set_tree t \<Longrightarrow> rept kv c (h(a := n)) nl p t = rept kv c h nl p t"
  "a \<notin> set_tree t \<Longrightarrow> rept kv (c(a := k)) h nl p t = rept kv c h nl p t"
  "a \<notin> set_tree t \<Longrightarrow> rept (kv(a := e)) c h nl p t = rept kv c h nl p t"
  by (induction t arbitrary: p) auto

lemma repc_upd [simp]:
  "a \<notin> set_ctx C \<Longrightarrow> repc kv c (h(a := n)) nl q C = repc kv c h nl q C"
  "a \<notin> set_ctx C \<Longrightarrow> repc kv (c(a := k)) h nl q C = repc kv c h nl q C"
  "a \<notin> set_ctx C \<Longrightarrow> repc (kv(a := e)) c h nl q C = repc kv c h nl q C"
  by (induction C arbitrary: q rule: set_ctx.induct) auto

lemma rept_cong:
  "(\<And>a. a \<in> set_tree t \<Longrightarrow> h' a = h a) \<Longrightarrow> rept kv c h nl p t \<Longrightarrow> rept kv c h' nl p t"
  by (induction t arbitrary: p) auto

lemma same_but_refl [simp]: "same_but A t t"
  by (simp add: same_but_def)

lemma same_but_trans: "same_but A t u \<Longrightarrow> same_but A u v \<Longrightarrow> same_but A t v"
  by (simp add: same_but_def)

lemma same_but_nil: "same_but A t u \<Longrightarrow> nil u = nil t"
  by (simp add: same_but_def)

section \<open>Reading through a pointer\<close>

lemmas field_defs = deref_def set_left_def set_right_def set_parent_def set_colour_def set_value_def

lemma shape_deref:
  "shape kv c t (plug C (Node l x r)) \<Longrightarrow>
     deref t x = Some (nd (kv x) (c x) (ra (nil t) l) (ra (nil t) r) (pa (nil t) C))"
  by (simp add: shape_def deref_def)

lemma shape_nil:
  "shape kv c t T \<Longrightarrow> \<exists>np. deref t (nil t) = Some (nd (None, None) BLACK 0 0 np)"
  by (simp add: shape_def deref_def)

lemma shape_ne:
  "shape kv c t T \<Longrightarrow> a \<in> set_tree T \<Longrightarrow> a \<noteq> nil t \<and> a \<noteq> 0"
  unfolding shape_def by metis

lemma shape_root: "shape kv c t T \<Longrightarrow> root t = ra (nil t) T"
  by (simp add: shape_def)

lemma shape_distinct: "shape kv c t T \<Longrightarrow> distinct (inorder T)"
  by (simp add: shape_def)

section \<open>Rotations and recolourings\<close>

lemma left_rot_eq:
  assumes "heap t x = Some (nd kx cx l y p)" "heap t y = Some (nd ky cy m r x)"
    and xy: "x \<noteq> y" "y \<noteq> x"
    and m: "m \<noteq> nil t \<Longrightarrow> heap t m = Some nm \<and> m \<noteq> x \<and> m \<noteq> y"
    and p: "p \<noteq> nil t \<Longrightarrow> heap t p = Some np \<and> p \<noteq> x \<and> p \<noteq> y \<and> p \<noteq> m"
  shows "\<exists>t'. left_rot t x = Some t' \<and> root t' = (if p = nil t then y else root t) \<and>
     comparator t' = comparator t \<and> kvfreer t' = kvfreer t \<and> nil t' = nil t \<and> freed t' = freed t \<and>
     heap t' x = Some (nd kx cx l m y) \<and> heap t' y = Some (nd ky cy x r p) \<and>
     (m \<noteq> nil t \<longrightarrow> heap t' m = Some (nm\<lparr>parent := x\<rparr>)) \<and>
     (p \<noteq> nil t \<longrightarrow> heap t' p = Some (if x = left np then np\<lparr>left := y\<rparr> else np\<lparr>right := y\<rparr>)) \<and>
     (\<forall>a. a \<noteq> x \<and> a \<noteq> y \<and> (a = m \<longrightarrow> m = nil t) \<and> (a = p \<longrightarrow> p = nil t) \<longrightarrow> heap t' a = heap t a)"
proof -
  note base = assms(1,2) xy left_rot_def field_defs Let_def
  show ?thesis
  proof (cases "m = nil t"; cases "p = nil t")
    assume "m = nil t" "p = nil t"
    then show ?thesis by (simp add: base)
  next
    assume a: "m = nil t" "p \<noteq> nil t"
    then have "heap t p = Some np" "p \<noteq> x" "x \<noteq> p" "p \<noteq> y" "y \<noteq> p" using p by auto
    with a show ?thesis by (cases "left np = x") (simp_all add: base)
  next
    assume a: "m \<noteq> nil t" "p = nil t"
    then have "heap t m = Some nm" "m \<noteq> x" "x \<noteq> m" "m \<noteq> y" "y \<noteq> m" using m by auto
    with a show ?thesis by (simp add: base)
  next
    assume a: "m \<noteq> nil t" "p \<noteq> nil t"
    have "heap t m = Some nm" "m \<noteq> x" "x \<noteq> m" "m \<noteq> y" "y \<noteq> m" using a m by auto
    moreover have "heap t p = Some np" "p \<noteq> x" "x \<noteq> p" "p \<noteq> y" "y \<noteq> p" "p \<noteq> m" "m \<noteq> p"
      using a p by auto
    ultimately show ?thesis using a by (cases "left np = x") (simp_all add: base)
  qed
qed

lemma right_rot_eq:
  assumes "heap t y = Some (nd ky cy x r p)" "heap t x = Some (nd kx cx l m y)"
    and xy: "y \<noteq> x" "x \<noteq> y"
    and m: "m \<noteq> nil t \<Longrightarrow> heap t m = Some nm \<and> m \<noteq> y \<and> m \<noteq> x"
    and p: "p \<noteq> nil t \<Longrightarrow> heap t p = Some np \<and> p \<noteq> y \<and> p \<noteq> x \<and> p \<noteq> m"
  shows "\<exists>t'. right_rot t y = Some t' \<and> root t' = (if p = nil t then x else root t) \<and>
     comparator t' = comparator t \<and> kvfreer t' = kvfreer t \<and> nil t' = nil t \<and> freed t' = freed t \<and>
     heap t' y = Some (nd ky cy m r x) \<and> heap t' x = Some (nd kx cx l y p) \<and>
     (m \<noteq> nil t \<longrightarrow> heap t' m = Some (nm\<lparr>parent := y\<rparr>)) \<and>
     (p \<noteq> nil t \<longrightarrow> heap t' p = Some (if y = right np then np\<lparr>right := x\<rparr> else np\<lparr>left := x\<rparr>)) \<and>
     (\<forall>a. a \<noteq> x \<and> a \<noteq> y \<and> (a = m \<longrightarrow> m = nil t) \<and> (a = p \<longrightarrow> p = nil t) \<longrightarrow> heap t' a = heap t a)"
proof -
  note base = assms(1,2) xy right_rot_def field_defs Let_def
  show ?thesis
  proof (cases "m = nil t"; cases "p = nil t")
    assume "m = nil t" "p = nil t"
    then show ?thesis by (simp add: base)
  next
    assume a: "m = nil t" "p \<noteq> nil t"
    then have "heap t p = Some np" "p \<noteq> x" "x \<noteq> p" "p \<noteq> y" "y \<noteq> p" using p by auto
    with a show ?thesis by (cases "right np = y") (simp_all add: base)
  next
    assume a: "m \<noteq> nil t" "p = nil t"
    then have "heap t m = Some nm" "m \<noteq> x" "x \<noteq> m" "m \<noteq> y" "y \<noteq> m" using m by auto
    with a show ?thesis by (simp add: base)
  next
    assume a: "m \<noteq> nil t" "p \<noteq> nil t"
    have "heap t m = Some nm" "m \<noteq> x" "x \<noteq> m" "m \<noteq> y" "y \<noteq> m" using a m by auto
    moreover have "heap t p = Some np" "p \<noteq> x" "x \<noteq> p" "p \<noteq> y" "y \<noteq> p" "p \<noteq> m" "m \<noteq> p"
      using a p by auto
    ultimately show ?thesis using a by (cases "right np = y") (simp_all add: base)
  qed
qed

lemma ra_in [simp]: "m \<noteq> Leaf \<Longrightarrow> ra nl m \<in> set_tree m"
  by (cases m) auto

lemma ra_eq_nil [simp]: "nl \<notin> set_tree m \<Longrightarrow> ra nl m = nl \<longleftrightarrow> m = Leaf"
  by (cases m) auto

lemma pa_in [simp]: "C \<noteq> [] \<Longrightarrow> pa nl C \<in> set_ctx C"
  by (cases C rule: set_ctx.cases) auto

lemma pa_eq_nil [simp]: "nl \<notin> set_ctx C \<Longrightarrow> pa nl C = nl \<longleftrightarrow> C = []"
  by (cases C rule: set_ctx.cases) auto

text \<open>Moving a subtree under another parent, and hanging another subtree below a context.\<close>

lemma rept_move:
  assumes "rept kv c h nl p m" and "m \<noteq> Leaf \<Longrightarrow> h' (ra nl m) = map_option (\<lambda>n. n\<lparr>parent := q\<rparr>) (h (ra nl m))"
    and "\<And>a. a \<in> set_tree m \<Longrightarrow> a \<noteq> ra nl m \<Longrightarrow> h' a = h a" and "distinct (inorder m)"
  shows "rept kv c h' nl q m"
proof (cases m)
  case (Node l a r)
  have "rept kv c h' nl a l" "rept kv c h' nl a r"
    using assms Node by (auto intro!: rept_cong [where h' = h' and h = h])
  with assms Node show ?thesis by simp
qed simp

lemma repc_move:
  assumes "repc kv c h nl x C" and "x \<notin> set_ctx C" "dist_ctx C"
    and "C \<noteq> [] \<Longrightarrow> h' (pa nl C) =
      map_option (\<lambda>n. if x = left n then n\<lparr>left := y\<rparr> else n\<lparr>right := y\<rparr>) (h (pa nl C))"
    and "\<And>a. a \<in> set_ctx C \<Longrightarrow> a \<noteq> pa nl C \<Longrightarrow> h' a = h a" and "x \<noteq> nl"
  shows "repc kv c h' nl y C"
proof -
  have up: "repc kv c h nl a D \<Longrightarrow> (\<And>b. b \<in> set_ctx D \<Longrightarrow> h' b = h b) \<Longrightarrow> repc kv c h' nl a D" for a D
    by (induction D arbitrary: a rule: set_ctx.induct) (auto intro: rept_cong)
  show ?thesis
  proof (cases C rule: set_ctx.cases)
    case (2 a r D)
    have "rept kv c h' nl a r" "repc kv c h' nl a D"
      using assms 2 by (auto intro!: rept_cong [where h' = h' and h = h] up)
    with assms 2 show ?thesis by simp
  next
    case (3 l a D)
    have "rept kv c h' nl a l" "repc kv c h' nl a D"
      using assms 3 by (auto intro!: rept_cong [where h' = h' and h = h] up)
    moreover have "ra nl l \<noteq> x" using assms 3 ra_in [of l nl] by (cases l) auto
    ultimately show ?thesis using assms 3 by simp
  qed simp
qed

lemma repc_move_right:
  assumes "repc kv c h nl x C" and "x \<notin> set_ctx C" "dist_ctx C"
    and "C \<noteq> [] \<Longrightarrow> h' (pa nl C) =
      map_option (\<lambda>n. if x = right n then n\<lparr>right := y\<rparr> else n\<lparr>left := y\<rparr>) (h (pa nl C))"
    and "\<And>a. a \<in> set_ctx C \<Longrightarrow> a \<noteq> pa nl C \<Longrightarrow> h' a = h a" and "x \<noteq> nl"
  shows "repc kv c h' nl y C"
proof -
  have up: "repc kv c h nl a D \<Longrightarrow> (\<And>b. b \<in> set_ctx D \<Longrightarrow> h' b = h b) \<Longrightarrow> repc kv c h' nl a D" for a D
    by (induction D arbitrary: a rule: set_ctx.induct) (auto intro: rept_cong)
  show ?thesis
  proof (cases C rule: set_ctx.cases)
    case (2 a r D)
    have "rept kv c h' nl a r" "repc kv c h' nl a D"
      using assms 2 by (auto intro!: rept_cong [where h' = h' and h = h] up)
    moreover have "ra nl r \<noteq> x" using assms 2 ra_in [of r nl] by (cases r) auto
    ultimately show ?thesis using assms 2 by simp
  next
    case (3 l a D)
    have "rept kv c h' nl a l" "repc kv c h' nl a D"
      using assms 3 by (auto intro!: rept_cong [where h' = h' and h = h] up)
    with assms 3 show ?thesis by simp
  qed simp
qed

lemma rept_root: "rept kv c h nl p m \<Longrightarrow> m \<noteq> Leaf \<Longrightarrow> \<exists>n. h (ra nl m) = Some n"
  by (cases m) auto

lemma repc_top: "repc kv c h nl q C \<Longrightarrow> C \<noteq> [] \<Longrightarrow> \<exists>n. h (pa nl C) = Some n"
  by (cases C rule: set_ctx.cases) auto

lemma disj_neq: "a \<in> A \<Longrightarrow> b \<in> B \<Longrightarrow> A \<inter> B = {} \<Longrightarrow> a \<noteq> b"
  by auto

lemma shape_replace:
  assumes sh: "shape kv c t (plug C S)" and "nil t' = nil t"
    and "root t' = (if C = [] then ra (nil t) S' else root t)"
    and "rept kv c' (heap t') (nil t) (pa (nil t) C) S'" "repc kv c' (heap t') (nil t) (ra (nil t) S') C"
    and S': "set_tree S' = set_tree S" "distinct (inorder S')"
    and "heap t' (nil t) = heap t (nil t)"
  shows "shape kv c' t' (plug C S')"
proof -
  have "root t' = ra (nil t) (plug C S')"
    using assms(3) shape_root [OF sh] ra_plug_cong [of C "nil t" S' S] by auto
  moreover have "distinct (inorder (plug C S'))" "set_tree (plug C S') = set_tree (plug C S)"
    using shape_distinct [OF sh] S' by auto
  ultimately show ?thesis
    using assms unfolding shape_def by (simp del: set_plug distinct_plug)
qed

lemma dom_eqI: "(\<And>a. (f a = None) = (g a = None)) \<Longrightarrow> dom f = dom g"
  by (auto simp: dom_def)

text \<open>The addresses a rotation at \<open>x\<close> and \<open>y\<close> with middle subtree \<open>m\<close> below \<open>C\<close> writes to.\<close>

definition rot_set :: "addr \<Rightarrow> addr \<Rightarrow> addr \<Rightarrow> atree \<Rightarrow> ctxt \<Rightarrow> addr set" where
  "rot_set nl x y m C =
     {x, y} \<union> {a. a = ra nl m \<and> m \<noteq> Leaf} \<union> {a. a = pa nl C \<and> C \<noteq> []}"

lemma rot_set_frame:
  assumes "x \<noteq> nl" "y \<noteq> nl" "nl \<notin> set_tree m" "nl \<notin> set_ctx C"
    and "{x, y} \<inter> (set_tree l \<union> set_tree m \<union> set_tree r \<union> set_ctx C) = {}"
    and "set_tree m \<inter> set_ctx C = {}" "(set_tree l \<union> set_tree r) \<inter> set_ctx C = {}"
    and "(set_tree l \<union> set_tree r) \<inter> set_tree m = {}"
  shows "nl \<notin> rot_set nl x y m C"
    and "a \<in> set_tree l \<union> set_tree r \<Longrightarrow> a \<notin> rot_set nl x y m C"
    and "a \<in> set_tree m \<Longrightarrow> a \<noteq> ra nl m \<Longrightarrow> a \<notin> rot_set nl x y m C"
    and "a \<in> set_ctx C \<Longrightarrow> a \<noteq> pa nl C \<Longrightarrow> a \<notin> rot_set nl x y m C"
    and "rot_set nl x y m C \<subseteq> {x, y} \<union> set_tree m \<union> set_ctx C"
  using assms ra_in [of m nl] pa_in [of C nl] by (auto simp: rot_set_def simp del: ra_in pa_in)

lemma left_rot_shape:
  assumes sh: "shape kv c t (plug C (Node l x (Node m y r)))"
  shows "\<exists>t'. left_rot t x = Some t' \<and> shape kv c t' (plug C (Node (Node l x m) y r)) \<and>
           same_but (set_tree (plug C (Node l x (Node m y r)))) t t'"
proof -
  let ?nl = "nil t" and ?h = "heap t" and ?A = "rot_set (nil t) x y m C"
  have h: "?h x = Some (nd (kv x) (c x) (ra ?nl l) y (pa ?nl C))" "?h y = Some (nd (kv y) (c y) (ra ?nl m) (ra ?nl r) x)"
    "rept kv c ?h ?nl x l" "rept kv c ?h ?nl y m" "rept kv c ?h ?nl y r" "repc kv c ?h ?nl x C"
    and fr: "x \<noteq> y" "y \<noteq> x" "x \<noteq> ?nl" "y \<noteq> ?nl" "{x, y} \<inter> (set_tree l \<union> set_tree m \<union> set_tree r \<union> set_ctx C) = {}"
      "set_tree m \<inter> set_ctx C = {}" "(set_tree l \<union> set_tree r) \<inter> set_ctx C = {}"
      "(set_tree l \<union> set_tree r) \<inter> set_tree m = {}"
    and nl: "?nl \<notin> set_tree m" "?nl \<notin> set_ctx C" and ds: "distinct (inorder m)" "dist_ctx C"
    using sh by (auto simp: shape_def)
  note frame = rot_set_frame [OF fr(3,4) nl fr(5-8)]
  obtain nm where nm: "ra ?nl m \<noteq> ?nl \<Longrightarrow> ?h (ra ?nl m) = Some nm \<and> ra ?nl m \<noteq> x \<and> ra ?nl m \<noteq> y"
    using rept_root [OF h(4)] ra_in [of m ?nl] fr(5) nl by (metis Int_iff UnI1 UnI2 emptyE insertCI ra_eq_nil)
  obtain np where np: "pa ?nl C \<noteq> ?nl \<Longrightarrow> ?h (pa ?nl C) = Some np \<and> pa ?nl C \<noteq> x \<and> pa ?nl C \<noteq> y \<and>
      pa ?nl C \<noteq> ra ?nl m"
    using repc_top [OF h(6)] pa_in [of C ?nl] ra_in [of m ?nl] fr(5,6) nl
    by (metis Int_iff UnI2 disj_neq emptyE insertCI pa_eq_nil ra_eq_nil)
  from left_rot_eq [OF h(1,2) fr(1,2) nm np]
  obtain t' where t': "left_rot t x = Some t'" "root t' = (if C = [] then y else root t)"
    "comparator t' = comparator t" "kvfreer t' = kvfreer t" "nil t' = ?nl" "freed t' = freed t"
    "heap t' x = Some (nd (kv x) (c x) (ra ?nl l) (ra ?nl m) y)" "heap t' y = Some (nd (kv y) (c y) x (ra ?nl r) (pa ?nl C))"
    "m \<noteq> Leaf \<longrightarrow> heap t' (ra ?nl m) = Some (nm\<lparr>parent := x\<rparr>)"
    "C \<noteq> [] \<longrightarrow> heap t' (pa ?nl C) = Some (if x = left np then np\<lparr>left := y\<rparr> else np\<lparr>right := y\<rparr>)"
    and out: "\<And>a. a \<notin> ?A \<Longrightarrow> heap t' a = ?h a"
    using nl by (auto simp: rot_set_def)
  have lr: "rept kv c (heap t') ?nl x l" "rept kv c (heap t') ?nl y r"
    using h(3,5) frame(2) out by (auto intro: rept_cong)
  have m: "rept kv c (heap t') ?nl x m"
    by (rule rept_move [OF h(4) _ out ds(1)]) (use t'(9) nm nl frame(3) in auto)
  have C: "repc kv c (heap t') ?nl y C"
    by (rule repc_move [OF h(6) _ ds(2) _ out]) (use t'(10) np nl fr frame(4) in auto)
  have "shape kv c t' (plug C (Node (Node l x m) y r))"
    by (rule shape_replace [OF sh]) (use t' lr m C out frame(1) shape_distinct [OF sh] in auto)
  moreover have "(heap t' a = None) = (?h a = None)" for a
    using t'(7-10) h(1,2) nm np nl out [of a] by (cases "a \<in> ?A") (auto simp: rot_set_def split: if_splits)
  then have "same_but (set_tree (plug C (Node l x (Node m y r)))) t t'"
    using t'(3-6) out frame(5) by (auto simp: same_but_def intro!: dom_eqI)
  ultimately show ?thesis using t'(1) by blast
qed

lemma right_rot_shape:
  assumes sh: "shape kv c t (plug C (Node (Node l x m) y r))"
  shows "\<exists>t'. right_rot t y = Some t' \<and> shape kv c t' (plug C (Node l x (Node m y r))) \<and>
           same_but (set_tree (plug C (Node (Node l x m) y r))) t t'"
proof -
  let ?nl = "nil t" and ?h = "heap t" and ?A = "rot_set (nil t) x y m C"
  have h: "?h x = Some (nd (kv x) (c x) (ra ?nl l) (ra ?nl m) y)" "?h y = Some (nd (kv y) (c y) x (ra ?nl r) (pa ?nl C))"
    "rept kv c ?h ?nl x l" "rept kv c ?h ?nl x m" "rept kv c ?h ?nl y r" "repc kv c ?h ?nl y C"
    and fr: "x \<noteq> y" "y \<noteq> x" "x \<noteq> ?nl" "y \<noteq> ?nl" "{x, y} \<inter> (set_tree l \<union> set_tree m \<union> set_tree r \<union> set_ctx C) = {}"
      "set_tree m \<inter> set_ctx C = {}" "(set_tree l \<union> set_tree r) \<inter> set_ctx C = {}"
      "(set_tree l \<union> set_tree r) \<inter> set_tree m = {}"
    and nl: "?nl \<notin> set_tree m" "?nl \<notin> set_ctx C" and ds: "distinct (inorder m)" "dist_ctx C"
    using sh by (auto simp: shape_def)
  note frame = rot_set_frame [OF fr(3,4) nl fr(5-8)]
  obtain nm where nm: "ra ?nl m \<noteq> ?nl \<Longrightarrow> ?h (ra ?nl m) = Some nm \<and> ra ?nl m \<noteq> y \<and> ra ?nl m \<noteq> x"
    using rept_root [OF h(4)] ra_in [of m ?nl] fr(5) nl by (metis Int_iff UnI1 UnI2 emptyE insertCI ra_eq_nil)
  obtain np where np: "pa ?nl C \<noteq> ?nl \<Longrightarrow> ?h (pa ?nl C) = Some np \<and> pa ?nl C \<noteq> y \<and> pa ?nl C \<noteq> x \<and>
      pa ?nl C \<noteq> ra ?nl m"
    using repc_top [OF h(6)] pa_in [of C ?nl] ra_in [of m ?nl] fr(5,6) nl
    by (metis Int_iff UnI2 disj_neq emptyE insertCI pa_eq_nil ra_eq_nil)
  from right_rot_eq [OF h(2,1) fr(2,1) nm np]
  obtain t' where t': "right_rot t y = Some t'" "root t' = (if C = [] then x else root t)"
    "comparator t' = comparator t" "kvfreer t' = kvfreer t" "nil t' = ?nl" "freed t' = freed t"
    "heap t' x = Some (nd (kv x) (c x) (ra ?nl l) y (pa ?nl C))" "heap t' y = Some (nd (kv y) (c y) (ra ?nl m) (ra ?nl r) x)"
    "m \<noteq> Leaf \<longrightarrow> heap t' (ra ?nl m) = Some (nm\<lparr>parent := y\<rparr>)"
    "C \<noteq> [] \<longrightarrow> heap t' (pa ?nl C) = Some (if y = right np then np\<lparr>right := x\<rparr> else np\<lparr>left := x\<rparr>)"
    and out: "\<And>a. a \<notin> ?A \<Longrightarrow> heap t' a = ?h a"
    using nl by (auto simp: rot_set_def)
  have lr: "rept kv c (heap t') ?nl x l" "rept kv c (heap t') ?nl y r"
    using h(3,5) frame(2) out by (auto intro: rept_cong)
  have m: "rept kv c (heap t') ?nl y m"
    by (rule rept_move [OF h(4) _ out ds(1)]) (use t'(9) nm nl frame(3) in auto)
  have C: "repc kv c (heap t') ?nl x C"
    by (rule repc_move_right [OF h(6) _ ds(2) _ out]) (use t'(10) np nl fr frame(4) in auto)
  have "shape kv c t' (plug C (Node l x (Node m y r)))"
    by (rule shape_replace [OF sh]) (use t' lr m C out frame(1) shape_distinct [OF sh] in auto)
  moreover have "(heap t' a = None) = (?h a = None)" for a
    using t'(7-10) h(1,2) nm np nl out [of a] by (cases "a \<in> ?A") (auto simp: rot_set_def split: if_splits)
  then have "same_but (set_tree (plug C (Node (Node l x m) y r))) t t'"
    using t'(3-6) out frame(5) by (auto simp: same_but_def intro!: dom_eqI)
  ultimately show ?thesis using t'(1) by blast
qed

text \<open>Every node of a tree is the focus of some context.\<close>

lemma focus_exists: "a \<in> set_tree T \<Longrightarrow> \<exists>C l r. T = plug C (Node l a r)"
proof (induction T)
  case (Node l b r)
  then consider "a = b" | "a \<in> set_tree l" | "a \<in> set_tree r" by auto
  then show ?case
  proof cases
    case 1
    then show ?thesis by (metis plug.simps(1))
  next
    case 2
    then obtain C x y where "l = plug C (Node x a y)" using Node.IH(1) by blast
    then have "Node l b r = plug (C @ [LF b r]) (Node x a y)" by (simp add: plug_append)
    then show ?thesis by blast
  next
    case 3
    then obtain C x y where "r = plug C (Node x a y)" using Node.IH(2) by blast
    then have "Node l b r = plug (C @ [RF l b]) (Node x a y)" by (simp add: plug_append)
    then show ?thesis by blast
  qed
qed simp

lemma set_colour_shape:
  assumes "shape kv c t T" and "a \<in> set_tree T"
  shows "\<exists>t'. set_colour t a k = Some t' \<and> shape kv (c(a := k)) t' T \<and> same_but (set_tree T) t t' \<and>
           root t' = root t"
proof -
  obtain C l r where T: "T = plug C (Node l a r)" using focus_exists assms(2) by blast
  let ?t' = "t\<lparr>heap := (heap t)(a \<mapsto> nd (kv a) k (ra (nil t) l) (ra (nil t) r) (pa (nil t) C))\<rparr>"
  have "heap t a = Some (nd (kv a) (c a) (ra (nil t) l) (ra (nil t) r) (pa (nil t) C))"
    using assms(1) T by (simp add: shape_def)
  then have "set_colour t a k = Some ?t'" "same_but (set_tree T) t ?t'"
    using T by (auto simp: set_colour_def same_but_def)
  moreover have "shape kv (c(a := k)) ?t' T"
    unfolding T by (rule shape_replace) (use assms(1) in \<open>auto simp: T shape_def\<close>)
  ultimately show ?thesis by auto
qed

lemma set_value_shape:
  assumes "shape kv c t T" and "a \<in> set_tree T"
  shows "\<exists>t'. set_value t a v = Some t' \<and> shape (kv(a := (fst (kv a), Some v))) c t' T \<and>
           same_but (set_tree T) t t'"
proof -
  obtain C l r where T: "T = plug C (Node l a r)" using focus_exists assms(2) by blast
  let ?t' = "t\<lparr>heap := (heap t)(a \<mapsto> nd (fst (kv a), Some v) (c a) (ra (nil t) l) (ra (nil t) r) (pa (nil t) C))\<rparr>"
  have "heap t a = Some (nd (kv a) (c a) (ra (nil t) l) (ra (nil t) r) (pa (nil t) C))"
    using assms(1) T by (simp add: shape_def)
  then have "set_value t a v = Some ?t'" "same_but (set_tree T) t ?t'"
    using T by (auto simp: set_value_def same_but_def)
  moreover have "shape (kv(a := (fst (kv a), Some v))) c ?t' T"
    using assms(1) by (auto simp: T shape_def)
  ultimately show ?thesis by blast
qed

end
