(* ===== verification/Rb_Balance.thy ===== *)
theory Rb_Balance
  imports Rb_Shape
begin

text \<open>
  The colour invariants of a red-black tree (no red node has a red child; every path has the same
  number of black nodes), on trees and on zipper contexts, and that
  \<^verbatim>\<open>rbtree_insert_fixup\<close> restores them after a red node has been hung into the tree: it ends, touches
  only nodes of the tree and keeps their order.
\<close>

section \<open>Colour invariants\<close>

fun tcol :: "colmap \<Rightarrow> atree \<Rightarrow> rbtree_colour" where
  "tcol c Leaf = BLACK"
| "tcol c (Node l a r) = c a"

fun rb_c :: "colmap \<Rightarrow> atree \<Rightarrow> bool" where
  "rb_c c Leaf = True"
| "rb_c c (Node l a r) =
     ((c a = RED \<longrightarrow> tcol c l = BLACK \<and> tcol c r = BLACK) \<and> rb_c c l \<and> rb_c c r)"

fun bh :: "colmap \<Rightarrow> atree \<Rightarrow> nat" where
  "bh c Leaf = 0"
| "bh c (Node l a r) = bh c l + (if c a = BLACK then 1 else 0)"

fun rb_h :: "colmap \<Rightarrow> atree \<Rightarrow> bool" where
  "rb_h c Leaf = True"
| "rb_h c (Node l a r) = (bh c l = bh c r \<and> rb_h c l \<and> rb_h c r)"

text \<open>A valid red-black tree.\<close>

definition rb :: "colmap \<Rightarrow> atree \<Rightarrow> bool" where
  "rb c T \<longleftrightarrow> rb_c c T \<and> rb_h c T \<and> tcol c T = BLACK"

text \<open>What a context asks of the subtree in its hole: its root colour and its black height.\<close>

fun ctx_c :: "colmap \<Rightarrow> ctxt \<Rightarrow> rbtree_colour \<Rightarrow> bool" where
  "ctx_c c [] k = True"
| "ctx_c c (LF a r # C) k =
     (rb_c c r \<and> (c a = RED \<longrightarrow> k = BLACK \<and> tcol c r = BLACK) \<and> ctx_c c C (c a))"
| "ctx_c c (RF l a # C) k =
     (rb_c c l \<and> (c a = RED \<longrightarrow> k = BLACK \<and> tcol c l = BLACK) \<and> ctx_c c C (c a))"

fun ctx_h :: "colmap \<Rightarrow> ctxt \<Rightarrow> nat \<Rightarrow> bool" where
  "ctx_h c [] n = True"
| "ctx_h c (LF a r # C) n =
     (rb_h c r \<and> bh c r = n \<and> ctx_h c C (n + (if c a = BLACK then 1 else 0)))"
| "ctx_h c (RF l a # C) n =
     (rb_h c l \<and> bh c l = n \<and> ctx_h c C (n + (if c a = BLACK then 1 else 0)))"

lemma rb_c_plug [simp]: "rb_c c (plug C t) \<longleftrightarrow> rb_c c t \<and> ctx_c c C (tcol c t)"
  by (induction C t rule: plug.induct) auto

lemma rb_h_plug [simp]: "rb_h c (plug C t) \<longleftrightarrow> rb_h c t \<and> ctx_h c C (bh c t)"
  by (induction C t rule: plug.induct) auto

lemma tcol_plug: "C \<noteq> [] \<Longrightarrow> tcol c (plug C s) = tcol c (plug C t)"
proof (induction C arbitrary: s t)
  case (Cons f C)
  then show ?case by (cases f; cases "C = []") auto
qed simp

lemma col_upd_tree [simp]:
  "a \<notin> set_tree t \<Longrightarrow> tcol (c(a := k)) t = tcol c t"
  "a \<notin> set_tree t \<Longrightarrow> rb_c (c(a := k)) t = rb_c c t"
  "a \<notin> set_tree t \<Longrightarrow> bh (c(a := k)) t = bh c t"
  "a \<notin> set_tree t \<Longrightarrow> rb_h (c(a := k)) t = rb_h c t"
proof -
  show tc: "a \<notin> set_tree t \<Longrightarrow> tcol (c(a := k)) t = tcol c t" for t by (cases t) auto
  show bh: "a \<notin> set_tree t \<Longrightarrow> bh (c(a := k)) t = bh c t" for t by (induction t) auto
  show "a \<notin> set_tree t \<Longrightarrow> rb_c (c(a := k)) t = rb_c c t" by (induction t) (auto simp: tc)
  show "a \<notin> set_tree t \<Longrightarrow> rb_h (c(a := k)) t = rb_h c t" by (induction t) (auto simp: bh)
qed

lemma col_upd_ctx [simp]:
  "a \<notin> set_ctx C \<Longrightarrow> ctx_c (c(a := k)) C j = ctx_c c C j"
  "a \<notin> set_ctx C \<Longrightarrow> ctx_h (c(a := k)) C n = ctx_h c C n"
  by (induction C arbitrary: j n rule: set_ctx.induct) auto

lemma ctx_c_black: "ctx_c c C k \<Longrightarrow> ctx_c c C BLACK"
  by (cases C rule: set_ctx.cases) auto

lemma not_BLACK [simp]: "k \<noteq> BLACK \<longleftrightarrow> k = RED" "k \<noteq> RED \<longleftrightarrow> k = BLACK"
  by (cases k; simp)+

text \<open>
  The loop invariant of the insertion: the focused node is red, everything is in order except that
  its parent may be red as well.
\<close>

definition ins_inv :: "colmap \<Rightarrow> ctxt \<Rightarrow> atree \<Rightarrow> bool" where
  "ins_inv c C X \<longleftrightarrow> rb_c c X \<and> rb_h c X \<and> tcol c X = RED \<and> ctx_c c C BLACK \<and> ctx_h c C (bh c X) \<and>
     (C \<noteq> [] \<longrightarrow> tcol c (plug C X) = BLACK)"

definition fixed :: "('k, 'v) kvmap \<Rightarrow> ('k, 'v) rb_tree \<Rightarrow> atree \<Rightarrow> ('k, 'v) rb_tree option \<Rightarrow> bool" where
  "fixed kv t T res \<longleftrightarrow>
     (\<exists>t' c' T'. res = Some t' \<and> shape kv c' t' T' \<and> inorder T' = inorder T \<and> rb c' T' \<and>
        same_but (set_tree T) t t')"

section \<open>The rotation cases of the insertion\<close>

lemma shape_child_ne:
  "shape kv c t (plug C (Node l x r)) \<Longrightarrow> l \<noteq> Leaf \<Longrightarrow> ra (nil t) l \<noteq> ra (nil t) r"
  "shape kv c t (plug C (Node l x r)) \<Longrightarrow> r \<noteq> Leaf \<Longrightarrow> ra (nil t) l \<noteq> ra (nil t) r"
  using ra_in [of l "nil t"] ra_in [of r "nil t"]
  by (cases l; cases r; auto simp: shape_def)+

lemma same_but_set: "same_but A t u \<Longrightarrow> A = B \<Longrightarrow> same_but B t u"
  by simp

lemma finish_left:
  assumes sh: "shape kv c t (plug C (Node (Node X p s) g u))" and X: "X = Node l x r"
  shows "\<exists>t'. insert_finish_left t x = Some t' \<and>
     shape kv (c(p := BLACK, g := RED)) t' (plug C (Node X p (Node s g u))) \<and>
     same_but (set_tree (plug C (Node (Node X p s) g u))) t t'"
proof -
  let ?T = "plug C (Node (Node X p s) g u)"
  have gp: "grandparent t' x = Some g" if "shape kv c' t' ?T" for c' t'
    using shape_deref [of kv c' t' "LF p s # LF g u # C" l x r]
      shape_deref [of kv c' t' "LF g u # C" X p s] that X by (simp add: grandparent_def)
  have d: "deref t x = Some (nd (kv x) (c x) (ra (nil t) l) (ra (nil t) r) p)"
    using shape_deref [of kv c t "LF p s # LF g u # C" l x r] sh X by simp
  obtain t1 where t1: "set_colour t p BLACK = Some t1" "shape kv (c(p := BLACK)) t1 ?T"
    "same_but (set_tree ?T) t t1"
    using set_colour_shape [OF sh, of p BLACK] by auto
  obtain t2 where t2: "set_colour t1 g RED = Some t2" "shape kv (c(p := BLACK, g := RED)) t2 ?T"
    "same_but (set_tree ?T) t1 t2"
    using set_colour_shape [OF t1(2), of g RED] by auto
  obtain t3 where t3: "right_rot t2 g = Some t3"
    "shape kv (c(p := BLACK, g := RED)) t3 (plug C (Node X p (Node s g u)))" "same_but (set_tree ?T) t2 t3"
    using right_rot_shape [OF t2(2)] by blast
  show ?thesis
    using d t1(1) gp [OF t1(2)] t2(1) gp [OF t2(2)] t3
      same_but_trans [OF same_but_trans [OF t1(3) t2(3)] t3(3)]
    by (simp add: insert_finish_left_def)
qed

lemma finish_right:
  assumes sh: "shape kv c t (plug C (Node u g (Node s p X)))" and X: "X = Node l x r"
  shows "\<exists>t'. insert_finish_right t x = Some t' \<and>
     shape kv (c(p := BLACK, g := RED)) t' (plug C (Node (Node u g s) p X)) \<and>
     same_but (set_tree (plug C (Node u g (Node s p X)))) t t'"
proof -
  let ?T = "plug C (Node u g (Node s p X))"
  have gp: "grandparent t' x = Some g" if "shape kv c' t' ?T" for c' t'
    using shape_deref [of kv c' t' "RF s p # RF u g # C" l x r]
      shape_deref [of kv c' t' "RF u g # C" s p X] that X by (simp add: grandparent_def)
  have d: "deref t x = Some (nd (kv x) (c x) (ra (nil t) l) (ra (nil t) r) p)"
    using shape_deref [of kv c t "RF s p # RF u g # C" l x r] sh X by simp
  obtain t1 where t1: "set_colour t p BLACK = Some t1" "shape kv (c(p := BLACK)) t1 ?T"
    "same_but (set_tree ?T) t t1"
    using set_colour_shape [OF sh, of p BLACK] by auto
  obtain t2 where t2: "set_colour t1 g RED = Some t2" "shape kv (c(p := BLACK, g := RED)) t2 ?T"
    "same_but (set_tree ?T) t1 t2"
    using set_colour_shape [OF t1(2), of g RED] by auto
  obtain t3 where t3: "left_rot t2 g = Some t3"
    "shape kv (c(p := BLACK, g := RED)) t3 (plug C (Node (Node u g s) p X))" "same_but (set_tree ?T) t2 t3"
    using left_rot_shape [OF t2(2)] by blast
  show ?thesis
    using d t1(1) gp [OF t1(2)] t2(1) gp [OF t2(2)] t3
      same_but_trans [OF same_but_trans [OF t1(3) t2(3)] t3(3)]
    by (simp add: insert_finish_right_def)
qed

lemma outer_left:
  assumes sh: "shape kv c t (plug C (Node (Node X p s) g u))" and X: "X = Node l x r"
  shows "\<exists>t'. insert_rot_left_case t x = Some (x, t') \<and>
     shape kv (c(p := BLACK, g := RED)) t' (plug C (Node X p (Node s g u))) \<and>
     same_but (set_tree (plug C (Node (Node X p s) g u))) t t'"
proof -
  have "deref t x = Some (nd (kv x) (c x) (ra (nil t) l) (ra (nil t) r) p)"
    "deref t p = Some (nd (kv p) (c p) x (ra (nil t) s) g)" "x \<noteq> ra (nil t) s"
    using shape_deref [of kv c t "LF p s # LF g u # C" l x r]
      shape_deref [of kv c t "LF g u # C" X p s] shape_child_ne(1) [of kv c t "LF g u # C" X p s] sh X
    by simp_all
  then show ?thesis
    using finish_left [OF sh X] by (auto simp: insert_rot_left_case_def)
qed

lemma outer_right:
  assumes sh: "shape kv c t (plug C (Node u g (Node s p X)))" and X: "X = Node l x r"
  shows "\<exists>t'. insert_rot_right_case t x = Some (x, t') \<and>
     shape kv (c(p := BLACK, g := RED)) t' (plug C (Node (Node u g s) p X)) \<and>
     same_but (set_tree (plug C (Node u g (Node s p X)))) t t'"
proof -
  have "deref t x = Some (nd (kv x) (c x) (ra (nil t) l) (ra (nil t) r) p)"
    "deref t p = Some (nd (kv p) (c p) (ra (nil t) s) x g)" "x \<noteq> ra (nil t) s"
    using shape_deref [of kv c t "RF s p # RF u g # C" l x r]
      shape_deref [of kv c t "RF u g # C" s p X] shape_child_ne(2) [of kv c t "RF u g # C" s p X] sh X
    by simp_all
  then show ?thesis
    using finish_right [OF sh X] by (auto simp: insert_rot_right_case_def)
qed

lemma inner_left:
  assumes sh: "shape kv c t (plug C (Node (Node s p (Node l x r)) g u))"
  shows "\<exists>t'. insert_rot_left_case t x = Some (p, t') \<and>
     shape kv (c(x := BLACK, g := RED)) t' (plug C (Node (Node s p l) x (Node r g u))) \<and>
     same_but (set_tree (plug C (Node (Node s p (Node l x r)) g u))) t t'"
proof -
  have d: "deref t x = Some (nd (kv x) (c x) (ra (nil t) l) (ra (nil t) r) p)"
    "deref t p = Some (nd (kv p) (c p) (ra (nil t) s) x g)"
    using shape_deref [of kv c t "RF s p # LF g u # C" l x r]
      shape_deref [of kv c t "LF g u # C" s p "Node l x r"] sh by simp_all
  obtain t1 where t1: "left_rot t p = Some t1" "shape kv c t1 (plug C (Node (Node (Node s p l) x r) g u))"
    "same_but (set_tree (plug C (Node (Node s p (Node l x r)) g u))) t t1"
    using left_rot_shape [of kv c t "LF g u # C"] sh by fastforce
  have "set_tree (plug C (Node (Node (Node s p l) x r) g u)) = set_tree (plug C (Node (Node s p (Node l x r)) g u))" by auto
  then show ?thesis
    using d t1 finish_left [OF t1(2) refl] same_but_trans [OF t1(3)]
    by (fastforce simp: insert_rot_left_case_def)
qed

lemma inner_right:
  assumes sh: "shape kv c t (plug C (Node u g (Node (Node l x r) p s)))"
  shows "\<exists>t'. insert_rot_right_case t x = Some (p, t') \<and>
     shape kv (c(x := BLACK, g := RED)) t' (plug C (Node (Node u g l) x (Node r p s))) \<and>
     same_but (set_tree (plug C (Node u g (Node (Node l x r) p s)))) t t'"
proof -
  have d: "deref t x = Some (nd (kv x) (c x) (ra (nil t) l) (ra (nil t) r) p)"
    "deref t p = Some (nd (kv p) (c p) x (ra (nil t) s) g)"
    using shape_deref [of kv c t "LF p s # RF u g # C" l x r]
      shape_deref [of kv c t "RF u g # C" "Node l x r" p s] sh by simp_all
  obtain t1 where t1: "right_rot t p = Some t1" "shape kv c t1 (plug C (Node u g (Node l x (Node r p s))))"
    "same_but (set_tree (plug C (Node u g (Node (Node l x r) p s)))) t t1"
    using right_rot_shape [of kv c t "RF u g # C"] sh by fastforce
  have "set_tree (plug C (Node u g (Node l x (Node r p s)))) = set_tree (plug C (Node u g (Node (Node l x r) p s)))" by auto
  then show ?thesis
    using d t1 finish_right [OF t1(2) refl] same_but_trans [OF t1(3)]
    by (fastforce simp: insert_rot_right_case_def)
qed

section \<open>The insertion loop\<close>

lemma root_black:
  assumes "rb_c c T" "rb_h c T" "distinct (inorder T)" "T \<noteq> Leaf"
  shows "rb (c(ra nl T := BLACK)) T"
  using assms by (cases T) (auto simp: rb_def)

lemma fixup_stop:
  assumes sh: "shape kv c t (plug C (Node l x r))"
    and ok: "rb_c c (plug C (Node l x r))" "rb_h c (plug C (Node l x r))"
    and p: "C = [] \<or> c (pa (nil t) C) = BLACK"
  shows "fixed kv t (plug C (Node l x r)) (rbtree_insert_fixup t x)"
proof -
  let ?T = "plug C (Node l x r)"
  have "\<exists>n. deref t (pa (nil t) C) = Some n \<and> colour n = BLACK"
  proof (cases C rule: set_ctx.cases)
    case 1
    then show ?thesis using shape_nil [OF sh] by force
  next
    case (2 a s D)
    then show ?thesis using shape_deref [of kv c t D "Node l x r" a s] sh p by simp
  next
    case (3 s a D)
    then show ?thesis using shape_deref [of kv c t D s a "Node l x r"] sh p by simp
  qed
  then have "rbtree_insert_fixup t x = set_colour t (root t) BLACK"
    using shape_deref [OF sh] by (subst rbtree_insert_fixup.simps) auto
  moreover have ne: "?T \<noteq> Leaf" by (metis UnI1 insertI1 set_plug set_tree.simps emptyE)
  then have "root t \<in> set_tree ?T" using shape_root [OF sh] ra_in by metis
  then obtain t' where "set_colour t (root t) BLACK = Some t'"
    "shape kv (c(root t := BLACK)) t' ?T" "same_but (set_tree ?T) t t'"
    using set_colour_shape [OF sh] by blast
  moreover have "rb (c(root t := BLACK)) ?T"
    using root_black [OF ok shape_distinct [OF sh] ne] shape_root [OF sh] by simp
  ultimately show ?thesis by (auto simp: fixed_def)
qed

lemma fixed_step:
  assumes "fixed kv t' T' res" and "same_but (set_tree T) t t'"
    and "set_tree T' = set_tree T" "inorder T' = inorder T"
  shows "fixed kv t T res"
proof -
  from assms(1) obtain t'' c' T'' where r: "res = Some t''" "shape kv c' t'' T''"
    "inorder T'' = inorder T'" "rb c' T''" "same_but (set_tree T') t' t''" by (auto simp: fixed_def)
  with assms same_but_trans [OF assms(2)] show ?thesis by (auto simp: fixed_def)
qed

lemma recolour_up_shape:
  assumes sh: "shape kv c t T" and "p \<in> set_tree T" "y \<in> set_tree T" "g \<in> set_tree T"
  shows "\<exists>t'. recolour_up t p y g = Some t' \<and> shape kv (c(p := BLACK, y := BLACK, g := RED)) t' T \<and>
           same_but (set_tree T) t t'"
proof -
  obtain t1 where t1: "set_colour t p BLACK = Some t1" "shape kv (c(p := BLACK)) t1 T"
    "same_but (set_tree T) t t1" using set_colour_shape [OF sh assms(2)] by blast
  obtain t2 where t2: "set_colour t1 y BLACK = Some t2" "shape kv (c(p := BLACK, y := BLACK)) t2 T"
    "same_but (set_tree T) t1 t2" using set_colour_shape [OF t1(2) assms(3)] by blast
  obtain t3 where t3: "set_colour t2 g RED = Some t3" "shape kv (c(p := BLACK, y := BLACK, g := RED)) t3 T"
    "same_but (set_tree T) t2 t3" using set_colour_shape [OF t2(2) assms(4)] by blast
  show ?thesis
    using t1(1) t2(1) t3 same_but_trans [OF same_but_trans [OF t1(3) t2(3)] t3(3)]
    by (simp add: recolour_up_def)
qed

lemma shape_hole_deref:
  assumes "shape kv c t (plug C u)"
  shows "\<exists>n. deref t (ra (nil t) u) = Some n \<and> colour n = tcol c u" and "ra (nil t) u \<noteq> 0"
  using shape_nil [OF assms] shape_deref [of kv c t C] shape_ne [OF assms] assms
  by (cases u; force simp: shape_def)+

lemma fixup_eq_left:
  assumes sh: "shape kv c t (plug D (Node P g u))" and P: "P = plug [F] (Node l x r)" "F = LF p s \<or> F = RF s p"
    and p: "c p = RED"
  shows "rbtree_insert_fixup t x =
     (if tcol c u = RED
      then do { t1 \<leftarrow> recolour_up t p (ra (nil t) u) g; rbtree_insert_fixup t1 g }
      else do { q \<leftarrow> insert_rot_left_case t x; rbtree_insert_fixup (snd q) (fst q) })"
proof -
  let ?nl = "nil t"
  obtain a b where P': "P = Node a p b" using P by auto
  have dx: "deref t x = Some (nd (kv x) (c x) (ra ?nl l) (ra ?nl r) p)"
    using shape_deref [of kv c t "F # LF g u # D" l x r] sh P by auto
  have dp: "deref t p = Some (nd (kv p) (c p) (ra ?nl a) (ra ?nl b) g)"
    using shape_deref [of kv c t "LF g u # D" a p b] sh P' by simp
  have dg: "deref t g = Some (nd (kv g) (c g) p (ra ?nl u) (pa ?nl D))"
    using shape_deref [OF sh] P' by simp
  have du: "\<exists>n. deref t (ra ?nl u) = Some n \<and> colour n = tcol c u" "ra ?nl u \<noteq> 0"
    using shape_hole_deref [of kv c t "RF P g # D" u] sh by simp_all
  have "ra ?nl u \<noteq> p" using shape_child_ne(1) [OF sh] P' by simp
  with dx dp dg du p show ?thesis
    by (subst rbtree_insert_fixup.simps) (auto split: if_splits)
qed

lemma fixup_eq_right:
  assumes sh: "shape kv c t (plug D (Node u g P))" and P: "P = plug [F] (Node l x r)" "F = LF p s \<or> F = RF s p"
    and p: "c p = RED"
  shows "rbtree_insert_fixup t x =
     (if tcol c u = RED
      then do { t1 \<leftarrow> recolour_up t p (ra (nil t) u) g; rbtree_insert_fixup t1 g }
      else do { q \<leftarrow> insert_rot_right_case t x; rbtree_insert_fixup (snd q) (fst q) })"
proof -
  let ?nl = "nil t"
  obtain a b where P': "P = Node a p b" using P by auto
  have dx: "deref t x = Some (nd (kv x) (c x) (ra ?nl l) (ra ?nl r) p)"
    using shape_deref [of kv c t "F # RF u g # D" l x r] sh P by auto
  have dp: "deref t p = Some (nd (kv p) (c p) (ra ?nl a) (ra ?nl b) g)"
    using shape_deref [of kv c t "RF u g # D" a p b] sh P' by simp
  have dg: "deref t g = Some (nd (kv g) (c g) (ra ?nl u) p (pa ?nl D))"
    using shape_deref [OF sh] P' by simp
  have du: "\<exists>n. deref t (ra ?nl u) = Some n \<and> colour n = tcol c u" "ra ?nl u \<noteq> 0"
    using shape_hole_deref [of kv c t "LF g P # D" u] sh by simp_all
  have "ra ?nl u \<noteq> p" using shape_child_ne(2) [OF sh] P' by simp
  with dx dp dg du p show ?thesis
    by (subst rbtree_insert_fixup.simps) (auto split: if_splits)
qed

lemma tcol_plug_upd: "a \<notin> set_ctx C \<Longrightarrow> C \<noteq> [] \<Longrightarrow> tcol (c(a := k)) (plug C s) = tcol c (plug C s)"
proof (induction C arbitrary: s)
  case (Cons f C)
  then show ?case by (cases f; cases "C = []") auto
qed simp

lemma ins_inv_up_left:
  assumes "ins_inv c (F # LF g u # E) X" and "F = LF p s \<or> F = RF s p" and "c p = RED" "tcol c u = RED"
    and "distinct (inorder (plug (F # LF g u # E) X))"
  shows "ins_inv (c(p := BLACK, ra nl u := BLACK, g := RED)) E (plug [F, LF g u] X)"
  using assms by (cases u) (auto simp: ins_inv_def tcol_plug_upd)

lemma outer_rb_left:
  assumes "ins_inv c (LF p s # LF g u # E) X" and "c p = RED" "tcol c u = BLACK"
    and "distinct (inorder (plug (LF p s # LF g u # E) X))"
  shows "rb_c (c(p := BLACK, g := RED)) (plug E (Node X p (Node s g u)))"
    and "rb_h (c(p := BLACK, g := RED)) (plug E (Node X p (Node s g u)))"
  using assms by (auto simp: ins_inv_def split: if_splits)

lemma inner_rb_left:
  assumes "ins_inv c (RF s p # LF g u # E) (Node l x r)" and "c p = RED" "tcol c u = BLACK"
    and "distinct (inorder (plug (RF s p # LF g u # E) (Node l x r)))"
  shows "rb_c (c(x := BLACK, g := RED)) (plug E (Node (Node s p l) x (Node r g u)))"
    and "rb_h (c(x := BLACK, g := RED)) (plug E (Node (Node s p l) x (Node r g u)))"
  using assms by (auto simp: ins_inv_def split: if_splits)

lemma black_uncle_left:
  assumes sh: "shape kv c t (plug (F # LF g u # E) (Node l x r))" and F: "F = LF p s \<or> F = RF s p"
    and inv: "ins_inv c (F # LF g u # E) (Node l x r)" and p: "c p = RED" and u: "tcol c u = BLACK"
  shows "fixed kv t (plug (F # LF g u # E) (Node l x r))
     (do { q \<leftarrow> insert_rot_left_case t x; rbtree_insert_fixup (snd q) (fst q) })"
  using F
proof
  let ?X = "Node l x r"
  assume F': "F = LF p s"
  with sh have sh': "shape kv c t (plug E (Node (Node ?X p s) g u))" by simp
  obtain t' where t': "insert_rot_left_case t x = Some (x, t')"
    "shape kv (c(p := BLACK, g := RED)) t' (plug E (Node ?X p (Node s g u)))"
    "same_but (set_tree (plug (F # LF g u # E) ?X)) t t'"
    using outer_left [OF sh' refl] F' by auto
  have "p \<noteq> g" using shape_distinct [OF sh'] by auto
  then have "fixed kv t' (plug (LF p (Node s g u) # E) ?X) (rbtree_insert_fixup t' x)"
    using t'(2) outer_rb_left [of c] inv p u F' shape_distinct [OF sh] shape_distinct [OF sh']
    by (intro fixup_stop [where c = "c(p := BLACK, g := RED)"]) (simp_all del: rb_c_plug rb_h_plug distinct_plug)
  then show ?thesis
    using t' F' by (auto elim!: fixed_step simp: inorder_plug)
next
  assume F': "F = RF s p"
  with sh have sh': "shape kv c t (plug E (Node (Node s p (Node l x r)) g u))" by simp
  obtain t' where t': "insert_rot_left_case t x = Some (p, t')"
    "shape kv (c(x := BLACK, g := RED)) t' (plug E (Node (Node s p l) x (Node r g u)))"
    "same_but (set_tree (plug (F # LF g u # E) (Node l x r))) t t'"
    using inner_left [OF sh'] F' by auto
  have "x \<noteq> g" using shape_distinct [OF sh'] by auto
  then have "fixed kv t' (plug (LF x (Node r g u) # E) (Node s p l)) (rbtree_insert_fixup t' p)"
    using t'(2) inner_rb_left [of c] inv p u F' shape_distinct [OF sh] shape_distinct [OF sh']
    by (intro fixup_stop [where c = "c(x := BLACK, g := RED)"]) (simp_all del: rb_c_plug rb_h_plug distinct_plug)
  then show ?thesis
    using t' F' by (auto elim!: fixed_step simp: inorder_plug)
qed

lemma ins_inv_up_right:
  assumes "ins_inv c (F # RF u g # E) X" and "F = LF p s \<or> F = RF s p" and "c p = RED" "tcol c u = RED"
    and "distinct (inorder (plug (F # RF u g # E) X))"
  shows "ins_inv (c(p := BLACK, ra nl u := BLACK, g := RED)) E (plug [F, RF u g] X)"
  using assms by (cases u) (auto simp: ins_inv_def tcol_plug_upd)

lemma outer_rb_right:
  assumes "ins_inv c (RF s p # RF u g # E) X" and "c p = RED" "tcol c u = BLACK"
    and "distinct (inorder (plug (RF s p # RF u g # E) X))"
  shows "rb_c (c(p := BLACK, g := RED)) (plug E (Node (Node u g s) p X))"
    and "rb_h (c(p := BLACK, g := RED)) (plug E (Node (Node u g s) p X))"
  using assms by (auto simp: ins_inv_def split: if_splits)

lemma inner_rb_right:
  assumes "ins_inv c (LF p s # RF u g # E) (Node l x r)" and "c p = RED" "tcol c u = BLACK"
    and "distinct (inorder (plug (LF p s # RF u g # E) (Node l x r)))"
  shows "rb_c (c(x := BLACK, g := RED)) (plug E (Node (Node u g l) x (Node r p s)))"
    and "rb_h (c(x := BLACK, g := RED)) (plug E (Node (Node u g l) x (Node r p s)))"
  using assms by (auto simp: ins_inv_def split: if_splits)

lemma black_uncle_right:
  assumes sh: "shape kv c t (plug (F # RF u g # E) (Node l x r))" and F: "F = LF p s \<or> F = RF s p"
    and inv: "ins_inv c (F # RF u g # E) (Node l x r)" and p: "c p = RED" and u: "tcol c u = BLACK"
  shows "fixed kv t (plug (F # RF u g # E) (Node l x r))
     (do { q \<leftarrow> insert_rot_right_case t x; rbtree_insert_fixup (snd q) (fst q) })"
  using F
proof
  let ?X = "Node l x r"
  assume F': "F = RF s p"
  with sh have sh': "shape kv c t (plug E (Node u g (Node s p ?X)))" by simp
  obtain t' where t': "insert_rot_right_case t x = Some (x, t')"
    "shape kv (c(p := BLACK, g := RED)) t' (plug E (Node (Node u g s) p ?X))"
    "same_but (set_tree (plug (F # RF u g # E) ?X)) t t'"
    using outer_right [OF sh' refl] F' by auto
  have "p \<noteq> g" using shape_distinct [OF sh'] by auto
  then have "fixed kv t' (plug (RF (Node u g s) p # E) ?X) (rbtree_insert_fixup t' x)"
    using t'(2) outer_rb_right [of c] inv p u F' shape_distinct [OF sh] shape_distinct [OF sh']
    by (intro fixup_stop [where c = "c(p := BLACK, g := RED)"]) (simp_all del: rb_c_plug rb_h_plug distinct_plug)
  then show ?thesis
    using t' F' by (auto elim!: fixed_step simp: inorder_plug)
next
  assume F': "F = LF p s"
  with sh have sh': "shape kv c t (plug E (Node u g (Node (Node l x r) p s)))" by simp
  obtain t' where t': "insert_rot_right_case t x = Some (p, t')"
    "shape kv (c(x := BLACK, g := RED)) t' (plug E (Node (Node u g l) x (Node r p s)))"
    "same_but (set_tree (plug (F # RF u g # E) (Node l x r))) t t'"
    using inner_right [OF sh'] F' by auto
  have "x \<noteq> g" using shape_distinct [OF sh'] by auto
  then have "fixed kv t' (plug (RF (Node u g l) x # E) (Node r p s)) (rbtree_insert_fixup t' p)"
    using t'(2) inner_rb_right [of c] inv p u F' shape_distinct [OF sh] shape_distinct [OF sh']
    by (intro fixup_stop [where c = "c(x := BLACK, g := RED)"]) (simp_all del: rb_c_plug rb_h_plug distinct_plug)
  then show ?thesis
    using t' F' by (auto elim!: fixed_step simp: inorder_plug)
qed

lemma fixup_step_left:
  assumes sh: "shape kv c t (plug (F # LF g u # E) (Node l x r))" and F: "F = LF p s \<or> F = RF s p"
    and inv: "ins_inv c (F # LF g u # E) (Node l x r)" and p: "c p = RED"
    and IH: "\<And>c' t'. shape kv c' t' (plug E (plug [F, LF g u] (Node l x r))) \<Longrightarrow>
       ins_inv c' E (plug [F, LF g u] (Node l x r)) \<Longrightarrow>
       fixed kv t' (plug E (plug [F, LF g u] (Node l x r))) (rbtree_insert_fixup t' g)"
  shows "fixed kv t (plug (F # LF g u # E) (Node l x r)) (rbtree_insert_fixup t x)"
proof -
  let ?X = "Node l x r" and ?T = "plug (F # LF g u # E) (Node l x r)"
  have T: "?T = plug E (plug [F, LF g u] ?X)" "plug [F, LF g u] ?X = Node (plug [F] ?X) g u"
    using F by auto
  have "shape kv c t (plug E (plug [F, LF g u] ?X))" using sh T(1) by simp
  note eq = fixup_eq_left [OF this [unfolded T(2)] refl F p]
  show ?thesis
  proof (cases "tcol c u")
    case BLACK
    then show ?thesis using eq sh T black_uncle_left [OF sh F inv p] by simp
  next
    case RED
    then have "ra (nil t) u \<in> set_tree u" by (cases u) auto
    then obtain t1 where t1: "recolour_up t p (ra (nil t) u) g = Some t1"
      "shape kv (c(p := BLACK, ra (nil t) u := BLACK, g := RED)) t1 ?T" "same_but (set_tree ?T) t t1"
      using recolour_up_shape [OF sh, of p "ra (nil t) u" g] F by auto
    have "fixed kv t1 ?T (rbtree_insert_fixup t1 g)"
      using IH t1(2) ins_inv_up_left [OF inv F p RED shape_distinct [OF sh]] T(1) by simp
    then show ?thesis using eq sh T t1 RED by (auto elim!: fixed_step)
  qed
qed

lemma fixup_step_right:
  assumes sh: "shape kv c t (plug (F # RF u g # E) (Node l x r))" and F: "F = LF p s \<or> F = RF s p"
    and inv: "ins_inv c (F # RF u g # E) (Node l x r)" and p: "c p = RED"
    and IH: "\<And>c' t'. shape kv c' t' (plug E (plug [F, RF u g] (Node l x r))) \<Longrightarrow>
       ins_inv c' E (plug [F, RF u g] (Node l x r)) \<Longrightarrow>
       fixed kv t' (plug E (plug [F, RF u g] (Node l x r))) (rbtree_insert_fixup t' g)"
  shows "fixed kv t (plug (F # RF u g # E) (Node l x r)) (rbtree_insert_fixup t x)"
proof -
  let ?X = "Node l x r" and ?T = "plug (F # RF u g # E) (Node l x r)"
  have T: "?T = plug E (plug [F, RF u g] ?X)" "plug [F, RF u g] ?X = Node u g (plug [F] ?X)"
    using F by auto
  have "shape kv c t (plug E (plug [F, RF u g] ?X))" using sh T(1) by simp
  note eq = fixup_eq_right [OF this [unfolded T(2)] refl F p]
  show ?thesis
  proof (cases "tcol c u")
    case BLACK
    then show ?thesis using eq sh T black_uncle_right [OF sh F inv p] by simp
  next
    case RED
    then have "ra (nil t) u \<in> set_tree u" by (cases u) auto
    then obtain t1 where t1: "recolour_up t p (ra (nil t) u) g = Some t1"
      "shape kv (c(p := BLACK, ra (nil t) u := BLACK, g := RED)) t1 ?T" "same_but (set_tree ?T) t t1"
      using recolour_up_shape [OF sh, of p "ra (nil t) u" g] F by auto
    have "fixed kv t1 ?T (rbtree_insert_fixup t1 g)"
      using IH t1(2) ins_inv_up_right [OF inv F p RED shape_distinct [OF sh]] T(1) by simp
    then show ?thesis using eq sh T t1 RED by (auto elim!: fixed_step)
  qed
qed

theorem insert_fixup_fixed:
  assumes "shape kv c t (plug C (Node l x r))" and "ins_inv c C (Node l x r)"
  shows "fixed kv t (plug C (Node l x r)) (rbtree_insert_fixup t x)"
  using assms
proof (induction "length C" arbitrary: C c t l x r rule: less_induct)
  case less
  note sh = less.prems(1) and inv = less.prems(2)
  let ?X = "Node l x r" and ?nl = "nil t"
  show ?case
  proof (cases "C = [] \<or> c (pa ?nl C) = BLACK")
    case True
    then have "rb_c c (plug C ?X)" "rb_h c (plug C ?X)"
      using inv by (cases C rule: set_ctx.cases; auto simp: ins_inv_def)+
    then show ?thesis using fixup_stop [OF sh _ _ True] by blast
  next
    case False
    then obtain F p s D where C: "C = F # D" and F: "F = LF p s \<or> F = RF s p" and p: "c p = RED"
      by (cases C rule: set_ctx.cases) auto
    have "D \<noteq> []" using inv C F p by (auto simp: ins_inv_def)
    then obtain g u E where D: "D = LF g u # E \<or> D = RF u g # E"
      by (cases D rule: set_ctx.cases) auto
    have IH: "fixed kv t' (plug E (plug [F, G] ?X)) (rbtree_insert_fixup t' g)"
      if "shape kv c' t' (plug E (plug [F, G] ?X))" "ins_inv c' E (plug [F, G] ?X)"
        "G = LF g u \<or> G = RF u g" for c' t' G
      using less.hyps [of E c' t'] that C D F by (auto simp: ins_inv_def)
    from D show ?thesis
      using fixup_step_left [of kv c t F g u E l x r p s] fixup_step_right [of kv c t F u g E l x r p s]
        IH sh inv F p unfolding C by blast
  qed
qed

end
