(* ===== verification/Rb_Insert.thy ===== *)
theory Rb_Insert
  imports Rb_Balance
begin

text \<open>
  What the red-black tree stores, as a sorted association list. The locale \<open>key_order\<close> is the contract
  between the tree and its comparator; the three comparators of \<^verbatim>\<open>rb_tree.c\<close> meet it on the keys they
  are used with. In the locale: searching the linked structure is looking up the list, and
  \<^verbatim>\<open>rbtree_insert\<close> and \<^verbatim>\<open>rbtree_replace\<close> keep the red-black invariant and change the list as a map would.
\<close>

section \<open>Abstraction\<close>

definition kf :: "('k, 'v) kvmap \<Rightarrow> addr \<Rightarrow> 'k" where
  "kf kv a = the (fst (kv a))"

definition entry :: "('k, 'v) kvmap \<Rightarrow> addr \<Rightarrow> 'k \<times> 'v" where
  "entry kv a = (the (fst (kv a)), the (snd (kv a)))"

definition entries :: "('k, 'v) kvmap \<Rightarrow> atree \<Rightarrow> ('k \<times> 'v) list" where
  "entries kv T = map (entry kv) (inorder T)"

definition full :: "('k \<Rightarrow> bool) \<Rightarrow> ('k, 'v) kvmap \<Rightarrow> addr set \<Rightarrow> bool" where
  "full valid kv A \<longleftrightarrow> (\<forall>a \<in> A. \<exists>k v. kv a = (Some k, Some v) \<and> valid k)"

text \<open>
  \<open>tree_ok cmp valid t xs\<close>: \<open>t\<close> is a red-black tree with comparator \<open>cmp\<close>, its entries in order are
  \<open>xs\<close>, and nothing else is allocated.
\<close>

definition tree_ok ::
  "('k \<Rightarrow> 'k \<Rightarrow> int) \<Rightarrow> ('k \<Rightarrow> bool) \<Rightarrow> ('k, 'v) rb_tree \<Rightarrow> ('k \<times> 'v) list \<Rightarrow> bool" where
  "tree_ok cmp valid t xs \<longleftrightarrow>
     (\<exists>kv c T. shape kv c t T \<and> rb c T \<and> dom (heap t) = insert (nil t) (set_tree T) \<and>
        full valid kv (set_tree T) \<and> comparator t = cmp \<and>
        sorted_wrt (\<lambda>a b. cmp a b < 0) (map fst xs) \<and> xs = entries kv T)"

fun al_insert :: "('k \<Rightarrow> 'k \<Rightarrow> int) \<Rightarrow> 'k \<Rightarrow> 'v \<Rightarrow> ('k \<times> 'v) list \<Rightarrow> ('k \<times> 'v) list" where
  "al_insert cmp k v [] = [(k, v)]"
| "al_insert cmp k v ((k', v') # xs) =
     (if cmp k k' < 0 then (k, v) # (k', v') # xs else (k', v') # al_insert cmp k v xs)"

definition al_update :: "'k \<Rightarrow> 'v \<Rightarrow> ('k \<times> 'v) list \<Rightarrow> ('k \<times> 'v) list" where
  "al_update k v xs = map (\<lambda>(k', v'). (k', if k' = k then v else v')) xs"

definition al_remove :: "'k \<Rightarrow> ('k \<times> 'v) list \<Rightarrow> ('k \<times> 'v) list" where
  "al_remove k xs = filter (\<lambda>(k', v'). k' \<noteq> k) xs"

fun tsearch :: "('k \<Rightarrow> 'k \<Rightarrow> int) \<Rightarrow> ('k, 'v) kvmap \<Rightarrow> addr \<Rightarrow> 'k \<Rightarrow> atree \<Rightarrow> addr" where
  "tsearch cmp kv nl k Leaf = nl"
| "tsearch cmp kv nl k (Node l a r) =
     (if cmp k (kf kv a) = 0 then a
      else if cmp k (kf kv a) < 0 then tsearch cmp kv nl k l
      else tsearch cmp kv nl k r)"

text \<open>The context of the leaf at which a key belongs, and the side each of its frames takes.\<close>

fun path :: "('k \<Rightarrow> 'k \<Rightarrow> int) \<Rightarrow> ('k, 'v) kvmap \<Rightarrow> 'k \<Rightarrow> ctxt \<Rightarrow> atree \<Rightarrow> ctxt" where
  "path cmp kv k C Leaf = C"
| "path cmp kv k C (Node l a r) =
     (if cmp k (kf kv a) < 0 then path cmp kv k (LF a r # C) l else path cmp kv k (RF l a # C) r)"

fun side_ok :: "('k \<Rightarrow> 'k \<Rightarrow> int) \<Rightarrow> ('k, 'v) kvmap \<Rightarrow> 'k \<Rightarrow> ctxt \<Rightarrow> bool" where
  "side_ok cmp kv k [] = True"
| "side_ok cmp kv k (LF a r # C) = (cmp k (kf kv a) < 0)"
| "side_ok cmp kv k (RF l a # C) = (\<not> cmp k (kf kv a) < 0)"

text \<open>The strings a C pointer can point to: no NUL before the terminator.\<close>

definition no_nul :: "string \<Rightarrow> bool" where
  "no_nul s \<longleftrightarrow> (\<forall>c \<in> set s. c \<noteq> CHR 0x00)"

locale key_order =
  fixes cmp :: "'k \<Rightarrow> 'k \<Rightarrow> int" and valid :: "'k \<Rightarrow> bool"
  assumes cmp_eq: "valid a \<Longrightarrow> valid b \<Longrightarrow> cmp a b = 0 \<longleftrightarrow> a = b"
    and cmp_swap: "valid a \<Longrightarrow> valid b \<Longrightarrow> cmp a b < 0 \<longleftrightarrow> 0 < cmp b a"
    and cmp_trans: "valid a \<Longrightarrow> valid b \<Longrightarrow> valid d \<Longrightarrow> cmp a b < 0 \<Longrightarrow> cmp b d < 0 \<Longrightarrow> cmp a d < 0"

section \<open>Lemmas that need no order\<close>

lemma fullD: "full valid kv A \<Longrightarrow> a \<in> A \<Longrightarrow> fst (kv a) = Some (kf kv a) \<and> valid (kf kv a)"
  by (force simp: full_def kf_def)

lemma search_eq:
  assumes "shape kv c t (plug C S)" and "full valid kv (set_tree S)"
  shows "rbtree_recursive_search t (ra (nil t) S) k = Some (tsearch (comparator t) kv (nil t) k S)"
  using assms
proof (induction S arbitrary: C)
  case Leaf
  show ?case by (subst rbtree_recursive_search.simps) simp
next
  case (Node l a r)
  have "a \<noteq> nil t" using shape_ne [OF Node.prems(1)] by simp
  moreover have "rbtree_recursive_search t (ra (nil t) l) k = Some (tsearch (comparator t) kv (nil t) k l)"
    using Node.IH(1) [of "LF a r # C"] Node.prems by (simp add: full_def)
  moreover have "rbtree_recursive_search t (ra (nil t) r) k = Some (tsearch (comparator t) kv (nil t) k r)"
    using Node.IH(2) [of "RF l a # C"] Node.prems by (simp add: full_def)
  ultimately show ?case
    using shape_deref [OF Node.prems(1)] fullD [OF Node.prems(2), of a]
    by (subst rbtree_recursive_search.simps) simp
qed

lemma descend_eq:
  assumes "shape kv c t (plug C S)" and "full valid kv (set_tree S)"
    and "\<And>a. a \<noteq> new \<Longrightarrow> heap t' a = heap t a" "new \<notin> set_tree S"
    and "nil t' = nil t" "comparator t' = comparator t"
  shows "insert_descend t' k (pa (nil t) C) (ra (nil t) S) =
     Some (pa (nil t) (path (comparator t) kv k C S))"
  using assms
proof (induction S arbitrary: C)
  case Leaf
  then show ?case by (subst insert_descend.simps) simp
next
  case (Node l a r)
  have "a \<noteq> nil t" using shape_ne [OF Node.prems(1)] by simp
  moreover have "insert_descend t' k a (ra (nil t) l) = Some (pa (nil t) (path (comparator t) kv k (LF a r # C) l))"
    using Node.IH(1) [of "LF a r # C"] Node.prems by (simp add: full_def)
  moreover have "insert_descend t' k a (ra (nil t) r) = Some (pa (nil t) (path (comparator t) kv k (RF l a # C) r))"
    using Node.IH(2) [of "RF l a # C"] Node.prems by (simp add: full_def)
  moreover have "deref t' a = deref t a" using Node.prems by (auto simp: deref_def)
  ultimately show ?case
    using shape_deref [OF Node.prems(1)] fullD [OF Node.prems(2), of a] Node.prems(5,6)
    by (subst insert_descend.simps) simp
qed

lemma plug_path [simp]: "plug (path cmp kv k C S) Leaf = plug C S"
  by (induction cmp kv k C S rule: path.induct) auto

lemma side_path: "side_ok cmp kv k C \<Longrightarrow> side_ok cmp kv k (path cmp kv k C S)"
  by (induction cmp kv k C S rule: path.induct) auto

lemma entries_Node [simp]:
  "entries kv Leaf = []" "entries kv (Node l a r) = entries kv l @ entry kv a # entries kv r"
  by (simp_all add: entries_def)

lemma fst_entry [simp]: "fst (entry kv a) = kf kv a"
  by (simp add: entry_def kf_def)

lemma keys_entries: "map fst (entries kv T) = map (kf kv) (inorder T)"
  by (simp add: entries_def)

lemma entries_upd: "a \<notin> set_tree T \<Longrightarrow> entries (kv(a := e)) T = entries kv T"
  by (auto simp: entries_def entry_def)

lemma shape_dom: "shape kv c t T \<Longrightarrow> insert (nil t) (set_tree T) \<subseteq> dom (heap t)"
proof -
  have "rept kv c h nl p T \<Longrightarrow> a \<in> set_tree T \<Longrightarrow> a \<in> dom h" for h nl p a
    by (induction T arbitrary: p) auto
  then show "shape kv c t T \<Longrightarrow> insert (nil t) (set_tree T) \<subseteq> dom (heap t)"
    unfolding shape_def by blast
qed

text \<open>Hanging the new red node below the leaf position found by the descent.\<close>

lemma link_shape:
  assumes sh: "shape kv c t (plug C Leaf)" and new: "new \<notin> dom (heap t)" "new \<noteq> 0"
    and full: "full valid kv (set_ctx C)" and side: "side_ok (comparator t) kv k C"
    and t1: "t1 = t\<lparr>heap := (heap t)(new \<mapsto> create_node (Some k) (Some v) (nil t) (nil t) (nil t))\<rparr>"
    and desc: "insert_descend t1 k (nil t) (root t) = Some (pa (nil t) C)"
  shows "\<exists>t5. insert_node t1 new = rbtree_insert_fixup t5 new \<and>
     shape (kv(new := (Some k, Some v))) (c(new := RED)) t5 (plug C (Node Leaf new Leaf)) \<and>
     nil t5 = nil t \<and> comparator t5 = comparator t \<and> kvfreer t5 = kvfreer t \<and> freed t5 = freed t \<and>
     dom (heap t5) = insert new (dom (heap t))"
proof -
  let ?nl = "nil t"
  have nw: "new \<noteq> ?nl" "new \<notin> set_ctx C" using shape_dom [OF sh] new by auto
  have cn: "create_node (Some k) (Some v) ?nl ?nl q = nd (Some k, Some v) BLACK ?nl ?nl q" for q
    by (simp add: create_node_def nd_def)
  note base = insert_node_def field_defs t1 desc [unfolded t1] cn
  show ?thesis
  proof (cases C rule: set_ctx.cases)
    case 1
    with sh new nw desc show ?thesis by (fastforce simp: base shape_def)
  next
    case (2 p r D)
    have p: "p \<noteq> new" "new \<noteq> p" "p \<noteq> ?nl" "fst (kv p) = Some (kf kv p)" "comparator t k (kf kv p) < 0"
      using nw 2 sh fullD [OF full, of p] side by (auto simp: shape_def)
    have "heap t p = Some (nd (kv p) (c p) ?nl (ra ?nl r) (pa ?nl D))" using sh 2 by (simp add: shape_def)
    moreover have "ra ?nl (plug D (Node Leaf p r)) = ra ?nl (plug D (Node (Node Leaf new Leaf) p r))"
      by (rule ra_plug_cong) simp
    moreover define t5 where "t5 = t\<lparr>heap := (heap t)(p \<mapsto> nd (kv p) (c p) new (ra ?nl r) (pa ?nl D),
      new \<mapsto> nd (Some k, Some v) RED ?nl ?nl p)\<rparr>"
    ultimately have "insert_node t1 new = rbtree_insert_fixup t5 new"
      "shape (kv(new := (Some k, Some v))) (c(new := RED)) t5 (plug C (Node Leaf new Leaf))"
      "dom (heap t5) = insert new (dom (heap t))"
      using sh new nw p 2 desc by (auto simp: base shape_def)
    moreover have "nil t5 = nil t \<and> comparator t5 = comparator t \<and> kvfreer t5 = kvfreer t \<and>
        freed t5 = freed t" by (simp add: t5_def)
    ultimately show ?thesis by blast
  next
    case (3 l p D)
    have p: "p \<noteq> new" "new \<noteq> p" "p \<noteq> ?nl" "fst (kv p) = Some (kf kv p)" "\<not> comparator t k (kf kv p) < 0"
      using nw 3 sh fullD [OF full, of p] side by (auto simp: shape_def)
    have "heap t p = Some (nd (kv p) (c p) (ra ?nl l) ?nl (pa ?nl D))" using sh 3 by (simp add: shape_def)
    moreover have "ra ?nl (plug D (Node l p Leaf)) = ra ?nl (plug D (Node l p (Node Leaf new Leaf)))"
      by (rule ra_plug_cong) simp
    moreover define t5 where "t5 = t\<lparr>heap := (heap t)(p \<mapsto> nd (kv p) (c p) (ra ?nl l) new (pa ?nl D),
      new \<mapsto> nd (Some k, Some v) RED ?nl ?nl p)\<rparr>"
    ultimately have "insert_node t1 new = rbtree_insert_fixup t5 new"
      "shape (kv(new := (Some k, Some v))) (c(new := RED)) t5 (plug C (Node Leaf new Leaf))"
      "dom (heap t5) = insert new (dom (heap t))"
      using sh new nw p 3 desc by (auto simp: base shape_def)
    moreover have "nil t5 = nil t \<and> comparator t5 = comparator t \<and> kvfreer t5 = kvfreer t \<and>
        freed t5 = freed t" by (simp add: t5_def)
    ultimately show ?thesis by blast
  qed
qed

lemma path_append: "path cmp kv k C S = path cmp kv k [] S @ C"
proof (induction S arbitrary: C)
  case (Node l a r)
  show ?case
    using Node.IH(1) [of "LF a r # C"] Node.IH(1) [of "[LF a r]"]
      Node.IH(2) [of "RF l a # C"] Node.IH(2) [of "[RF l a]"] by simp
qed simp

lemma plug_path_Node:
  "plug (path cmp kv k [] (Node l a r)) N =
     (if cmp k (kf kv a) < 0 then Node (plug (path cmp kv k [] l) N) a r
      else Node l a (plug (path cmp kv k [] r) N))"
  using path_append [of cmp kv k "[LF a r]" l] path_append [of cmp kv k "[RF l a]" r]
  by (simp add: plug_append)

lemma set_path: "set_ctx (path cmp kv k [] T) = set_tree T"
  using set_plug [of "path cmp kv k [] T" Leaf] by simp

lemma ins_inv_start:
  assumes "rb c (plug C Leaf)" and "new \<notin> set_ctx C"
  shows "ins_inv (c(new := RED)) C (Node Leaf new Leaf)"
  using assms by (auto simp: rb_def ins_inv_def tcol_plug_upd tcol_plug [of C c "Node Leaf new Leaf" Leaf])

lemma map_of_al_update:
  assumes "k \<in> fst ` set xs"
  shows "map_of (al_update k v xs) = (map_of xs)(k \<mapsto> v)"
proof
  fix x
  have "map_of (al_update k v xs) x = (if x = k then map_option (\<lambda>_. v) (map_of xs k) else map_of xs x)"
    by (induction xs) (auto simp: al_update_def)
  moreover have "map_of xs k \<noteq> None" using assms by (simp add: map_of_eq_None_iff)
  ultimately show "map_of (al_update k v xs) x = ((map_of xs)(k \<mapsto> v)) x" by auto
qed

lemma keys_al_update [simp]: "map fst (al_update k v xs) = map fst xs"
  by (auto simp: al_update_def)

lemma map_of_al_remove: "map_of (al_remove k xs) = (map_of xs)(k := None)"
  by (induction xs) (auto simp: al_remove_def)

section \<open>Searching and inserting in key order\<close>

context key_order
begin

abbreviation below :: "'k \<Rightarrow> 'k \<Rightarrow> bool" where
  "below a b \<equiv> cmp a b < 0"

lemma below_irrefl: "valid a \<Longrightarrow> \<not> below a a"
  using cmp_eq [of a a] by simp

lemma below_asym: "valid a \<Longrightarrow> valid b \<Longrightarrow> below a b \<Longrightarrow> \<not> below b a"
  using cmp_swap [of a b] by simp

lemma sorted_distinct:
  "sorted_wrt below ks \<Longrightarrow> (\<And>k. k \<in> set ks \<Longrightarrow> valid k) \<Longrightarrow> distinct ks"
  by (induction ks) (auto dest: below_irrefl)

lemma tsearch_spec:
  assumes "sorted_wrt below (map (kf kv) (inorder S))" and "full valid kv (set_tree S)" and "valid k"
  shows "(if k \<in> kf kv ` set_tree S
          then tsearch cmp kv nl k S \<in> set_tree S \<and> kf kv (tsearch cmp kv nl k S) = k
          else tsearch cmp kv nl k S = nl)"
  using assms
proof (induction S)
  case (Node l a r)
  then have va: "valid (kf kv a)" and fl: "full valid kv (set_tree l)" "full valid kv (set_tree r)"
    using fullD [OF Node.prems(2), of a] by (auto simp: full_def)
  have lt: "b \<in> set_tree l \<Longrightarrow> below (kf kv b) (kf kv a)" "b \<in> set_tree r \<Longrightarrow> below (kf kv a) (kf kv b)" for b
    using Node.prems(1) by (auto simp: sorted_wrt_append)
  have vb: "b \<in> set_tree l \<or> b \<in> set_tree r \<Longrightarrow> valid (kf kv b)" for b
    using fl fullD by blast
  have "k \<notin> kf kv ` set_tree r" if "below k (kf kv a)"
    using lt(2) that vb va Node.prems(3) below_asym by blast
  moreover have "k \<notin> kf kv ` set_tree l" if "\<not> below k (kf kv a)"
    using lt(1) that by blast
  moreover have "k \<notin> kf kv ` set_tree l \<and> k \<notin> kf kv ` set_tree r" if "k = kf kv a"
    using lt that va below_irrefl by fastforce
  ultimately show ?case
    using Node.IH Node.prems fl va cmp_eq [OF Node.prems(3) va] by (auto simp: sorted_wrt_append image_Un)
qed simp

lemma al_insert_mid:
  assumes "sorted_wrt below (map fst (xs @ (k', v') # ys))" and "valid k"
    and "\<And>x. x \<in> fst ` set (xs @ (k', v') # ys) \<Longrightarrow> valid x"
  shows "al_insert cmp k v (xs @ (k', v') # ys) =
     (if below k k' then al_insert cmp k v xs @ (k', v') # ys
      else xs @ (k', v') # al_insert cmp k v ys)"
  using assms
proof (induction xs)
  case (Cons x xs)
  obtain a b where x: "x = (a, b)" by force
  have "valid a" "valid k'" "below a k'" using Cons.prems x by auto
  then have "below k k'" if "below k a" using that cmp_trans Cons.prems(2) by blast
  with Cons x show ?case by auto
qed simp

lemma entries_insert:
  assumes "sorted_wrt below (map fst (entries kv S))" and "full valid kv (set_tree S)" and "valid k"
    and "new \<notin> set_tree S" and kv': "kv' = kv(new := (Some k, Some v))"
  shows "entries kv' (plug (path cmp kv k [] S) (Node Leaf new Leaf)) = al_insert cmp k v (entries kv S)"
  using assms
proof (induction S)
  case Leaf
  then show ?case by (simp add: entry_def)
next
  case (Node l a r)
  have fl: "full valid kv (set_tree l)" "full valid kv (set_tree r)" using Node.prems by (auto simp: full_def)
  have vs: "x \<in> fst ` set (entries kv (Node l a r)) \<Longrightarrow> valid x" for x
    using Node.prems(2) by (auto simp: entries_def dest: fullD)
  have "entry kv' a = entry kv a" "entries kv' l = entries kv l" "entries kv' r = entries kv r"
    using Node.prems(4) unfolding Node.prems(5) by (simp_all add: entries_upd) (simp add: entry_def)
  moreover obtain ev where e: "entry kv a = (kf kv a, ev)" by (simp add: entry_def kf_def)
  moreover have "entries kv' (plug (path cmp kv k [] l) (Node Leaf new Leaf)) = al_insert cmp k v (entries kv l)"
    "entries kv' (plug (path cmp kv k [] r) (Node Leaf new Leaf)) = al_insert cmp k v (entries kv r)"
    using Node.IH Node.prems fl by (auto simp: sorted_wrt_append)
  ultimately show ?case
    using al_insert_mid [of "entries kv l" "kf kv a" ev "entries kv r" k v] vs Node.prems(1,3)
    by (simp add: plug_path_Node del: path.simps)
qed

lemma al_insert_keys: "set (map fst (al_insert cmp k v xs)) = insert k (set (map fst xs))"
proof (induction xs)
  case (Cons x xs)
  then show ?case by (cases x) (simp add: insert_commute)
qed simp

lemma al_insert_sorted:
  assumes "sorted_wrt below (map fst xs)" "valid k" "k \<notin> fst ` set xs"
    and "\<And>x. x \<in> fst ` set xs \<Longrightarrow> valid x"
  shows "sorted_wrt below (map fst (al_insert cmp k v xs))"
  using assms
proof (induction xs)
  case (Cons x xs)
  obtain a b where x: "x = (a, b)" by force
  have v: "valid a" "k \<noteq> a" using Cons.prems x by auto
  then have "below a k" if "\<not> below k a"
    using that cmp_swap [of a k] cmp_eq [of k a] Cons.prems(2) by linarith
  moreover have "below k y" if "below k a" "y \<in> fst ` set xs" for y
    using cmp_trans [of k a y] that Cons.prems x v by auto
  ultimately show ?case
    using Cons x al_insert_keys [of k v xs] by auto
qed simp

lemma map_of_al_insert:
  "k \<notin> fst ` set xs \<Longrightarrow> map_of (al_insert cmp k v xs) = (map_of xs)(k \<mapsto> v)"
proof (induction xs)
  case (Cons x xs)
  then show ?case by (cases x) (auto simp: fun_upd_twist)
qed simp

lemma find_spec:
  assumes sh: "shape kv c t T" and fl: "full valid kv (set_tree T)" and "comparator t = cmp" and "valid k"
    and sorted: "sorted_wrt below (map fst (entries kv T))"
  shows "k \<in> fst ` set (entries kv T) \<Longrightarrow>
           \<exists>a \<in> set_tree T. rbtree_find (Some t) (Some k) = Some a \<and> kf kv a = k"
    and "k \<notin> fst ` set (entries kv T) \<Longrightarrow> rbtree_find (Some t) (Some k) = Some (nil t)"
proof -
  have ks: "fst ` set (entries kv T) = kf kv ` set_tree T" by (auto simp: entries_def image_image)
  have "rbtree_find (Some t) (Some k) = Some (tsearch cmp kv (nil t) k T)"
    using search_eq [of kv c t "[]" T valid k] assms by (simp add: rbtree_find_def shape_def)
  moreover note tsearch_spec [of kv T k "nil t"]
  ultimately show "k \<in> fst ` set (entries kv T) \<Longrightarrow>
      \<exists>a \<in> set_tree T. rbtree_find (Some t) (Some k) = Some a \<and> kf kv a = k"
    "k \<notin> fst ` set (entries kv T) \<Longrightarrow> rbtree_find (Some t) (Some k) = Some (nil t)"
    using assms ks by (auto simp: keys_entries)
qed

lemma entries_valid:
  "full valid kv (set_tree T) \<Longrightarrow> x \<in> fst ` set (entries kv T) \<Longrightarrow> valid x"
  by (auto simp: entries_def dest: fullD)

lemma map_of_entries:
  assumes "sorted_wrt below (map fst (entries kv T))" "full valid kv (set_tree T)" "a \<in> set_tree T"
  shows "map_of (entries kv T) (kf kv a) = snd (kv a)"
proof -
  have "distinct (map fst (entries kv T))"
    using sorted_distinct [OF assms(1)] entries_valid [OF assms(2)] by auto
  moreover have "(kf kv a, the (snd (kv a))) \<in> set (entries kv T)"
    using assms(3) by (auto simp: entries_def entry_def kf_def)
  ultimately have "map_of (entries kv T) (kf kv a) = Some (the (snd (kv a)))" by simp
  then show ?thesis using assms(2,3) by (force simp: full_def)
qed

lemma search_ok:
  assumes "tree_ok cmp valid t xs" and "valid k"
  shows "rbtree_search (Some t) (Some k) = Some (map_of xs k)"
proof -
  from assms(1) obtain kv c T where sh: "shape kv c t T" and fl: "full valid kv (set_tree T)"
    and cm: "comparator t = cmp" and so: "sorted_wrt below (map fst xs)" and xs: "xs = entries kv T"
    by (auto simp: tree_ok_def)
  note find = find_spec [OF sh fl cm assms(2) so [unfolded xs]]
  show ?thesis
  proof (cases "k \<in> fst ` set xs")
    case True
    then obtain a where a: "a \<in> set_tree T" "rbtree_find (Some t) (Some k) = Some a" "kf kv a = k"
      using find(1) xs by auto
    then obtain C l r where "T = plug C (Node l a r)" using focus_exists by blast
    then have "deref t a = Some (nd (kv a) (c a) (ra (nil t) l) (ra (nil t) r) (pa (nil t) C))"
      using shape_deref sh by blast
    then show ?thesis
      using a shape_ne [OF sh a(1)] map_of_entries [OF so [unfolded xs] fl a(1)] xs
      by (simp add: rbtree_search_def)
  next
    case False
    then have "map_of xs k = None" by (simp add: map_of_eq_None_iff)
    with False show ?thesis using find(2) xs by (simp add: rbtree_search_def)
  qed
qed

lemma insert_new:
  assumes ok: "tree_ok cmp valid t xs" and k: "valid k" "k \<notin> fst ` set xs"
    and new: "new \<notin> dom (heap t)" "new \<noteq> 0"
  shows "\<exists>t'. rbtree_insert (Some new) (Some t) (Some k) (Some v) = Some (True, Some t') \<and>
     tree_ok cmp valid t' (al_insert cmp k v xs) \<and> kvfreer t' = kvfreer t \<and> freed t' = freed t \<and>
     dom (heap t') = insert new (dom (heap t))"
proof -
  from ok obtain kv c T where sh: "shape kv c t T" and rb: "rb c T"
    and dm: "dom (heap t) = insert (nil t) (set_tree T)" and fl: "full valid kv (set_tree T)"
    and cm: "comparator t = cmp" and so: "sorted_wrt below (map fst xs)" and xs: "xs = entries kv T"
    by (auto simp: tree_ok_def)
  define C where "C = path cmp kv k [] T"
  have T: "plug C Leaf = T" "set_ctx C = set_tree T" by (simp_all add: C_def set_path)
  define t1 where "t1 = t\<lparr>heap := (heap t)(new \<mapsto> create_node (Some k) (Some v) (nil t) (nil t) (nil t))\<rparr>"
  have nT: "new \<notin> set_tree T" using new dm by simp
  have desc: "insert_descend t1 k (nil t) (root t) = Some (pa (nil t) C)"
    using descend_eq [of kv c t "[]" T valid new t1 k] sh fl nT cm
    by (simp add: t1_def C_def shape_def)
  obtain t5 where t5: "insert_node t1 new = rbtree_insert_fixup t5 new"
    "shape (kv(new := (Some k, Some v))) (c(new := RED)) t5 (plug C (Node Leaf new Leaf))"
    "nil t5 = nil t" "comparator t5 = comparator t" "kvfreer t5 = kvfreer t" "freed t5 = freed t"
    "dom (heap t5) = insert new (dom (heap t))"
    using link_shape [OF _ new _ _ t1_def desc, of kv c valid] sh fl T side_path [of cmp kv k "[]" T] cm
    by (auto simp: C_def)
  have "ins_inv (c(new := RED)) C (Node Leaf new Leaf)"
    using ins_inv_start [of c C new] rb T nT by simp
  from insert_fixup_fixed [OF t5(2) this]
  obtain t' c' T' where t': "rbtree_insert_fixup t5 new = Some t'"
    "shape (kv(new := (Some k, Some v))) c' t' T'" "inorder T' = inorder (plug C (Node Leaf new Leaf))"
    "rb c' T'" "same_but (set_tree (plug C (Node Leaf new Leaf))) t5 t'"
    by (auto simp: fixed_def)
  have en: "entries (kv(new := (Some k, Some v))) T' = al_insert cmp k v xs"
    using entries_insert [OF so [unfolded xs] fl k(1) nT refl, of v] t'(3) xs by (simp add: entries_def C_def)
  have set: "set_tree T' = insert new (set_tree T)"
    using arg_cong [OF t'(3), of set] T(2) by simp
  have "tree_ok cmp valid t' (al_insert cmp k v xs)"
    unfolding tree_ok_def
    by (rule exI, rule exI [of _ c'], rule exI [of _ T'])
       (use t' t5 set dm fl k cm en al_insert_sorted [OF so k entries_valid [OF fl, folded xs]] in
         \<open>auto simp: same_but_def full_def\<close>)
  moreover have "rbtree_find (Some t) (Some k) = Some (nil t)"
    using find_spec(2) [OF sh fl cm k(1) so [unfolded xs]] k(2) xs by simp
  ultimately show ?thesis
    using t5 t'(1,5) by (auto simp: rbtree_insert_def rbtree_create_node_def t1_def same_but_def)
qed

lemma insert_ok:
  assumes ok: "tree_ok cmp valid t xs" and k: "valid k"
    and new: "\<And>a. alloc = Some a \<Longrightarrow> a \<notin> dom (heap t) \<and> a \<noteq> 0"
  shows "\<exists>t'. rbtree_insert alloc (Some t) (Some k) (Some v) =
       Some (k \<notin> fst ` set xs \<and> alloc \<noteq> None, Some t') \<and>
     tree_ok cmp valid t' (if k \<in> fst ` set xs \<or> alloc = None then xs else al_insert cmp k v xs) \<and>
     kvfreer t' = kvfreer t \<and> freed t' = freed t"
proof -
  from ok obtain kv c T where sh: "shape kv c t T" and fl: "full valid kv (set_tree T)"
    and cm: "comparator t = cmp" and so: "sorted_wrt below (map fst xs)" and xs: "xs = entries kv T"
    by (auto simp: tree_ok_def)
  note find = find_spec [OF sh fl cm k so [unfolded xs]]
  show ?thesis
  proof (cases "k \<in> fst ` set xs")
    case True
    then obtain a where "a \<in> set_tree T" "rbtree_find (Some t) (Some k) = Some a" using find(1) xs by blast
    then show ?thesis using shape_ne [OF sh] ok True by (auto simp: rbtree_insert_def)
  next
    case False
    show ?thesis
    proof (cases alloc)
      case None
      then show ?thesis using find(2) False xs ok by (simp add: rbtree_insert_def rbtree_create_node_def)
    next
      case (Some a)
      then show ?thesis using insert_new [OF ok k False, of a v] new False by auto
    qed
  qed
qed

lemma entries_set_value:
  assumes "sorted_wrt below (map fst (entries kv T))" "full valid kv (set_tree T)" "a \<in> set_tree T"
  shows "entries (kv(a := (fst (kv a), Some v))) T = al_update (kf kv a) v (entries kv T)"
proof -
  have "distinct (map fst (entries kv T))"
    using sorted_distinct [OF assms(1)] entries_valid [OF assms(2)] by auto
  then have "distinct (map (kf kv) (inorder T))" by (simp add: keys_entries)
  then have "b = a" if "b \<in> set_tree T" "kf kv b = kf kv a" for b
    using that assms(3) by (auto simp: distinct_map inj_on_def)
  then show ?thesis
    by (auto simp: entries_def al_update_def entry_def kf_def)
qed

lemma replace_found:
  assumes ok: "tree_ok cmp valid t xs" and k: "valid k" "k \<in> fst ` set xs"
  shows "\<exists>t'. rbtree_replace alloc (Some t) (Some k) (Some v) = Some (True, Some t') \<and>
     tree_ok cmp valid t' (al_update k v xs) \<and> kvfreer t' = kvfreer t \<and>
     freed t' = freed t @ (if kvfreer t then [(Some k, map_of xs k)] else [])"
proof -
  from ok obtain kv c T where sh: "shape kv c t T" and rb: "rb c T"
    and dm: "dom (heap t) = insert (nil t) (set_tree T)" and fl: "full valid kv (set_tree T)"
    and cm: "comparator t = cmp" and so: "sorted_wrt below (map fst xs)" and xs: "xs = entries kv T"
    by (auto simp: tree_ok_def)
  obtain a where a: "a \<in> set_tree T" "rbtree_find (Some t) (Some k) = Some a" "kf kv a = k"
    using find_spec(1) [OF sh fl cm k(1) so [unfolded xs]] k(2) xs by blast
  obtain C l r where "T = plug C (Node l a r)" using focus_exists a(1) by blast
  then have d: "deref t a = Some (nd (kv a) (c a) (ra (nil t) l) (ra (nil t) r) (pa (nil t) C))"
    using shape_deref sh by blast
  have v: "snd (kv a) = map_of xs k"
    using map_of_entries [OF so [unfolded xs] fl a(1)] a(3) xs by simp
  let ?t = "call_kvfreer t (Some k) (snd (kv a))"
  have f: "shape kv c ?t T" "heap ?t = heap t" "nil ?t = nil t" "comparator ?t = cmp" "kvfreer ?t = kvfreer t"
    using sh cm by (simp_all add: call_kvfreer_def shape_def)
  obtain t' where t': "set_value ?t a v = Some t'" "shape (kv(a := (fst (kv a), Some v))) c t' T"
    "same_but (set_tree T) ?t t'" using set_value_shape [OF f(1) a(1)] by blast
  have "full valid (kv(a := (fst (kv a), Some v))) (set_tree T)" using fl a(1) by (force simp: full_def)
  moreover have "entries (kv(a := (fst (kv a), Some v))) T = al_update k v xs"
    using entries_set_value [OF so [unfolded xs] fl a(1)] a(3) xs by simp
  ultimately have "tree_ok cmp valid t' (al_update k v xs)"
    using t' f dm rb so unfolding tree_ok_def same_but_def by (metis keys_al_update)
  then show ?thesis
    using a d t' f v shape_ne [OF sh a(1)]
    by (auto simp: rbtree_replace_def call_kvfreer_def same_but_def)
qed

lemma replace_missing:
  assumes ok: "tree_ok cmp valid t xs" and k: "valid k" "k \<notin> fst ` set xs"
  shows "rbtree_replace alloc (Some t) (Some k) (Some v) = rbtree_insert alloc (Some t) (Some k) (Some v)"
proof -
  from ok obtain kv c T where "shape kv c t T" "full valid kv (set_tree T)" "comparator t = cmp"
    "sorted_wrt below (map fst (entries kv T))" "xs = entries kv T"
    by (auto simp: tree_ok_def)
  then show ?thesis using find_spec(2) [of kv c t T k] k by (simp add: rbtree_replace_def)
qed

lemma new_ok:
  assumes "a \<noteq> 0"
  shows "\<exists>t :: ('k, 'v) rb_tree. rbtree_new True (Some a) cmp freer = Some t \<and> tree_ok cmp valid t [] \<and>
     kvfreer t = freer \<and> freed t = []"
proof -
  let ?t = "\<lparr>root = a, comparator = cmp, kvfreer = freer, nil = a,
    heap = [a \<mapsto> create_node None None 0 0 0], freed = []\<rparr> :: ('k, 'v) rb_tree"
  have "rbtree_new True (Some a) cmp freer = Some ?t"
    by (simp add: rbtree_new_def rbtree_create_node_def)
  moreover have "shape kv c ?t Leaf" for kv c
    using assms by (auto simp: shape_def create_node_def nd_def)
  then have "tree_ok cmp valid ?t []"
    unfolding tree_ok_def by (intro exI [where x = Leaf] exI conjI) (auto simp: rb_def full_def)
  ultimately show ?thesis by simp
qed

end

section \<open>The comparators\<close>

lemma of_char_bounds: "0 \<le> (of_char c :: int)" "(of_char c :: int) < 256"
  using nat_of_char_less_256 [of c] of_nat_of_char [of c, where 'a = int] by linarith+

lemma char_value_inj: "char_value sg a = char_value sg b \<longleftrightarrow> a = b"
proof -
  have "(of_char a :: int) = of_char b \<longleftrightarrow> a = b" by simp
  then show ?thesis
    using of_char_bounds [of a] of_char_bounds [of b] by (auto simp: char_value_def Let_def split: if_splits)
qed

lemma char_value_0: "char_value sg a = 0 \<longleftrightarrow> a = CHR 0x00"
  using char_value_inj [of sg a "CHR 0x00"] by (simp add: char_value_def)

lemma str_cmp_eq: "no_nul a \<Longrightarrow> no_nul b \<Longrightarrow> rbtree_str_cmp sg a b = 0 \<longleftrightarrow> a = b"
  by (induction sg a b rule: rbtree_str_cmp.induct)
     (auto simp: no_nul_def char_value_0 char_value_inj of_bool_def dest: not_less_iff_gr_or_eq [THEN iffD1]
       split: if_splits)

lemma str_cmp_swap: "rbtree_str_cmp sg a b = - rbtree_str_cmp sg b a"
  by (induction sg a b rule: rbtree_str_cmp.induct) auto

lemma str_cmp_trans:
  "rbtree_str_cmp sg a b < 0 \<Longrightarrow> rbtree_str_cmp sg b d < 0 \<Longrightarrow> rbtree_str_cmp sg a d < 0"
proof (induction sg a b arbitrary: d rule: rbtree_str_cmp.induct)
  case (4 sg x xs y ys)
  show ?case
  proof (cases d)
    case Nil
    with 4 show ?thesis by (auto split: if_splits simp: of_bool_def)
  next
    case (Cons z zs)
    with 4 show ?thesis by (auto split: if_splits simp: of_bool_def)
  qed
qed (case_tac [!] d, auto simp: of_bool_def split: if_splits)

interpretation ptr_order: key_order rbtree_ptr_cmp "\<lambda>_. True"
  by unfold_locales (auto simp: rbtree_ptr_cmp_def of_bool_def split: if_splits)

interpretation int_order: key_order rbtree_int_cmp "\<lambda>_. True"
  by unfold_locales (auto simp: rbtree_int_cmp_def of_bool_def split: if_splits)

interpretation str_order: key_order "rbtree_str_cmp sg" no_nul for sg
proof unfold_locales
  fix a b d :: string
  show "rbtree_str_cmp sg a b < 0 \<longleftrightarrow> 0 < rbtree_str_cmp sg b a"
    using str_cmp_swap [of sg a b] by simp
qed (use str_cmp_eq str_cmp_trans in blast)+

end
