(* ===== verification/Rb_Erase.thy ===== *)
theory Rb_Erase
  imports Rb_Remove
begin

text \<open>
  Taking a node out of the tree: \<^verbatim>\<open>rbtree_transplant\<close> and the three cases of \<^verbatim>\<open>rbtree_erase\<close>, the
  removal by key, and the refinement of \<^verbatim>\<open>rbtree_remove\<close> by removal from the association list.
\<close>

section \<open>Transplanting\<close>

text \<open>What stays the same outside the nodes \<open>A\<close> and the sentinel.\<close>

definition kept :: "addr set \<Rightarrow> ('k, 'v) rb_tree \<Rightarrow> ('k, 'v) rb_tree \<Rightarrow> bool" where
  "kept A t t' \<longleftrightarrow>
     comparator t' = comparator t \<and> kvfreer t' = kvfreer t \<and> nil t' = nil t \<and> freed t' = freed t \<and>
     dom (heap t') = dom (heap t) \<and> (\<forall>a. a \<notin> insert (nil t) A \<longrightarrow> heap t' a = heap t a)"

text \<open>The node at \<open>z\<close> still holds its key and value.\<close>

definition holds :: "('k, 'v) kvmap \<Rightarrow> ('k, 'v) rb_tree \<Rightarrow> addr \<Rightarrow> bool" where
  "holds kv t z \<longleftrightarrow> (\<exists>n. heap t z = Some n \<and> nkey n = fst (kv z) \<and> nvalue n = snd (kv z))"

lemma kept_trans: "kept A t u \<Longrightarrow> kept A u v \<Longrightarrow> kept A t v"
  by (simp add: kept_def)

lemma kept_mono: "kept A t u \<Longrightarrow> A \<subseteq> B \<Longrightarrow> kept B t u"
  by (auto simp: kept_def)

lemma same_but_kept: "same_but A t u \<Longrightarrow> kept A t u"
  by (auto simp: kept_def same_but_def)

lemma transplant_eq:
  assumes u: "heap t u = Some un" "parent un = p" and v: "heap t v = Some vn" and "v \<noteq> u"
    and p: "p \<noteq> nil t \<Longrightarrow> heap t p = Some pn \<and> p \<noteq> u \<and> p \<noteq> v"
  shows "\<exists>t'. rbtree_transplant t u v = Some t' \<and> root t' = (if p = nil t then v else root t) \<and>
     comparator t' = comparator t \<and> kvfreer t' = kvfreer t \<and> nil t' = nil t \<and> freed t' = freed t \<and>
     (p \<noteq> nil t \<longrightarrow> heap t' p = Some (if u = left pn then pn\<lparr>left := v\<rparr> else pn\<lparr>right := v\<rparr>)) \<and>
     heap t' v = Some (vn\<lparr>parent := p\<rparr>) \<and>
     (\<forall>a. a \<noteq> v \<and> (a = p \<longrightarrow> p = nil t) \<longrightarrow> heap t' a = heap t a)"
proof (cases "p = nil t")
  case True
  then show ?thesis using u v by (simp add: rbtree_transplant_def field_defs)
next
  case False
  then have "heap t p = Some pn" "p \<noteq> u" "u \<noteq> p" "p \<noteq> v" "v \<noteq> p" using p by auto
  then show ?thesis using u v False
    by (cases "left pn = u") (auto simp: rbtree_transplant_def field_defs)
qed

lemma unlink_leaf:
  assumes sh: "shape kv c t (plug C Z)" and Z: "Z = Node Leaf z s \<or> Z = Node s z Leaf"
  shows "\<exists>t'. rbtree_transplant t z (ra (nil t) s) = Some t' \<and> shape kv c t' (plug C s) \<and> at_hole t' C s \<and>
     kept (set_tree (plug C s)) t t'"
proof -
  let ?nl = "nil t" and ?h = "heap t" and ?v = "ra (nil t) s"
  obtain zl zr where z: "?h z = Some (nd (kv z) (c z) zl zr (pa ?nl C))"
    and rs: "rept kv c ?h ?nl z s" "repc kv c ?h ?nl z C"
    and fr: "z \<noteq> ?nl" "z \<notin> set_tree s" "z \<notin> set_ctx C" "set_tree s \<inter> set_ctx C = {}"
    and nl: "?nl \<notin> set_tree s" "?nl \<notin> set_ctx C" "?nl \<noteq> 0" and ds: "distinct (inorder s)" "dist_ctx C"
    and z0: "0 \<notin> set_tree s" "0 \<notin> set_ctx C"
    using sh Z by (auto simp: shape_def)
  obtain np where np: "?h ?nl = Some (nd (None, None) BLACK 0 0 np)" using sh by (auto simp: shape_def)
  have vz: "?v \<noteq> z" using fr ra_in [of s ?nl] by (cases s) auto
  obtain vn where vn: "?h ?v = Some vn" using rept_root [OF rs(1)] np by (cases s) auto
  obtain pn where pn: "pa ?nl C \<noteq> ?nl \<Longrightarrow> ?h (pa ?nl C) = Some pn \<and> pa ?nl C \<noteq> z \<and> pa ?nl C \<noteq> ?v"
    using repc_top [OF rs(2)] pa_in [of C ?nl] ra_in [of s ?nl] fr nl
    by (metis disj_neq pa_eq_nil ra_eq_nil)
  from transplant_eq [OF z _ vn vz pn]
  obtain t' where t': "rbtree_transplant t z ?v = Some t'" "root t' = (if C = [] then ?v else root t)"
    "comparator t' = comparator t" "kvfreer t' = kvfreer t" "nil t' = ?nl" "freed t' = freed t"
    "C \<noteq> [] \<longrightarrow> heap t' (pa ?nl C) = Some (if z = left pn then pn\<lparr>left := ?v\<rparr> else pn\<lparr>right := ?v\<rparr>)"
    "heap t' ?v = Some (vn\<lparr>parent := pa ?nl C\<rparr>)"
    and out: "\<And>a. a \<noteq> ?v \<Longrightarrow> \<not> (a = pa ?nl C \<and> C \<noteq> []) \<Longrightarrow> heap t' a = ?h a"
    using nl by auto
  have v': "?v \<in> insert ?nl (set_tree s)" by (cases s) auto
  have p': "C \<noteq> [] \<Longrightarrow> pa ?nl C \<in> set_ctx C" by simp
  have outs: "heap t' a = ?h a" if "a \<in> set_tree s" "a \<noteq> ?v" for a
    by (rule out) (use that fr(4) p' in auto)
  have outc: "heap t' a = ?h a" if "a \<in> set_ctx C" "a \<noteq> pa ?nl C" for a
    by (rule out) (use that fr(4) nl v' in auto)
  have s: "rept kv c (heap t') ?nl (pa ?nl C) s"
    by (rule rept_move [OF rs(1) _ outs ds(1)]) (use t'(8) vn in simp_all)
  have C: "repc kv c (heap t') ?nl ?v C"
    by (rule repc_move [OF rs(2) fr(3) ds(2) _ outc fr(1)]) (use t'(7) pn nl in simp_all)
  have "heap t' ?nl = Some (nd (None, None) BLACK 0 0 (if s = Leaf then pa ?nl C else np))"
  proof -
    have "\<not> (?nl = pa ?nl C \<and> C \<noteq> [])" using p' nl(2) by metis
    then show ?thesis using t'(8) vn np out [of ?nl] nl by (cases s) auto
  qed
  moreover have "root t' = ra ?nl (plug C s)"
    using t'(2) shape_root [OF sh] ra_plug_cong [of C ?nl s Z] by auto
  ultimately have "shape kv c t' (plug C s)" "at_hole t' C s"
    using t'(5) s C nl z0 fr ds by (auto simp: shape_def at_hole_def)
  moreover have "kept (set_tree (plug C s)) t t'"
  proof -
    have "(heap t' a = None) = (?h a = None)" for a
      using t'(7,8) vn pn nl(2) out [of a] by (cases "a = ?v \<or> a = pa ?nl C \<and> C \<noteq> []") auto
    then have "dom (heap t') = dom ?h" by (rule dom_eqI)
    moreover have "heap t' a = ?h a" if "a \<notin> insert ?nl (set_tree (plug C s))" for a
      by (rule out) (use that v' p' in \<open>auto simp del: pa_in\<close>)
    ultimately show ?thesis using t'(3-6) unfolding kept_def by blast
  qed
  ultimately show ?thesis using t'(1) by blast
qed

section \<open>Putting the successor in place of the removed node\<close>

lemma adopt_eq:
  assumes z: "heap t z = Some (nd kz cz lz rz p)" and y: "heap t y = Some (nd ky cy yl yr yp)"
    and l: "heap t lz = Some nl" and ne: "y \<noteq> z" "lz \<noteq> z" "lz \<noteq> y"
    and p: "p \<noteq> nil t \<Longrightarrow> heap t p = Some pn \<and> p \<noteq> z \<and> p \<noteq> y \<and> p \<noteq> lz"
  shows "\<exists>t'. adopt t z y = Some t' \<and> root t' = (if p = nil t then y else root t) \<and>
     comparator t' = comparator t \<and> kvfreer t' = kvfreer t \<and> nil t' = nil t \<and> freed t' = freed t \<and>
     (p \<noteq> nil t \<longrightarrow> heap t' p = Some (if z = left pn then pn\<lparr>left := y\<rparr> else pn\<lparr>right := y\<rparr>)) \<and>
     heap t' y = Some (nd ky cz lz yr p) \<and> heap t' lz = Some (nl\<lparr>parent := y\<rparr>) \<and>
     (\<forall>a. a \<noteq> y \<and> a \<noteq> lz \<and> (a = p \<longrightarrow> p = nil t) \<longrightarrow> heap t' a = heap t a)"
proof -
  obtain t2 where t2: "rbtree_transplant t z y = Some t2" "root t2 = (if p = nil t then y else root t)"
    "comparator t2 = comparator t" "kvfreer t2 = kvfreer t" "nil t2 = nil t" "freed t2 = freed t"
    "p \<noteq> nil t \<longrightarrow> heap t2 p = Some (if z = left pn then pn\<lparr>left := y\<rparr> else pn\<lparr>right := y\<rparr>)"
    "heap t2 y = Some (nd ky cy yl yr p)" and out: "\<forall>a. a \<noteq> y \<and> (a = p \<longrightarrow> p = nil t) \<longrightarrow> heap t2 a = heap t a"
    using transplant_eq [OF z _ y, of p pn] ne p by auto
  have "heap t2 z = heap t z" "heap t2 lz = heap t lz"
    using out ne p by metis+
  then have "heap t2 z = Some (nd kz cz lz rz p)" "heap t2 lz = Some nl" using z l by simp_all
  moreover have "z \<noteq> y" "z \<noteq> lz" "y \<noteq> lz" using ne by auto
  ultimately show ?thesis
    using t2 out ne p by (auto simp: adopt_def field_defs)
qed

lemma adopt_shape:
  fixes t :: "('k, 'v) rb_tree"
  assumes z: "heap t z = Some (nd (kv z) (c z) (ra (nil t) l) zr (pa (nil t) C))"
    and y: "heap t y = Some (nd (kv y) cy yl (ra (nil t) R) yp)"
    and parts: "rept kv c (heap t) (nil t) z l" "rept kv c (heap t) (nil t) y R"
      "repc kv c (heap t) (nil t) z C" "l \<noteq> Leaf"
    and ds: "distinct (inorder (plug C (Node l y R)))" "z \<notin> set_tree (plug C (Node l y R))"
    and nl: "nil t \<notin> set_tree (plug C (Node l y R))" "0 \<notin> set_tree (plug C (Node l y R))"
      "nil t \<noteq> 0" "z \<noteq> nil t" "heap t (nil t) = Some (nd (None, None) BLACK 0 0 np)"
    and root: "C \<noteq> [] \<Longrightarrow> root t = ra (nil t) (plug C (Node l y R))"
  shows "\<exists>t'. adopt t z y = Some t' \<and> shape kv (c(y := c z)) t' (plug C (Node l y R)) \<and>
     heap t' (nil t) = heap t (nil t) \<and> kept (set_tree (plug C (Node l y R))) t t'"
proof -
  let ?nl = "nil t" and ?h = "heap t" and ?l = "ra (nil t) l" and ?T = "plug C (Node l y R)"
  have lin: "?l \<in> set_tree l" and pin: "C \<noteq> [] \<Longrightarrow> pa ?nl C \<in> set_ctx C" using parts(4) by simp_all
  have fr: "y \<noteq> z" "z \<notin> set_tree l" "z \<notin> set_ctx C" "y \<notin> set_tree l" "y \<notin> set_ctx C" "y \<notin> set_tree R"
    "set_tree l \<inter> set_ctx C = {}" "set_tree R \<inter> set_ctx C = {}" "set_tree l \<inter> set_tree R = {}"
    "dist_ctx C" "distinct (inorder l)" "?nl \<notin> set_ctx C" "y \<noteq> ?nl" "?l \<noteq> ?nl"
    using ds nl lin by auto
  have ly: "?l \<noteq> z" "?l \<noteq> y" using lin fr by auto
  obtain ln where ln: "?h ?l = Some ln" using rept_root [OF parts(1,4)] by blast
  obtain pn where pn: "pa ?nl C \<noteq> ?nl \<Longrightarrow> ?h (pa ?nl C) = Some pn \<and> pa ?nl C \<noteq> z \<and> pa ?nl C \<noteq> y \<and> pa ?nl C \<noteq> ?l"
    using repc_top [OF parts(3)] pin lin fr by (metis disj_neq pa_eq_nil)
  from adopt_eq [OF z y ln fr(1) ly pn]
  obtain t' where t': "adopt t z y = Some t'" "root t' = (if C = [] then y else root t)"
    "comparator t' = comparator t" "kvfreer t' = kvfreer t" "nil t' = ?nl" "freed t' = freed t"
    "C \<noteq> [] \<longrightarrow> heap t' (pa ?nl C) = Some (if z = left pn then pn\<lparr>left := y\<rparr> else pn\<lparr>right := y\<rparr>)"
    "heap t' y = Some (nd (kv y) (c z) ?l (ra ?nl R) (pa ?nl C))" "heap t' ?l = Some (ln\<lparr>parent := y\<rparr>)"
    and out: "\<And>a. a \<noteq> y \<Longrightarrow> a \<noteq> ?l \<Longrightarrow> \<not> (a = pa ?nl C \<and> C \<noteq> []) \<Longrightarrow> heap t' a = ?h a"
    using fr by auto
  have outR: "heap t' a = ?h a" if "a \<in> set_tree R" for a
    by (rule out) (use that fr lin pin in \<open>auto simp del: pa_in ra_in\<close>)
  have outl: "heap t' a = ?h a" if "a \<in> set_tree l" "a \<noteq> ?l" for a
    by (rule out) (use that fr pin in \<open>auto simp del: pa_in ra_in\<close>)
  have outC: "heap t' a = ?h a" if "a \<in> set_ctx C" "a \<noteq> pa ?nl C" for a
    by (rule out) (use that fr lin in \<open>auto simp del: pa_in ra_in\<close>)
  have outn: "heap t' ?nl = ?h ?nl" by (rule out) (use fr pin in metis)+
  have R: "rept kv c (heap t') ?nl y R" using parts(2) outR rept_cong by blast
  have l: "rept kv c (heap t') ?nl y l"
    by (rule rept_move [OF parts(1) _ outl fr(11)]) (use t'(9) ln in simp_all)
  have C: "repc kv c (heap t') ?nl y C"
    by (rule repc_move [OF parts(3) fr(3,10) _ outC nl(4)]) (use t'(7) pn fr in simp_all)
  have "shape kv (c(y := c z)) t' ?T"
    unfolding shape_def using t'(2,5,8) R l C fr ds nl root outn by auto
  moreover have "(heap t' a = None) = (?h a = None)" for a
    using t'(7-9) y ln pn fr out [of a]
    by (cases "a = y \<or> a = ?l \<or> a = pa ?nl C \<and> C \<noteq> []") auto
  then have "dom (heap t') = dom ?h" by (rule dom_eqI)
  moreover have "heap t' a = ?h a" if "a \<notin> insert ?nl (set_tree ?T)" for a
    by (rule out) (use that lin pin in \<open>auto simp del: pa_in ra_in\<close>)
  ultimately show ?thesis using t'(1,3-6) outn unfolding kept_def by blast
qed

section \<open>The successor\<close>

lemma min_focus:
  assumes "shape kv c t (plug C r)" and "r \<noteq> Leaf"
  shows "\<exists>E y yr. r = plug E (Node Leaf y yr) \<and> ctx_before E = [] \<and> min_loop t (ra (nil t) r) = Some y"
  using assms
proof (induction r arbitrary: C)
  case (Node l a q)
  note d = shape_deref [OF Node.prems(1)]
  show ?case
  proof (cases "l = Leaf")
    case True
    then have "min_loop t a = Some a" using d by (subst min_loop.simps) simp
    then show ?thesis using True by (intro exI [of _ "[]"]) simp
  next
    case False
    from Node.IH(1) [of "LF a q # C"] Node.prems False
    obtain E y yr where E: "l = plug E (Node Leaf y yr)" "ctx_before E = []" "min_loop t (ra (nil t) l) = Some y"
      by auto
    have "ra (nil t) l \<noteq> nil t" using Node.prems(1) False ra_in [of l "nil t"] by (auto simp: shape_def)
    then have "min_loop t a = Some y" using d E(3) by (subst min_loop.simps) simp
    moreover have "ctx_before (E @ [LF a q]) = []" using E(2) by (induction E rule: set_ctx.induct) auto
    moreover have "Node l a q = plug (E @ [LF a q]) (Node Leaf y yr)" using E(1) by (simp add: plug_append)
    ultimately show ?thesis by (metis ra.simps(2))
  qed
qed simp

lemma unlink_near:
  assumes sh: "shape kv c t (plug C (Node l z (Node Leaf y yr)))" and l: "l \<noteq> Leaf"
  shows "\<exists>t1 t'. set_parent t (ra (nil t) yr) y = Some t1 \<and> adopt t1 z y = Some t' \<and>
     shape kv (c(y := c z)) t' (plug (RF l y # C) yr) \<and> at_hole t' (RF l y # C) yr \<and>
     kept (insert z (set_tree (plug (RF l y # C) yr))) t t' \<and> holds kv t' z"
proof -
  let ?nl = "nil t" and ?h = "heap t"
  obtain np where np: "?h ?nl = Some (nd (None, None) BLACK 0 0 np)" using sh by (auto simp: shape_def)
  obtain t1 where t1: "set_parent t (ra ?nl yr) y = Some t1" "root t1 = root t" "nil t1 = ?nl"
    "comparator t1 = comparator t" "kvfreer t1 = kvfreer t" "freed t1 = freed t"
    "heap t1 = (if yr = Leaf then ?h(?nl \<mapsto> nd (None, None) BLACK 0 0 y) else ?h)"
  proof (cases yr)
    case Leaf
    then show ?thesis using np
      by (intro that [of "t\<lparr>heap := ?h(?nl \<mapsto> nd (None, None) BLACK 0 0 y)\<rparr>"]) (simp_all add: set_parent_def)
  next
    case (Node a b d)
    then have "?h b = Some (nd (kv b) (c b) (ra ?nl a) (ra ?nl d) y)" using sh by (simp add: shape_def)
    then show ?thesis using Node that by (simp add: set_parent_def fun_upd_idem)
  qed
  have k: "kept A t t1" for A
    using t1(3-7) np by (auto simp: kept_def split: if_splits)
  have "\<exists>t'. adopt t1 z y = Some t' \<and> shape kv (c(y := c z)) t' (plug C (Node l y yr)) \<and>
      heap t' (nil t1) = heap t1 (nil t1) \<and> kept (set_tree (plug C (Node l y yr))) t1 t'"
  proof (rule adopt_shape)
    show "heap t1 (nil t1) = Some (nd (None, None) BLACK 0 0 (if yr = Leaf then y else np))"
      using t1(3,7) np by simp
    show "root t1 = ra (nil t1) (plug C (Node l y yr))" if "C \<noteq> []"
      using that t1(2,3) shape_root [OF sh] ra_plug_cong [of C ?nl "Node l y yr" "Node l z (Node Leaf y yr)"] by simp
  qed (use sh t1 l in \<open>auto simp: shape_def\<close>)
  then obtain t' where t': "adopt t1 z y = Some t'" "shape kv (c(y := c z)) t' (plug C (Node l y yr))"
    "heap t' ?nl = heap t1 ?nl" "kept (set_tree (plug C (Node l y yr))) t1 t'" using t1(3) by auto
  then have "at_hole t' (RF l y # C) yr" using t1(3,7) by (auto simp: at_hole_def kept_def)
  moreover have "heap t z = Some (nd (kv z) (c z) (ra ?nl l) y (pa ?nl C))" "z \<noteq> ?nl"
    "z \<notin> set_tree (plug C (Node l y yr))"
    using sh by (auto simp: shape_def)
  then have "holds kv t' z" using t'(4) t1(3,7) by (auto simp: kept_def holds_def)
  moreover have "kept (insert z (set_tree (plug C (Node l y yr)))) t t'"
    by (rule kept_mono [OF kept_trans [OF k t'(4)]]) auto
  ultimately show ?thesis using t1(1) t' by auto
qed

lemma dist_ctx_append [simp]:
  "dist_ctx (C @ D) \<longleftrightarrow> dist_ctx C \<and> dist_ctx D \<and> set_ctx C \<inter> set_ctx D = {}"
  by (induction C rule: set_ctx.induct) auto

lemma unlink_far:
  assumes sh: "shape kv c t (plug (E @ RF l z # C) (Node Leaf y yr))" and l: "l \<noteq> Leaf" and E: "E \<noteq> []"
  shows "\<exists>ta na tb yb t1 t'. rbtree_transplant t y (ra (nil t) yr) = Some ta \<and> deref ta z = Some na \<and>
     set_right ta y (right na) = Some tb \<and> deref tb y = Some yb \<and> set_parent tb (right yb) y = Some t1 \<and>
     adopt t1 z y = Some t' \<and> shape kv (c(y := c z)) t' (plug (E @ RF l y # C) yr) \<and>
     at_hole t' (E @ RF l y # C) yr \<and> kept (insert z (set_tree (plug (E @ RF l y # C) yr))) t t' \<and>
     holds kv t' z"
proof -
  let ?nl = "nil t" and ?D = "E @ RF l z # C" and ?R = "plug E yr" and ?T = "plug C (Node l y (plug E yr))"
  obtain ta where ta: "rbtree_transplant t y (ra ?nl yr) = Some ta" "shape kv c ta (plug ?D yr)"
    "at_hole ta ?D yr" "kept (set_tree (plug ?D yr)) t ta"
    using unlink_leaf [OF sh disjI1 [OF refl]] by blast
  have nla: "nil ta = ?nl" using ta(4) by (simp add: kept_def)
  have sha: "shape kv c ta (plug C (Node l z ?R))" using ta(2) by (simp add: plug_append)
  define e where "e = ra ?nl ?R"
  have eE: "e \<in> set_ctx E" unfolding e_def by (rule ra_plug_in [OF E])
  have fr: "y \<noteq> z" "y \<notin> set_tree (plug ?D yr)" "y \<noteq> ?nl" "y \<noteq> 0" "e \<noteq> y" "e \<noteq> z" "e \<noteq> ?nl"
    using shape_distinct [OF sh] sh eE by (auto simp: shape_def)
  have z: "deref ta z = Some (nd (kv z) (c z) (ra ?nl l) e (pa ?nl C))"
    using shape_deref [OF sha] nla e_def by simp
  have "heap t y = Some (nd (kv y) (c y) ?nl (ra ?nl yr) (pa ?nl ?D))" using shape_deref [OF sh] by (simp add: deref_def)
  then have y: "heap ta y = Some (nd (kv y) (c y) ?nl (ra ?nl yr) (pa ?nl ?D))"
    using ta(4) fr by (simp add: kept_def)
  obtain np where np: "heap ta ?nl = Some (nd (None, None) BLACK 0 0 np)" using ta(2) nla by (auto simp: shape_def)
  have R: "rept kv c (heap ta) ?nl z ?R" using sha nla by (simp add: shape_def)
  then obtain en where en: "heap ta e = Some en"
    using rept_root [of kv c "heap ta" ?nl z ?R] eE E e_def ra_plug_in [OF E] by (metis rept_root set_plug UnI2 empty_iff set_tree.simps(1))
  let ?t1 = "ta\<lparr>heap := (heap ta)(y \<mapsto> nd (kv y) (c y) ?nl e (pa ?nl ?D), e \<mapsto> en\<lparr>parent := y\<rparr>)\<rparr>"
  have ds: "distinct (inorder ?T)" "distinct (inorder ?R)" "z \<notin> set_tree ?T" "?nl \<notin> set_tree ?T" "0 \<notin> set_tree ?T"
    "y \<notin> set_tree l" "y \<notin> set_ctx C" "e \<notin> set_tree l" "e \<notin> set_ctx C" "y \<notin> set_tree ?R"
    using shape_distinct [OF sh] sh eE by (auto simp: shape_def)
  have R1: "rept kv c (heap ?t1) ?nl y ?R"
    by (rule rept_move [OF R _ _ ds(2)]) (use en fr ds(10) in \<open>auto simp: e_def [symmetric]\<close>)
  have parts: "rept kv c (heap ta) ?nl z l" "repc kv c (heap ta) ?nl z C" "?nl \<noteq> 0" "z \<noteq> ?nl"
    using sha nla by (auto simp: shape_def)
  have "\<exists>t'. adopt ?t1 z y = Some t' \<and> shape kv (c(y := c z)) t' ?T \<and>
      heap t' (nil ?t1) = heap ?t1 (nil ?t1) \<and> kept (set_tree ?T) ?t1 t'"
  proof (rule adopt_shape)
    show "root ?t1 = ra (nil ?t1) ?T" if "C \<noteq> []"
      using that shape_root [OF sha] ra_plug_cong [of C "nil ta" "Node l y ?R" "Node l z ?R"] by simp
    show "heap ?t1 z = Some (nd (kv z) (c z) (ra (nil ?t1) l) e (pa (nil ?t1) C))"
      using z fr nla by (simp add: deref_def)
    show "heap ?t1 y = Some (nd (kv y) (c y) ?nl (ra (nil ?t1) ?R) (pa ?nl ?D))"
      using fr nla by (simp add: e_def)
    show "heap ?t1 (nil ?t1) = Some (nd (None, None) BLACK 0 0 np)" using np nla fr by simp
    show "rept kv c (heap ?t1) (nil ?t1) y ?R" using R1 nla by simp
    show "rept kv c (heap ?t1) (nil ?t1) z l" "repc kv c (heap ?t1) (nil ?t1) z C"
      using parts ds nla by simp_all
  qed (use ds l nla parts in simp_all)
  then obtain t' where t': "adopt ?t1 z y = Some t'" "shape kv (c(y := c z)) t' ?T"
    "heap t' ?nl = heap ta ?nl" "kept (set_tree ?T) ?t1 t'" using nla fr by auto
  have k: "kept (insert z (set_tree ?T)) t ta" by (rule kept_mono [OF ta(4)]) auto
  have k1: "kept (insert z (set_tree ?T)) ta ?t1" using y en eE by (auto simp: kept_def)
  have "kept (insert z (set_tree ?T)) ?t1 t'" by (rule kept_mono [OF t'(4)]) auto
  with k k1 have "kept (insert z (set_tree ?T)) t t'" using kept_trans by blast
  moreover have "at_hole t' (E @ RF l y # C) yr"
    using ta(3) t'(3,4) nla E by (auto simp: at_hole_def kept_def pa_append)
  moreover have "heap t' z = Some (nd (kv z) (c z) (ra ?nl l) e (pa ?nl C))"
    using z t'(4) ds(3) parts(4) fr nla by (simp add: kept_def deref_def)
  then have "holds kv t' z" by (simp add: holds_def)
  moreover have "set_right ta y e = Some (ta\<lparr>heap := (heap ta)(y \<mapsto> nd (kv y) (c y) ?nl e (pa ?nl ?D))\<rparr>)"
    using y by (simp add: set_right_def)
  moreover have "set_parent (ta\<lparr>heap := (heap ta)(y \<mapsto> nd (kv y) (c y) ?nl e (pa ?nl ?D))\<rparr>) e y = Some ?t1"
    using en fr by (simp add: set_parent_def)
  ultimately show ?thesis using ta(1) z t'(1,2) by (simp add: plug_append deref_def)
qed

section \<open>Colours after unlinking\<close>

lemma col_leaf:
  assumes "rb c (plug C Z)" and "Z = Node Leaf z s \<or> Z = Node s z Leaf"
  shows "c z = BLACK \<Longrightarrow> del_inv c C s" and "c z = RED \<Longrightarrow> rb c (plug C s)"
proof -
  show "del_inv c C s" if "c z = BLACK"
    using assms that tcol_plug [of C c s Z] by (auto simp: rb_def del_inv_def rb_c_c2)
  show "rb c (plug C s)" if z: "c z = RED"
  proof -
    have "C \<noteq> []" using assms z by (auto simp: rb_def)
    then show ?thesis
      using assms z tcol_plug [of C c s Z] by (auto simp: rb_def intro: ctx_c_black)
  qed
qed

lemma col_swap:
  assumes "y \<notin> set_ctx E" "y \<notin> set_ctx C" "y \<notin> set_tree l" "y \<notin> set_tree s"
  shows "ctx_c (c(y := c z)) (E @ RF l y # C) k = ctx_c c (E @ RF l z # C) k"
    and "ctx_h (c(y := c z)) (E @ RF l y # C) n = ctx_h c (E @ RF l z # C) n"
    and "tcol (c(y := c z)) (plug (E @ RF l y # C) s) = tcol c (plug (E @ RF l z # C) s)"
proof -
  show "ctx_c (c(y := c z)) (E @ RF l y # C) k = ctx_c c (E @ RF l z # C) k"
    using assms by (induction E arbitrary: k rule: set_ctx.induct) auto
  show "ctx_h (c(y := c z)) (E @ RF l y # C) n = ctx_h c (E @ RF l z # C) n"
    using assms by (induction E arbitrary: n rule: set_ctx.induct) auto
  show "tcol (c(y := c z)) (plug (E @ RF l y # C) s) = tcol c (plug (E @ RF l z # C) s)"
    using assms tcol_plug [of C c "Node l y (plug E s)" "Node l z (plug E s)"]
    by (cases "C = []") (auto simp: plug_append tcol_plug_upd)
qed

lemma del_inv_swap:
  assumes "del_inv c (E @ RF l z # C) s"
    and "y \<notin> set_ctx E" "y \<notin> set_ctx C" "y \<notin> set_tree l" "y \<notin> set_tree s"
  shows "del_inv (c(y := c z)) (E @ RF l y # C) s"
  using assms col_swap [OF assms(2-5)] by (auto simp: del_inv_def)

lemma rb_swap:
  assumes "rb c (plug (E @ RF l z # C) s)"
    and "y \<notin> set_ctx E" "y \<notin> set_ctx C" "y \<notin> set_tree l" "y \<notin> set_tree s"
  shows "rb (c(y := c z)) (plug (E @ RF l y # C) s)"
  using assms col_swap [OF assms(2-5)] by (auto simp: rb_def)

section \<open>Unlinking a node\<close>

definition unlinked ::
  "('k, 'v) kvmap \<Rightarrow> ('k, 'v) rb_tree \<Rightarrow> atree \<Rightarrow> addr
     \<Rightarrow> (addr \<times> rbtree_colour \<times> ('k, 'v) rb_tree) option \<Rightarrow> bool" where
  "unlinked kv t T z res \<longleftrightarrow>
     (\<exists>C s k c t'. res = Some (ra (nil t) s, k, t') \<and> shape kv c t' (plug C s) \<and> at_hole t' C s \<and>
        inorder (plug C s) = filter (\<lambda>a. a \<noteq> z) (inorder T) \<and>
        kept (insert z (set_tree (plug C s))) t t' \<and> holds kv t' z \<and>
        (k = BLACK \<longrightarrow> del_inv c C s) \<and> (k = RED \<longrightarrow> rb c (plug C s)))"

lemma filter_out: "z \<notin> set xs \<Longrightarrow> z \<notin> set ys \<Longrightarrow> filter (\<lambda>a. a \<noteq> z) (xs @ z # ys) = xs @ ys"
proof -
  have "z \<notin> set us \<Longrightarrow> filter (\<lambda>a. a \<noteq> z) us = us" for us by (rule filter_True) auto
  then show "z \<notin> set xs \<Longrightarrow> z \<notin> set ys \<Longrightarrow> filter (\<lambda>a. a \<noteq> z) (xs @ z # ys) = xs @ ys" by simp
qed

lemma inorder_without:
  assumes "distinct (inorder (plug C (Node l z r)))"
  shows "filter (\<lambda>a. a \<noteq> z) (inorder (plug C (Node l z r))) =
     ctx_before C @ inorder l @ inorder r @ ctx_after C"
  using assms set_ctx_lists [of C] filter_out [of z "ctx_before C @ inorder l" "inorder r @ ctx_after C"]
  by (auto simp: inorder_plug)

lemma unlink_one_child:
  assumes sh: "shape kv c t (plug C (Node l z r))" and rb: "rb c (plug C (Node l z r))" and "l = Leaf \<or> r = Leaf"
  shows "unlinked kv t (plug C (Node l z r)) z (erase_unlink t z)"
proof -
  let ?Z = "Node l z r"
  define s where "s = (if l = Leaf then r else l)"
  have Z: "?Z = Node Leaf z s \<or> ?Z = Node s z Leaf" using assms(3) by (auto simp: s_def)
  obtain t' where t': "rbtree_transplant t z (ra (nil t) s) = Some t'" "shape kv c t' (plug C s)" "at_hole t' C s"
    "kept (set_tree (plug C s)) t t'" using unlink_leaf [OF sh Z] by blast
  have d: "deref t z = Some (nd (kv z) (c z) (ra (nil t) l) (ra (nil t) r) (pa (nil t) C))"
    by (rule shape_deref [OF sh])
  have nl: "nil t \<notin> set_tree l" "nil t \<notin> set_tree r" "z \<noteq> nil t" "z \<notin> set_tree (plug C s)"
    using sh by (auto simp: shape_def s_def)
  have "erase_unlink t z = Some (ra (nil t) s, c z, t')"
    using d nl t'(1) assms(3) by (auto simp: erase_unlink_def s_def)
  moreover have "inorder (plug C s) = filter (\<lambda>a. a \<noteq> z) (inorder (plug C ?Z))"
    using inorder_without [OF shape_distinct [OF sh]] assms(3) by (auto simp: s_def inorder_plug)
  moreover have "holds kv t' z" using d nl t'(4) by (auto simp: holds_def kept_def deref_def)
  moreover have "kept (insert z (set_tree (plug C s))) t t'" by (rule kept_mono [OF t'(4)]) auto
  ultimately show ?thesis
    using t'(2,3) col_leaf [OF rb Z] unfolding unlinked_def by blast
qed

lemma unlink_two_children:
  assumes sh: "shape kv c t (plug C (Node l z r))" and rb: "rb c (plug C (Node l z r))"
    and lr: "l \<noteq> Leaf" "r \<noteq> Leaf"
  shows "unlinked kv t (plug C (Node l z r)) z (erase_unlink t z)"
proof -
  let ?nl = "nil t"
  obtain E y yr where E: "r = plug E (Node Leaf y yr)" "ctx_before E = []" "min_loop t (ra ?nl r) = Some y"
    using min_focus [of kv c t "RF l z # C" r] sh lr by auto
  let ?D = "E @ RF l z # C" and ?D' = "E @ RF l y # C"
  have sh': "shape kv c t (plug ?D (Node Leaf y yr))" using sh E by (simp add: plug_append)
  have dy: "deref t y = Some (nd (kv y) (c y) ?nl (ra ?nl yr) (pa ?nl ?D))" using shape_deref [OF sh'] by simp
  have dz: "deref t z = Some (nd (kv z) (c z) (ra ?nl l) (ra ?nl r) (pa ?nl C))" by (rule shape_deref [OF sh])
  have nl: "ra ?nl l \<noteq> ?nl" "ra ?nl r \<noteq> ?nl" using sh lr by (auto simp: shape_def)
  have fr: "y \<notin> set_ctx E" "y \<notin> set_ctx C" "y \<notin> set_tree l" "y \<notin> set_tree yr" "z \<notin> set_ctx E"
    using shape_distinct [OF sh'] by auto
  obtain t' where t': "erase_unlink t z = Some (ra ?nl yr, c y, t')" "shape kv (c(y := c z)) t' (plug ?D' yr)"
    "at_hole t' ?D' yr" "kept (insert z (set_tree (plug ?D' yr))) t t'" "holds kv t' z"
  proof (cases "E = []")
    case True
    with unlink_near [of kv c t C l z y yr] sh E(1) lr that dy dz nl E(3) show ?thesis
      by (auto simp: erase_unlink_def rbtree_minimum_def Let_def)
  next
    case False
    then have "pa ?nl ?D \<noteq> z" using fr(5) pa_in [OF False, of ?nl] by (auto simp: pa_append)
    with unlink_far [OF sh' lr(1) False] that dy dz nl E(3) show ?thesis
      by (auto simp: erase_unlink_def rbtree_minimum_def Let_def)
  qed
  have "inorder (plug ?D' yr) = filter (\<lambda>a. a \<noteq> z) (inorder (plug C (Node l z r)))"
    using inorder_without [OF shape_distinct [OF sh]] E(1,2) by (simp add: plug_append inorder_plug)
  moreover have "rb c (plug ?D (Node Leaf y yr))" using rb E(1) by (simp add: plug_append del: rb_c_plug rb_h_plug)
  note col_leaf [OF this disjI1 [OF refl]]
  then have "c y = BLACK \<Longrightarrow> del_inv (c(y := c z)) ?D' yr" "c y = RED \<Longrightarrow> rb (c(y := c z)) (plug ?D' yr)"
    using del_inv_swap rb_swap fr by blast+
  ultimately show ?thesis using t' unfolding unlinked_def by blast
qed

lemma erase_ok:
  assumes sh: "shape kv c t T" and rb: "rb c T" and z: "z \<in> set_tree T"
    and dm: "dom (heap t) = insert (nil t) (set_tree T)"
  shows "\<exists>t' c' T'. rbtree_erase t z = Some t' \<and> shape kv c' t' T' \<and> rb c' T' \<and>
     inorder T' = filter (\<lambda>a. a \<noteq> z) (inorder T) \<and> dom (heap t') = insert (nil t') (set_tree T') \<and>
     comparator t' = comparator t \<and> kvfreer t' = kvfreer t \<and>
     freed t' = freed t @ (if kvfreer t then [kv z] else [])"
proof -
  obtain D l r where "T = plug D (Node l z r)" using focus_exists [OF z] by blast
  then have "unlinked kv t T z (erase_unlink t z)"
    using unlink_one_child unlink_two_children sh rb by blast
  then obtain C s k c1 t1 where u: "erase_unlink t z = Some (ra (nil t) s, k, t1)" "shape kv c1 t1 (plug C s)"
    "at_hole t1 C s" "inorder (plug C s) = filter (\<lambda>a. a \<noteq> z) (inorder T)"
    "kept (insert z (set_tree (plug C s))) t t1" "holds kv t1 z"
    "k = BLACK \<Longrightarrow> del_inv c1 C s" "k = RED \<Longrightarrow> rb c1 (plug C s)"
    by (auto simp: unlinked_def)
  let ?T1 = "plug C s"
  have nl: "nil t1 = nil t" using u(5) by (simp add: kept_def)
  have set: "set_tree ?T1 = set_tree T - {z}" using arg_cong [OF u(4), of set] by auto
  have "fixed kv t1 ?T1 (if k = BLACK then rbtree_erase_fixup t1 (ra (nil t) s) else Some t1)"
    using erase_fixup_fixed [OF u(2,3)] u(2,7,8) nl by (auto simp: fixed_def)
  then obtain t2 c2 T2 where t2: "(if k = BLACK then rbtree_erase_fixup t1 (ra (nil t) s) else Some t1) = Some t2"
    "shape kv c2 t2 T2" "inorder T2 = inorder ?T1" "rb c2 T2" "same_but (set_tree ?T1) t1 t2"
    unfolding fixed_def by blast
  have set2: "set_tree T2 = set_tree T - {z}" using arg_cong [OF t2(3), of set] set by simp
  obtain n where n: "heap t2 z = Some n" "nkey n = fst (kv z)" "nvalue n = snd (kv z)"
    using u(6) t2(5) set by (auto simp: holds_def same_but_def)
  define t3 where "t3 = call_kvfreer t2 (fst (kv z)) (snd (kv z))"
  let ?t' = "t3\<lparr>heap := (heap t3)(z := None)\<rparr>"
  have f: "nil t2 = nil t" "comparator t2 = comparator t" "kvfreer t2 = kvfreer t" "freed t2 = freed t"
    "dom (heap t2) = dom (heap t)" using t2(5) u(5) by (simp_all add: same_but_def kept_def)
  have "rbtree_erase t z = Some ?t'"
    using u(1) t2(1) n by (simp add: rbtree_erase_def deref_def free_node_def t3_def call_kvfreer_def)
  moreover have zn: "z \<noteq> nil t" using shape_ne [OF sh z] by simp
  have "shape kv c2 ?t' T2"
    using t2(2) set2 zn f(1) by (auto simp: shape_def t3_def call_kvfreer_def)
  moreover have "dom (heap ?t') = insert (nil ?t') (set_tree T2)"
    using f dm set2 zn by (auto simp: t3_def call_kvfreer_def)
  moreover have "freed ?t' = freed t @ (if kvfreer t then [kv z] else [])" "comparator ?t' = comparator t"
    "kvfreer ?t' = kvfreer t" using f by (simp_all add: t3_def call_kvfreer_def)
  ultimately show ?thesis using t2(3,4) u(4) by metis
qed

context key_order
begin

lemma remove_found:
  assumes ok: "tree_ok cmp valid t xs" and k: "valid k" "k \<in> fst ` set xs"
  shows "\<exists>t'. rbtree_remove (Some t) (Some k) = Some (True, Some t') \<and>
     tree_ok cmp valid t' (al_remove k xs) \<and> kvfreer t' = kvfreer t \<and>
     freed t' = freed t @ (if kvfreer t then [(Some k, map_of xs k)] else [])"
proof -
  from ok obtain kv c T where sh: "shape kv c t T" and rb: "rb c T"
    and dm: "dom (heap t) = insert (nil t) (set_tree T)" and fl: "full valid kv (set_tree T)"
    and cm: "comparator t = cmp" and so: "sorted_wrt below (map fst xs)" and xs: "xs = entries kv T"
    by (auto simp: tree_ok_def)
  obtain a where a: "a \<in> set_tree T" "rbtree_find (Some t) (Some k) = Some a" "kf kv a = k"
    using find_spec(1) [OF sh fl cm k(1) so [unfolded xs]] k(2) xs by blast
  have kva: "kv a = (Some k, map_of xs k)"
    using map_of_entries [OF so [unfolded xs] fl a(1)] a(3) xs fullD [OF fl a(1)] by (simp add: prod_eq_iff)
  have "distinct (map fst (entries kv T))"
    using sorted_distinct [OF so] entries_valid [OF fl] xs by auto
  then have inj: "inj_on (kf kv) (set_tree T)" by (simp add: keys_entries distinct_map)
  obtain t' c' T' where t': "rbtree_erase t a = Some t'" "shape kv c' t' T'" "rb c' T'"
    "inorder T' = filter (\<lambda>b. b \<noteq> a) (inorder T)" "dom (heap t') = insert (nil t') (set_tree T')"
    "comparator t' = comparator t" "kvfreer t' = kvfreer t"
    "freed t' = freed t @ (if kvfreer t then [kv a] else [])"
    using erase_ok [OF sh rb a(1) dm] by blast
  have "b = a \<longleftrightarrow> kf kv b = k" if "b \<in> set_tree T" for b using inj a that by (auto dest: inj_onD)
  then have "entries kv T' = al_remove k xs"
    unfolding xs entries_def al_remove_def t'(4) filter_map
    using a(1) by (auto simp: entry_def kf_def intro!: arg_cong [where f = "map _"] filter_cong) blast
  moreover have "full valid kv (set_tree T')"
    using fl arg_cong [OF t'(4), of set] by (auto simp: full_def)
  moreover have "sorted_wrt below (map fst (al_remove k xs))"
    using so by (simp add: al_remove_def sorted_wrt_map sorted_wrt_filter)
  ultimately have "tree_ok cmp valid t' (al_remove k xs)"
    unfolding tree_ok_def using t'(2,3,5,6) cm by metis
  then show ?thesis
    using a t' kva shape_ne [OF sh a(1)] by (auto simp: rbtree_remove_def)
qed

lemma remove_missing:
  assumes ok: "tree_ok cmp valid t xs" and k: "valid k" "k \<notin> fst ` set xs"
  shows "rbtree_remove (Some t) (Some k) = Some (False, Some t)"
proof -
  from ok obtain kv c T where "shape kv c t T" "full valid kv (set_tree T)" "comparator t = cmp"
    "sorted_wrt below (map fst (entries kv T))" "xs = entries kv T"
    by (auto simp: tree_ok_def)
  then show ?thesis using find_spec(2) [of kv c t T k] k by (simp add: rbtree_remove_def)
qed

end

end
