(* ===== verification/Rb_Iter.thy ===== *)
theory Rb_Iter
  imports Rb_Erase "HOL-Library.Multiset"
begin

text \<open>
  Size, iteration and destruction of the tree: the iterator visits every entry exactly once in key
  order, \<^verbatim>\<open>rbtree_size\<close> counts the entries, and \<^verbatim>\<open>rbtree_free\<close> frees every node once and hands every key
  and value to \<^verbatim>\<open>kvfreer\<close> exactly once.
\<close>

section \<open>Definitions\<close>

primrec postorder :: "atree \<Rightarrow> addr list" where
  "postorder Leaf = []"
| "postorder (Node l a r) = postorder l @ postorder r @ [a]"

text \<open>The entries as the log of \<^verbatim>\<open>kvfreer\<close> and the iterator show them.\<close>

definition boxed :: "('k \<times> 'v) list \<Rightarrow> ('k option \<times> 'v option) list" where
  "boxed xs = map (\<lambda>(k, v). (Some k, Some v)) xs"

section \<open>Size\<close>

lemma number_of_nodes_eq:
  assumes "shape kv c t (plug C S)"
  shows "number_of_nodes t (ra (nil t) S) = Some (length (inorder S))"
  using assms
proof (induction S arbitrary: C)
  case Leaf
  then show ?case by (subst number_of_nodes.simps) simp
next
  case (Node l a r)
  have "a \<noteq> nil t" using shape_ne [OF Node.prems] by simp
  then show ?case
    using Node.IH(1) [of "LF a r # C"] Node.IH(2) [of "RF l a # C"] Node.prems shape_deref [OF Node.prems]
    by (subst number_of_nodes.simps) simp
qed

lemma size_ok: "tree_ok cmp valid t xs \<Longrightarrow> rbtree_size (Some t) = Some (length xs)"
  using number_of_nodes_eq [of _ _ t "[]"]
  by (auto simp: tree_ok_def rbtree_size_def entries_def shape_root)

section \<open>Iteration\<close>

lemma successor_loop_eq:
  assumes "shape kv c t (plug C S)" and "S \<noteq> Leaf"
  shows "successor_loop t (ra (nil t) S) (pa (nil t) C) = Some (hd (ctx_after C @ [nil t]))"
  using assms
proof (induction C arbitrary: S)
  case Nil
  then show ?case by (subst successor_loop.simps) simp
next
  case (Cons f D)
  show ?case
  proof (cases f)
    case (LF p q)
    have "ra (nil t) q \<noteq> ra (nil t) S" "p \<noteq> nil t"
      using shape_child_ne(1) [of kv c t D S p q] shape_ne [OF Cons.prems(1)] Cons.prems LF by auto
    then show ?thesis
      using LF shape_deref [of kv c t D S p q] Cons.prems by (subst successor_loop.simps) auto
  next
    case (RF q p)
    have "p \<noteq> nil t" using shape_ne [OF Cons.prems(1)] RF by auto
    then show ?thesis
      using RF shape_deref [of kv c t D q p S] Cons.IH [of "Node q p S"] Cons.prems
      by (subst successor_loop.simps) auto
  qed
qed

lemma successor_eq:
  assumes sh: "shape kv c t (plug C (Node l a r))"
  shows "rbtree_successor t a = Some (hd (inorder r @ ctx_after C @ [nil t]))"
proof -
  note d = shape_deref [OF sh] and ne = shape_ne [OF sh, of a]
  show ?thesis
  proof (cases "r = Leaf")
    case True
    then show ?thesis
      using d ne successor_loop_eq [OF sh] by (simp add: rbtree_successor_def)
  next
    case False
    then obtain E y yr where "r = plug E (Node Leaf y yr)" "ctx_before E = []" "min_loop t (ra (nil t) r) = Some y"
      using min_focus [of kv c t "RF l a # C" r] sh by auto
    moreover have "ra (nil t) r \<noteq> nil t" using sh False by (auto simp: shape_def)
    ultimately show ?thesis
      using d ne by (simp add: rbtree_successor_def rbtree_minimum_def inorder_plug)
  qed
qed

lemma split_unique:
  assumes "xs @ a # ys = us @ a # vs" and "distinct (xs @ a # ys)"
  shows "xs = us \<and> ys = vs"
  using assms by (metis append_Cons_eq_iff distinct_append disjoint_insert(2) list.set(2)
      not_distinct_conv_prefix distinct.simps(2))

lemma iterate_suffix:
  assumes sh: "shape kv c t T" and "inorder T = xs @ ys"
  shows "iterate_from t (Some (hd (ys @ [nil t]))) = Some (map kv ys)"
  using assms(2)
proof (induction ys arbitrary: xs)
  case Nil
  then show ?case by (subst iterate_from.simps) (simp add: rbtree_iterator_valid_def)
next
  case (Cons a ys)
  have "a \<in> set_tree T" using Cons.prems by (metis in_set_conv_decomp set_inorder)
  then obtain C l r where T: "T = plug C (Node l a r)" using focus_exists by blast
  have "xs @ a # ys = (ctx_before C @ inorder l) @ a # inorder r @ ctx_after C"
    using Cons.prems T by (simp add: inorder_plug)
  then have ys: "ys = inorder r @ ctx_after C"
    using split_unique shape_distinct [OF sh] Cons.prems by metis
  have "rbtree_successor t a = Some (hd (ys @ [nil t]))" using successor_eq sh T ys by simp
  moreover have "a \<noteq> nil t" "a \<noteq> 0" using shape_ne [OF sh \<open>a \<in> _\<close>] by auto
  moreover have "iterate_from t (Some (hd (ys @ [nil t]))) = Some (map kv ys)"
    using Cons.IH [of "xs @ [a]"] Cons.prems by simp
  ultimately show ?case
    using shape_deref [of kv c t C l a r] sh T
    by (subst iterate_from.simps)
      (auto simp: rbtree_iterator_valid_def rbtree_iterator_key_def rbtree_iterator_value_def
        rbtree_iterator_next_def)
qed

lemma boxed_entries: "full valid kv (set_tree T) \<Longrightarrow> boxed (entries kv T) = map kv (inorder T)"
  by (force simp: boxed_def entries_def entry_def full_def)

lemma iterate_ok:
  assumes "tree_ok cmp valid t xs"
  shows "\<exists>i. rbtree_iterator_new True (Some t) = Some i \<and> iterate_from t i = Some (boxed xs)"
proof -
  from assms obtain kv c T where sh: "shape kv c t T" and fl: "full valid kv (set_tree T)" and xs: "xs = entries kv T"
    by (auto simp: tree_ok_def)
  have "rbtree_minimum t (root t) = Some (hd (inorder T @ [nil t]))"
  proof (cases "T = Leaf")
    case True
    then show ?thesis using sh by (simp add: rbtree_minimum_def shape_def)
  next
    case False
    then obtain E y yr where "T = plug E (Node Leaf y yr)" "ctx_before E = []" "min_loop t (ra (nil t) T) = Some y"
      using min_focus [of kv c t "[]" T] sh by auto
    moreover have "ra (nil t) T \<noteq> nil t" using sh False by (auto simp: shape_def)
    ultimately show ?thesis using shape_root [OF sh] by (simp add: rbtree_minimum_def inorder_plug)
  qed
  then have "rbtree_iterator_new True (Some t) = Some (Some (hd (inorder T @ [nil t])))"
    by (simp add: rbtree_iterator_new_def rbtree_iterator_first_def)
  then show ?thesis
    using iterate_suffix [OF sh, of "[]" "inorder T"] boxed_entries [OF fl] xs by simp
qed

section \<open>Destruction\<close>

lemma restrict_UNIV [simp]: "m |` UNIV = m"
  by (simp add: restrict_map_def)

lemma destroy_eq:
  assumes "rept kv c (heap t) (nil t) p S" and "distinct (inorder S)" and "nil t \<notin> set_tree S"
  shows "rbtree_destroy_all t (ra (nil t) S) =
     Some (t\<lparr>heap := heap t |` (- set_tree S),
             freed := freed t @ (if kvfreer t then map kv (postorder S) else [])\<rparr>)"
  using assms
proof (induction S arbitrary: t p)
  case Leaf
  then show ?case by (subst rbtree_destroy_all.simps) simp
next
  case (Node l a r)
  let ?fr = "\<lambda>u S. u\<lparr>heap := heap u |` (- set_tree S),
    freed := freed u @ (if kvfreer u then map kv (postorder S) else [])\<rparr>"
  have ds: "a \<notin> set_tree l" "a \<notin> set_tree r" "set_tree l \<inter> set_tree r = {}" "a \<noteq> nil t"
    using Node.prems by auto
  have dl: "rbtree_destroy_all t (ra (nil t) l) = Some (?fr t l)"
    by (rule Node.IH(1)) (use Node.prems in auto)
  then have l: "(if ra (nil t) l \<noteq> nil t then rbtree_destroy_all t (ra (nil t) l) else Some t) = Some (?fr t l)"
    using Node.prems(3) by (cases l) auto
  have "rept kv c (heap (?fr t l)) (nil t) a r"
    by (rule rept_cong [where h = "heap t"]) (use Node.prems ds in \<open>auto simp: restrict_map_def\<close>)
  then have "rbtree_destroy_all (?fr t l) (ra (nil (?fr t l)) r) = Some (?fr (?fr t l) r)"
    by (intro Node.IH(2)) (use Node.prems in auto)
  then have r: "(if ra (nil t) r \<noteq> nil t then rbtree_destroy_all (?fr t l) (ra (nil t) r) else Some (?fr t l)) =
      Some (?fr (?fr t l) r)"
    using Node.prems(3) by (cases r) auto
  define t1 where "t1 = ?fr t l"
  define t2 where "t2 = ?fr t1 r"
  have h: "heap t a = Some (nd (kv a) (c a) (ra (nil t) l) (ra (nil t) r) p)" using Node.prems by simp
  then have h12: "heap t1 a = heap t a" "heap t2 a = heap t a" "nil t1 = nil t" using ds by (simp_all add: t1_def t2_def)
  have "rbtree_destroy_all t a = free_node (call_kvfreer t2 (fst (kv a)) (snd (kv a))) a"
    using l [folded t1_def] r [folded t1_def, folded t2_def] h h12 ds(4)
    by (subst rbtree_destroy_all.simps) (simp add: deref_def cong: if_cong split del: if_split)
  moreover have "heap t2 = heap t |` (- (set_tree l \<union> set_tree r))"
    by (auto simp: t1_def t2_def restrict_map_def)
  moreover have "(heap t |` (- (set_tree l \<union> set_tree r)))(a := None) = heap t |` (- set_tree (Node l a r))"
    by (auto simp: restrict_map_def fun_eq_iff)
  ultimately show ?case
    using h h12(2) by (simp add: free_node_def call_kvfreer_def t1_def t2_def)
qed

lemma mset_postorder: "mset (postorder S) = mset (inorder S)"
  by (induction S) auto

lemma free_ok:
  assumes "tree_ok cmp valid t xs"
  shows "\<exists>t'. rbtree_free (Some t) = Some (Some t') \<and> heap t' = Map.empty \<and>
     mset (freed t') = mset (freed t) + (if kvfreer t then mset (boxed xs) else {#})"
proof -
  from assms obtain kv c T where sh: "shape kv c t T" and fl: "full valid kv (set_tree T)" and xs: "xs = entries kv T"
    and dm: "dom (heap t) = insert (nil t) (set_tree T)"
    by (auto simp: tree_ok_def)
  let ?t1 = "t\<lparr>heap := heap t |` (- set_tree T),
    freed := freed t @ (if kvfreer t then map kv (postorder T) else [])\<rparr>"
  have "rbtree_destroy_all t (root t) = Some ?t1"
    using destroy_eq [of kv c t "nil t" T] sh by (simp add: shape_def)
  moreover have "mset (map kv (postorder T)) = mset (boxed xs)"
    using boxed_entries [OF fl] xs by (simp add: mset_postorder)
  moreover have "(heap t |` (- set_tree T)) (nil t) \<noteq> None" using sh by (auto simp: shape_def)
  moreover have "(heap t |` (- set_tree T))(nil t := None) = Map.empty"
    using dm by (auto simp: restrict_map_def fun_eq_iff dom_def)
  ultimately show ?thesis
    by (auto simp: rbtree_free_def rbtree_clear_def free_node_def)
qed

end
