(* ===== verification/Cmap.thy ===== *)
theory Cmap
  imports Rb_Iter
begin

text \<open>
  The map of \<^verbatim>\<open>src/utils/cutils/map/map.c\<close>: a typed front of the red-black tree that copies keys and
  values according to the map's type. The concrete operations work on the tree of \<open>Rb_Tree\<close>; the
  abstract operations \<open>smap_*\<close> work on the association list a string-keyed map stands for, and are what
  the clients of the map are modelled with. The refinement lemmas say that the concrete operations
  never fail, never loop and return what the abstract ones return.
\<close>

section \<open>Data\<close>

datatype map_type_t =
  MAP_INT_INT | MAP_INT_BOOL | MAP_INT_STR | MAP_INT_PTR | MAP_STR_BOOL | MAP_STR_INT
| MAP_STR_PTR | MAP_STR_STR | MAP_PTR_INT | MAP_PTR_STR | MAP_PTR_PTR

text \<open>What a \<^verbatim>\<open>void *\<close> key points to.\<close>

datatype map_key = KInt int | KStr string | KPtr addr

record 'v map_t =
  mtype :: map_type_t
  store :: "(map_key, 'v) rb_tree option"

definition is_key_int :: "map_type_t \<Rightarrow> bool" where
  "is_key_int t = (t = MAP_INT_INT \<or> t = MAP_INT_STR \<or> t = MAP_INT_PTR \<or> t = MAP_INT_BOOL)"

definition is_key_str :: "map_type_t \<Rightarrow> bool" where
  "is_key_str t = (t = MAP_STR_INT \<or> t = MAP_STR_STR \<or> t = MAP_STR_PTR \<or> t = MAP_STR_BOOL)"

definition is_key_ptr :: "map_type_t \<Rightarrow> bool" where
  "is_key_ptr t = (t = MAP_PTR_INT \<or> t = MAP_PTR_STR \<or> t = MAP_PTR_PTR)"

definition is_val_bool :: "map_type_t \<Rightarrow> bool" where
  "is_val_bool t = (t = MAP_STR_BOOL \<or> t = MAP_INT_BOOL)"

definition is_val_int :: "map_type_t \<Rightarrow> bool" where
  "is_val_int t = (t = MAP_INT_INT \<or> t = MAP_STR_INT \<or> t = MAP_PTR_INT)"

definition is_val_str :: "map_type_t \<Rightarrow> bool" where
  "is_val_str t = (t = MAP_INT_STR \<or> t = MAP_STR_STR \<or> t = MAP_PTR_STR)"

definition is_val_ptr :: "map_type_t \<Rightarrow> bool" where
  "is_val_ptr t = (t = MAP_INT_PTR \<or> t = MAP_STR_PTR \<or> t = MAP_PTR_PTR)"

text \<open>The comparators on the pointed-to keys; a key of another type than the map's is never compared.\<close>

fun ptr_key_cmp :: "map_key \<Rightarrow> map_key \<Rightarrow> int" where
  "ptr_key_cmp (KPtr a) (KPtr b) = rbtree_ptr_cmp a b"
| "ptr_key_cmp _ _ = 0"

fun int_key_cmp :: "map_key \<Rightarrow> map_key \<Rightarrow> int" where
  "int_key_cmp (KInt a) (KInt b) = rbtree_int_cmp a b"
| "int_key_cmp _ _ = 0"

fun str_key_cmp :: "bool \<Rightarrow> map_key \<Rightarrow> map_key \<Rightarrow> int" where
  "str_key_cmp sg (KStr a) (KStr b) = rbtree_str_cmp sg a b"
| "str_key_cmp sg _ _ = 0"

fun valid_key :: "map_type_t \<Rightarrow> map_key \<Rightarrow> bool" where
  "valid_key t (KPtr a) = is_key_ptr t"
| "valid_key t (KInt a) = is_key_int t"
| "valid_key t (KStr a) = (is_key_str t \<and> no_nul a)"

text \<open>The comparator \<^verbatim>\<open>map_new\<close> picks; \<open>sg\<close> is the platform's signedness of \<^verbatim>\<open>char\<close>.\<close>

definition map_cmp_for :: "bool \<Rightarrow> map_type_t \<Rightarrow> map_key \<Rightarrow> map_key \<Rightarrow> int" where
  "map_cmp_for sg t =
     (if is_key_ptr t then ptr_key_cmp else if is_key_int t then int_key_cmp else str_key_cmp sg)"

section \<open>Operations\<close>

definition map_convert_key :: "bool \<Rightarrow> 'v map_t \<Rightarrow> map_key \<Rightarrow> map_key option" where
  "map_convert_key alloc m key =
     (if is_key_ptr (mtype m) then Some key
      else if is_key_int (mtype m) then (if alloc then Some key else None)
      else if is_key_str (mtype m) then Some key
      else None)"

definition map_convert_value :: "bool \<Rightarrow> 'v map_t \<Rightarrow> 'v \<Rightarrow> 'v option" where
  "map_convert_value alloc m val =
     (if is_val_ptr (mtype m) then Some val
      else if is_val_bool (mtype m) then (if alloc then Some val else None)
      else if is_val_int (mtype m) then (if alloc then Some val else None)
      else if is_val_str (mtype m) then Some val
      else None)"

text \<open>
  The results pair the C return value with the map; \<open>None\<close> is the tree's undefined behaviour. The
  arguments \<open>ak\<close>, \<open>av\<close> and \<open>an\<close> answer the allocation of the key copy, of the value copy and of the node.
\<close>

definition map_insert ::
  "bool \<Rightarrow> bool \<Rightarrow> addr option \<Rightarrow> 'v map_t option \<Rightarrow> map_key option \<Rightarrow> 'v option
     \<Rightarrow> (bool \<times> 'v map_t option) option" where
  "map_insert ak av an mp kp vp =
     (case (mp, kp, vp) of
        (Some m, Some key, Some val) \<Rightarrow>
          (case map_convert_key ak m key of
             None \<Rightarrow> Some (False, mp)
           | Some tmp \<Rightarrow>
               (case map_convert_value av m val of
                  None \<Rightarrow> Some (False, mp)
                | Some tmp_value \<Rightarrow> do {
                    (ret, st) \<leftarrow> rbtree_insert an (store m) (Some tmp) (Some tmp_value);
                    Some (ret, Some (m\<lparr>store := st\<rparr>))
                  }))
      | _ \<Rightarrow> Some (False, mp))"

definition map_replace ::
  "bool \<Rightarrow> bool \<Rightarrow> addr option \<Rightarrow> 'v map_t option \<Rightarrow> map_key option \<Rightarrow> 'v option
     \<Rightarrow> (bool \<times> 'v map_t option) option" where
  "map_replace ak av an mp kp vp =
     (case (mp, kp, vp) of
        (Some m, Some key, Some val) \<Rightarrow>
          (case map_convert_key ak m key of
             None \<Rightarrow> Some (False, mp)
           | Some tmp \<Rightarrow>
               (case map_convert_value av m val of
                  None \<Rightarrow> Some (False, mp)
                | Some tmp_value \<Rightarrow> do {
                    (ret, st) \<leftarrow> rbtree_replace an (store m) (Some tmp) (Some tmp_value);
                    Some (ret, Some (m\<lparr>store := st\<rparr>))
                  }))
      | _ \<Rightarrow> Some (False, mp))"

definition map_remove ::
  "'v map_t option \<Rightarrow> map_key option \<Rightarrow> (bool \<times> 'v map_t option) option" where
  "map_remove mp kp =
     (case (mp, kp) of
        (Some m, Some key) \<Rightarrow> do {
          (ret, st) \<leftarrow> rbtree_remove (store m) (Some key);
          Some (ret, Some (m\<lparr>store := st\<rparr>))
        }
      | _ \<Rightarrow> Some (False, mp))"

definition map_search :: "'v map_t option \<Rightarrow> map_key option \<Rightarrow> 'v option option" where
  "map_search mp kp =
     (case (mp, kp) of
        (Some m, Some key) \<Rightarrow> rbtree_search (store m) (Some key)
      | _ \<Rightarrow> Some None)"

definition map_size :: "'v map_t option \<Rightarrow> nat option" where
  "map_size mp = (case mp of None \<Rightarrow> Some 0 | Some m \<Rightarrow> rbtree_size (store m))"

definition map_itor_new :: "bool \<Rightarrow> 'v map_t option \<Rightarrow> rb_iterator option" where
  "map_itor_new alloc mp =
     (case mp of None \<Rightarrow> Some None | Some m \<Rightarrow> rbtree_iterator_new alloc (store m))"

definition map_free :: "'v map_t option \<Rightarrow> (map_key, 'v) rb_tree option option" where
  "map_free mp =
     (case mp of
        None \<Rightarrow> Some None
      | Some m \<Rightarrow> (case store m of None \<Rightarrow> Some None | Some _ \<Rightarrow> rbtree_free (store m)))"

definition map_clear :: "'v map_t option \<Rightarrow> 'v map_t option option" where
  "map_clear mp =
     (case mp of
        None \<Rightarrow> Some None
      | Some m \<Rightarrow>
          (case store m of
             None \<Rightarrow> Some mp
           | Some _ \<Rightarrow> do { st \<leftarrow> rbtree_clear (store m); Some (Some (m\<lparr>store := st\<rparr>)) }))"

text \<open>
  \<open>default_cmp\<close> says that the caller passed \<^verbatim>\<open>MAP_DEFAULT_CMP_FUNC\<close>, the only comparator the code
  accepts; \<open>freer\<close> that there is a free function (the default one or the caller's). A map whose store
  cannot be allocated is freed again.
\<close>

definition map_new ::
  "bool \<Rightarrow> bool \<Rightarrow> bool \<Rightarrow> addr option \<Rightarrow> map_type_t \<Rightarrow> bool \<Rightarrow> bool \<Rightarrow> 'v map_t option" where
  "map_new sg alloc_map alloc_tree alloc_nil kvtype default_cmp freer =
     (if \<not> alloc_map then None
      else
        (case (if is_key_ptr kvtype \<and> default_cmp then Some ptr_key_cmp
               else if is_key_int kvtype \<and> default_cmp then Some int_key_cmp
               else if is_key_str kvtype \<and> default_cmp then Some (str_key_cmp sg)
               else None) of
           None \<Rightarrow> None
         | Some cmpor \<Rightarrow>
             (case rbtree_new alloc_tree alloc_nil cmpor freer of
                None \<Rightarrow> None
              | Some st \<Rightarrow> Some \<lparr>mtype = kvtype, store = Some st\<rparr>)))"

section \<open>The abstract string map\<close>

type_synonym 'v smap = "(string \<times> 'v) list"

text \<open>
  On the daemon's target \<^verbatim>\<open>char\<close> is signed. The choice only fixes the order in which an iteration visits
  keys that are not ASCII; the refinement lemmas hold for both.
\<close>

definition char_signed :: bool where
  "char_signed = True"

definition smap_search :: "'v smap \<Rightarrow> string \<Rightarrow> 'v option" where
  "smap_search m k = map_of m k"

text \<open>\<open>conv\<close>: the copies of key and value can be made; \<open>node\<close>: a tree node can be allocated.\<close>

definition smap_insert :: "bool \<Rightarrow> bool \<Rightarrow> 'v smap \<Rightarrow> string \<Rightarrow> 'v \<Rightarrow> bool \<times> 'v smap" where
  "smap_insert conv node m k v =
     (if \<not> conv \<or> map_of m k \<noteq> None \<or> \<not> node then (False, m)
      else (True, al_insert (rbtree_str_cmp char_signed) k v m))"

definition smap_replace :: "bool \<Rightarrow> bool \<Rightarrow> 'v smap \<Rightarrow> string \<Rightarrow> 'v \<Rightarrow> bool \<times> 'v smap" where
  "smap_replace conv node m k v =
     (if \<not> conv then (False, m)
      else if map_of m k \<noteq> None then (True, al_update k v m)
      else smap_insert conv node m k v)"

definition smap_remove :: "'v smap \<Rightarrow> string \<Rightarrow> bool \<times> 'v smap" where
  "smap_remove m k = (if map_of m k = None then (False, m) else (True, al_remove k m))"

text \<open>A well-formed abstract map: keys in order, hence no key twice.\<close>

definition smap_ok :: "'v smap \<Rightarrow> bool" where
  "smap_ok m \<longleftrightarrow> sorted_wrt (\<lambda>a b. rbtree_str_cmp char_signed a b < 0) (map fst m) \<and>
     (\<forall>k \<in> fst ` set m. no_nul k)"

definition kstr :: "'v smap \<Rightarrow> (map_key \<times> 'v) list" where
  "kstr m = map (\<lambda>(k, v). (KStr k, v)) m"

text \<open>The refinement relation: the map object \<open>m\<close> holds the entries \<open>xs\<close>.\<close>

definition map_ok :: "bool \<Rightarrow> 'v map_t \<Rightarrow> (map_key \<times> 'v) list \<Rightarrow> bool" where
  "map_ok sg m xs \<longleftrightarrow>
     (\<exists>t. store m = Some t \<and> tree_ok (map_cmp_for sg (mtype m)) (valid_key (mtype m)) t xs)"

text \<open>
  The contract of a string map as its clients use it: what a search returns after each operation, that
  failing operations change nothing, and that every operation keeps the map well formed.
\<close>

locale string_map =
  fixes search :: "'m \<Rightarrow> string \<Rightarrow> 'v option"
    and insrt :: "bool \<Rightarrow> bool \<Rightarrow> 'm \<Rightarrow> string \<Rightarrow> 'v \<Rightarrow> bool \<times> 'm"
    and replce :: "bool \<Rightarrow> bool \<Rightarrow> 'm \<Rightarrow> string \<Rightarrow> 'v \<Rightarrow> bool \<times> 'm"
    and remve :: "'m \<Rightarrow> string \<Rightarrow> bool \<times> 'm"
    and ok :: "'m \<Rightarrow> bool"
  assumes insert_fails: "fst (insrt c n m k v) \<longleftrightarrow> c \<and> n \<and> search m k = None"
    and insert_search: "search (snd (insrt c n m k v)) =
      (if fst (insrt c n m k v) then (search m)(k \<mapsto> v) else search m)"
    and insert_ok: "ok m \<Longrightarrow> no_nul k \<Longrightarrow> ok (snd (insrt c n m k v))"
    and replace_fails: "fst (replce c n m k v) \<longleftrightarrow> c \<and> (search m k \<noteq> None \<or> n)"
    and replace_search: "search (snd (replce c n m k v)) =
      (if fst (replce c n m k v) then (search m)(k \<mapsto> v) else search m)"
    and replace_ok: "ok m \<Longrightarrow> no_nul k \<Longrightarrow> ok (snd (replce c n m k v))"
    and remove_fails: "fst (remve m k) \<longleftrightarrow> search m k \<noteq> None"
    and remove_search: "search (snd (remve m k)) = (search m)(k := None)"
    and remove_ok: "ok m \<Longrightarrow> ok (snd (remve m k))"
    and failed_insert: "\<not> fst (insrt c n m k v) \<Longrightarrow> snd (insrt c n m k v) = m"
    and failed_replace: "\<not> fst (replce c n m k v) \<Longrightarrow> snd (replce c n m k v) = m"
    and failed_remove: "\<not> fst (remve m k) \<Longrightarrow> snd (remve m k) = m"
begin

text \<open>The rollback every client relies on: what was just added can be removed, and nothing else changes.\<close>

lemma undo_add:
  assumes "fst (replce c n m k v)" and "search m k = None"
  shows "fst (remve (snd (replce c n m k v)) k)"
    and "search (snd (remve (snd (replce c n m k v)) k)) = search m"
  using assms by (auto simp: remove_fails remove_search replace_search)

lemma undo_insert:
  assumes "fst (insrt c n m k v)"
  shows "fst (remve (snd (insrt c n m k v)) k)"
    and "search (snd (remve (snd (insrt c n m k v)) k)) = search m"
  using assms by (auto simp: remove_fails remove_search insert_search insert_fails)

lemma remove_again: "\<not> fst (remve (snd (remve m k)) k)"
  by (simp add: remove_fails remove_search)

end

section \<open>The concrete maps\<close>

lemmas key_kind_defs = is_key_int_def is_key_str_def is_key_ptr_def

lemma key_kinds:
  "is_key_str t \<Longrightarrow> \<not> is_key_int t \<and> \<not> is_key_ptr t" "is_key_int t \<Longrightarrow> \<not> is_key_ptr t"
  "is_key_str t \<or> is_key_int t \<or> is_key_ptr t"
  by (cases t; simp add: key_kind_defs)+

interpretation map_order: key_order "map_cmp_for sg ty" "valid_key ty" for sg ty
proof unfold_locales
  fix a b d
  show "valid_key ty a \<Longrightarrow> valid_key ty b \<Longrightarrow> map_cmp_for sg ty a b = 0 \<longleftrightarrow> a = b"
    using key_kinds [of ty] ptr_order.cmp_eq int_order.cmp_eq str_order.cmp_eq
    by (cases a; cases b) (simp_all add: map_cmp_for_def)
  show "valid_key ty a \<Longrightarrow> valid_key ty b \<Longrightarrow> map_cmp_for sg ty a b < 0 \<longleftrightarrow> 0 < map_cmp_for sg ty b a"
    using key_kinds [of ty] ptr_order.cmp_swap int_order.cmp_swap str_order.cmp_swap
    by (cases a; cases b) (simp_all add: map_cmp_for_def)
  show "valid_key ty a \<Longrightarrow> valid_key ty b \<Longrightarrow> valid_key ty d \<Longrightarrow> map_cmp_for sg ty a b < 0 \<Longrightarrow>
      map_cmp_for sg ty b d < 0 \<Longrightarrow> map_cmp_for sg ty a d < 0"
    using key_kinds [of ty]
    by (cases a; cases b; cases d)
      (simp_all add: map_cmp_for_def, (metis ptr_order.cmp_trans int_order.cmp_trans str_cmp_trans)+)
qed

lemma map_new_ok:
  assumes "a \<noteq> 0"
  shows "\<exists>m :: 'v map_t. map_new sg True True (Some a) ty True freer = Some m \<and> mtype m = ty \<and> map_ok sg m []"
proof -
  obtain t :: "(map_key, 'v) rb_tree" where t: "rbtree_new True (Some a) (map_cmp_for sg ty) freer = Some t"
    "tree_ok (map_cmp_for sg ty) (valid_key ty) t []"
    using map_order.new_ok [OF assms] by blast
  have "(if is_key_ptr ty \<and> True then Some ptr_key_cmp else if is_key_int ty \<and> True then Some int_key_cmp
      else if is_key_str ty \<and> True then Some (str_key_cmp sg) else None) = Some (map_cmp_for sg ty)"
    using key_kinds(3) [of ty] by (auto simp: map_cmp_for_def)
  then have "map_new sg True True (Some a) ty True freer = Some \<lparr>mtype = ty, store = Some t\<rparr>"
    using t(1) by (simp add: map_new_def)
  then show ?thesis using t(2) by (simp add: map_ok_def)
qed

lemma map_search_ok:
  "map_ok sg m xs \<Longrightarrow> valid_key (mtype m) k \<Longrightarrow> map_search (Some m) (Some k) = Some (map_of xs k)"
  using map_order.search_ok by (auto simp: map_ok_def map_search_def)

lemma map_remove_ok:
  assumes "map_ok sg m xs" and "valid_key (mtype m) k"
  shows "\<exists>m'. map_remove (Some m) (Some k) = Some (k \<in> fst ` set xs, Some m') \<and> mtype m' = mtype m \<and>
     map_ok sg m' (al_remove k xs)"
proof -
  from assms(1) obtain t where t: "store m = Some t" "tree_ok (map_cmp_for sg (mtype m)) (valid_key (mtype m)) t xs"
    by (auto simp: map_ok_def)
  show ?thesis
  proof (cases "k \<in> fst ` set xs")
    case True
    then show ?thesis
      using map_order.remove_found [OF t(2) assms(2) True] t(1) by (auto simp: map_remove_def map_ok_def)
  next
    case False
    then have "al_remove k xs = xs" by (force simp: al_remove_def intro: filter_True)
    then show ?thesis
      using map_order.remove_missing [OF t(2) assms(2) False] t assms(1) False
      by (auto simp: map_remove_def map_ok_def)
  qed
qed

lemma map_insert_ok:
  assumes "map_ok sg m xs" and "valid_key (mtype m) k"
    and "\<And>t a. store m = Some t \<Longrightarrow> an = Some a \<Longrightarrow> a \<notin> dom (heap t) \<and> a \<noteq> 0"
    and "map_convert_key ak m k \<noteq> None" "map_convert_value av m v \<noteq> None"
  shows "\<exists>m'. map_insert ak av an (Some m) (Some k) (Some v) =
       Some (k \<notin> fst ` set xs \<and> an \<noteq> None, Some m') \<and> mtype m' = mtype m \<and>
     map_ok sg m' (if k \<in> fst ` set xs \<or> an = None then xs else al_insert (map_cmp_for sg (mtype m)) k v xs)"
proof -
  from assms(1) obtain t where t: "store m = Some t" "tree_ok (map_cmp_for sg (mtype m)) (valid_key (mtype m)) t xs"
    by (auto simp: map_ok_def)
  have "map_convert_key ak m k = Some k" "map_convert_value av m v = Some v"
    using assms(4,5) by (auto simp: map_convert_key_def map_convert_value_def split: if_splits)
  moreover obtain t' where "rbtree_insert an (Some t) (Some k) (Some v) =
      Some (k \<notin> fst ` set xs \<and> an \<noteq> None, Some t')"
    "tree_ok (map_cmp_for sg (mtype m)) (valid_key (mtype m)) t'
       (if k \<in> fst ` set xs \<or> an = None then xs else al_insert (map_cmp_for sg (mtype m)) k v xs)"
    using map_order.insert_ok [OF t(2) assms(2), of an v] assms(3) [OF t(1)] by blast
  ultimately show ?thesis using t(1) by (simp add: map_insert_def map_ok_def)
qed

lemma map_replace_ok:
  assumes "map_ok sg m xs" and "valid_key (mtype m) k"
    and "\<And>t a. store m = Some t \<Longrightarrow> an = Some a \<Longrightarrow> a \<notin> dom (heap t) \<and> a \<noteq> 0"
    and "map_convert_key ak m k \<noteq> None" "map_convert_value av m v \<noteq> None"
  shows "\<exists>m'. map_replace ak av an (Some m) (Some k) (Some v) =
       Some (k \<in> fst ` set xs \<or> an \<noteq> None, Some m') \<and> mtype m' = mtype m \<and>
     map_ok sg m' (if k \<in> fst ` set xs then al_update k v xs
                   else if an = None then xs else al_insert (map_cmp_for sg (mtype m)) k v xs)"
proof -
  from assms(1) obtain t where t: "store m = Some t" "tree_ok (map_cmp_for sg (mtype m)) (valid_key (mtype m)) t xs"
    by (auto simp: map_ok_def)
  have cv: "map_convert_key ak m k = Some k" "map_convert_value av m v = Some v"
    using assms(4,5) by (auto simp: map_convert_key_def map_convert_value_def split: if_splits)
  show ?thesis
  proof (cases "k \<in> fst ` set xs")
    case True
    then show ?thesis
      using map_order.replace_found [OF t(2) assms(2) True, of an v] t(1) cv
      by (auto simp: map_replace_def map_ok_def)
  next
    case False
    obtain t' where "rbtree_insert an (Some t) (Some k) (Some v) =
        Some (k \<notin> fst ` set xs \<and> an \<noteq> None, Some t')"
      "tree_ok (map_cmp_for sg (mtype m)) (valid_key (mtype m)) t'
         (if k \<in> fst ` set xs \<or> an = None then xs else al_insert (map_cmp_for sg (mtype m)) k v xs)"
      using map_order.insert_ok [OF t(2) assms(2), of an v] assms(3) [OF t(1)] by blast
    then show ?thesis
      using map_order.replace_missing [OF t(2) assms(2) False, of an v] t(1) cv False
      by (simp add: map_replace_def map_ok_def)
  qed
qed

lemma map_size_ok: "map_ok sg m xs \<Longrightarrow> map_size (Some m) = Some (length xs)"
  using size_ok by (auto simp: map_ok_def map_size_def)

lemma map_iterate_ok:
  "map_ok sg m xs \<Longrightarrow> \<exists>t i. store m = Some t \<and> map_itor_new True (Some m) = Some i \<and>
     iterate_from t i = Some (boxed xs)"
  using iterate_ok by (fastforce simp: map_ok_def map_itor_new_def)

lemma map_free_ok:
  "map_ok sg m xs \<Longrightarrow> \<exists>t. map_free (Some m) = Some (Some t) \<and> heap t = Map.empty"
  using free_ok by (fastforce simp: map_ok_def map_free_def)

section \<open>The abstract map meets its contract\<close>

lemma al_insert_kstr:
  "al_insert (str_key_cmp sg) (KStr k) v (kstr m) = kstr (al_insert (rbtree_str_cmp sg) k v m)"
  by (induction m) (auto simp: kstr_def)

lemma map_of_kstr: "map_of (kstr m) (KStr k) = map_of m k"
  by (induction m) (auto simp: kstr_def)

lemma keys_kstr: "KStr k \<in> fst ` set (kstr m) \<longleftrightarrow> k \<in> fst ` set m"
  by (force simp: kstr_def)

lemma al_remove_kstr: "al_remove (KStr k) (kstr m) = kstr (al_remove k m)"
  by (induction m) (auto simp: kstr_def al_remove_def)

lemma al_update_kstr: "al_update (KStr k) v (kstr m) = kstr (al_update k v m)"
  by (induction m) (auto simp: kstr_def al_update_def)

lemma smap_dom: "map_of m k \<noteq> None \<longleftrightarrow> k \<in> fst ` set m"
  by (simp add: map_of_eq_None_iff)

lemma str_cmp_refl [simp]: "rbtree_str_cmp sg a a = 0"
  by (induction a) simp_all

lemma str_sorted_distinct: "sorted_wrt (\<lambda>a b. rbtree_str_cmp sg a b < 0) ks \<Longrightarrow> distinct ks"
  by (rule sorted_wrt_irrefl [of "\<lambda>a b. rbtree_str_cmp sg a b < 0"]) simp_all

lemma smap_ok_distinct: "smap_ok m \<Longrightarrow> distinct (map fst m)"
  unfolding smap_ok_def by (blast intro: str_sorted_distinct)

lemma smap_ok_Nil [simp]: "smap_ok []"
  by (simp add: smap_ok_def)

interpretation smap: string_map smap_search smap_insert smap_replace smap_remove smap_ok
proof unfold_locales
  fix c n and m :: "'v smap" and k v
  have ins: "smap_ok m \<Longrightarrow> no_nul k \<Longrightarrow> map_of m k = None \<Longrightarrow>
      smap_ok (al_insert (rbtree_str_cmp char_signed) k v m)"
    using str_order.al_insert_sorted [of char_signed m k v] str_order.al_insert_keys [of char_signed k v m]
    by (auto simp: smap_ok_def map_of_eq_None_iff)
  have upd: "smap_ok m \<Longrightarrow> smap_ok (al_update k v m)"
    unfolding smap_ok_def by (metis keys_al_update list.set_map)
  show "fst (smap_insert c n m k v) \<longleftrightarrow> c \<and> n \<and> smap_search m k = None"
    by (auto simp: smap_insert_def smap_search_def)
  show "smap_search (snd (smap_insert c n m k v)) =
      (if fst (smap_insert c n m k v) then (smap_search m)(k \<mapsto> v) else smap_search m)"
    using str_order.map_of_al_insert [of k m char_signed v]
    by (auto simp: smap_insert_def smap_search_def fun_eq_iff map_of_eq_None_iff)
  show "smap_ok m \<Longrightarrow> no_nul k \<Longrightarrow> smap_ok (snd (smap_insert c n m k v))"
    using ins by (auto simp: smap_insert_def)
  show "fst (smap_replace c n m k v) \<longleftrightarrow> c \<and> (smap_search m k \<noteq> None \<or> n)"
    by (auto simp: smap_replace_def smap_insert_def smap_search_def)
  show "smap_search (snd (smap_replace c n m k v)) =
      (if fst (smap_replace c n m k v) then (smap_search m)(k \<mapsto> v) else smap_search m)"
    using str_order.map_of_al_insert [of k m char_signed v] map_of_al_update [of k m v] smap_dom [of m k]
    by (auto simp: smap_replace_def smap_insert_def smap_search_def fun_eq_iff map_of_eq_None_iff)
  show "smap_ok m \<Longrightarrow> no_nul k \<Longrightarrow> smap_ok (snd (smap_replace c n m k v))"
    using ins upd by (auto simp: smap_replace_def smap_insert_def)
  show "fst (smap_remove m k) \<longleftrightarrow> smap_search m k \<noteq> None"
    by (simp add: smap_remove_def smap_search_def)
  show "smap_search (snd (smap_remove m k)) = (smap_search m)(k := None)"
    using map_of_al_remove [of k m] by (auto simp: smap_remove_def smap_search_def fun_eq_iff)
  show "smap_ok m \<Longrightarrow> smap_ok (snd (smap_remove m k))"
    by (auto simp: smap_remove_def smap_ok_def al_remove_def sorted_wrt_map sorted_wrt_filter)
qed (auto simp: smap_insert_def smap_replace_def smap_remove_def split: if_splits)

end
