(* ===== verification/Map_Refine.thy ===== *)
theory Map_Refine
  imports Cmap
begin

text \<open>
  Programs over a string map. A client of \<^verbatim>\<open>src/utils/cutils/map/map.c\<close> makes one map and then runs any
  sequence of inserts, replacements, removals, searches and size queries on it. This theory runs such
  sequences on the pointer-level operations of \<open>Cmap\<close> and on the abstract operations \<open>smap_*\<close>, and shows
  that the two return the same results step by step, so that the other components may be modelled with
  the abstract map. The addresses of new nodes come from a parameter \<open>alloc\<close>, of which only what the C
  library documents is assumed: the address is not null and not in use.
\<close>

datatype 'v map_op =
  Op_Insert bool bool string 'v | Op_Replace bool bool string 'v
| Op_Remove string | Op_Search string | Op_Size

datatype 'v map_res = R_Bool bool | R_Val "'v option" | R_Size nat

fun op_key :: "'v map_op \<Rightarrow> string" where
  "op_key (Op_Insert _ _ k _) = k"
| "op_key (Op_Replace _ _ k _) = k"
| "op_key (Op_Remove k) = k"
| "op_key (Op_Search k) = k"
| "op_key Op_Size = []"

type_synonym 'v allocator = "(map_key, 'v) rb_tree option \<Rightarrow> addr"

definition alloc_ok :: "'v allocator \<Rightarrow> bool" where
  "alloc_ok alloc \<longleftrightarrow>
     (\<forall>t. finite (dom (heap t)) \<longrightarrow> alloc (Some t) \<noteq> 0 \<and> alloc (Some t) \<notin> dom (heap t))"

definition new_node :: "'v allocator \<Rightarrow> bool \<Rightarrow> 'v map_t \<Rightarrow> addr option" where
  "new_node alloc an m = (if an then Some (alloc (store m)) else None)"

fun map_step :: "'v allocator \<Rightarrow> 'v map_t \<Rightarrow> 'v map_op \<Rightarrow> ('v map_res \<times> 'v map_t) option" where
  "map_step alloc m (Op_Insert av an k v) = do {
     (r, mp) \<leftarrow> map_insert True av (new_node alloc an m) (Some m) (Some (KStr k)) (Some v);
     m' \<leftarrow> mp; Some (R_Bool r, m') }"
| "map_step alloc m (Op_Replace av an k v) = do {
     (r, mp) \<leftarrow> map_replace True av (new_node alloc an m) (Some m) (Some (KStr k)) (Some v);
     m' \<leftarrow> mp; Some (R_Bool r, m') }"
| "map_step alloc m (Op_Remove k) = do {
     (r, mp) \<leftarrow> map_remove (Some m) (Some (KStr k)); m' \<leftarrow> mp; Some (R_Bool r, m') }"
| "map_step alloc m (Op_Search k) = do {
     r \<leftarrow> map_search (Some m) (Some (KStr k)); Some (R_Val r, m) }"
| "map_step alloc m Op_Size = do { n \<leftarrow> map_size (Some m); Some (R_Size n, m) }"

fun map_run :: "'v allocator \<Rightarrow> 'v map_t \<Rightarrow> 'v map_op list \<Rightarrow> ('v map_res list \<times> 'v map_t) option" where
  "map_run alloc m [] = Some ([], m)"
| "map_run alloc m (x # xs) = do {
     (r, m1) \<leftarrow> map_step alloc m x;
     (rs, m2) \<leftarrow> map_run alloc m1 xs;
     Some (r # rs, m2) }"

text \<open>The same programs on the abstract map; a value of this type may need a copy that can fail.\<close>

definition copies :: "map_type_t \<Rightarrow> bool \<Rightarrow> bool" where
  "copies ty av \<longleftrightarrow> av \<or> is_val_ptr ty \<or> is_val_str ty"

fun smap_step :: "map_type_t \<Rightarrow> 'v smap \<Rightarrow> 'v map_op \<Rightarrow> 'v map_res \<times> 'v smap" where
  "smap_step ty s (Op_Insert av an k v) = (let (r, s') = smap_insert (copies ty av) an s k v in (R_Bool r, s'))"
| "smap_step ty s (Op_Replace av an k v) = (let (r, s') = smap_replace (copies ty av) an s k v in (R_Bool r, s'))"
| "smap_step ty s (Op_Remove k) = (let (r, s') = smap_remove s k in (R_Bool r, s'))"
| "smap_step ty s (Op_Search k) = (R_Val (smap_search s k), s)"
| "smap_step ty s Op_Size = (R_Size (length s), s)"

fun smap_run :: "map_type_t \<Rightarrow> 'v smap \<Rightarrow> 'v map_op list \<Rightarrow> 'v map_res list \<times> 'v smap" where
  "smap_run ty s [] = ([], s)"
| "smap_run ty s (x # xs) =
     (let (r, s1) = smap_step ty s x; (rs, s2) = smap_run ty s1 xs in (r # rs, s2))"

text \<open>The simulation relation.\<close>

definition string_map_of :: "map_type_t \<Rightarrow> 'v map_t \<Rightarrow> 'v smap \<Rightarrow> bool" where
  "string_map_of ty m s \<longleftrightarrow> mtype m = ty \<and> map_ok char_signed m (kstr s)"

section \<open>Each operation\<close>

lemma set_tree_finite [simp]: "finite (set_tree T)"
  by (induction T) auto

lemma map_ok_finite: "map_ok sg m xs \<Longrightarrow> store m = Some t \<Longrightarrow> finite (dom (heap t))"
  by (auto simp: map_ok_def tree_ok_def)

lemma convert_value_eq: "is_key_str (mtype m) \<Longrightarrow>
    map_convert_value av m v = (if copies (mtype m) av then Some v else None)"
  by (cases "mtype m")
    (auto simp: map_convert_value_def copies_def is_key_str_def is_val_ptr_def is_val_bool_def is_val_int_def is_val_str_def)

lemma convert_key_eq: "is_key_str (mtype m) \<Longrightarrow> map_convert_key ak m k = Some k"
  by (auto simp: map_convert_key_def key_kind_defs)

lemma cmp_for_str: "is_key_str ty \<Longrightarrow> map_cmp_for sg ty = str_key_cmp sg"
  using key_kinds(1) by (simp add: map_cmp_for_def)

lemma new_node_fresh:
  assumes "alloc_ok alloc" and "map_ok sg m xs" and "store m = Some t" and "new_node alloc an m = Some a"
  shows "a \<notin> dom (heap t) \<and> a \<noteq> 0"
  using assms map_ok_finite [OF assms(2,3)] by (auto simp: alloc_ok_def new_node_def split: if_splits)

lemmas smap_op_defs = smap_insert_def smap_replace_def smap_remove_def smap_search_def

lemma step_insert:
  assumes "alloc_ok alloc" and "string_map_of ty m s" and "is_key_str ty" and "no_nul k"
  shows "\<exists>m'. map_step alloc m (Op_Insert av an k v) =
      Some (fst (smap_step ty s (Op_Insert av an k v)), m') \<and>
    string_map_of ty m' (snd (smap_step ty s (Op_Insert av an k v)))"
proof (cases "copies ty av")
  case True
  have ok: "map_ok char_signed m (kstr s)" and ty: "mtype m = ty" using assms(2) by (auto simp: string_map_of_def)
  obtain m' where "map_insert True av (new_node alloc an m) (Some m) (Some (KStr k)) (Some v) =
       Some (KStr k \<notin> fst ` set (kstr s) \<and> new_node alloc an m \<noteq> None, Some m')" "mtype m' = ty"
     "map_ok char_signed m' (if KStr k \<in> fst ` set (kstr s) \<or> new_node alloc an m = None then kstr s
        else al_insert (map_cmp_for char_signed ty) (KStr k) v (kstr s))"
    using map_insert_ok [OF ok, of "KStr k" "new_node alloc an m" True av v] new_node_fresh [OF assms(1) ok]
      assms(3,4) convert_value_eq [of m av v] convert_key_eq [of m True] True ty by auto
  moreover have "new_node alloc an m = None \<longleftrightarrow> \<not> an" by (simp add: new_node_def)
  ultimately show ?thesis
    using True smap_dom [of s k] assms(3)
    by (auto simp: smap_insert_def string_map_of_def keys_kstr cmp_for_str al_insert_kstr split: if_splits)
next
  case False
  then show ?thesis
    using assms(2,3) convert_value_eq [of m av v] convert_key_eq [of m True]
    by (auto simp: map_insert_def smap_insert_def string_map_of_def)
qed

lemma step_replace:
  assumes "alloc_ok alloc" and "string_map_of ty m s" and "is_key_str ty" and "no_nul k"
  shows "\<exists>m'. map_step alloc m (Op_Replace av an k v) =
      Some (fst (smap_step ty s (Op_Replace av an k v)), m') \<and>
    string_map_of ty m' (snd (smap_step ty s (Op_Replace av an k v)))"
proof (cases "copies ty av")
  case True
  have ok: "map_ok char_signed m (kstr s)" and ty: "mtype m = ty" using assms(2) by (auto simp: string_map_of_def)
  obtain m' where "map_replace True av (new_node alloc an m) (Some m) (Some (KStr k)) (Some v) =
       Some (KStr k \<in> fst ` set (kstr s) \<or> new_node alloc an m \<noteq> None, Some m')" "mtype m' = ty"
     "map_ok char_signed m' (if KStr k \<in> fst ` set (kstr s) then al_update (KStr k) v (kstr s)
        else if new_node alloc an m = None then kstr s
        else al_insert (map_cmp_for char_signed ty) (KStr k) v (kstr s))"
    using map_replace_ok [OF ok, of "KStr k" "new_node alloc an m" True av v] new_node_fresh [OF assms(1) ok]
      assms(3,4) convert_value_eq [of m av v] convert_key_eq [of m True] True ty by auto
  moreover have "new_node alloc an m = None \<longleftrightarrow> \<not> an" by (simp add: new_node_def)
  ultimately show ?thesis
    using True smap_dom [of s k] assms(3)
    by (auto simp: smap_insert_def smap_replace_def string_map_of_def keys_kstr cmp_for_str al_insert_kstr
        al_update_kstr split: if_splits)
next
  case False
  then show ?thesis
    using assms(2,3) convert_value_eq [of m av v] convert_key_eq [of m True]
    by (auto simp: map_replace_def smap_replace_def string_map_of_def)
qed

lemma step_remove:
  assumes "string_map_of ty m s" and "is_key_str ty" and "no_nul k"
  shows "\<exists>m'. map_step alloc m (Op_Remove k) = Some (fst (smap_step ty s (Op_Remove k)), m') \<and>
    string_map_of ty m' (snd (smap_step ty s (Op_Remove k)))"
proof -
  have ok: "map_ok char_signed m (kstr s)" and ty: "mtype m = ty" using assms(1) by (auto simp: string_map_of_def)
  have "k \<notin> fst ` set s \<Longrightarrow> al_remove k s = s" by (force simp: al_remove_def intro: filter_True)
  then show ?thesis
    using map_remove_ok [OF ok, of "KStr k"] assms ty
    by (cases "k \<in> fst ` set s")
      (auto simp: smap_remove_def string_map_of_def keys_kstr al_remove_kstr map_of_eq_None_iff simp del: image_iff)
qed

lemma step_refines:
  assumes "alloc_ok alloc" and "string_map_of ty m s" and "is_key_str ty" and "no_nul (op_key x)"
  shows "\<exists>m'. map_step alloc m x = Some (fst (smap_step ty s x), m') \<and>
    string_map_of ty m' (snd (smap_step ty s x))"
proof (cases x)
  case (Op_Search k)
  then show ?thesis
    using map_search_ok [of char_signed m "kstr s" "KStr k"] assms
    by (auto simp: string_map_of_def map_of_kstr smap_search_def)
next
  case Op_Size
  then show ?thesis
    using map_size_ok [of char_signed m "kstr s"] assms by (auto simp: string_map_of_def kstr_def)
qed (use step_insert [OF assms(1-3)] step_replace [OF assms(1-3)] step_remove [OF assms(2,3)] assms(4) in auto)

lemma run_refines:
  assumes "alloc_ok alloc" and "is_key_str ty" and "string_map_of ty m s" and "\<forall>x \<in> set xs. no_nul (op_key x)"
  shows "\<exists>m'. map_run alloc m xs = Some (fst (smap_run ty s xs), m') \<and>
    string_map_of ty m' (snd (smap_run ty s xs))"
  using assms(3,4)
proof (induction xs arbitrary: m s)
  case (Cons x xs)
  have "no_nul (op_key x)" and ks: "\<forall>x \<in> set xs. no_nul (op_key x)" using Cons.prems(2) by simp_all
  from step_refines [OF assms(1) Cons.prems(1) assms(2) this(1)] obtain m1
    where m1: "map_step alloc m x = Some (fst (smap_step ty s x), m1)"
      "string_map_of ty m1 (snd (smap_step ty s x))" by blast
  from Cons.IH [OF m1(2) ks] obtain m2
    where "map_run alloc m1 xs = Some (fst (smap_run ty (snd (smap_step ty s x)) xs), m2)"
      "string_map_of ty m2 (snd (smap_run ty (snd (smap_step ty s x)) xs))" by blast
  with m1 show ?case by (simp add: case_prod_unfold Let_def)
qed simp

lemma program_ends:
  fixes alloc :: "'v allocator"
  assumes "alloc_ok alloc" and "is_key_str ty" and "a \<noteq> 0" and "\<forall>x \<in> set xs. no_nul (op_key x)"
  obtains m m' :: "'v map_t" where "map_new char_signed True True (Some a) ty True freer = Some m"
    "map_run alloc m xs = Some (fst (smap_run ty [] xs), m')" "mtype m' = ty"
    "map_ok char_signed m' (kstr (snd (smap_run ty [] xs)))"
proof -
  obtain m :: "'v map_t" where m: "map_new char_signed True True (Some a) ty True freer = Some m" "mtype m = ty"
    "map_ok char_signed m []"
    using map_new_ok [OF assms(3)] by blast
  then have "string_map_of ty m []" by (simp add: string_map_of_def kstr_def)
  from run_refines [OF assms(1,2) this, of xs] assms(4) m(1) that show ?thesis by (auto simp: string_map_of_def)
qed

lemma map_ok_sorted:
  assumes "map_ok sg m (kstr s)" and "is_key_str (mtype m)"
  shows "sorted_wrt (\<lambda>a b. rbtree_str_cmp sg a b < 0) (map fst s)" and "distinct (map fst s)"
proof -
  have "sorted_wrt (\<lambda>a b. map_cmp_for sg (mtype m) a b < 0) (map fst (kstr s))"
    using assms(1) by (auto simp: map_ok_def tree_ok_def)
  then show srt: "sorted_wrt (\<lambda>a b. rbtree_str_cmp sg a b < 0) (map fst s)"
    by (simp add: cmp_for_str [OF assms(2)] kstr_def case_prod_unfold sorted_wrt_map)
  from str_sorted_distinct [OF this] show "distinct (map fst s)" .
qed

section \<open>Properties\<close>

text \<open>
  C1. Any program over a freshly made string map behaves as on the abstract map. For every allocator
  that hands out unused non-null addresses and every sequence of inserts, replacements, removals,
  searches and size queries, the pointer-level red-black tree code never dereferences a null or
  dangling pointer and never loops; each call returns what the abstract association list returns
  (allocation failures included), and the final tree represents the final list.
\<close>

theorem map_program_refines:
  fixes alloc :: "'v allocator"
  assumes "alloc_ok alloc" and "is_key_str ty" and "a \<noteq> 0" and "\<forall>x \<in> set xs. no_nul (op_key x)"
  shows "\<exists>m m'. map_new char_signed True True (Some a) ty True freer = Some m \<and>
    map_run alloc m xs = Some (fst (smap_run ty [] xs), m') \<and>
    map_ok char_signed m' (kstr (snd (smap_run ty [] xs)))"
  by (rule program_ends [OF assms]) blast

definition demo_alloc :: "'v allocator" where
  "demo_alloc tp = (case tp of None \<Rightarrow> 1 | Some t \<Rightarrow> Suc (Max (insert 0 (dom (heap t)))))"

lemma demo_alloc_ok: "alloc_ok demo_alloc"
proof -
  have "Suc (Max (insert 0 A)) \<notin> A" if fin: "finite A" for A :: "nat set"
  proof
    assume "Suc (Max (insert 0 A)) \<in> A"
    then have "Suc (Max (insert 0 A)) \<le> Max (insert 0 A)" by (intro Max_ge) (use fin in simp_all)
    then show False by simp
  qed
  then show ?thesis by (simp add: alloc_ok_def demo_alloc_def)
qed

definition demo_ops :: "int map_op list" where
  "demo_ops = [Op_Insert True True ''b'' 1, Op_Insert True True ''a'' 2, Op_Insert True True ''b'' 3,
     Op_Search ''b'', Op_Remove ''b'', Op_Search ''b'', Op_Size]"

lemma demo_run:
  "smap_run MAP_STR_INT [] demo_ops =
     ([R_Bool True, R_Bool True, R_Bool False, R_Val (Some 1), R_Bool True, R_Val None, R_Size 1], [(''a'', 2)])"
  by code_simp

lemma demo_keys: "\<forall>x \<in> set demo_ops. no_nul (op_key x)"
  by code_simp

theorem map_program_refines_witness:
  "\<exists>m m'. map_new char_signed True True (Some 1) MAP_STR_INT True True = Some m \<and>
    map_run demo_alloc m demo_ops =
      Some ([R_Bool True, R_Bool True, R_Bool False, R_Val (Some 1), R_Bool True, R_Val None, R_Size 1], m') \<and>
    map_ok char_signed m' [(KStr ''a'', 2)]"
  using map_program_refines [OF demo_alloc_ok _ _ demo_keys, of MAP_STR_INT 1 True]
  by (simp add: is_key_str_def demo_run kstr_def)

text \<open>
  C23. After any program, the iterator of the map visits every entry exactly once, in the order of the
  C string comparison: the client loop over \<^verbatim>\<open>map_itor_new\<close>, \<^verbatim>\<open>map_itor_valid\<close> and \<^verbatim>\<open>map_itor_next\<close>
  ends and yields the entries of the abstract list, whose keys are strictly increasing.
\<close>

theorem map_program_iterates:
  fixes alloc :: "'v allocator"
  assumes "alloc_ok alloc" and "is_key_str ty" and "a \<noteq> 0" and "\<forall>x \<in> set xs. no_nul (op_key x)"
  shows "\<exists>m m' t i. map_new char_signed True True (Some a) ty True freer = Some m \<and>
    map_run alloc m xs = Some (fst (smap_run ty [] xs), m') \<and> store m' = Some t \<and>
    map_itor_new True (Some m') = Some i \<and>
    iterate_from t i = Some (boxed (kstr (snd (smap_run ty [] xs)))) \<and>
    sorted_wrt (\<lambda>a b. rbtree_str_cmp char_signed a b < 0) (map fst (snd (smap_run ty [] xs))) \<and>
    distinct (map fst (snd (smap_run ty [] xs)))"
proof (rule program_ends [OF assms])
  fix m m' :: "'v map_t"
  assume *: "map_new char_signed True True (Some a) ty True freer = Some m"
    "map_run alloc m xs = Some (fst (smap_run ty [] xs), m')" "mtype m' = ty"
    "map_ok char_signed m' (kstr (snd (smap_run ty [] xs)))"
  then have "is_key_str (mtype m')" using assms(2) by simp
  from map_ok_sorted [OF *(4) this] map_iterate_ok [OF *(4)] *(1,2) show ?thesis by blast
qed

theorem map_program_iterates_witness:
  "\<exists>m m' t i. map_new char_signed True True (Some 1) MAP_STR_INT True True = Some m \<and>
    map_run demo_alloc m demo_ops = Some (fst (smap_run MAP_STR_INT [] demo_ops), m') \<and> store m' = Some t \<and>
    map_itor_new True (Some m') = Some i \<and> iterate_from t i = Some [(Some (KStr ''a''), Some 2)]"
  using map_program_iterates [OF demo_alloc_ok _ _ demo_keys, of MAP_STR_INT 1 True]
  by (simp add: is_key_str_def demo_run kstr_def boxed_def)

text \<open>
  C13. Freeing the map after any program releases every node, the sentinel included (the heap is empty
  afterwards, so nothing leaks), and hands every entry still in the map to the free callback exactly
  once (the multiset of callback arguments grows by exactly the remaining entries).
\<close>

theorem map_program_frees:
  fixes alloc :: "'v allocator"
  assumes "alloc_ok alloc" and "is_key_str ty" and "a \<noteq> 0" and "\<forall>x \<in> set xs. no_nul (op_key x)"
  shows "\<exists>m m' t t'. map_new char_signed True True (Some a) ty True freer = Some m \<and>
    map_run alloc m xs = Some (fst (smap_run ty [] xs), m') \<and> store m' = Some t \<and>
    map_free (Some m') = Some (Some t') \<and> heap t' = Map.empty \<and>
    mset (freed t') = mset (freed t) +
      (if kvfreer t then mset (boxed (kstr (snd (smap_run ty [] xs)))) else {#})"
proof (rule program_ends [OF assms])
  fix m m' :: "'v map_t"
  assume *: "map_new char_signed True True (Some a) ty True freer = Some m"
    "map_run alloc m xs = Some (fst (smap_run ty [] xs), m')" "mtype m' = ty"
    "map_ok char_signed m' (kstr (snd (smap_run ty [] xs)))"
  then obtain t where "store m' = Some t"
    "tree_ok (map_cmp_for char_signed ty) (valid_key ty) t (kstr (snd (smap_run ty [] xs)))"
    by (auto simp: map_ok_def)
  with *(1,2) free_ok [OF this(2)] show ?thesis by (fastforce simp: map_free_def)
qed

theorem map_program_frees_witness:
  "\<exists>m m' t t'. map_new char_signed True True (Some 1) MAP_STR_INT True True = Some m \<and>
    map_run demo_alloc m demo_ops = Some (fst (smap_run MAP_STR_INT [] demo_ops), m') \<and> store m' = Some t \<and>
    map_free (Some m') = Some (Some t') \<and> heap t' = Map.empty"
  using map_program_frees [OF demo_alloc_ok _ _ demo_keys, of MAP_STR_INT 1 True]
  by (simp add: is_key_str_def) blast

end
