(* ===== verification/Regex.thy ===== *)
theory Regex
  imports Prelude
begin

text \<open>
  POSIX extended regular expressions as \<^verbatim>\<open>src/utils/cutils/utils_regex.c\<close> uses them through
  \<^verbatim>\<open>regcomp\<close> and \<^verbatim>\<open>regexec\<close> (flags \<^verbatim>\<open>REG_EXTENDED | REG_NOSUB\<close>): a parser from pattern strings to
  expressions, a matcher by derivatives, and the proof that the matcher decides the language of the
  expression. Patterns stay the strings of the source. On top of it \<^verbatim>\<open>util_reg_match\<close> and
  \<^verbatim>\<open>util_wildcard_to_regex\<close>.
\<close>

section \<open>Expressions and their languages\<close>

text \<open>A set of characters: ranges by character code, possibly complemented.\<close>

datatype cset = CSet bool "(char \<times> char) list"

datatype rexp =
  Zero | One | Sym cset | Seq rexp rexp | Alt rexp rexp | Star rexp | Rep rexp nat nat

definition code_of :: "char \<Rightarrow> nat" where
  "code_of c = of_char c"

fun in_cset :: "char \<Rightarrow> cset \<Rightarrow> bool" where
  "in_cset c (CSet neg rs) =
     (neg \<noteq> list_ex (\<lambda>(lo, hi). code_of lo \<le> code_of c \<and> code_of c \<le> code_of hi) rs)"

definition any_char :: cset where
  "any_char = CSet True []"

definition only :: "char \<Rightarrow> cset" where
  "only c = CSet False [(c, c)]"

definition conc :: "string set \<Rightarrow> string set \<Rightarrow> string set" where
  "conc A B = {u @ v | u v. u \<in> A \<and> v \<in> B}"

primrec pow :: "string set \<Rightarrow> nat \<Rightarrow> string set" where
  "pow A 0 = {[]}"
| "pow A (Suc n) = conc A (pow A n)"

primrec lang :: "rexp \<Rightarrow> string set" where
  "lang Zero = {}"
| "lang One = {[]}"
| "lang (Sym s) = {[c] | c. in_cset c s}"
| "lang (Seq r q) = conc (lang r) (lang q)"
| "lang (Alt r q) = lang r \<union> lang q"
| "lang (Star r) = (\<Union>n. pow (lang r) n)"
| "lang (Rep r m n) = (\<Union>k \<in> {m..n}. pow (lang r) k)"

section \<open>The matcher\<close>

primrec nullable :: "rexp \<Rightarrow> bool" where
  "nullable Zero = False"
| "nullable One = True"
| "nullable (Sym s) = False"
| "nullable (Seq r q) = (nullable r \<and> nullable q)"
| "nullable (Alt r q) = (nullable r \<or> nullable q)"
| "nullable (Star r) = True"
| "nullable (Rep r m n) = (m \<le> n \<and> (m = 0 \<or> nullable r))"

primrec der :: "char \<Rightarrow> rexp \<Rightarrow> rexp" where
  "der c Zero = Zero"
| "der c One = Zero"
| "der c (Sym s) = (if in_cset c s then One else Zero)"
| "der c (Seq r q) = (if nullable r then Alt (Seq (der c r) q) (der c q) else Seq (der c r) q)"
| "der c (Alt r q) = Alt (der c r) (der c q)"
| "der c (Star r) = Seq (der c r) (Star r)"
| "der c (Rep r m n) = (if n = 0 then Zero else Seq (der c r) (Rep r (m - 1) (n - 1)))"

fun accepts :: "rexp \<Rightarrow> string \<Rightarrow> bool" where
  "accepts r [] = nullable r"
| "accepts r (c # cs) = accepts (der c r) cs"

section \<open>The parser\<close>

text \<open>Decimal numbers of an interval expression.\<close>

definition is_digit :: "char \<Rightarrow> bool" where
  "is_digit c \<longleftrightarrow> 48 \<le> code_of c \<and> code_of c \<le> 57"

fun p_num :: "nat option \<Rightarrow> string \<Rightarrow> nat option \<times> string" where
  "p_num acc [] = (acc, [])"
| "p_num acc (c # cs) =
     (if is_digit c
      then p_num (Some (10 * (case acc of None \<Rightarrow> 0 | Some a \<Rightarrow> a) + (code_of c - 48))) cs
      else (acc, c # cs))"

text \<open>After the opening brace: \<open>{m}\<close>, \<open>{m,}\<close> or \<open>{m,n}\<close>.\<close>

definition starts :: "char \<Rightarrow> string \<Rightarrow> bool" where
  "starts c s \<longleftrightarrow> s \<noteq> [] \<and> hd s = c"

definition p_interval :: "rexp \<Rightarrow> string \<Rightarrow> (rexp \<times> string) option" where
  "p_interval r s =
     (case p_num None s of
        (None, _) \<Rightarrow> None
      | (Some m, rest) \<Rightarrow>
          if starts CHR ''}'' rest then Some (Rep r m m, tl rest)
          else if starts CHR '','' rest then
            (case p_num None (tl rest) of
               (None, rest') \<Rightarrow>
                 if starts CHR ''}'' rest' then Some (Seq (Rep r m m) (Star r), tl rest') else None
             | (Some n, rest') \<Rightarrow>
                 if starts CHR ''}'' rest' \<and> m \<le> n then Some (Rep r m n, tl rest') else None)
          else None)"

text \<open>The ranges of a bracket expression, up to its closing bracket; a backslash is an ordinary character here.\<close>

function p_ranges :: "(char \<times> char) list \<Rightarrow> string \<Rightarrow> ((char \<times> char) list \<times> string) option" where
  "p_ranges acc s =
     (if s = [] then None
      else if hd s = CHR '']'' \<and> acc \<noteq> [] then Some (rev acc, tl s)
      else if length s \<ge> 3 \<and> s ! 1 = CHR ''-'' \<and> s ! 2 \<noteq> CHR '']''
        then p_ranges ((hd s, s ! 2) # acc) (drop 3 s)
      else p_ranges ((hd s, hd s) # acc) (tl s))"
  by pat_completeness auto
termination
  by (relation "measure (\<lambda>(acc, s). length s)") auto

declare p_ranges.simps [simp del]

definition p_bracket :: "string \<Rightarrow> (rexp \<times> string) option" where
  "p_bracket s =
     (if starts CHR ''^'' s
      then map_option (\<lambda>(rs, rest). (Sym (CSet True rs), rest)) (p_ranges [] (tl s))
      else map_option (\<lambda>(rs, rest). (Sym (CSet False rs), rest)) (p_ranges [] s))"

fun p_dups :: "nat \<Rightarrow> rexp \<Rightarrow> string \<Rightarrow> (rexp \<times> string) option" where
  "p_dups 0 r s = None"
| "p_dups (Suc n) r s =
     (if starts CHR ''*'' s then p_dups n (Star r) (tl s)
      else if starts CHR ''+'' s then p_dups n (Seq r (Star r)) (tl s)
      else if starts CHR ''?'' s then p_dups n (Rep r 0 1) (tl s)
      else if starts CHR ''{'' s then
        (case p_interval r (tl s) of None \<Rightarrow> None | Some (q, rest) \<Rightarrow> p_dups n q rest)
      else Some (r, s))"

text \<open>
  A backslash quotes the next character, except before the signs less and greater, where the C library
  reads a word boundary, which this model does not interpret.
\<close>

definition quotable :: "char \<Rightarrow> bool" where
  "quotable c \<longleftrightarrow> c \<in> set (CHR 0x5C # ''^.[]$()|*+?{}'')"

definition special :: "char \<Rightarrow> bool" where
  "special c \<longleftrightarrow> c \<in> set ''^$*+?{|)''"

fun p_alt :: "nat \<Rightarrow> string \<Rightarrow> (rexp \<times> string) option"
  and p_branch :: "nat \<Rightarrow> string \<Rightarrow> (rexp \<times> string) option"
  and p_atom :: "nat \<Rightarrow> string \<Rightarrow> (rexp \<times> string) option" where
  "p_alt 0 s = None"
| "p_alt (Suc n) s =
     (case p_branch n s of
        None \<Rightarrow> None
      | Some (r, rest) \<Rightarrow>
          if starts CHR ''|'' rest then
            (case p_alt n (tl rest) of None \<Rightarrow> None | Some (q, rest') \<Rightarrow> Some (Alt r q, rest'))
          else Some (r, rest))"
| "p_branch 0 s = None"
| "p_branch (Suc n) s =
     (if s = [] \<or> s = ''$'' \<or> starts CHR ''|'' s \<or> starts CHR '')'' s then Some (One, s)
      else (case p_atom n s of
              None \<Rightarrow> None
            | Some (a, rest) \<Rightarrow>
                (case p_dups (Suc (length rest)) a rest of
                   None \<Rightarrow> None
                 | Some (d, rest') \<Rightarrow>
                     (case p_branch n rest' of
                        None \<Rightarrow> None
                      | Some (b, rest'') \<Rightarrow> Some (Seq d b, rest'')))))"
| "p_atom 0 s = None"
| "p_atom (Suc n) s =
     (if s = [] then None
      else if hd s = CHR ''('' then
        (case p_alt n (tl s) of
           None \<Rightarrow> None
         | Some (r, rest) \<Rightarrow> if starts CHR '')'' rest then Some (r, tl rest) else None)
      else if hd s = CHR ''['' then p_bracket (tl s)
      else if hd s = CHR ''.'' then Some (Sym any_char, tl s)
      else if hd s = CHR 0x5C then
        (if tl s \<noteq> [] \<and> quotable (hd (tl s)) then Some (Sym (only (hd (tl s))), tl (tl s)) else None)
      else if special (hd s) then None
      else Some (Sym (only (hd s)), tl s))"

text \<open>
  A pattern is compiled to an expression for the whole string: without a leading \<open>^\<close> (or a trailing
  \<open>$\<close>) any text may come before (or after) the match. The fuel is enough because every call of the
  parser either consumes a character or goes one level down.
\<close>

definition regcomp :: "string \<Rightarrow> rexp option" where
  "regcomp p =
     (let bol = starts CHR ''^'' p; body = (if bol then tl p else p)
      in case p_alt (3 * length body + 3) body of
           None \<Rightarrow> None
         | Some (r, rest) \<Rightarrow>
             (let front = (if bol then r else Seq (Star (Sym any_char)) r)
              in if rest = ''$'' then Some front
                 else if rest = [] then Some (Seq front (Star (Sym any_char)))
                 else None))"

definition util_reg_match :: "string option \<Rightarrow> string option \<Rightarrow> int" where
  "util_reg_match pp sp =
     (case (pp, sp) of
        (Some patten, Some str) \<Rightarrow>
          (case regcomp patten of
             None \<Rightarrow> -1
           | Some r \<Rightarrow> if accepts r str then 0 else 1)
      | _ \<Rightarrow> -1)"

section \<open>Wildcards\<close>

definition escapes :: string where
  "escapes = ''$^[](){|+'' @ [CHR 0x5C] @ ''.<>}''"

definition util_strings_count :: "string \<Rightarrow> char \<Rightarrow> nat" where
  "util_strings_count s c = length (filter (\<lambda>d. d = c) s)"

fun count_escapes :: "string \<Rightarrow> string \<Rightarrow> nat \<Rightarrow> nat option" where
  "count_escapes w [] sz = Some sz"
| "count_escapes w (e # es) sz =
     (let tmp = util_strings_count w e
      in if tmp > SIZE_MAX - sz then None else count_escapes w es (sz + tmp))"

text \<open>The \<open>size_t\<close> computation of the buffer; the subtraction in the guard wraps as in C.\<close>

definition get_regex_size_from_wildcard :: "string \<Rightarrow> nat option" where
  "get_regex_size_from_wildcard w =
     (case count_escapes w escapes 0 of
        None \<Rightarrow> None
      | Some sz \<Rightarrow>
          (let tmp = util_strings_count w CHR ''*''
           in if tmp > nat ((int SIZE_MAX - int sz - int (length w) - 3) mod 2 ^ 64) then None
              else Some ((1 + sz + length w + tmp + 1 + 1) mod 2 ^ 64)))"

definition wildcard_char :: "char \<Rightarrow> string" where
  "wildcard_char ch =
     (if ch \<in> set escapes then [CHR 0x5C, ch]
      else if ch = CHR ''*'' then ''.*''
      else if ch = CHR ''?'' then ''.''
      else [ch])"

text \<open>The string written into the buffer (without its NUL), and the return code.\<close>

definition util_wildcard_to_regex :: "bool \<Rightarrow> string option \<Rightarrow> int \<times> string option" where
  "util_wildcard_to_regex alloc wp =
     (case wp of
        None \<Rightarrow> (-1, None)
      | Some w \<Rightarrow>
          (case get_regex_size_from_wildcard w of
             None \<Rightarrow> (-1, None)
           | Some _ \<Rightarrow>
               if \<not> alloc then (-1, None)
               else (0, Some (CHR ''^'' # concat (map wildcard_char w) @ ''$''))))"

text \<open>What a wildcard means: \<open>*\<close> any text, \<open>?\<close> any one character.\<close>

fun wild :: "string \<Rightarrow> string \<Rightarrow> bool" where
  "wild [] s = (s = [])"
| "wild (w # ws) s =
     (if w = CHR ''*'' then (\<exists>i \<in> set [0..<Suc (length s)]. wild ws (drop i s))
      else if w = CHR ''?'' then (case s of [] \<Rightarrow> False | _ # cs \<Rightarrow> wild ws cs)
      else (case s of [] \<Rightarrow> False | c # cs \<Rightarrow> c = w \<and> wild ws cs))"

section \<open>The matcher decides the language\<close>

lemma nil_conc [simp]: "[] \<in> conc A B \<longleftrightarrow> [] \<in> A \<and> [] \<in> B"
  by (auto simp: conc_def)

lemma nil_pow: "[] \<in> pow A n \<longleftrightarrow> n = 0 \<or> [] \<in> A"
  by (induction n) auto

lemma nullable_iff: "nullable r \<longleftrightarrow> [] \<in> lang r"
proof (induction r)
  case (Star r)
  have "[] \<in> pow (lang r) 0" by simp
  then show ?case by (metis UN_I UNIV_I lang.simps(6) nullable.simps(6))
next
  case (Rep r m n)
  then show ?case by (auto simp: nil_pow)
qed auto

lemma Cons_conc:
  "c # w \<in> conc A B \<longleftrightarrow> w \<in> conc {v. c # v \<in> A} B \<or> ([] \<in> A \<and> c # w \<in> B)"
proof
  assume "c # w \<in> conc A B"
  then obtain u v where "c # w = u @ v" "u \<in> A" "v \<in> B" by (auto simp: conc_def)
  then show "w \<in> conc {v. c # v \<in> A} B \<or> ([] \<in> A \<and> c # w \<in> B)"
    by (cases u) (auto simp: conc_def)
next
  assume "w \<in> conc {v. c # v \<in> A} B \<or> ([] \<in> A \<and> c # w \<in> B)"
  then show "c # w \<in> conc A B"
  proof
    assume "w \<in> conc {v. c # v \<in> A} B"
    then obtain u v where "c # w = (c # u) @ v" "c # u \<in> A" "v \<in> B" by (auto simp: conc_def)
    then show ?thesis unfolding conc_def by blast
  next
    assume "[] \<in> A \<and> c # w \<in> B"
    then have "c # w = [] @ (c # w)" "[] \<in> A" "c # w \<in> B" by auto
    then show ?thesis unfolding conc_def by blast
  qed
qed

lemma pow_mono: "[] \<in> A \<Longrightarrow> pow A n \<subseteq> pow A (Suc n)"
  by (auto simp: conc_def)

lemma conc_mono: "B \<subseteq> B' \<Longrightarrow> conc A B \<subseteq> conc A B'"
  by (auto simp: conc_def)

lemma Cons_pow: "c # w \<in> pow A k \<longleftrightarrow> (\<exists>j. k = Suc j \<and> w \<in> conc {v. c # v \<in> A} (pow A j))"
proof (induction k)
  case (Suc k)
  have "w \<in> conc {v. c # v \<in> A} (pow A k)" if "[] \<in> A" "c # w \<in> pow A k"
  proof -
    from that Suc.IH obtain j where "k = Suc j" "w \<in> conc {v. c # v \<in> A} (pow A j)" by blast
    then show ?thesis using pow_mono [OF that(1), of j] conc_mono by blast
  qed
  then show ?case by (auto simp: Cons_conc)
qed simp

lemma conc_UN: "conc A (\<Union>i \<in> I. B i) = (\<Union>i \<in> I. conc A (B i))"
  by (auto simp: conc_def)

lemma lang_der: "lang (der c r) = {w. c # w \<in> lang r}"
proof (induction r)
  case (Star r)
  have "lang (der c (Star r)) = (\<Union>n. conc {w. c # w \<in> lang r} (pow (lang r) n))"
    using Star by (simp add: conc_UN)
  also have "\<dots> = {w. c # w \<in> lang (Star r)}" by (auto simp: Cons_pow)
  finally show ?case .
next
  case (Rep r m n)
  have "(\<exists>k \<in> {m..n}. c # w \<in> pow (lang r) k) \<longleftrightarrow>
      n \<noteq> 0 \<and> (\<exists>j \<in> {m - 1..n - 1}. w \<in> conc {v. c # v \<in> lang r} (pow (lang r) j))" for w
    by (auto simp: Cons_pow) (metis Suc_le_mono Suc_pred atLeastAtMost_iff bot_nat_0.not_eq_extremum
      diff_Suc_1 le_SucI le_diff_conv not_less_eq_eq One_nat_def Suc_diff_1 le_zero_eq)+
  then show ?case using Rep by (auto simp: conc_UN)
next
  case (Seq r q)
  then show ?case by (auto simp: Cons_conc nullable_iff)
qed auto

lemma accepts_iff: "accepts r s \<longleftrightarrow> s \<in> lang r"
  by (induction s arbitrary: r) (auto simp: nullable_iff lang_der)

section \<open>Wildcards become the right expressions\<close>

definition wild_piece :: "char \<Rightarrow> rexp" where
  "wild_piece c =
     (if c = CHR ''*'' then Star (Sym any_char) else if c = CHR ''?'' then Sym any_char else Sym (only c))"

primrec wild_rexp :: "string \<Rightarrow> rexp" where
  "wild_rexp [] = One"
| "wild_rexp (c # w) = Seq (wild_piece c) (wild_rexp w)"

lemma code_of_inj [simp]: "code_of a = code_of b \<longleftrightarrow> a = b"
  by (simp add: code_of_def)

lemma in_any [simp]: "in_cset c any_char"
  by (simp add: any_char_def)

lemma in_only [simp]: "in_cset c (only d) \<longleftrightarrow> c = d"
  by (auto simp: only_def simp flip: code_of_inj)

lemma conc_sym: "s \<in> conc {[c] | c. P c} B \<longleftrightarrow> (\<exists>c cs. s = c # cs \<and> P c \<and> cs \<in> B)"
proof (cases s)
  case Nil
  then show ?thesis by (auto simp: conc_def)
next
  case (Cons a list)
  have "{v. a # v \<in> {[c] | c. P c}} = (if P a then {[]} else {})" by auto
  moreover have "conc {[]} B = B" "conc {} B = {}" by (auto simp: conc_def)
  ultimately show ?thesis unfolding Cons Cons_conc by simp
qed

lemma seq_sym: "s \<in> lang (Seq (Sym x) r) \<longleftrightarrow> (\<exists>c cs. s = c # cs \<and> in_cset c x \<and> cs \<in> lang r)"
  by (simp add: conc_sym)

lemma pow_any: "pow {[c] | c. in_cset c any_char} n = {s. length s = n}"
proof (induction n)
  case (Suc n)
  show ?case unfolding pow.simps Suc set_eq_iff conc_sym by (auto simp: length_Suc_conv)
qed simp

lemma lang_any_star [simp]: "lang (Star (Sym any_char)) = UNIV"
  unfolding lang.simps pow_any by auto

lemma conc_UNIV: "s \<in> conc UNIV B \<longleftrightarrow> (\<exists>i \<in> set [0..<Suc (length s)]. drop i s \<in> B)"
proof
  assume "s \<in> conc UNIV B"
  then obtain u v where "s = u @ v" "v \<in> B" by (auto simp: conc_def)
  then show "\<exists>i \<in> set [0..<Suc (length s)]. drop i s \<in> B" by (intro bexI [of _ "length u"]) auto
next
  assume "\<exists>i \<in> set [0..<Suc (length s)]. drop i s \<in> B"
  then obtain i where "drop i s \<in> B" by blast
  then show "s \<in> conc UNIV B" unfolding conc_def by (metis (mono_tags, lifting) UNIV_I append_take_drop_id mem_Collect_eq)
qed

lemma seq_any_star:
  "s \<in> lang (Seq (Star (Sym any_char)) r) \<longleftrightarrow> (\<exists>i \<in> set [0..<Suc (length s)]. drop i s \<in> lang r)"
  unfolding lang.simps(4) lang_any_star conc_UNIV ..

lemma lang_wild: "s \<in> lang (wild_rexp w) \<longleftrightarrow> wild w s"
proof (induction w arbitrary: s)
  case (Cons c w)
  show ?case
  proof (cases "c = CHR ''*''")
    case True
    then show ?thesis unfolding wild_rexp.simps wild_piece_def by (simp only: seq_any_star Cons wild.simps if_True refl)
  next
    case False
    then show ?thesis
      by (cases s) (auto simp: wild_piece_def seq_sym Cons simp del: lang.simps)
  qed
qed simp

text \<open>Heads of the generated pattern never look like an operator.\<close>

definition plain_head :: "string \<Rightarrow> bool" where
  "plain_head s \<longleftrightarrow> s \<noteq> [] \<and> hd s \<notin> set ''*+?{|)''"

lemma set_escapes: "set escapes = set (CHR 0x5C # ''$^[](){|+.<>}'')"
  by (auto simp: escapes_def)

lemma plain_char: "c \<notin> set escapes \<Longrightarrow> c \<noteq> CHR ''*'' \<Longrightarrow> c \<noteq> CHR ''?'' \<Longrightarrow> c \<notin> set ''*+?{|)''"
  unfolding set_escapes by auto

lemma plain_rest: "plain_head (concat (map wildcard_char w) @ ''$'')"
proof (cases w)
  case (Cons c v)
  then show ?thesis
    using plain_char [of c] by (cases "c \<in> set escapes") (simp_all add: plain_head_def wildcard_char_def)
qed (simp add: plain_head_def)

lemma p_dups_plain: "plain_head s \<Longrightarrow> p_dups (Suc n) r s = Some (r, s)"
  by (auto simp: plain_head_def starts_def)

lemma p_dups_star: "plain_head s \<Longrightarrow> p_dups (Suc (Suc n)) r (CHR ''*'' # s) = Some (Star r, s)"
  using p_dups_plain [of s n "Star r"] by (simp add: starts_def)

definition word_free :: "string \<Rightarrow> bool" where
  "word_free w \<longleftrightarrow> CHR ''<'' \<notin> set w \<and> CHR ''>'' \<notin> set w"

lemma quotable_escape: "c \<in> set escapes \<Longrightarrow> c \<noteq> CHR ''<'' \<Longrightarrow> c \<noteq> CHR ''>'' \<Longrightarrow> quotable c"
  unfolding set_escapes quotable_def by auto

lemma ordinary_char:
  assumes "c \<notin> set escapes" "c \<noteq> CHR ''*''" "c \<noteq> CHR ''?''"
  shows "c \<noteq> CHR ''(''" "c \<noteq> CHR ''[''" "c \<noteq> CHR ''.''" "c \<noteq> CHR 0x5C" "\<not> special c"
    "c \<noteq> CHR ''$''" "c \<noteq> CHR ''|''" "c \<noteq> CHR '')''"
  using assms unfolding set_escapes special_def by auto

text \<open>One generated piece is parsed as the piece it stands for, whatever pattern follows.\<close>

lemma p_piece:
  assumes "plain_head rest" and "c \<noteq> CHR ''<''" "c \<noteq> CHR ''>''"
  shows "\<exists>a rest'. p_atom (Suc n) (wildcard_char c @ rest) = Some (a, rest') \<and>
     p_dups (Suc (length rest')) a rest' = Some (wild_piece c, rest)"
proof -
  consider "c \<in> set escapes" | "c \<notin> set escapes" "c = CHR ''*''" | "c \<notin> set escapes" "c = CHR ''?''"
    | "c \<notin> set escapes" "c \<noteq> CHR ''*''" "c \<noteq> CHR ''?''" by blast
  then show ?thesis
  proof cases
    case 1
    then have "c \<noteq> CHR ''*''" "c \<noteq> CHR ''?''" unfolding set_escapes by auto
    then show ?thesis
      using 1 quotable_escape [OF 1 assms(2,3)] p_dups_plain [OF assms(1)]
      by (simp add: wildcard_char_def wild_piece_def del: p_dups.simps)
  next
    case 2
    then show ?thesis
      using p_dups_star [OF assms(1)] by (simp add: wildcard_char_def wild_piece_def del: p_dups.simps)
  next
    case 3
    then show ?thesis
      using p_dups_plain [OF assms(1)] by (simp add: wildcard_char_def wild_piece_def del: p_dups.simps)
  next
    case 4
    then show ?thesis
      using ordinary_char [OF 4] p_dups_plain [OF assms(1)]
      by (simp add: wildcard_char_def wild_piece_def del: p_dups.simps)
  qed
qed

lemma wild_head: "s = wildcard_char c @ rest \<Longrightarrow> rest \<noteq> [] \<Longrightarrow>
    s \<noteq> [] \<and> s \<noteq> ''$'' \<and> \<not> starts CHR ''|'' s \<and> \<not> starts CHR '')'' s"
  using ordinary_char [of c]
  by (cases "c \<in> set escapes"; cases "c = CHR ''*'' \<or> c = CHR ''?''")
    (auto simp: wildcard_char_def starts_def)

lemma p_branch_wild:
  assumes "word_free w" and "length w + 2 \<le> n"
  shows "p_branch n (concat (map wildcard_char w) @ ''$'') = Some (wild_rexp w, ''$'')"
  using assms
proof (induction w arbitrary: n)
  case Nil
  then obtain m where "n = Suc m" by (cases n) auto
  then show ?case by simp
next
  case (Cons c w)
  from Cons.prems(2) have "n = Suc (Suc (n - 2))" by simp
  then obtain m where n: "n = Suc (Suc m)" ..
  let ?rest = "concat (map wildcard_char w) @ ''$''"
  have wf: "word_free w" "c \<noteq> CHR ''<''" "c \<noteq> CHR ''>''" using Cons.prems by (auto simp: word_free_def)
  obtain a rest' where "p_atom (Suc m) (wildcard_char c @ ?rest) = Some (a, rest')"
    "p_dups (Suc (length rest')) a rest' = Some (wild_piece c, ?rest)"
    using p_piece [OF plain_rest wf(2,3)] by blast
  moreover have "p_branch (Suc m) ?rest = Some (wild_rexp w, ''$'')"
    using Cons.IH [OF wf(1), of "Suc m"] Cons.prems n by simp
  ultimately have "p_branch (Suc (Suc m)) (wildcard_char c @ ?rest) = Some (wild_rexp (c # w), ''$'')"
    using wild_head [OF refl, of ?rest c]
    by (subst p_branch.simps) (simp del: p_dups.simps p_atom.simps p_branch.simps)
  then show ?case by (simp add: n del: p_branch.simps)
qed

lemma regcomp_wild:
  assumes "word_free w"
  shows "regcomp (CHR ''^'' # concat (map wildcard_char w) @ ''$'') = Some (wild_rexp w)"
proof -
  let ?b = "concat (map wildcard_char w) @ ''$''"
  have len: "length w \<le> length (concat (map wildcard_char w))"
    by (induction w) (auto simp: wildcard_char_def)
  have "p_alt (3 * length ?b + 3) ?b = p_alt (Suc (3 * length ?b + 2)) ?b" by simp
  also have "\<dots> = Some (wild_rexp w, ''$'')"
    using p_branch_wild [OF assms, of "3 * length ?b + 2"] len by (simp only: p_alt.simps) (simp add: starts_def)
  finally show ?thesis by (simp add: regcomp_def starts_def del: p_alt.simps)
qed

section \<open>The size of the wildcard buffer\<close>

lemma count_escapes_eq:
  "sz + sum_list (map (util_strings_count w) es) \<le> SIZE_MAX \<Longrightarrow>
     count_escapes w es sz = Some (sz + sum_list (map (util_strings_count w) es))"
  by (induction es arbitrary: sz) (auto simp: Let_def)

lemma sum_counts:
  assumes "distinct es"
  shows "sum_list (map (util_strings_count w) es) = length (filter (\<lambda>c. c \<in> set es) w)"
proof (induction w)
  case Nil
  then show ?case by (induction es) (auto simp: util_strings_count_def)
next
  case (Cons c w)
  have "sum_list (map (util_strings_count (c # w)) es) =
      sum_list (map (\<lambda>e. of_bool (e = c) + util_strings_count w e) es)"
    by (rule arg_cong [where f = sum_list], rule map_cong) (auto simp: util_strings_count_def)
  also have "\<dots> = sum_list (map (\<lambda>e. of_bool (e = c)) es) + sum_list (map (util_strings_count w) es)"
    by (rule sum_list_addf)
  also have "sum_list (map (\<lambda>e. of_bool (e = c)) es) = (if c \<in> set es then 1 else 0 :: nat)"
    using assms by (induction es) auto
  finally show ?case using Cons by simp
qed

lemma length_wild:
  "length (concat (map wildcard_char w)) =
     length w + length (filter (\<lambda>c. c \<in> set escapes) w) + util_strings_count w CHR ''*''"
proof (induction w)
  case (Cons c w)
  have "CHR ''*'' \<notin> set escapes" unfolding set_escapes by simp
  with Cons show ?case by (auto simp: wildcard_char_def util_strings_count_def)
qed (simp add: util_strings_count_def)

lemma regex_size_sum:
  assumes "count_escapes w escapes 0 = Some e" "e \<le> length w" "util_strings_count w CHR ''*'' \<le> length w"
    and "length w < 2 ^ 62"
  shows "get_regex_size_from_wildcard w = Some (length w + e + util_strings_count w CHR ''*'' + 3)"
proof -
  have "(int SIZE_MAX - int e - int (length w) - 3) mod 2 ^ 64 = int SIZE_MAX - int e - int (length w) - 3"
    using assms(2,4) by (intro mod_pos_pos_trivial) (simp_all add: SIZE_MAX_def)
  moreover have "\<not> util_strings_count w CHR ''*'' > nat (int SIZE_MAX - int e - int (length w) - 3)"
    using assms(2-4) by (simp add: SIZE_MAX_def)
  ultimately show ?thesis
    using assms by (simp add: get_regex_size_from_wildcard_def)
qed

lemma regex_size_exact:
  assumes "length w < 2 ^ 62"
  shows "get_regex_size_from_wildcard w = Some (length (concat (map wildcard_char w)) + 3)"
proof -
  define e where "e = length (filter (\<lambda>c. c \<in> set escapes) w)"
  have b: "e \<le> length w" "util_strings_count w CHR ''*'' \<le> length w"
    by (auto simp: util_strings_count_def e_def)
  have "distinct escapes" by (simp add: escapes_def)
  then have "sum_list (map (util_strings_count w) escapes) = e" unfolding e_def by (rule sum_counts)
  moreover have "e \<le> SIZE_MAX" using b assms by (simp add: SIZE_MAX_def)
  ultimately have "count_escapes w escapes 0 = Some e"
    using count_escapes_eq [of 0 w escapes] by simp
  from regex_size_sum [OF this b assms] length_wild [of w] show ?thesis by (simp add: e_def)
qed

lemma wild_example: "wild ''a.*b?'' ''a.xxbc''" "word_free ''a.*b?''"
  by code_simp+

section \<open>Properties\<close>

text \<open>
  C16. Wildcards are translated faithfully: for every wildcard without the signs less and greater, the
  generated expression compiles and matches exactly the strings the wildcard stands for (a star any
  text, a question mark any one character, every other character itself, the characters special to
  expressions included), and the buffer computed beforehand is exactly the length of the expression
  plus its terminating NUL, so the unchecked writes of the translation loop never leave it.
\<close>

theorem wildcard_exact:
  assumes "word_free w" and "length w < 2 ^ 62"
  shows "\<exists>p. util_wildcard_to_regex True (Some w) = (0, Some p) \<and>
    get_regex_size_from_wildcard w = Some (length p + 1) \<and>
    util_reg_match (Some p) (Some s) = (if wild w s then 0 else 1)"
  using regex_size_exact [OF assms(2)] regcomp_wild [OF assms(1)] lang_wild [of s w]
  by (simp add: util_wildcard_to_regex_def util_reg_match_def accepts_iff)

theorem wildcard_exact_witness:
  "\<exists>p. util_wildcard_to_regex True (Some ''a.*b?'') = (0, Some p) \<and>
    get_regex_size_from_wildcard ''a.*b?'' = Some (length p + 1) \<and>
    util_reg_match (Some p) (Some ''a.xxbc'') = 0"
  using wildcard_exact [of "''a.*b?''" "''a.xxbc''"]
  by (simp add: wild_example del: wild.simps)

end
