(* ===== verification/Utils_Convert.thy ===== *)
theory Utils_Convert
  imports Prelude
begin

text \<open>
  The number conversions of \<^verbatim>\<open>src/utils/cutils/utils_convert.c\<close>, on a model of the C library's
  \<^verbatim>\<open>strtol\<close> family (white space, sign, base prefix, saturation with \<^verbatim>\<open>ERANGE\<close>, end pointer) and of
  decimal printing. A conversion returns the C return code and the value stored through \<^verbatim>\<open>converted\<close>,
  \<open>None\<close> when nothing is stored.
\<close>

definition EINVAL :: int where
  "EINVAL = 22"

definition ERANGE :: int where
  "ERANGE = 34"

definition INT64_MAX :: int where
  "INT64_MAX = 2 ^ 63 - 1"

definition INT64_MIN :: int where
  "INT64_MIN = - (2 ^ 63)"

lemmas errno_defs = EINVAL_def ERANGE_def
lemmas int64_defs = INT64_MAX_def INT64_MIN_def

section \<open>Characters\<close>

definition ord_c :: "char \<Rightarrow> nat" where
  "ord_c c = of_char c"

definition isspace_c :: "char \<Rightarrow> bool" where
  "isspace_c c \<longleftrightarrow> ord_c c = 32 \<or> (9 \<le> ord_c c \<and> ord_c c \<le> 13)"

definition isdigit_c :: "char \<Rightarrow> bool" where
  "isdigit_c c \<longleftrightarrow> 48 \<le> ord_c c \<and> ord_c c \<le> 57"

text \<open>The value of a digit or letter in the widest base; 36 for every other character.\<close>

definition digit_val :: "char \<Rightarrow> nat" where
  "digit_val c =
     (if 48 \<le> ord_c c \<and> ord_c c \<le> 57 then ord_c c - 48
      else if 97 \<le> ord_c c \<and> ord_c c \<le> 122 then ord_c c - 87
      else if 65 \<le> ord_c c \<and> ord_c c \<le> 90 then ord_c c - 55
      else 36)"

section \<open>The C library's scanner\<close>

fun scan_digits :: "nat \<Rightarrow> nat \<Rightarrow> string \<Rightarrow> nat \<times> string" where
  "scan_digits b acc [] = (acc, [])"
| "scan_digits b acc (c # cs) =
     (if digit_val c < b then scan_digits b (acc * b + digit_val c) cs else (acc, c # cs))"

definition scan_sign :: "string \<Rightarrow> bool \<times> string" where
  "scan_sign s =
     (case s of
        [] \<Rightarrow> (False, [])
      | c # cs \<Rightarrow> if c = CHR ''-'' then (True, cs) else if c = CHR ''+'' then (False, cs) else (False, s))"

definition hex_prefix :: "string \<Rightarrow> bool" where
  "hex_prefix s \<longleftrightarrow>
     (case s of
        a # b # c # _ \<Rightarrow> a = CHR ''0'' \<and> (b = CHR ''x'' \<or> b = CHR ''X'') \<and> digit_val c < 16
      | _ \<Rightarrow> False)"

definition scan_base :: "nat \<Rightarrow> string \<Rightarrow> nat \<times> string" where
  "scan_base base s =
     (if base = 0 then
        (if hex_prefix s then (16, drop 2 s)
         else if s \<noteq> [] \<and> hd s = CHR ''0'' then (8, s)
         else (10, s))
      else (base, s))"

text \<open>Sign, magnitude and the rest of the string; \<open>None\<close> when there is no number to convert.\<close>

definition scan_num :: "nat \<Rightarrow> string \<Rightarrow> (bool \<times> nat \<times> string) option" where
  "scan_num base s =
     (let (neg, s1) = scan_sign (dropWhile isspace_c s);
          (b, s2) = scan_base base s1
      in if s2 = [] \<or> digit_val (hd s2) \<ge> b then None
         else (let (v, rest) = scan_digits b 0 s2 in Some (neg, v, rest)))"

text \<open>
  The result, the value of \<^verbatim>\<open>errno\<close> (0 before the call) and the text the end pointer points to, \<open>None\<close>
  when it is the start of the argument. On a 64-bit platform \<^verbatim>\<open>strtol\<close> is \<^verbatim>\<open>strtoll\<close> and \<^verbatim>\<open>strtoul\<close> is
  \<^verbatim>\<open>strtoull\<close>.
\<close>

definition strtoll :: "nat \<Rightarrow> string \<Rightarrow> int \<times> int \<times> string option" where
  "strtoll base s =
     (case scan_num base s of
        None \<Rightarrow> (0, 0, None)
      | Some (neg, v, rest) \<Rightarrow>
          (let x = (if neg then - int v else int v)
           in if x > INT64_MAX then (INT64_MAX, ERANGE, Some rest)
              else if x < INT64_MIN then (INT64_MIN, ERANGE, Some rest)
              else (x, 0, Some rest)))"

definition strtoull :: "nat \<Rightarrow> string \<Rightarrow> int \<times> int \<times> string option" where
  "strtoull base s =
     (case scan_num base s of
        None \<Rightarrow> (0, 0, None)
      | Some (neg, v, rest) \<Rightarrow>
          if v > 2 ^ 64 - 1 then (2 ^ 64 - 1, ERANGE, Some rest)
          else ((if neg then - int v else int v) mod 2 ^ 64, 0, Some rest))"

definition is_invalid_error_str :: "string option \<Rightarrow> bool" where
  "is_invalid_error_str e = (case e of None \<Rightarrow> True | Some rest \<Rightarrow> rest \<noteq> [])"

section \<open>Conversions\<close>

definition util_safe_u16 :: "string option \<Rightarrow> int \<times> int option" where
  "util_safe_u16 sp =
     (case sp of
        None \<Rightarrow> (- EINVAL, None)
      | Some numstr \<Rightarrow>
          (let (ui, errno, e) = strtoull 0 numstr
           in if errno > 0 then (- errno, None)
              else if is_invalid_error_str e then (- EINVAL, None)
              else if ui > 0xFFFF then (- ERANGE, None)
              else (0, Some ui)))"

definition util_safe_int :: "string option \<Rightarrow> int \<times> int option" where
  "util_safe_int sp =
     (case sp of
        None \<Rightarrow> (- EINVAL, None)
      | Some numstr \<Rightarrow>
          (let (li, errno, e) = strtoll 0 numstr
           in if errno > 0 then (- errno, None)
              else if is_invalid_error_str e then (- EINVAL, None)
              else if li > INT_MAX \<or> li < INT_MIN then (- ERANGE, None)
              else (0, Some li)))"

definition util_safe_uint :: "string option \<Rightarrow> int \<times> int option" where
  "util_safe_uint sp =
     (case sp of
        None \<Rightarrow> (- EINVAL, None)
      | Some numstr \<Rightarrow>
          (let (ull, errno, e) = strtoull 0 numstr
           in if errno > 0 then (- errno, None)
              else if is_invalid_error_str e then (- EINVAL, None)
              else if ull > 2 ^ 32 - 1 then (- ERANGE, None)
              else (0, Some ull)))"

definition util_safe_uint64 :: "string option \<Rightarrow> int \<times> int option" where
  "util_safe_uint64 sp =
     (case sp of
        None \<Rightarrow> (- EINVAL, None)
      | Some numstr \<Rightarrow>
          (let (ull, errno, e) = strtoull 0 numstr
           in if errno > 0 then (- errno, None)
              else if is_invalid_error_str e then (- EINVAL, None)
              else (0, Some ull)))"

definition util_parse_octal_uint32 :: "string option \<Rightarrow> int \<times> int option" where
  "util_parse_octal_uint32 sp =
     (case sp of
        None \<Rightarrow> (- EINVAL, None)
      | Some numstr \<Rightarrow>
          (let (ll, errno, e) = strtoll 8 numstr
           in if errno > 0 then (- errno, None)
              else if is_invalid_error_str e \<or> ll < 0 \<or> ll > 2 ^ 32 - 1 then (- EINVAL, None)
              else (0, Some ll)))"

definition util_safe_llong :: "string option \<Rightarrow> int \<times> int option" where
  "util_safe_llong sp =
     (case sp of
        None \<Rightarrow> (- EINVAL, None)
      | Some numstr \<Rightarrow>
          (let (ll, errno, e) = strtoll 0 numstr
           in if errno > 0 then (- errno, None)
              else if is_invalid_error_str e then (- EINVAL, None)
              else (0, Some ll)))"

definition is_valid_str_bool_true :: "string \<Rightarrow> bool" where
  "is_valid_str_bool_true s \<longleftrightarrow> s \<in> set [''1'', ''t'', ''T'', ''true'', ''TRUE'', ''True'']"

definition is_valid_str_bool_false :: "string \<Rightarrow> bool" where
  "is_valid_str_bool_false s \<longleftrightarrow> s \<in> set [''0'', ''f'', ''F'', ''false'', ''FALSE'', ''False'']"

definition util_str_to_bool :: "string option \<Rightarrow> int \<times> bool option" where
  "util_str_to_bool sp =
     (case sp of
        None \<Rightarrow> (- EINVAL, None)
      | Some s \<Rightarrow>
          if is_valid_str_bool_true s then (0, Some True)
          else if is_valid_str_bool_false s then (0, Some False)
          else (- EINVAL, None))"

section \<open>Printing\<close>

definition digit_char :: "nat \<Rightarrow> char" where
  "digit_char d = char_of (48 + d)"

fun dec :: "nat \<Rightarrow> string" where
  "dec n = (if n < 10 then [digit_char n] else dec (n div 10) @ [digit_char (n mod 10)])"

definition dec_int :: "int \<Rightarrow> string" where
  "dec_int x = (if x < 0 then CHR ''-'' # dec (nat (- x)) else dec (nat x))"

definition MAX_NUM_STR_LEN :: nat where
  "MAX_NUM_STR_LEN = 21"

definition util_uint_to_string :: "nat \<Rightarrow> string option" where
  "util_uint_to_string data =
     (if length (dec data) \<ge> MAX_NUM_STR_LEN then None else Some (dec data))"

definition util_int_to_string :: "int \<Rightarrow> string option" where
  "util_int_to_string data =
     (if length (dec_int data) \<ge> MAX_NUM_STR_LEN then None else Some (dec_int data))"

section \<open>Scanning what was printed\<close>

declare dec.simps [simp del]

lemma digit_char_val [simp]: "d < 10 \<Longrightarrow> digit_val (digit_char d) = d"
  by (simp add: digit_val_def digit_char_def ord_c_def)

lemma digit_char_ord: "d < 10 \<Longrightarrow> ord_c (digit_char d) = 48 + d"
  by (simp add: digit_char_def ord_c_def)

lemma dec_nonempty [simp]: "dec n \<noteq> []"
  by (cases "n < 10") (simp_all add: dec.simps)

lemma dec_digits: "c \<in> set (dec n) \<Longrightarrow> \<exists>d < 10. c = digit_char d"
proof (induction n rule: dec.induct)
  case (1 n)
  then show ?case
    by (cases "n < 10") (auto simp: dec.simps [of n] intro: exI [of _ "n mod 10"])
qed

lemma scan_digits_append:
  "\<forall>c \<in> set s. digit_val c < b \<Longrightarrow> scan_digits b acc (s @ t) = scan_digits b (fst (scan_digits b acc s)) t"
  by (induction s arbitrary: acc) auto

lemma scan_dec: "fst (scan_digits 10 0 (dec n)) = n \<and> snd (scan_digits 10 0 (dec n)) = []"
proof (induction n rule: dec.induct)
  case (1 n)
  show ?case
  proof (cases "n < 10")
    case True
    then show ?thesis by (simp add: dec.simps [of n])
  next
    case False
    have "\<forall>c \<in> set (dec (n div 10)). digit_val c < 10" using dec_digits by fastforce
    with 1 False show ?thesis by (simp add: dec.simps [of n] scan_digits_append)
  qed
qed

lemma scan_dec_eq [simp]: "scan_digits 10 0 (dec n) = (n, [])"
  using scan_dec [of n] by (metis prod.collapse)

lemma dec_hd: "n \<noteq> 0 \<Longrightarrow> hd (dec n) \<noteq> CHR ''0''"
proof (induction n rule: dec.induct)
  case (1 n)
  show ?case
  proof (cases "n < 10")
    case True
    then have "ord_c (digit_char n) \<noteq> ord_c CHR ''0''" using 1 by (simp add: digit_char_ord) (simp add: ord_c_def 1)
    then show ?thesis using True by (auto simp: dec.simps [of n])
  next
    case False
    then have "n div 10 \<noteq> 0" by simp
    with 1 False show ?thesis by (simp add: dec.simps [of n])
  qed
qed

lemma dec_0: "dec 0 = ''0''"
  by code_simp

lemma digit_char_plain:
  assumes "d < 10"
  shows "\<not> isspace_c (digit_char d)" and "digit_char d \<noteq> CHR ''-''" and "digit_char d \<noteq> CHR ''+''"
    and "digit_char d \<noteq> CHR ''x''" and "digit_char d \<noteq> CHR ''X''"
proof -
  show "\<not> isspace_c (digit_char d)" using assms by (auto simp: isspace_c_def digit_char_ord)
  have "ord_c (digit_char d) \<noteq> ord_c CHR ''-''" "ord_c (digit_char d) \<noteq> ord_c CHR ''+''"
    "ord_c (digit_char d) \<noteq> ord_c CHR ''x''" "ord_c (digit_char d) \<noteq> ord_c CHR ''X''"
    using assms by (auto simp: digit_char_ord) (auto simp: ord_c_def)
  then show "digit_char d \<noteq> CHR ''-''" "digit_char d \<noteq> CHR ''+''" "digit_char d \<noteq> CHR ''x''" "digit_char d \<noteq> CHR ''X''"
    by auto
qed

lemma scan_base_dec: "scan_base 0 (dec n) = (if n = 0 then 8 else 10, dec n)"
proof (cases "n = 0")
  case True
  then show ?thesis by (simp add: dec_0 scan_base_def hex_prefix_def)
next
  case False
  then have "\<not> hex_prefix (dec n)" using dec_hd [OF False] by (auto simp: hex_prefix_def split: list.splits)
  then show ?thesis using False dec_hd [OF False] by (simp add: scan_base_def)
qed

lemma scan_digits_dec: "scan_digits (if n = 0 then 8 else 10) 0 (dec n) = (n, [])"
  by (simp add: dec_0 digit_val_def ord_c_def)

lemma dec_first: "\<exists>d cs. dec n = digit_char d # cs \<and> d < 10"
  using dec_digits [of "hd (dec n)" n] dec_nonempty [of n] by (cases "dec n") auto

lemma digit_0: "digit_val CHR ''0'' = 0"
  by (simp add: digit_val_def ord_c_def)

lemma first_digit: "\<not> (if n = 0 then 8 else 10) \<le> digit_val (hd (dec n))"
  using dec_first [of n] by (auto simp: dec_0 digit_0)

lemma scan_sign_dec: "scan_sign (dropWhile isspace_c (dec n)) = (False, dec n)"
  using dec_first [of n] digit_char_plain by (auto simp: scan_sign_def)

lemma scan_num_dec: "scan_num 0 (dec n) = Some (False, n, [])"
  using first_digit [of n]
  by (simp only: scan_num_def scan_sign_dec scan_base_dec scan_digits_dec Let_def prod.case) simp

lemma scan_num_neg: "scan_num 0 (CHR ''-'' # dec n) = Some (True, n, [])"
proof -
  have "scan_sign (dropWhile isspace_c (CHR ''-'' # dec n)) = (True, dec n)"
    by (simp add: scan_sign_def isspace_c_def ord_c_def)
  then show ?thesis
    using first_digit [of n]
    by (simp only: scan_num_def scan_base_dec scan_digits_dec Let_def prod.case) simp
qed

lemma length_dec: "n < 10 ^ k \<Longrightarrow> 0 < k \<Longrightarrow> length (dec n) \<le> k"
proof (induction n arbitrary: k rule: dec.induct)
  case (1 n)
  show ?case
  proof (cases "n < 10")
    case True
    then show ?thesis using 1 by (simp add: dec.simps [of n])
  next
    case False
    then obtain j where k: "k = Suc j" "0 < j" using 1 by (cases k; cases "k - 1") auto
    then have "n div 10 < 10 ^ j" using 1 by (simp add: less_mult_imp_div_less mult.commute)
    with 1 False k show ?thesis by (simp add: dec.simps [of n])
  qed
qed

section \<open>Properties\<close>

text \<open>
  C29. Numbers survive printing and parsing: every 64-bit signed integer is printed (the 21-byte buffer
  is always large enough, the most negative number included) and \<^verbatim>\<open>util_safe_llong\<close>, which guesses the
  base from the prefix, reads back exactly that integer.
\<close>

theorem int_print_parse:
  assumes "INT64_MIN \<le> x" and "x \<le> INT64_MAX"
  shows "\<exists>s. util_int_to_string x = Some s \<and> util_safe_llong (Some s) = (0, Some x)"
proof -
  have "length (dec (nat \<bar>x\<bar>)) \<le> 19"
    by (rule length_dec) (use assms in \<open>auto simp: int64_defs\<close>)
  then have "length (dec_int x) < MAX_NUM_STR_LEN"
    by (cases "x < 0") (auto simp: dec_int_def MAX_NUM_STR_LEN_def)
  moreover have "scan_num 0 (dec_int x) = Some (x < 0, nat \<bar>x\<bar>, [])"
    by (simp add: dec_int_def scan_num_dec scan_num_neg)
  then have "strtoll 0 (dec_int x) = (x, 0, Some [])"
    using assms by (auto simp: strtoll_def)
  ultimately show ?thesis
    by (simp add: util_int_to_string_def util_safe_llong_def is_invalid_error_str_def)
qed

theorem int_print_parse_witness:
  "\<exists>s. util_int_to_string (- (2 ^ 63)) = Some s \<and> util_safe_llong (Some s) = (0, Some (- (2 ^ 63)))"
  using int_print_parse [of "- (2 ^ 63)"] by (simp add: int64_defs)

text \<open>
  C37. Range checks: whatever the text, a conversion either fails with a negative code and stores nothing,
  or returns 0 and stores a value of the target type: 16 bits for \<^verbatim>\<open>util_safe_u16\<close>, a C int for
  \<^verbatim>\<open>util_safe_int\<close>, 32 bits for \<^verbatim>\<open>util_safe_uint\<close> and the octal parser, 64 bits for \<^verbatim>\<open>util_safe_llong\<close>
  and \<^verbatim>\<open>util_safe_uint64\<close>.
\<close>

theorem conversions_in_range:
  "(case util_safe_u16 s of (rc, None) \<Rightarrow> rc < 0 | (rc, Some v) \<Rightarrow> rc = 0 \<and> v \<in> {0..2 ^ 16 - 1}) \<and>
   (case util_safe_int s of (rc, None) \<Rightarrow> rc < 0 | (rc, Some v) \<Rightarrow> rc = 0 \<and> v \<in> {INT_MIN..INT_MAX}) \<and>
   (case util_safe_uint s of (rc, None) \<Rightarrow> rc < 0 | (rc, Some v) \<Rightarrow> rc = 0 \<and> v \<in> {0..2 ^ 32 - 1}) \<and>
   (case util_parse_octal_uint32 s of (rc, None) \<Rightarrow> rc < 0 | (rc, Some v) \<Rightarrow> rc = 0 \<and> v \<in> {0..2 ^ 32 - 1}) \<and>
   (case util_safe_llong s of (rc, None) \<Rightarrow> rc < 0 | (rc, Some v) \<Rightarrow> rc = 0 \<and> v \<in> {INT64_MIN..INT64_MAX}) \<and>
   (case util_safe_uint64 s of (rc, None) \<Rightarrow> rc < 0 | (rc, Some v) \<Rightarrow> rc = 0 \<and> v \<in> {0..2 ^ 64 - 1})"
proof (cases s)
  case None
  then show ?thesis
    by (simp add: util_safe_u16_def util_safe_int_def util_safe_uint_def util_parse_octal_uint32_def
        util_safe_llong_def util_safe_uint64_def EINVAL_def)
next
  case (Some str)
  have ll: "fst (strtoll b str) \<in> {INT64_MIN..INT64_MAX} \<and> fst (snd (strtoll b str)) \<in> {0, ERANGE}" for b
    by (auto simp: strtoll_def int64_defs Let_def split: option.splits)
  have ull: "fst (strtoull b str) \<in> {0..2 ^ 64 - 1} \<and> fst (snd (strtoull b str)) \<in> {0, ERANGE}" for b
    by (auto simp: strtoull_def split: option.splits)
  obtain x ex rx where x: "strtoll 0 str = (x, ex, rx)" by (cases "strtoll 0 str")
  obtain y ey ry where y: "strtoll 8 str = (y, ey, ry)" by (cases "strtoll 8 str")
  obtain z ez rz where z: "strtoull 0 str = (z, ez, rz)" by (cases "strtoull 0 str")
  from Some x y z ll [of 0] ll [of 8] ull [of 0] show ?thesis
    by (auto simp: util_safe_u16_def util_safe_int_def util_safe_uint_def util_parse_octal_uint32_def
        util_safe_llong_def util_safe_uint64_def errno_defs)
qed

text \<open>The unsigned parsers accept a minus sign and read the number modulo the type's range.\<close>

lemma negative_text_accepted:
  "util_safe_uint64 (Some ''-1'') = (0, Some (2 ^ 64 - 1))"
  "util_safe_u16 (Some ''-18446744073709551615'') = (0, Some 1)"
  by (simp_all add: util_safe_uint64_def util_safe_u16_def strtoull_def scan_num_def scan_sign_def scan_base_def
      hex_prefix_def digit_val_def ord_c_def isspace_c_def is_invalid_error_str_def)

end
