(* ===== verification/Utils_Array.thy ===== *)
theory Utils_Array
  imports Prelude
begin

text \<open>
  The arrays of \<^verbatim>\<open>src/utils/cutils/utils_array.c\<close>: NULL-terminated arrays of strings, arrays with a
  capacity that grow by an increment, and the counted arrays \<^verbatim>\<open>string_array\<close> and \<^verbatim>\<open>common_array\<close>. A block
  of memory that holds pointers is the list of its cells, a cell being \<open>None\<close> for NULL. Reading or
  writing a cell that the block does not have is undefined, and the model answers \<open>None\<close> there, so that
  a result \<open>Some x\<close> says that every access was inside its block.
\<close>

section \<open>Memory\<close>

type_synonym 'a block = "'a option list"

definition MAX_MEMORY_SIZE :: nat where
  "MAX_MEMORY_SIZE = 2 ^ 47"

definition sizeof_ptr :: nat where
  "sizeof_ptr = 8"

text \<open>\<open>alloc\<close> answers the \<^verbatim>\<open>calloc\<close> behind the checked allocation functions; fresh cells are NULL.\<close>

definition util_smart_calloc_s :: "bool \<Rightarrow> nat \<Rightarrow> 'a block option" where
  "util_smart_calloc_s alloc count =
     (if count > MAX_MEMORY_SIZE div sizeof_ptr then None
      else if \<not> alloc then None
      else Some (replicate count None))"

definition write_cell :: "'a block \<Rightarrow> nat \<Rightarrow> 'a option \<Rightarrow> 'a block option" where
  "write_cell b i v = (if i < length b then Some (b[i := v]) else None)"

definition read_cell :: "'a block \<Rightarrow> nat \<Rightarrow> 'a option option" where
  "read_cell b i = (if i < length b then Some (b ! i) else None)"

text \<open>\<^verbatim>\<open>memcpy\<close> of the first \<open>n\<close> cells; both blocks must have them.\<close>

definition copy_cells :: "'a block \<Rightarrow> 'a block \<Rightarrow> nat \<Rightarrow> 'a block option" where
  "copy_cells dst src n =
     (if n \<le> length dst \<and> n \<le> length src then Some (take n src @ drop n dst) else None)"

section \<open>NULL-terminated arrays\<close>

fun terminator :: "'a block \<Rightarrow> nat option" where
  "terminator [] = None"
| "terminator (None # cs) = Some 0"
| "terminator (Some _ # cs) = map_option Suc (terminator cs)"

definition util_array_len :: "'a block option \<Rightarrow> nat option" where
  "util_array_len a = (case a of None \<Rightarrow> Some 0 | Some b \<Rightarrow> terminator b)"

definition util_copy_array_by_len :: "bool \<Rightarrow> 'a block option \<Rightarrow> nat \<Rightarrow> 'a block option option" where
  "util_copy_array_by_len alloc a len =
     (case a of
        None \<Rightarrow> Some None
      | Some b \<Rightarrow>
          if len = 0 then Some None
          else (case util_smart_calloc_s alloc len of
                  None \<Rightarrow> Some None
                | Some nb \<Rightarrow> map_option Some (copy_cells nb b len)))"

text \<open>The return code and the new value of \<^verbatim>\<open>*array\<close>; the pointer \<^verbatim>\<open>array\<close> itself is not NULL here.\<close>

definition util_array_append ::
  "bool \<Rightarrow> 'a block option \<Rightarrow> 'a option \<Rightarrow> (int \<times> 'a block option) option" where
  "util_array_append alloc a el =
     (case el of
        None \<Rightarrow> Some (-1, a)
      | Some e \<Rightarrow> do {
          len \<leftarrow> util_array_len a;
          (case util_smart_calloc_s alloc (len + 2) of
             None \<Rightarrow> Some (-1, a)
           | Some nb \<Rightarrow> do {
               nb1 \<leftarrow> (case a of None \<Rightarrow> Some nb | Some b \<Rightarrow> copy_cells nb b len);
               nb2 \<leftarrow> write_cell nb1 len (Some e);
               Some (0, Some nb2)
             })
        })"

text \<open>
  \<^verbatim>\<open>util_common_array_append_pointer\<close> differs in its check of the length against \<^verbatim>\<open>SIZE_MAX - 2\<close>, which an
  array in memory never reaches.
\<close>

definition util_common_array_append_pointer ::
  "bool \<Rightarrow> 'a block option \<Rightarrow> 'a option \<Rightarrow> (int \<times> 'a block option) option" where
  "util_common_array_append_pointer alloc a el =
     (case el of
        None \<Rightarrow> Some (-1, a)
      | Some e \<Rightarrow> do {
          len \<leftarrow> (case a of None \<Rightarrow> Some 0 | Some b \<Rightarrow> terminator b);
          if len > 2 ^ 64 - 1 - 2 then Some (-1, a)
          else (case util_smart_calloc_s alloc (len + 2) of
                  None \<Rightarrow> Some (-1, a)
                | Some nb \<Rightarrow> do {
                    nb1 \<leftarrow> (case a of None \<Rightarrow> Some nb | Some b \<Rightarrow> copy_cells nb b len);
                    nb2 \<leftarrow> write_cell nb1 len (Some e);
                    Some (0, Some nb2)
                  })
        })"

text \<open>
  The loop \<^verbatim>\<open>while (size + 1 > add_capacity) add_capacity += increment\<close>, on naturals: the sizes stay far
  below the range of \<^verbatim>\<open>size_t\<close> because an array of that size could not be allocated.
\<close>

function grow_capacity :: "nat \<Rightarrow> nat \<Rightarrow> nat \<Rightarrow> nat" where
  "grow_capacity sz increment cap =
     (if sz + 1 > cap \<and> increment \<noteq> 0 then grow_capacity sz increment (cap + increment) else cap)"
  by auto
termination
  by (relation "measure (\<lambda>(sz, increment, cap). sz + 1 - cap)") auto

definition util_grow_array ::
  "bool \<Rightarrow> 'a block option \<Rightarrow> nat \<Rightarrow> nat \<Rightarrow> nat \<Rightarrow> (int \<times> 'a block option \<times> nat) option" where
  "util_grow_array alloc a capacity sz increment =
     (if increment = 0 then Some (-1, a, capacity)
      else
        (let (a1, cap1) = (if a = None \<or> capacity = 0 then (None, 0) else (a, capacity));
             add_capacity = grow_capacity sz increment cap1
         in if add_capacity \<noteq> cap1 then
              (case util_smart_calloc_s alloc add_capacity of
                 None \<Rightarrow> Some (-1, a1, cap1)
               | Some nb \<Rightarrow> do {
                   nb1 \<leftarrow> (case a1 of None \<Rightarrow> Some nb | Some b \<Rightarrow> copy_cells nb b cap1);
                   Some (0, Some nb1, add_capacity)
                 })
            else Some (0, a1, cap1)))"

fun cells_contain :: "'a block \<Rightarrow> 'a \<Rightarrow> bool option" where
  "cells_contain [] e = None"
| "cells_contain (None # cs) e = Some False"
| "cells_contain (Some x # cs) e = (if x = e then Some True else cells_contain cs e)"

definition util_array_contain :: "'a block option \<Rightarrow> 'a option \<Rightarrow> bool option" where
  "util_array_contain a el =
     (case (a, el) of (Some b, Some e) \<Rightarrow> cells_contain b e | _ \<Rightarrow> Some False)"

section \<open>Counted arrays\<close>

record 'a counted_array =
  items :: "'a block"
  arr_len :: nat
  arr_cap :: nat

definition DOUBLE_THRESHOLD :: nat where
  "DOUBLE_THRESHOLD = 1024"

definition get_array_scale_size :: "nat \<Rightarrow> nat" where
  "get_array_scale_size old_size =
     (let max_threshold = MAX_MEMORY_SIZE div sizeof_ptr
      in if old_size = 0 then 1
         else if old_size < DOUBLE_THRESHOLD then old_size * 2
         else if old_size > nat ((int max_threshold - int (old_size div 4)) mod 2 ^ 64) then max_threshold
         else old_size + old_size div 4)"

definition util_string_array_new :: "bool \<Rightarrow> bool \<Rightarrow> nat \<Rightarrow> 'a counted_array option" where
  "util_string_array_new alloc_array alloc_items len =
     (if len = 0 then None
      else if \<not> alloc_array then None
      else (case util_smart_calloc_s alloc_items len of
              None \<Rightarrow> None
            | Some b \<Rightarrow> Some \<lparr>items = b, arr_len = 0, arr_cap = len\<rparr>))"

text \<open>The copy of the old cells into the new block by \<^verbatim>\<open>util_mem_realloc\<close>, whose byte counts are those of cells.\<close>

definition util_mem_realloc_cells :: "bool \<Rightarrow> nat \<Rightarrow> 'a block \<Rightarrow> nat \<Rightarrow> 'a block option option" where
  "util_mem_realloc_cells alloc newsize old oldsize =
     (if newsize = 0 \<or> newsize > MAX_MEMORY_SIZE div sizeof_ptr \<or> \<not> alloc then Some None
      else map_option Some (copy_cells (replicate newsize None) old (min newsize oldsize)))"

definition do_expand_array :: "bool \<Rightarrow> 'a counted_array \<Rightarrow> (bool \<times> 'a counted_array) option" where
  "do_expand_array alloc arr =
     (let new_size = get_array_scale_size (arr_cap arr)
      in if new_size = arr_cap arr then Some (False, arr)
         else do {
           r \<leftarrow> util_mem_realloc_cells alloc new_size (items arr) (arr_len arr);
           (case r of
              None \<Rightarrow> Some (False, arr)
            | Some b \<Rightarrow> Some (True, arr\<lparr>items := b, arr_cap := new_size\<rparr>))
         })"

definition util_append_string_array ::
  "bool \<Rightarrow> 'a counted_array option \<Rightarrow> 'a option \<Rightarrow> (int \<times> 'a counted_array option) option" where
  "util_append_string_array alloc sp vp =
     (case sp of
        None \<Rightarrow> Some (-1, None)
      | Some arr \<Rightarrow>
          (case vp of
             None \<Rightarrow> Some (0, Some arr)
           | Some v \<Rightarrow> do {
               (ok, arr1) \<leftarrow> (if arr_len arr < arr_cap arr then Some (True, arr) else do_expand_array alloc arr);
               if \<not> ok then Some (-1, Some arr1)
               else do {
                 b \<leftarrow> write_cell (items arr1) (arr_len arr1) (Some v);
                 Some (0, Some (arr1\<lparr>items := b, arr_len := arr_len arr1 + 1\<rparr>))
               }
             }))"

fun contain_upto :: "'a block \<Rightarrow> nat \<Rightarrow> 'a \<Rightarrow> bool option" where
  "contain_upto b 0 e = Some False"
| "contain_upto [] (Suc n) e = None"
| "contain_upto (None # cs) (Suc n) e = None"
| "contain_upto (Some x # cs) (Suc n) e = (if x = e then Some True else contain_upto cs n e)"

definition util_string_array_contain :: "'a counted_array option \<Rightarrow> 'a option \<Rightarrow> bool option" where
  "util_string_array_contain sp ep =
     (case (sp, ep) of
        (Some arr, Some e) \<Rightarrow> contain_upto (items arr) (arr_len arr) e
      | _ \<Rightarrow> Some False)"

definition util_copy_string_array ::
  "bool \<Rightarrow> bool \<Rightarrow> 'a counted_array option \<Rightarrow> 'a counted_array option option" where
  "util_copy_string_array alloc_array alloc_items sp =
     (case sp of
        None \<Rightarrow> Some None
      | Some arr \<Rightarrow>
          (case util_string_array_new alloc_array alloc_items (arr_cap arr) of
             None \<Rightarrow> Some None
           | Some p \<Rightarrow> do {
               b \<leftarrow> copy_cells (items p) (items arr) (arr_len arr);
               Some (Some (p\<lparr>items := b, arr_len := arr_len arr\<rparr>))
             }))"

text \<open>The generic array checks its two callbacks (\<open>free_cb\<close>, \<open>clone\<close>) when it is made.\<close>

definition util_common_array_new ::
  "bool \<Rightarrow> bool \<Rightarrow> nat \<Rightarrow> 'f option \<Rightarrow> ('a \<Rightarrow> 'a) option \<Rightarrow> 'a counted_array option" where
  "util_common_array_new alloc_array alloc_items len free_cb clone =
     (if len = 0 \<or> free_cb = None \<or> clone = None then None
      else if \<not> alloc_array then None
      else (case util_smart_calloc_s alloc_items len of
              None \<Rightarrow> None
            | Some b \<Rightarrow> Some \<lparr>items = b, arr_len = 0, arr_cap = len\<rparr>))"

text \<open>\<open>clone\<close> is the array's item callback; the array checks that it is set.\<close>

definition util_append_common_array ::
  "bool \<Rightarrow> ('a \<Rightarrow> 'a) option \<Rightarrow> 'a counted_array option \<Rightarrow> 'a option \<Rightarrow> (int \<times> 'a counted_array option) option" where
  "util_append_common_array alloc clone ap vp =
     (case (ap, clone) of
        (Some arr, Some f) \<Rightarrow> util_append_string_array alloc (Some arr) (map_option f vp)
      | _ \<Rightarrow> Some (-1, ap))"

text \<open>\<open>alloc i\<close> answers the allocation made, if any, while the \<open>i\<close>-th element is appended.\<close>

fun merge_cells ::
  "(nat \<Rightarrow> bool) \<Rightarrow> ('a \<Rightarrow> 'a) option \<Rightarrow> 'a counted_array \<Rightarrow> 'a block \<Rightarrow> nat \<Rightarrow> nat
     \<Rightarrow> (int \<times> 'a counted_array) option" where
  "merge_cells alloc clone dest src i 0 = Some (0, dest)"
| "merge_cells alloc clone dest src i (Suc n) = do {
     v \<leftarrow> read_cell src i;
     (rc, d) \<leftarrow> util_append_common_array (alloc i) clone (Some dest) v;
     dest' \<leftarrow> d;
     if rc \<noteq> 0 then Some (-1, dest') else merge_cells alloc clone dest' src (Suc i) n
   }"

definition util_merge_common_array ::
  "(nat \<Rightarrow> bool) \<Rightarrow> ('a \<Rightarrow> 'a) option \<Rightarrow> ('a \<Rightarrow> 'a) option \<Rightarrow> 'a counted_array option
     \<Rightarrow> 'a counted_array option \<Rightarrow> (int \<times> 'a counted_array option) option" where
  "util_merge_common_array alloc dclone sclone dp sp =
     (case (dp, dclone, sp, sclone) of
        (Some d, Some f, Some s, Some g) \<Rightarrow> do {
          (rc, d') \<leftarrow> merge_cells alloc dclone d (items s) 0 (arr_len s);
          Some (rc, Some d')
        }
      | _ \<Rightarrow> Some (-1, dp))"

section \<open>What the arrays hold\<close>

text \<open>A NULL-terminated array that holds \<open>xs\<close>, possibly with unused cells after the terminator.\<close>

definition holds_array :: "'a block option \<Rightarrow> 'a list \<Rightarrow> bool" where
  "holds_array a xs \<longleftrightarrow>
     (case a of None \<Rightarrow> xs = [] | Some b \<Rightarrow> (\<exists>rest. b = map Some xs @ None # rest))"

text \<open>A counted array that holds \<open>xs\<close>: the block has exactly the capacity, the cells past the length are NULL.\<close>

definition array_ok :: "'a counted_array \<Rightarrow> 'a list \<Rightarrow> bool" where
  "array_ok arr xs \<longleftrightarrow>
     items arr = map Some xs @ replicate (arr_cap arr - length xs) None \<and> arr_len arr = length xs \<and>
     length xs \<le> arr_cap arr \<and> 0 < arr_cap arr \<and> arr_cap arr \<le> MAX_MEMORY_SIZE div sizeof_ptr"

text \<open>Appends one after the other; the first failure ends the sequence.\<close>

fun append_all :: "(nat \<Rightarrow> bool) \<Rightarrow> 'a counted_array \<Rightarrow> 'a list \<Rightarrow> (int \<times> 'a counted_array) option" where
  "append_all alloc arr [] = Some (0, arr)"
| "append_all alloc arr (x # xs) = do {
     (rc, p) \<leftarrow> util_append_string_array (alloc (arr_len arr)) (Some arr) (Some x);
     arr' \<leftarrow> p;
     if rc \<noteq> 0 then Some (rc, arr') else append_all alloc arr' xs
   }"

section \<open>NULL-terminated arrays keep their elements\<close>

declare grow_capacity.simps [simp del]

lemma terminator_holds: "terminator (map Some xs @ None # rest) = Some (length xs)"
  by (induction xs) simp_all

lemma array_len_holds: "holds_array a xs \<Longrightarrow> util_array_len a = Some (length xs)"
  by (auto simp: holds_array_def util_array_len_def terminator_holds split: option.splits)

lemma array_append_holds:
  fixes a :: "'a block option"
  assumes "holds_array a xs" and "length xs + 2 \<le> MAX_MEMORY_SIZE div sizeof_ptr"
  shows "\<exists>b. util_array_append True a (Some e) = Some (0, Some b) \<and> holds_array (Some b) (xs @ [e]) \<and>
    length b = length xs + 2"
proof -
  let ?n = "length xs"
  define nb :: "'a block" where "nb = replicate (?n + 2) None"
  have len: "util_array_len a = Some ?n" using assms(1) by (rule array_len_holds)
  have alloc: "util_smart_calloc_s True (?n + 2) = Some nb"
    using assms(2) by (simp add: util_smart_calloc_s_def nb_def)
  have nb: "length nb = ?n + 2" "drop ?n nb = [None, None]" by (simp_all add: nb_def numeral_2_eq_2 del: replicate.simps)
    (simp add: numeral_2_eq_2)
  have cp: "(case a of None \<Rightarrow> Some nb | Some b \<Rightarrow> copy_cells nb b ?n) = Some (map Some xs @ [None, None])"
  proof (cases a)
    case None
    then show ?thesis using assms(1) by (simp add: holds_array_def nb_def numeral_2_eq_2)
  next
    case (Some b)
    then show ?thesis using assms(1) nb by (auto simp: holds_array_def copy_cells_def)
  qed
  have "write_cell (map Some xs @ [None, None]) ?n (Some e) = Some (map Some (xs @ [e]) @ [None])"
    by (simp add: write_cell_def list_update_append)
  with len alloc cp have "util_array_append True a (Some e) = Some (0, Some (map Some (xs @ [e]) @ [None]))"
    by (simp add: util_array_append_def)
  then show ?thesis by (auto simp: holds_array_def)
qed

lemma grow_capacity_enough: "increment \<noteq> 0 \<Longrightarrow> sz + 1 \<le> grow_capacity sz increment cap"
proof (induction sz increment cap rule: grow_capacity.induct)
  case (1 sz increment cap)
  then show ?case by (subst grow_capacity.simps) auto
qed

lemma grow_capacity_mono: "cap \<le> grow_capacity sz increment cap"
proof (induction sz increment cap rule: grow_capacity.induct)
  case (1 sz increment cap)
  then show ?case by (subst grow_capacity.simps) auto
qed

lemma grow_capacity_bound:
  "grow_capacity sz increment cap \<le> max cap (sz + increment)"
proof (induction sz increment cap rule: grow_capacity.induct)
  case (1 sz increment cap)
  then show ?case by (subst grow_capacity.simps) auto
qed

text \<open>
  The grown array: the old cells are kept and every index up to the requested size is inside the block,
  with NULL in all the new cells.
\<close>

lemma grow_array_ok:
  fixes a :: "'a block option"
  assumes "case a of None \<Rightarrow> cap = 0 | Some b \<Rightarrow> length b = cap" and "increment \<noteq> 0"
    and "max cap (sz + increment) \<le> MAX_MEMORY_SIZE div sizeof_ptr"
  shows "\<exists>b. util_grow_array True a cap sz increment = Some (0, Some b, length b) \<and> sz + 1 \<le> length b \<and>
    b = (case a of None \<Rightarrow> [] | Some b0 \<Rightarrow> b0) @ replicate (length b - cap) None"
proof -
  define n where "n = grow_capacity sz increment cap"
  have n: "sz + 1 \<le> n" "cap \<le> n" "n \<le> MAX_MEMORY_SIZE div sizeof_ptr"
    using grow_capacity_enough [OF assms(2), of sz cap] grow_capacity_mono [of cap sz increment]
      order_trans [OF grow_capacity_bound [of sz increment cap] assms(3)] by (simp_all add: n_def)
  have c: "util_smart_calloc_s True n = Some (replicate n None :: 'a block)" using n by (simp add: util_smart_calloc_s_def)
  show ?thesis
  proof (cases "cap = 0 \<or> a = None")
    case True
    then have "a = None \<or> a = Some []" "cap = 0" using assms(1) by (auto split: option.splits)
    then have "util_grow_array True a cap sz increment = Some (0, Some (replicate n None), n)"
      using n c assms(2) by (auto simp: util_grow_array_def n_def Let_def)
    then show ?thesis using n \<open>cap = 0\<close> \<open>a = None \<or> a = Some []\<close> by auto
  next
    case False
    then obtain b where a: "a = Some b" "length b = cap" using assms(1) by auto
    have "util_grow_array True a cap sz increment = Some (0, Some (b @ replicate (n - cap) None), n)"
      using False a n c assms(2) by (auto simp: util_grow_array_def copy_cells_def n_def [symmetric])
    then show ?thesis using n a by auto
  qed
qed

lemma cells_contain_holds: "cells_contain (map Some xs @ None # rest) e = Some (e \<in> set xs)"
  by (induction xs) auto

section \<open>Counted arrays keep their elements\<close>

lemma max_cells: "MAX_MEMORY_SIZE div sizeof_ptr = 2 ^ 44"
  by (simp add: MAX_MEMORY_SIZE_def sizeof_ptr_def)

lemma scale_size_grows:
  assumes "0 < n" and "n < MAX_MEMORY_SIZE div sizeof_ptr"
  shows "n < get_array_scale_size n" and "get_array_scale_size n \<le> MAX_MEMORY_SIZE div sizeof_ptr"
proof -
  have "nat ((int (2 ^ 44) - int (n div 4)) mod 2 ^ 64) = 2 ^ 44 - n div 4"
    using assms(2) by (simp add: max_cells)
  then show "n < get_array_scale_size n" "get_array_scale_size n \<le> MAX_MEMORY_SIZE div sizeof_ptr"
    using assms by (auto simp: get_array_scale_size_def max_cells DOUBLE_THRESHOLD_def Let_def)
qed

lemma scale_size_max: "get_array_scale_size (MAX_MEMORY_SIZE div sizeof_ptr) = MAX_MEMORY_SIZE div sizeof_ptr"
  by (simp add: get_array_scale_size_def max_cells DOUBLE_THRESHOLD_def Let_def)

lemma write_next:
  "length xs < cap \<Longrightarrow> write_cell (map Some xs @ replicate (cap - length xs) None) (length xs) (Some v) =
     Some (map Some (xs @ [v]) @ replicate (cap - length (xs @ [v])) None)"
proof -
  assume "length xs < cap"
  then obtain k where "cap = length xs + Suc k" by (auto dest: less_imp_Suc_add)
  then show ?thesis by (simp add: write_cell_def list_update_append)
qed

lemma expand_ok:
  assumes "array_ok arr xs" and "arr_cap arr < MAX_MEMORY_SIZE div sizeof_ptr"
  shows "\<exists>arr'. do_expand_array True arr = Some (True, arr') \<and> array_ok arr' xs \<and> arr_cap arr < arr_cap arr'"
proof -
  have g: "arr_cap arr < get_array_scale_size (arr_cap arr)"
    "get_array_scale_size (arr_cap arr) \<le> MAX_MEMORY_SIZE div sizeof_ptr"
    using scale_size_grows [OF _ assms(2)] assms(1) by (auto simp: array_ok_def)
  let ?n = "get_array_scale_size (arr_cap arr)"
  have "util_mem_realloc_cells True ?n (items arr) (arr_len arr) =
      Some (Some (map Some xs @ replicate (?n - length xs) None))"
    using g assms(1) by (simp add: util_mem_realloc_cells_def array_ok_def copy_cells_def min_def)
  then show ?thesis
    using g assms(1) by (auto simp: do_expand_array_def array_ok_def Let_def)
qed

lemma append_ok:
  assumes "array_ok arr xs" and "length xs < MAX_MEMORY_SIZE div sizeof_ptr"
  shows "\<exists>arr'. util_append_string_array True (Some arr) (Some v) = Some (0, Some arr') \<and> array_ok arr' (xs @ [v])"
proof (cases "length xs < arr_cap arr")
  case True
  then show ?thesis
    using assms(1) write_next [OF True, of v] by (auto simp: util_append_string_array_def array_ok_def)
next
  case False
  then have "length xs = arr_cap arr" using assms(1) by (simp add: array_ok_def)
  then obtain arr' where e: "do_expand_array True arr = Some (True, arr')" "array_ok arr' xs" "length xs < arr_cap arr'"
    using expand_ok [OF assms(1)] assms(2) by auto
  then show ?thesis
    using write_next [OF e(3), of v] assms(1) False
    by (auto simp: util_append_string_array_def array_ok_def)
qed

lemma contain_upto_ok: "contain_upto (map Some xs @ rest) (length xs) e = Some (e \<in> set xs)"
  by (induction xs) auto

lemma append_fails:
  assumes "array_ok arr xs" and "\<not> al"
  shows "util_append_string_array al (Some arr) (Some v) =
     (if length xs < arr_cap arr then util_append_string_array True (Some arr) (Some v) else Some (-1, Some arr))"
  using assms
  by (auto simp: util_append_string_array_def array_ok_def do_expand_array_def util_mem_realloc_cells_def Let_def)

lemma append_cases:
  assumes "array_ok arr xs" and "length xs < MAX_MEMORY_SIZE div sizeof_ptr"
  obtains (appended) arr' where "util_append_string_array al (Some arr) (Some v) = Some (0, Some arr')"
      "array_ok arr' (xs @ [v])"
  | (full) "\<not> al" "util_append_string_array al (Some arr) (Some v) = Some (-1, Some arr)"
  using append_ok [OF assms, of v] append_fails [OF assms(1), of al v] by (cases al) (auto split: if_splits)

section \<open>Properties\<close>

text \<open>
  C21. Appending to a growing array is memory safe and loses nothing. For every array made with a
  positive capacity, every sequence of elements (within the memory limit) and every pattern of
  allocation failures, no append reads or writes outside its block; the array holds exactly the
  elements appended before the first failure, in order, and without an allocation failure all of them.
\<close>

theorem append_all_safe:
  assumes "array_ok arr xs" and "length xs + length ys \<le> MAX_MEMORY_SIZE div sizeof_ptr"
  shows "\<exists>rc arr' k. append_all alloc arr ys = Some (rc, arr') \<and> array_ok arr' (xs @ take k ys) \<and>
    (if rc = 0 then k = length ys else rc = -1 \<and> k < length ys \<and> \<not> alloc (length xs + k))"
  using assms
proof (induction ys arbitrary: arr xs)
  case Nil
  then show ?case by auto
next
  case (Cons y ys)
  have lim: "length xs < MAX_MEMORY_SIZE div sizeof_ptr" using Cons.prems(2) by simp
  from Cons.prems(1) lim show ?case
  proof (cases rule: append_cases [where al = "alloc (arr_len arr)" and v = y])
    case (appended arr')
    have "length (xs @ [y]) + length ys \<le> MAX_MEMORY_SIZE div sizeof_ptr" using Cons.prems(2) by simp
    from Cons.IH [OF appended(2) this] obtain rc a k where k: "append_all alloc arr' ys = Some (rc, a)"
      "array_ok a (xs @ [y] @ take k ys)"
      "if rc = 0 then k = length ys else rc = -1 \<and> k < length ys \<and> \<not> alloc (length (xs @ [y]) + k)" by auto
    with appended(1) show ?thesis
      by (intro exI [of _ rc] exI [of _ a] exI [of _ "Suc k"]) (simp split: if_splits)
  next
    case full
    have "arr_len arr = length xs" using Cons.prems(1) by (simp add: array_ok_def)
    with full Cons.prems(1) show ?thesis by (intro exI [of _ "-1"] exI [of _ arr] exI [of _ 0]) auto
  qed
qed

definition demo_array :: "nat counted_array" where
  "demo_array = \<lparr>items = [None], arr_len = 0, arr_cap = 1\<rparr>"

lemma demo_array_ok: "array_ok demo_array []"
  by (simp add: demo_array_def array_ok_def max_cells)

theorem append_all_safe_witness:
  "\<exists>rc arr' k. append_all (\<lambda>i. i < 2) demo_array [5, 6, 7] = Some (rc, arr') \<and> array_ok arr' ([] @ take k [5, 6, 7]) \<and>
    (if rc = 0 then k = length [5, 6, 7 :: nat] else rc = -1 \<and> k < length [5, 6, 7 :: nat] \<and> \<not> length ([] :: nat list) + k < 2)"
  by (rule append_all_safe [OF demo_array_ok]) (simp add: max_cells)

end
