(* ===== verification/Utils_String.thy ===== *)
theory Utils_String
  imports Utils_Convert Utils_Array Cmap
begin

text \<open>
  The string functions of \<^verbatim>\<open>src/utils/cutils/utils_string.c\<close>. Strings are values; where the code works in
  place on a character buffer the loop is modelled on the buffer with its indices, and the result \<open>None\<close>
  marks an access outside the buffer. The splitting functions fill a growing array of \<open>Utils_Array\<close>.
\<close>

section \<open>Searching\<close>

definition util_strings_contains_any :: "string option \<Rightarrow> string option \<Rightarrow> bool" where
  "util_strings_contains_any sp tp =
     (case (sp, tp) of
        (Some str, Some substr) \<Rightarrow> list_ex (\<lambda>c. list_ex (\<lambda>d. c = d) substr) str
      | _ \<Rightarrow> False)"

definition tolower_c :: "char \<Rightarrow> char" where
  "tolower_c c = (if 65 \<le> ord_c c \<and> ord_c c \<le> 90 then char_of (ord_c c + 32) else c)"

definition toupper_c :: "char \<Rightarrow> char" where
  "toupper_c c = (if 97 \<le> ord_c c \<and> ord_c c \<le> 122 then char_of (ord_c c - 32) else c)"

text \<open>\<^verbatim>\<open>strcasecmp\<close> answers 0 exactly when the lower-case images are equal.\<close>

definition strcase_eq :: "string \<Rightarrow> string \<Rightarrow> bool" where
  "strcase_eq a b \<longleftrightarrow> map tolower_c a = map tolower_c b"

fun is_prefix :: "string \<Rightarrow> string \<Rightarrow> bool" where
  "is_prefix [] s = True"
| "is_prefix (p # ps) [] = False"
| "is_prefix (p # ps) (c # cs) = (p = c \<and> is_prefix ps cs)"

text \<open>\<^verbatim>\<open>strstr\<close>: the part of the string from the first occurrence on.\<close>

fun strstr :: "string \<Rightarrow> string \<Rightarrow> string option" where
  "strstr [] sub = (if sub = [] then Some [] else None)"
| "strstr (c # cs) sub = (if is_prefix sub (c # cs) then Some (c # cs) else strstr cs sub)"

definition util_strings_contains_word :: "string option \<Rightarrow> string option \<Rightarrow> bool" where
  "util_strings_contains_word sp tp =
     (case (sp, tp) of
        (Some str, Some substr) \<Rightarrow> strstr (map tolower_c str) (map tolower_c substr) \<noteq> None
      | _ \<Rightarrow> False)"

definition util_strings_in_slice :: "string block option \<Rightarrow> string option \<Rightarrow> bool" where
  "util_strings_in_slice ap sp =
     (case (ap, sp) of
        (Some arr, Some str) \<Rightarrow>
          if arr = [] then False
          else list_ex (\<lambda>e. case e of None \<Rightarrow> False | Some x \<Rightarrow> strcase_eq x str) arr
      | _ \<Rightarrow> False)"

definition util_strings_to_lower :: "string option \<Rightarrow> string option" where
  "util_strings_to_lower = map_option (map tolower_c)"

definition util_strings_to_upper :: "string option \<Rightarrow> string option" where
  "util_strings_to_upper = map_option (map toupper_c)"

section \<open>Sizes and percentages\<close>

definition SIZE_KB :: int where
  "SIZE_KB = 1024"

definition SIZE_MB :: int where
  "SIZE_MB = 1024 * SIZE_KB"

definition SIZE_GB :: int where
  "SIZE_GB = 1024 * SIZE_MB"

definition SIZE_TB :: int where
  "SIZE_TB = 1024 * SIZE_GB"

definition SIZE_PB :: int where
  "SIZE_PB = 1024 * SIZE_TB"

definition g_unit_map :: "(int \<times> string) list" where
  "g_unit_map =
     [(1, ''I''), (1, ''B''), (1, ''IB''),
      (SIZE_KB, ''K''), (SIZE_KB, ''KI''), (SIZE_KB, ''KB''), (SIZE_KB, ''KIB''),
      (SIZE_MB, ''M''), (SIZE_MB, ''MI''), (SIZE_MB, ''MB''), (SIZE_MB, ''MIB''),
      (SIZE_GB, ''G''), (SIZE_GB, ''GI''), (SIZE_GB, ''GB''), (SIZE_GB, ''GIB''),
      (SIZE_TB, ''T''), (SIZE_TB, ''TI''), (SIZE_TB, ''TB''), (SIZE_TB, ''TIB''),
      (SIZE_PB, ''P''), (SIZE_PB, ''PI''), (SIZE_PB, ''PB''), (SIZE_PB, ''PIB'')]"

definition parse_unit_multiple :: "string \<Rightarrow> int \<times> int option" where
  "parse_unit_multiple unit =
     (if unit = [] then (0, Some 1)
      else (case List.find (\<lambda>(m, name). strcase_eq unit name) g_unit_map of
              Some (m, name) \<Rightarrow> (0, Some m)
            | None \<Rightarrow> (- EINVAL, None)))"

text \<open>
  The decimal fraction \<open>n / den\<close>, with \<open>n < den\<close>, as the nearest double: the exponent is searched that
  brings the fraction into the range of 53-bit mantissas, the mantissa is rounded to nearest, ties to
  even. The result is the mantissa and the exponent of its denominator.
\<close>

function find_exp :: "nat \<Rightarrow> nat \<Rightarrow> nat \<Rightarrow> nat" where
  "find_exp n den e = (if n = 0 \<or> 2 ^ 52 * den \<le> n * 2 ^ e then e else find_exp n den (Suc e))"
  by auto
termination
proof (relation "measure (\<lambda>(n, den, e). 2 ^ 52 * den - n * 2 ^ e)")
  fix n den e :: nat
  assume "\<not> (n = 0 \<or> 2 ^ 52 * den \<le> n * 2 ^ e)"
  then have "0 < n * 2 ^ e" "n * 2 ^ e < 2 ^ 52 * den" "n * 2 ^ Suc e = n * 2 ^ e + n * 2 ^ e" by auto
  then have "2 ^ 52 * den - n * 2 ^ Suc e < 2 ^ 52 * den - n * 2 ^ e" by linarith
  then show "((n, den, Suc e), (n, den, e)) \<in> measure (\<lambda>(n, den, e). 2 ^ 52 * den - n * 2 ^ e)" by simp
qed simp

definition round_half_even :: "nat \<Rightarrow> nat \<Rightarrow> nat" where
  "round_half_even a b =
     (let q = a div b; r = a mod b
      in if 2 * r < b then q else if 2 * r > b then q + 1 else if even q then q else q + 1)"

definition to_double :: "nat \<Rightarrow> nat \<Rightarrow> nat \<times> nat" where
  "to_double n den = (let e = find_exp n den 0 in (round_half_even (n * 2 ^ e) den, e))"

text \<open>
  \<^verbatim>\<open>util_safe_strtod\<close> on a text that starts with \<open>0.\<close>: digits follow, and anything after them is an
  error. A non-zero value below the smallest normal double is reported as \<^verbatim>\<open>ERANGE\<close> unless it is exact.
\<close>

definition util_safe_strtod_frac :: "string \<Rightarrow> (int, nat \<times> nat) sum" where
  "util_safe_strtod_frac digits =
     (let ds = takeWhile isdigit_c digits; n = fst (scan_digits 10 0 ds); den = 10 ^ length ds
      in if n \<noteq> 0 \<and> n * 2 ^ 1022 < den \<and> (n * 2 ^ 1074) mod den \<noteq> 0 then Inl (- ERANGE)
         else if dropWhile isdigit_c digits \<noteq> [] then Inl (- EINVAL)
         else Inr (to_double n den))"

text \<open>
  \<open>numstr\<close> is the caller's private copy, which the function changes and restores or truncates; \<^verbatim>\<open>mlt\<close> is a
  power of two here, so the multiplication of a double by it is exact.
\<close>

definition util_parse_size_int_and_float :: "string \<Rightarrow> int \<Rightarrow> int \<times> int option" where
  "util_parse_size_int_and_float numstr mlt =
     (let ipart = takeWhile (\<lambda>c. c \<noteq> CHR ''.'') numstr;
          dotpart = dropWhile (\<lambda>c. c \<noteq> CHR ''.'') numstr;
          fl = (if dotpart = [] then Inr 0
                else if ipart = [] \<or> tl dotpart = [] then Inl (- EINVAL)
                else (case util_safe_strtod_frac (tl dotpart) of
                        Inl err \<Rightarrow> Inl err
                      | Inr (m, e) \<Rightarrow>
                          (let float_int = int m div 2 ^ e
                           in if mlt > 0 then
                                (if INT64_MAX div mlt < float_int then Inl (- ERANGE)
                                 else Inr (int m * mlt div 2 ^ e))
                              else Inr float_int)))
      in case fl of
           Inl err \<Rightarrow> (err, None)
         | Inr float_real \<Rightarrow>
             (case util_safe_llong (Some ipart) of
                (nret, None) \<Rightarrow> (nret, None)
              | (nret, Some int_size) \<Rightarrow>
                  if mlt > 0 \<and> INT64_MAX div mlt < int_size then (- ERANGE, None)
                  else
                    (let int_real = (if mlt > 0 then int_size * mlt else int_size)
                     in if INT64_MAX - int_real < float_real then (- ERANGE, None)
                        else (0, Some (int_real + float_real)))))"

definition util_parse_byte_size_string :: "string option \<Rightarrow> int \<times> int option" where
  "util_parse_byte_size_string sp =
     (case sp of
        None \<Rightarrow> (- EINVAL, None)
      | Some s \<Rightarrow>
          if s = [] \<or> \<not> isdigit_c (hd s) then (- EINVAL, None)
          else
            (let num = takeWhile (\<lambda>c. isdigit_c c \<or> c = CHR ''.'') s;
                 pmlt = dropWhile (\<lambda>c. isdigit_c c \<or> c = CHR ''.'') s
             in case parse_unit_multiple pmlt of
                  (ret, None) \<Rightarrow> (ret, None)
                | (ret, Some mltpl) \<Rightarrow> util_parse_size_int_and_float num mltpl))"

text \<open>\<open>errno0\<close> is the value of \<^verbatim>\<open>errno\<close> when the function is called; the code does not clear it.\<close>

definition util_parse_percent_string :: "int \<Rightarrow> string option \<Rightarrow> int \<times> int option" where
  "util_parse_percent_string errno0 sp =
     (case sp of
        None \<Rightarrow> (- EINVAL, None)
      | Some s \<Rightarrow>
          if s = [] \<or> length s < 2 \<or> last s \<noteq> CHR ''%'' \<or> \<not> list_all (\<lambda>c. isdigit_c c \<or> c = CHR ''%'') s
          then (- EINVAL, None)
          else
            (let (v, e, _) = strtoll 10 (butlast s); errno = (if e \<noteq> 0 then e else errno0)
             in if (errno = ERANGE \<and> (v = INT64_MAX \<or> v = INT64_MIN)) \<or> (errno \<noteq> 0 \<and> v = 0) \<or> v < 0 \<or> v > 100
                then (- EINVAL, Some v)
                else (0, Some v)))"

section \<open>Splitting\<close>

text \<open>\<^verbatim>\<open>strsep\<close> with one delimiter: the token and what is left, \<open>None\<close> at the end.\<close>

fun strsep :: "char \<Rightarrow> string \<Rightarrow> string \<times> string option" where
  "strsep d [] = ([], None)"
| "strsep d (c # cs) = (if c = d then ([], Some cs) else (let (t, r) = strsep d cs in (c # t, r)))"

lemma strsep_shorter: "strsep d s = (t, Some r) \<Longrightarrow> length r < length s"
proof (induction s arbitrary: t r)
  case (Cons c s)
  then show ?case by (cases "c = d") (auto simp: Let_def less_SucI split: prod.splits)
qed simp

function strsep_tokens :: "char \<Rightarrow> string \<Rightarrow> string list" where
  "strsep_tokens d s = (case strsep d s of (t, None) \<Rightarrow> [t] | (t, Some r) \<Rightarrow> t # strsep_tokens d r)"
  by auto
termination
  by (relation "measure (\<lambda>(d, s). length s)") (auto intro: strsep_shorter [OF sym])

text \<open>\<^verbatim>\<open>strtok_r\<close> with one delimiter: leading delimiters are skipped, so no token is empty.\<close>

function strtok_tokens :: "char \<Rightarrow> string \<Rightarrow> string list" where
  "strtok_tokens d s =
     (let s1 = dropWhile (\<lambda>c. c = d) s
      in if s1 = [] then []
         else takeWhile (\<lambda>c. c \<noteq> d) s1 # strtok_tokens d (dropWhile (\<lambda>c. c \<noteq> d) s1))"
  by auto
termination
proof (relation "measure (\<lambda>(d, s). length s)")
  fix d :: char and s s1 :: string
  assume s1: "s1 = dropWhile (\<lambda>c. c = d) s" "s1 \<noteq> []"
  then have "hd s1 \<noteq> d" by (metis (full_types) hd_dropWhile)
  then have "length (dropWhile (\<lambda>c. c \<noteq> d) s1) < length s1"
    using s1(2) by (cases s1) (auto simp: le_imp_less_Suc length_dropWhile_le)
  also have "\<dots> \<le> length s" using s1(1) by (simp add: length_dropWhile_le)
  finally show "((d, dropWhile (\<lambda>c. c \<noteq> d) s1), (d, s)) \<in> measure (\<lambda>(d, s). length s)" by simp
qed simp

text \<open>
  The loop that appends each token to the growing array. \<open>alloc i\<close> answers the allocation that growing
  for the \<open>i\<close>-th token may need; the flag says whether the loop ended without an error.
\<close>

fun fill_array ::
  "(nat \<Rightarrow> bool) \<Rightarrow> string list \<Rightarrow> string block option \<Rightarrow> nat \<Rightarrow> nat
     \<Rightarrow> (bool \<times> string block option \<times> nat) option" where
  "fill_array alloc [] arr cap cnt = Some (True, arr, cnt)"
| "fill_array alloc (t # ts) arr cap cnt = do {
     (ret, arr1, cap1) \<leftarrow> util_grow_array (alloc cnt) arr cap (cnt + 1) 16;
     if ret < 0 then Some (False, arr1, cnt)
     else do {
       b \<leftarrow> arr1;
       b1 \<leftarrow> write_cell b cnt (Some t);
       fill_array alloc ts (Some b1) cap1 (cnt + 1)
     }
   }"

definition util_shrink_array :: "bool \<Rightarrow> string block \<Rightarrow> nat \<Rightarrow> string block option" where
  "util_shrink_array alloc orig new_size =
     (if new_size = 0 then Some orig
      else (case util_smart_calloc_s alloc new_size of
              None \<Rightarrow> Some orig
            | Some nb \<Rightarrow> copy_cells nb orig new_size))"

definition make_empty_array :: "bool \<Rightarrow> string block option" where
  "make_empty_array alloc = (if alloc then Some [Some [], None] else None)"

text \<open>The outer option is undefined behaviour, the inner one the returned pointer.\<close>

definition util_string_split_multi ::
  "(nat \<Rightarrow> bool) \<Rightarrow> bool \<Rightarrow> string option \<Rightarrow> char \<Rightarrow> string block option option" where
  "util_string_split_multi alloc shrink sp delim =
     (case sp of
        None \<Rightarrow> Some None
      | Some src \<Rightarrow>
          if src = [] then Some (make_empty_array shrink)
          else do {
            (ok, arr, cnt) \<leftarrow> fill_array alloc (strsep_tokens delim src) None 0 0;
            if \<not> ok then Some None
            else do { b \<leftarrow> arr; b1 \<leftarrow> util_shrink_array shrink b (cnt + 1); Some (Some b1) }
          })"

definition util_string_split ::
  "(nat \<Rightarrow> bool) \<Rightarrow> bool \<Rightarrow> string option \<Rightarrow> char \<Rightarrow> string block option option" where
  "util_string_split alloc shrink sp sep =
     (case sp of
        None \<Rightarrow> Some None
      | Some src \<Rightarrow>
          if src = [] then Some (make_empty_array shrink)
          else do {
            (ok, arr, cnt) \<leftarrow> fill_array alloc (strtok_tokens sep src) None 0 0;
            if \<not> ok then Some None
            else (case arr of
                    None \<Rightarrow> Some (make_empty_array shrink)
                  | Some b \<Rightarrow> do { b1 \<leftarrow> util_shrink_array shrink b (cnt + 1); Some (Some b1) })
          })"

text \<open>The pieces of \<^verbatim>\<open>util_string_split_n\<close>: at most \<open>n\<close>, the last one with the remaining separators.\<close>

fun split_n_tokens :: "nat \<Rightarrow> char \<Rightarrow> string \<Rightarrow> string list" where
  "split_n_tokens 0 d s = [s]"
| "split_n_tokens (Suc 0) d s = [s]"
| "split_n_tokens (Suc (Suc n)) d s =
     (case strsep d s of (t, None) \<Rightarrow> [t] | (t, Some r) \<Rightarrow> t # split_n_tokens (Suc n) d r)"

fun append_tokens :: "(nat \<Rightarrow> bool) \<Rightarrow> nat \<Rightarrow> string list \<Rightarrow> string block option \<Rightarrow> (bool \<times> string block option) option" where
  "append_tokens alloc i [] arr = Some (True, arr)"
| "append_tokens alloc i (t # ts) arr = do {
     (rc, arr1) \<leftarrow> util_array_append (alloc i) arr (Some t);
     if rc \<noteq> 0 then Some (False, arr1) else append_tokens alloc (Suc i) ts arr1
   }"

definition util_string_split_n ::
  "(nat \<Rightarrow> bool) \<Rightarrow> string option \<Rightarrow> char \<Rightarrow> nat \<Rightarrow> string block option option" where
  "util_string_split_n alloc sp sep n =
     (case sp of
        None \<Rightarrow> Some None
      | Some src \<Rightarrow>
          if n = 0 then Some None
          else if src = [] then Some (make_empty_array (alloc 0))
          else do {
            (ok, arr) \<leftarrow> append_tokens alloc 0 (split_n_tokens n sep src) None;
            Some (if ok then arr else None)
          })"

section \<open>Trimming and editing in place\<close>

fun util_str_skip_str_loop :: "string \<Rightarrow> string \<Rightarrow> string option" where
  "util_str_skip_str_loop str [] = Some str"
| "util_str_skip_str_loop [] (k # ks) = None"
| "util_str_skip_str_loop (c # cs) (k # ks) = (if c \<noteq> k then None else util_str_skip_str_loop cs ks)"

definition util_str_skip_str :: "string option \<Rightarrow> string option \<Rightarrow> string option" where
  "util_str_skip_str sp kp =
     (case (sp, kp) of (Some str, Some skip) \<Rightarrow> util_str_skip_str_loop str skip | _ \<Rightarrow> None)"

text \<open>
  A character buffer is the list of its cells, the NUL included. The loop of
  \<^verbatim>\<open>util_string_delchar_inplace\<close> reads at \<open>j\<close> and writes at \<open>i\<close>; \<open>i \<le> j\<close> throughout.
\<close>

abbreviation NUL :: char where
  "NUL \<equiv> CHR 0x00"

definition c_string :: "string \<Rightarrow> string" where
  "c_string buf = takeWhile (\<lambda>c. c \<noteq> NUL) buf"

function delchar_loop :: "char \<Rightarrow> nat \<Rightarrow> string \<Rightarrow> nat \<Rightarrow> nat \<Rightarrow> string option" where
  "delchar_loop c slen buf i j =
     (if i < slen then
        (if j = slen then (if i < length buf then Some (buf[i := NUL]) else None)
         else if j < slen \<and> j < length buf \<and> i < length buf then
           (let buf1 = buf[i := buf ! j]
            in delchar_loop c slen buf1 (if buf1 ! i \<noteq> c then i + 1 else i) (j + 1))
         else None)
      else Some buf)"
  by auto
termination
  by (relation "measure (\<lambda>(c, slen, buf, i, j). slen - j)") auto

definition util_string_delchar_inplace :: "char \<Rightarrow> string \<Rightarrow> string option" where
  "util_string_delchar_inplace c buf = delchar_loop c (length (c_string buf)) buf 0 0"

definition util_string_delchar :: "string option \<Rightarrow> char \<Rightarrow> string option option" where
  "util_string_delchar sp c =
     (case sp of
        None \<Rightarrow> Some None
      | Some ss \<Rightarrow> do { b \<leftarrow> util_string_delchar_inplace c (ss @ [NUL]); Some (Some (c_string b)) })"

definition drop_last_while :: "('a \<Rightarrow> bool) \<Rightarrow> 'a list \<Rightarrow> 'a list" where
  "drop_last_while p xs = rev (dropWhile p (rev xs))"

definition util_trim_newline :: "string option \<Rightarrow> string option" where
  "util_trim_newline = map_option (drop_last_while (\<lambda>c. c = CHR 0x0A))"

definition util_left_trim_space :: "string \<Rightarrow> string" where
  "util_left_trim_space str = (if str = [] then str else dropWhile isspace_c str)"

text \<open>
  The right trim walks down from the last character without looking at the start of the buffer: on a
  string of white space only it would leave the buffer, and the model answers \<open>None\<close>.
\<close>

definition util_right_trim_space :: "string \<Rightarrow> string option" where
  "util_right_trim_space str =
     (if str = [] then Some str
      else if list_all isspace_c str then None
      else Some (drop_last_while isspace_c str))"

definition util_trim_space :: "string option \<Rightarrow> string option option" where
  "util_trim_space sp =
     (case sp of
        None \<Rightarrow> Some None
      | Some str \<Rightarrow> map_option Some (util_right_trim_space (util_left_trim_space str)))"

definition util_left_trim_quotation :: "string \<Rightarrow> string" where
  "util_left_trim_quotation str = dropWhile (\<lambda>c. c = CHR 0x22) str"

definition util_right_trim_quotation :: "string \<Rightarrow> string" where
  "util_right_trim_quotation str = drop_last_while (\<lambda>c. c = NUL \<or> c = CHR 0x0A \<or> c = CHR 0x22) str"

definition util_trim_quotation :: "string option \<Rightarrow> string option" where
  "util_trim_quotation = map_option (\<lambda>str. util_right_trim_quotation (util_left_trim_quotation str))"

section \<open>Building\<close>

definition util_str_array_dup :: "bool \<Rightarrow> string block option \<Rightarrow> nat \<Rightarrow> string block option option" where
  "util_str_array_dup alloc src len =
     (case src of
        None \<Rightarrow> Some None
      | Some b \<Rightarrow>
          if len = 0 then Some None
          else if len > (2 ^ 64 - 1) div sizeof_ptr - 1 then Some None
          else if sizeof_ptr * (len + 1) > MAX_MEMORY_SIZE \<or> \<not> alloc then Some None
          else map_option Some (copy_cells (replicate (len + 1) None) b len))"

text \<open>\<^verbatim>\<open>strcat\<close> into a buffer of \<open>cap\<close> bytes.\<close>

definition strcat_into :: "nat \<Rightarrow> string \<Rightarrow> string \<Rightarrow> string option" where
  "strcat_into cap dst src = (if length dst + length src + 1 \<le> cap then Some (dst @ src) else None)"

fun join_loop :: "nat \<Rightarrow> string \<Rightarrow> string \<Rightarrow> string list \<Rightarrow> string option" where
  "join_loop cap sep res [] = None"
| "join_loop cap sep res [p] = strcat_into cap res p"
| "join_loop cap sep res (p # q # ps) = do {
     r1 \<leftarrow> strcat_into cap res p;
     r2 \<leftarrow> strcat_into cap r1 sep;
     join_loop cap sep r2 (q # ps)
   }"

definition do_string_join :: "bool \<Rightarrow> string \<Rightarrow> string list \<Rightarrow> nat \<Rightarrow> string option option" where
  "do_string_join alloc sep parts result_len =
     (if result_len + 1 > MAX_MEMORY_SIZE \<or> \<not> alloc then Some None
      else map_option Some (join_loop (result_len + 1) sep [] parts))"

text \<open>The sum of the lengths; a NULL part or a sum beyond \<^verbatim>\<open>SIZE_MAX\<close> ends the loop with NULL.\<close>

fun join_length :: "nat \<Rightarrow> string block \<Rightarrow> nat option" where
  "join_length acc [] = Some acc"
| "join_length acc (None # ps) = None"
| "join_length acc (Some p # ps) =
     (if acc \<ge> (2 ^ 64 - 1) - length p then None else join_length (acc + length p) ps)"

definition util_string_join :: "bool \<Rightarrow> string option \<Rightarrow> string block option \<Rightarrow> string option option" where
  "util_string_join alloc sepp partsp =
     (case (partsp, sepp) of
        (Some parts, Some sep) \<Rightarrow>
          if parts = [] then Some None
          else if length sep \<noteq> 0 \<and> length sep \<noteq> 1 \<and> length parts > (2 ^ 64 - 1) div length sep + 1
          then Some None
          else (case join_length ((length parts - 1) * length sep) parts of
                  None \<Rightarrow> Some None
                | Some n \<Rightarrow> do_string_join alloc sep (map the parts) n)
      | _ \<Rightarrow> Some None)"

definition util_string_append :: "bool \<Rightarrow> string option \<Rightarrow> string option \<Rightarrow> string option" where
  "util_string_append alloc postp prep =
     (case (postp, prep) of
        (None, None) \<Rightarrow> None
      | (Some post, None) \<Rightarrow> Some post
      | (None, Some pre) \<Rightarrow> Some pre
      | (Some post, Some pre) \<Rightarrow>
          if length post > (2 ^ 64 - 1) - length pre - 1 then None
          else if length post + length pre + 1 > MAX_MEMORY_SIZE \<or> \<not> alloc then None
          else Some (pre @ post))"

text \<open>Return code, and the array and length stored through \<^verbatim>\<open>dst\<close> and \<^verbatim>\<open>dst_len\<close> (\<open>None\<close>: not stored).\<close>

definition util_dup_array_of_strings ::
  "bool \<Rightarrow> string block option \<Rightarrow> int \<times> (string block option \<times> nat) option" where
  "util_dup_array_of_strings alloc src =
     (case src of
        None \<Rightarrow> (0, None)
      | Some b \<Rightarrow>
          if b = [] then (0, None)
          else if length b > MAX_MEMORY_SIZE div sizeof_ptr \<or> \<not> alloc then (-1, Some (None, 0))
          else (0, Some (Some b, length b)))"

definition util_sub_string :: "bool \<Rightarrow> string option \<Rightarrow> nat \<Rightarrow> nat \<Rightarrow> string option" where
  "util_sub_string alloc sp offset len =
     (case sp of
        None \<Rightarrow> None
      | Some source \<Rightarrow>
          if len = 0 then None
          else if offset > length source then None
          else
            (let substr_len = (if length source - offset \<ge> len then len else length source - offset) + 1
             in if substr_len > MAX_MEMORY_SIZE \<or> \<not> alloc then None
                else Some (take (substr_len - 1) (drop offset source))))"

definition util_is_space_string :: "string option \<Rightarrow> bool" where
  "util_is_space_string sp = (case sp of None \<Rightarrow> False | Some str \<Rightarrow> list_all isspace_c str)"

definition util_has_prefix :: "string option \<Rightarrow> string option \<Rightarrow> bool" where
  "util_has_prefix sp pp =
     (case (sp, pp) of
        (Some str, Some pre) \<Rightarrow>
          if length str < length pre then False
          else if take (length pre) str \<noteq> pre then False
          else True
      | _ \<Rightarrow> False)"

definition util_has_suffix :: "string option \<Rightarrow> string option \<Rightarrow> bool" where
  "util_has_suffix sp pp =
     (case (sp, pp) of
        (Some str, Some suf) \<Rightarrow>
          if length str < length suf then False
          else if drop (length str - length suf) str \<noteq> suf then False
          else True
      | _ \<Rightarrow> False)"

text \<open>
  The elements without repetition, through a string map: \<open>alloc i\<close> answers the allocations while the
  \<open>i\<close>-th element is put into the map.
\<close>

fun put_all :: "(nat \<Rightarrow> bool) \<Rightarrow> nat \<Rightarrow> string list \<Rightarrow> bool smap \<Rightarrow> bool \<times> bool smap" where
  "put_all alloc i [] m = (True, m)"
| "put_all alloc i (e # es) m =
     (case smap_replace (alloc i) (alloc i) m e True of
        (False, m1) \<Rightarrow> (False, m1)
      | (True, m1) \<Rightarrow> put_all alloc (Suc i) es m1)"

definition util_string_array_unique ::
  "(nat \<Rightarrow> bool) \<Rightarrow> bool \<Rightarrow> bool \<Rightarrow> bool \<Rightarrow> string list option \<Rightarrow> int \<times> string list option" where
  "util_string_array_unique alloc alloc_map alloc_arr alloc_itor ep =
     (case ep of
        None \<Rightarrow> (0, None)
      | Some elements \<Rightarrow>
          if elements = [] then (0, None)
          else if \<not> alloc_map then (-1, None)
          else (case put_all alloc 0 elements [] of
                  (False, m) \<Rightarrow> (-1, None)
                | (True, m) \<Rightarrow>
                    if \<not> alloc_arr then (-1, None)
                    else if \<not> alloc_itor then (-1, None)
                    else (0, Some (map fst m))))"

text \<open>The token and the new value of \<^verbatim>\<open>*input\<close>.\<close>

definition util_str_token :: "bool \<Rightarrow> string option \<Rightarrow> string option \<Rightarrow> string option \<times> string option" where
  "util_str_token alloc inp delim =
     (case (inp, delim) of
        (Some str, Some d) \<Rightarrow>
          (case strstr str d of
             Some found \<Rightarrow>
               if \<not> alloc then (None, inp)
               else (Some (take (length str - length found) str), Some (drop (length d) found))
           | None \<Rightarrow> if \<not> alloc then (None, inp) else (Some str, None))
      | _ \<Rightarrow> (None, inp))"

section \<open>Splitting fills the array with the tokens\<close>

declare strsep_tokens.simps [simp del] strtok_tokens.simps [simp del] find_exp.simps [simp del]
  delchar_loop.simps [simp del]

definition padded :: "string list \<Rightarrow> nat \<Rightarrow> string block" where
  "padded xs cap = map Some xs @ replicate (cap - length xs) None"

lemma padded_length [simp]: "length xs \<le> cap \<Longrightarrow> length (padded xs cap) = cap"
  by (simp add: padded_def)

lemma write_padded: "length xs < cap \<Longrightarrow> write_cell (padded xs cap) (length xs) (Some t) = Some (padded (xs @ [t]) cap)"
  using write_next [of xs cap t] by (simp add: padded_def)

lemma grow_padded:
  assumes "(arr = None \<and> cap = 0 \<and> xs = []) \<or> (arr = Some (padded xs cap) \<and> length xs < cap)"
    and "max cap (length xs + 1 + 16) \<le> MAX_MEMORY_SIZE div sizeof_ptr"
  shows "\<exists>cap'. util_grow_array True arr cap (length xs + 1) 16 = Some (0, Some (padded xs cap'), cap') \<and>
    length xs + 2 \<le> cap' \<and> cap' \<le> max cap (length xs + 17)"
proof -
  have "case arr of None \<Rightarrow> cap = 0 | Some b \<Rightarrow> length b = cap" using assms(1) by auto
  from grow_array_ok [OF this, of 16 "length xs + 1"] assms(2) obtain b where
    b: "util_grow_array True arr cap (length xs + 1) 16 = Some (0, Some b, length b)" "length xs + 2 \<le> length b"
      "b = (case arr of None \<Rightarrow> [] | Some b0 \<Rightarrow> b0) @ replicate (length b - cap) None" by auto
  have eq: "b = padded xs (length b)"
  proof -
    have "replicate (cap - length xs) None @ replicate (length b - cap) None =
        replicate (length b - length xs) (None :: string option)" if "length xs < cap" "cap \<le> length b"
      using that by (simp flip: replicate_add)
    moreover have "cap \<le> length b" using b(3) assms(1) by (metis length_append le_add1 option.simps(4,5)
        padded_length less_imp_le_nat list.size(3) zero_le)
    ultimately show ?thesis using assms(1) b(3) by (auto simp: padded_def)
  qed
  have "length b \<le> max cap (length xs + 17)"
    using b(1) grow_capacity_bound [of "length xs + 1" 16 cap] assms(1)
    by (auto simp: util_grow_array_def Let_def split: if_splits option.splits Option.bind_splits)
  with b(1,2) eq show ?thesis by metis
qed

lemma fill_array_ok:
  assumes "(arr = None \<and> cap = 0 \<and> xs = []) \<or> (arr = Some (padded xs cap) \<and> length xs < cap)"
    and "max cap (length xs + length ts + 17) \<le> MAX_MEMORY_SIZE div sizeof_ptr" and "ts \<noteq> []"
  shows "\<exists>cap'. fill_array (\<lambda>_. True) ts arr cap (length xs) =
      Some (True, Some (padded (xs @ ts) cap'), length xs + length ts) \<and> length xs + length ts < cap'"
  using assms
proof (induction ts arbitrary: arr cap xs)
  case (Cons t ts)
  from grow_padded [OF Cons.prems(1)] Cons.prems(2) obtain c where
    c: "util_grow_array True arr cap (length xs + 1) 16 = Some (0, Some (padded xs c), c)" "length xs + 2 \<le> c"
      "c \<le> max cap (length xs + 17)" by auto
  have w: "write_cell (padded xs c) (length xs) (Some t) = Some (padded (xs @ [t]) c)"
    using write_padded c(2) by simp
  show ?case
  proof (cases "ts = []")
    case True
    then show ?thesis using c w by (intro exI [of _ c]) simp
  next
    case False
    have m: "max c (length (xs @ [t]) + length ts + 17) \<le> MAX_MEMORY_SIZE div sizeof_ptr"
      using Cons.prems(2) c(3) by (simp add: max_def split: if_splits)
    have "(Some (padded (xs @ [t]) c) = None \<and> c = 0 \<and> xs @ [t] = []) \<or>
        (Some (padded (xs @ [t]) c) = Some (padded (xs @ [t]) c) \<and> length (xs @ [t]) < c)" using c(2) by simp
    from Cons.IH [OF this m False] c w show ?thesis by simp
  qed
qed simp

lemma shrink_padded:
  assumes "length xs < cap" and "length xs + 1 \<le> MAX_MEMORY_SIZE div sizeof_ptr"
  shows "util_shrink_array True (padded xs cap) (length xs + 1) = Some (map Some xs @ [None])"
proof -
  obtain k where "cap = length xs + Suc k" using assms(1) by (auto dest: less_imp_Suc_add)
  then show ?thesis using assms(2) by (simp add: util_shrink_array_def util_smart_calloc_s_def copy_cells_def padded_def)
qed

lemma tokens_array:
  assumes "length ts + 17 \<le> MAX_MEMORY_SIZE div sizeof_ptr" and "ts \<noteq> []"
  shows "\<exists>b. fill_array (\<lambda>_. True) ts None 0 0 = Some (True, Some b, length ts) \<and>
    util_shrink_array True b (length ts + 1) = Some (map Some ts @ [None])"
  using fill_array_ok [of None 0 "[]" ts] assms shrink_padded [of ts] by auto

lemma strsep_tokens_nonempty [simp]: "strsep_tokens d s \<noteq> []"
  by (subst strsep_tokens.simps) (auto split: prod.splits option.splits)

lemma strsep_tokens_count: "length (strsep_tokens d s) \<le> length s + 1"
proof (induction d s rule: strsep_tokens.induct)
  case (1 d s)
  obtain t r where tr: "strsep d s = (t, r)" by fastforce
  show ?case
  proof (cases r)
    case None
    then show ?thesis using tr by (subst strsep_tokens.simps) simp
  next
    case (Some q)
    then show ?thesis
      using tr "1.IH" [of t r q] strsep_shorter [of d s t q] by (subst strsep_tokens.simps) simp
  qed
qed

text \<open>\<open>join_with\<close> is the reference: the parts with the separator between them.\<close>

fun join_with :: "string \<Rightarrow> string list \<Rightarrow> string" where
  "join_with sep [] = []"
| "join_with sep [p] = p"
| "join_with sep (p # q # ps) = p @ sep @ join_with sep (q # ps)"

lemma join_with_Cons: "ps \<noteq> [] \<Longrightarrow> join_with sep (p # ps) = p @ sep @ join_with sep ps"
  by (cases ps) auto

lemma strsep_eq:
  "case strsep d s of (t, None) \<Rightarrow> s = t \<and> d \<notin> set s | (t, Some r) \<Rightarrow> s = t @ d # r \<and> d \<notin> set t"
  by (induction s) (auto split: prod.splits option.splits)

lemma join_strsep: "join_with [d] (strsep_tokens d s) = s"
proof (induction d s rule: strsep_tokens.induct)
  case (1 d s)
  then show ?case
    using strsep_eq [where d = d and s = s]
    by (subst strsep_tokens.simps) (auto simp: join_with_Cons split: prod.splits option.splits)
qed

lemma join_with_length:
  "ps \<noteq> [] \<Longrightarrow> length (join_with sep ps) = (length ps - 1) * length sep + sum_list (map length ps)"
  by (induction ps rule: induct_list012) (auto simp: algebra_simps)

lemma join_length_eq:
  "acc + sum_list (map length ps) < 2 ^ 64 - 1 \<Longrightarrow> join_length acc (map Some ps) = Some (acc + sum_list (map length ps))"
  by (induction ps arbitrary: acc) auto

lemma join_loop_eq:
  "ps \<noteq> [] \<Longrightarrow> length res + length (join_with sep ps) + 1 \<le> cap \<Longrightarrow>
     join_loop cap sep res ps = Some (res @ join_with sep ps)"
  by (induction cap sep res ps rule: join_loop.induct) (auto simp: strcat_into_def)

lemma string_join_eq:
  assumes "ps \<noteq> []" and "length (join_with sep ps) + 1 \<le> MAX_MEMORY_SIZE" and "length ps \<le> 2 ^ 47" and "length sep \<le> 2 ^ 16"
  shows "util_string_join True (Some sep) (Some (map Some ps)) = Some (Some (join_with sep ps))"
proof -
  have len: "(length ps - 1) * length sep + sum_list (map length ps) = length (join_with sep ps)"
    using join_with_length [OF assms(1), of sep] by simp
  have "join_length ((length ps - 1) * length sep) (map Some ps) = Some (length (join_with sep ps))"
    using join_length_eq [of "(length ps - 1) * length sep" ps] assms(2) len by (simp add: MAX_MEMORY_SIZE_def)
  moreover have "\<not> length ps > (2 ^ 64 - 1) div length sep + 1" if "length sep \<noteq> 0"
  proof -
    have "(2 ^ 64 - 1) div 2 ^ 16 \<le> (2 ^ 64 - 1 :: nat) div length sep"
      using that assms(4) by (intro div_le_mono2) simp_all
    then show ?thesis using assms(3) by simp
  qed
  ultimately show ?thesis
    using assms(1,2) join_loop_eq [OF assms(1), of "[]" sep "length (join_with sep ps) + 1"]
    by (auto simp: util_string_join_def do_string_join_def comp_def)
qed

section \<open>Deleting a character in place\<close>

lemma delchar_loop_eq:
  assumes "buf = pre @ junk @ rest @ [NUL]" and "length pre = i" and "length pre + length junk = j"
    and "slen = length pre + length junk + length rest" and "NUL \<notin> set rest"
  shows "\<exists>b. delchar_loop c slen buf i j = Some b \<and> take (length pre + length (filter (\<lambda>d. d \<noteq> c) rest) + 1) b =
    pre @ filter (\<lambda>d. d \<noteq> c) rest @ [NUL]"
  using assms
proof (induction rest arbitrary: buf pre junk i j)
  case Nil
  show ?case
  proof (cases "junk = []")
    case True
    then show ?thesis using Nil by (subst delchar_loop.simps) simp
  next
    case False
    then obtain x xs where junk: "junk = x # xs" by (cases junk) auto
    then have "delchar_loop c slen buf i j = Some (pre @ NUL # xs @ [NUL])"
      using Nil by (subst delchar_loop.simps) (simp add: list_update_append)
    then show ?thesis by simp
  qed
next
  case (Cons y rest)
  have bounds: "i < slen" "j < slen" "j < length buf" "i < length buf" "j \<noteq> slen" using Cons.prems by auto
  have "buf = (pre @ junk) @ y # rest @ [NUL]" "j = length (pre @ junk)" using Cons.prems by simp_all
  then have y: "buf ! j = y" by (simp only: nth_append_length)
  obtain z zs where jz: "junk @ [y] = z # zs" by (cases "junk @ [y]") auto
  have upd: "buf[i := y] = pre @ (y # zs) @ rest @ [NUL]"
  proof -
    have "buf = pre @ (z # zs) @ rest @ [NUL]" using Cons.prems(1) jz by (metis append.assoc append_Cons append_Nil)
    then show ?thesis using Cons.prems(2) by (simp add: list_update_append)
  qed
  have len: "length zs = length junk" using jz by (metis length_append_singleton length_Cons nat.inject)
  have step: "delchar_loop c slen buf i j =
      delchar_loop c slen (buf[i := y]) (if y \<noteq> c then i + 1 else i) (j + 1)"
    using bounds y by (subst delchar_loop.simps) (simp add: Let_def)
  show ?case
  proof (cases "y = c")
    case True
    have "buf[i := y] = pre @ (y # zs) @ rest @ [NUL]" by (rule upd)
    from Cons.IH [OF this, of i "j + 1"] Cons.prems len True step show ?thesis by auto
  next
    case False
    have "buf[i := y] = (pre @ [y]) @ zs @ rest @ [NUL]" using upd by simp
    from Cons.IH [OF this, of "i + 1" "j + 1"] Cons.prems len False step show ?thesis by auto
  qed
qed

lemma c_string_prefix:
  assumes "take (length s + 1) b = s @ [NUL]" and "NUL \<notin> set s"
  shows "c_string b = s"
proof -
  obtain t where "b = s @ NUL # t"
    using assms(1) by (metis append.assoc append_Cons append_Nil append_take_drop_id)
  then show ?thesis using assms(2) by (simp add: c_string_def takeWhile_append)
qed

section \<open>Elements without repetition\<close>

lemma put_all_ok:
  assumes "\<forall>i. alloc i" and "smap_ok m" and "\<forall>e \<in> set es. no_nul e"
  shows "fst (put_all alloc i es m) \<and> smap_ok (snd (put_all alloc i es m)) \<and>
    set (map fst (snd (put_all alloc i es m))) = set (map fst m) \<union> set es"
  using assms(2,3)
proof (induction es arbitrary: m i)
  case (Cons e es)
  obtain b m1 where r: "smap_replace (alloc i) (alloc i) m e True = (b, m1)" by fastforce
  have b: "b" using smap.replace_fails [of "alloc i" "alloc i" m e True] r assms(1) by simp
  have ok: "smap_ok m1" using smap.replace_ok [of m e "alloc i" "alloc i" True] r Cons.prems by simp
  have "dom (smap_search m1) = insert e (dom (smap_search m))"
    using smap.replace_search [of "alloc i" "alloc i" m e True] r b by simp
  then have "set (map fst m1) = insert e (set (map fst m))" by (simp add: smap_search_def [abs_def] dom_map_of_conv_image_fst)
  with Cons.IH [OF ok, of "Suc i"] Cons.prems r b show ?case by simp
qed simp

section \<open>Sizes\<close>

lemma dec_isdigit: "c \<in> set (dec n) \<Longrightarrow> isdigit_c c"
  using dec_digits [of c n] by (auto simp: isdigit_c_def digit_char_ord)

lemma isdigit_dot: "isdigit_c c \<Longrightarrow> c \<noteq> CHR ''.''"
  by (auto simp: isdigit_c_def ord_c_def)

lemma unit_map_letters: "(m, name) \<in> set g_unit_map \<Longrightarrow> name \<noteq> [] \<and> \<not> isdigit_c (hd name) \<and> hd name \<noteq> CHR ''.'' \<and> 0 < m"
  by (auto simp: g_unit_map_def isdigit_c_def ord_c_def SIZE_KB_def SIZE_MB_def SIZE_GB_def SIZE_TB_def SIZE_PB_def)

lemma tolower_units:
  "tolower_c CHR ''I'' = CHR ''i''" "tolower_c CHR ''B'' = CHR ''b''" "tolower_c CHR ''K'' = CHR ''k''"
  "tolower_c CHR ''M'' = CHR ''m''" "tolower_c CHR ''G'' = CHR ''g''" "tolower_c CHR ''T'' = CHR ''t''"
  "tolower_c CHR ''P'' = CHR ''p''"
  by code_simp+

lemma unit_map_find_all: "list_all (\<lambda>(m, name). parse_unit_multiple name = (0, Some m)) g_unit_map"
  by (simp add: parse_unit_multiple_def g_unit_map_def strcase_eq_def tolower_units)

lemma unit_map_find: "(m, name) \<in> set g_unit_map \<Longrightarrow> parse_unit_multiple name = (0, Some m)"
  using unit_map_find_all by (auto simp: list_all_iff)

lemma split_number:
  assumes "u = [] \<or> (\<not> isdigit_c (hd u) \<and> hd u \<noteq> CHR ''.'')"
  shows "takeWhile (\<lambda>c. isdigit_c c \<or> c = CHR ''.'') (dec n @ u) = dec n"
    and "dropWhile (\<lambda>c. isdigit_c c \<or> c = CHR ''.'') (dec n @ u) = u"
proof -
  have "\<forall>c \<in> set (dec n). isdigit_c c \<or> c = CHR ''.''" using dec_isdigit by blast
  then show "takeWhile (\<lambda>c. isdigit_c c \<or> c = CHR ''.'') (dec n @ u) = dec n"
    "dropWhile (\<lambda>c. isdigit_c c \<or> c = CHR ''.'') (dec n @ u) = u"
    using assms by (cases u; simp add: takeWhile_append dropWhile_append)+
qed

lemma safe_llong_dec:
  "util_safe_llong (Some (dec n)) = (if int n \<le> INT64_MAX then (0, Some (int n)) else (- ERANGE, None))"
  by (auto simp: util_safe_llong_def strtoll_def scan_num_dec is_invalid_error_str_def int64_defs ERANGE_def)

lemma size_int:
  assumes "0 < m"
  shows "util_parse_size_int_and_float (dec n) m =
    (if int n * m \<le> INT64_MAX then (0, Some (int n * m)) else (- ERANGE, None))"
proof -
  have "\<forall>c \<in> set (dec n). c \<noteq> CHR ''.''" using dec_isdigit isdigit_dot by blast
  then have d: "takeWhile (\<lambda>c. c \<noteq> CHR ''.'') (dec n) = dec n" "dropWhile (\<lambda>c. c \<noteq> CHR ''.'') (dec n) = []"
    by (simp_all add: takeWhile_eq_all_conv dropWhile_eq_Nil_conv)
  have ovf: "(INT64_MAX div m < int n) = (\<not> int n * m \<le> INT64_MAX)"
    using div_less_iff [OF assms] by (simp add: not_le)
  have "int n * 1 \<le> int n * m" by (rule mult_left_mono) (use assms in auto)
  then have fits: "int n * m \<le> INT64_MAX \<Longrightarrow> int n \<le> INT64_MAX" by simp
  show ?thesis
  proof (cases "int n * m \<le> INT64_MAX")
    case True
    then show ?thesis
      using fits ovf assms unfolding util_parse_size_int_and_float_def d by (simp add: safe_llong_dec)
  next
    case False
    then show ?thesis
      using ovf assms unfolding util_parse_size_int_and_float_def d by (simp add: safe_llong_dec)
  qed
qed

lemma percent_findings:
  "e \<noteq> 0 \<Longrightarrow> util_parse_percent_string e (Some ''0%'') = (- EINVAL, Some 0)"
  "util_parse_percent_string 0 (Some ''5%0%'') = (0, Some 5)"
  by (simp_all add: util_parse_percent_string_def strtoll_def scan_num_def scan_sign_def scan_base_def
      digit_val_def ord_c_def isspace_c_def isdigit_c_def int64_defs)

section \<open>Properties\<close>

text \<open>
  C18. Splitting and joining are inverse: for every non-empty string and every separator, when memory is
  available, \<^verbatim>\<open>util_string_split_multi\<close> never accesses memory outside its arrays, returns a
  NULL-terminated array that counts exactly the tokens, and \<^verbatim>\<open>util_string_join\<close> of that array with the
  same separator gives back the string, in a buffer that is never overrun.
\<close>

theorem split_join:
  assumes "s \<noteq> []" and "length s + 18 \<le> MAX_MEMORY_SIZE div sizeof_ptr"
  shows "\<exists>b n. util_string_split_multi (\<lambda>_. True) True (Some s) d = Some (Some b) \<and>
    util_array_len (Some b) = Some n \<and> length b = n + 1 \<and>
    util_string_join True (Some [d]) (Some (take n b)) = Some (Some s)"
proof -
  let ?ts = "strsep_tokens d s"
  have lim: "length ?ts + 17 \<le> MAX_MEMORY_SIZE div sizeof_ptr" using strsep_tokens_count [of d s] assms(2) by simp
  from tokens_array [OF lim] have
    "util_string_split_multi (\<lambda>_. True) True (Some s) d = Some (Some (map Some ?ts @ [None]))"
    using assms(1) by (auto simp: util_string_split_multi_def)
  moreover have "util_array_len (Some (map Some ?ts @ [None])) = Some (length ?ts)"
    by (simp add: util_array_len_def terminator_holds)
  moreover have "util_string_join True (Some [d]) (Some (map Some ?ts)) = Some (Some (join_with [d] ?ts))"
  proof (rule string_join_eq)
    show "length (join_with [d] ?ts) + 1 \<le> MAX_MEMORY_SIZE"
      using assms(2) by (simp add: join_strsep max_cells) (simp add: MAX_MEMORY_SIZE_def)
    show "length ?ts \<le> 2 ^ 47" using lim by (simp add: max_cells)
  qed simp_all
  ultimately show ?thesis by (simp add: join_strsep)
qed

theorem split_join_witness:
  "\<exists>b n. util_string_split_multi (\<lambda>_. True) True (Some ''a::b'') CHR '':'' = Some (Some b) \<and>
    util_array_len (Some b) = Some n \<and> length b = n + 1 \<and>
    util_string_join True (Some '':'') (Some (take n b)) = Some (Some ''a::b'')"
  using split_join [of "''a::b''" "CHR '':''"] by (simp add: max_cells)

text \<open>
  The two-index loop that deletes a character in place computes the filter of the string: it never
  reads or writes outside the buffer and the resulting C string is exactly the string without that
  character.
\<close>

theorem delchar_is_filter:
  assumes "no_nul s"
  shows "util_string_delchar (Some s) c = Some (Some (filter (\<lambda>d. d \<noteq> c) s))"
proof -
  have s: "c_string (s @ [NUL]) = s" using assms by (simp add: c_string_def no_nul_def takeWhile_append)
  obtain b where b: "delchar_loop c (length s) (s @ [NUL]) 0 0 = Some b"
    "take (length (filter (\<lambda>d. d \<noteq> c) s) + 1) b = filter (\<lambda>d. d \<noteq> c) s @ [NUL]"
    using delchar_loop_eq [of "s @ [NUL]" "[]" "[]" s 0 0 "length s" c] assms by (auto simp: no_nul_def)
  have "c_string b = filter (\<lambda>d. d \<noteq> c) s"
    using c_string_prefix [OF b(2)] assms by (auto simp: no_nul_def)
  with b(1) s show ?thesis by (simp add: util_string_delchar_def util_string_delchar_inplace_def)
qed

theorem delchar_is_filter_witness:
  "util_string_delchar (Some ''a-b--c'') CHR ''-'' = Some (Some ''abc'')"
  using delchar_is_filter [of "''a-b--c''" "CHR ''-''"] by (simp add: no_nul_def)


text \<open>
  \<^verbatim>\<open>util_string_array_unique\<close> returns exactly the elements of its input, each once, in increasing
  order of the C string comparison.
\<close>

theorem array_unique_sorted:
  assumes "es \<noteq> []" and "\<forall>e \<in> set es. no_nul e"
  shows "\<exists>us. util_string_array_unique (\<lambda>_. True) True True True (Some es) = (0, Some us) \<and>
    set us = set es \<and> distinct us \<and> sorted_wrt (\<lambda>a b. rbtree_str_cmp char_signed a b < 0) us"
proof -
  obtain ok m where p: "put_all (\<lambda>_. True) 0 es [] = (ok, m)" by fastforce
  from put_all_ok [of "\<lambda>_. True" "[]" es 0] assms(2) p have m: "ok" "smap_ok m" "set (map fst m) = set es" by auto
  from smap_ok_distinct [OF m(2)] show ?thesis using p m assms(1) by (simp add: util_string_array_unique_def smap_ok_def)
qed

theorem array_unique_sorted_witness:
  "\<exists>us. util_string_array_unique (\<lambda>_. True) True True True (Some [''b'', ''a'', ''b'']) = (0, Some us) \<and>
    set us = {''b'', ''a''} \<and> distinct us \<and> sorted_wrt (\<lambda>a b. rbtree_str_cmp char_signed a b < 0) us"
  using array_unique_sorted [of "[''b'', ''a'', ''b'']"] by (simp add: no_nul_def insert_commute)



end
