(* ===== verification/Utils_Verify.thy ===== *)
theory Utils_Verify
  imports Regex Utils_String
begin

text \<open>
  The validators of \<^verbatim>\<open>src/utils/cutils/utils_verify.c\<close>, which guard every request of the daemon: container
  ids and names, image names, tags and digests, paths and sockets, mount modes, environment variables,
  sysctl keys. The patterns are the source's, matched with \<^verbatim>\<open>util_reg_match\<close>; the lemmas say in plain terms
  which strings pass.
\<close>

section \<open>Arguments, sockets and paths\<close>

definition util_valid_cmd_arg :: "string option \<Rightarrow> bool" where
  "util_valid_cmd_arg arg =
     (case arg of
        None \<Rightarrow> False
      | Some a \<Rightarrow> CHR ''|'' \<notin> set a \<and> CHR 0x60 \<notin> set a \<and> CHR ''&'' \<notin> set a \<and> CHR '';'' \<notin> set a)"

text \<open>The numbers of \<^verbatim>\<open>SIGNAL_MAP_DEFAULT\<close> on Linux, in the order of the table.\<close>

definition signal_numbers :: "int list" where
  "signal_numbers =
     [1, 2, 3, 4, 6, 8, 9, 11, 13, 14, 15, 10, 12, 17, 18, 19, 20, 21, 22, 5, 6, 7, 7, 16, 17, 23, 24, 25,
      26, 27, 28, 29, 29, 29, 37, 30, 31, 31, 34, 35, 36, 37, 38, 39, 40, 41, 42, 43, 44, 45, 46, 47, 48,
      49, 50, 51, 52, 53, 54, 55, 56, 57, 58, 59, 60, 61, 62, 63, 64]"

definition util_valid_signal :: "int \<Rightarrow> bool" where
  "util_valid_signal sig = list_ex (\<lambda>n. n = sig) signal_numbers"

definition util_validate_absolute_path :: "string option \<Rightarrow> int" where
  "util_validate_absolute_path pth =
     (case pth of
        None \<Rightarrow> -1
      | Some p \<Rightarrow> if util_reg_match (Some ''^(/[^/ ]*)+/?$'') (Some p) \<noteq> 0 then -1 else 0)"

definition tcp_pattern :: string where
  "tcp_pattern =
     ''^(tcp://(((25[0-5]|2[0-4][0-9]|1[0-9][0-9]|[1-9][0-9]|[0-9]).){3}'' @
     ''(25[0-5]|2[0-5][0-9]|1[0-9][0-9]|[1-9][0-9]|[0-9])|localhost):'' @
     ''((6553[0-5])|(655[0-2][0-9])|(65[0-4][0-9]{2})|(6[0-4][0-9]{3})'' @
     ''|([1-5][0-9]{4})|([1-9][0-9]{0,3})|0))$''"

definition util_vaildate_tcp_socket :: "string option \<Rightarrow> bool" where
  "util_vaildate_tcp_socket sock =
     (case sock of None \<Rightarrow> False | Some s \<Rightarrow> util_reg_match (Some tcp_pattern) (Some s) = 0)"

definition util_validate_unix_socket :: "string option \<Rightarrow> bool" where
  "util_validate_unix_socket sock =
     (case sock of
        None \<Rightarrow> False
      | Some s \<Rightarrow>
          if \<not> is_prefix ''unix://'' s then False
          else if drop 7 s = [] then False
          else if util_validate_absolute_path (Some (drop 7 s)) \<noteq> 0 then False
          else True)"

text \<open>\<open>remote\<close>: the code was built with \<^verbatim>\<open>ENABLE_GRPC_REMOTE_CONNECT\<close>.\<close>

definition util_validate_socket :: "bool \<Rightarrow> string option \<Rightarrow> bool" where
  "util_validate_socket remote sock =
     (if remote then util_validate_unix_socket sock \<or> util_vaildate_tcp_socket sock
      else util_validate_unix_socket sock)"

fun device_mode_loop :: "bool \<Rightarrow> bool \<Rightarrow> bool \<Rightarrow> string \<Rightarrow> bool" where
  "device_mode_loop r w m [] = True"
| "device_mode_loop r w m (c # cs) =
     (if c = CHR ''r'' then (if r then False else device_mode_loop True w m cs)
      else if c = CHR ''w'' then (if w then False else device_mode_loop r True m cs)
      else if c = CHR ''m'' then (if m then False else device_mode_loop r w True cs)
      else False)"

definition util_valid_device_mode :: "string option \<Rightarrow> bool" where
  "util_valid_device_mode mode =
     (case mode of
        None \<Rightarrow> False
      | Some s \<Rightarrow> if s = [] then False else device_mode_loop False False False s)"

definition util_valid_str :: "string option \<Rightarrow> bool" where
  "util_valid_str str = (case str of None \<Rightarrow> False | Some s \<Rightarrow> s \<noteq> [])"

section \<open>Containers\<close>

definition MAX_CONTAINER_NAME_LEN :: nat where
  "MAX_CONTAINER_NAME_LEN = 1024"

definition MAX_HOST_NAME_LEN :: nat where
  "MAX_HOST_NAME_LEN = 64"

definition util_valid_container_id :: "string option \<Rightarrow> bool" where
  "util_valid_container_id cid =
     (case cid of None \<Rightarrow> False | Some s \<Rightarrow> util_reg_match (Some ''^[a-f0-9]{1,64}$'') (Some s) = 0)"

definition util_valid_container_name :: "string option \<Rightarrow> bool" where
  "util_valid_container_name name =
     (case name of
        None \<Rightarrow> False
      | Some s \<Rightarrow>
          if length s > MAX_CONTAINER_NAME_LEN then False
          else util_reg_match (Some ''^/?[a-zA-Z0-9][a-zA-Z0-9_.-]+$'') (Some s) = 0)"

definition util_valid_container_id_or_name :: "string option \<Rightarrow> bool" where
  "util_valid_container_id_or_name s =
     (if util_valid_container_id s then True else util_valid_container_name s)"

definition util_valid_runtime_name :: "string option \<Rightarrow> bool" where
  "util_valid_runtime_name name = (name \<noteq> None)"

definition HOST_NAME_REGEXP :: string where
  "HOST_NAME_REGEXP =
     ''^(([a-zA-Z0-9]|[a-zA-Z0-9][a-zA-Z0-9'' @ [CHR 0x5C] @ ''-]*[a-zA-Z0-9])'' @ [CHR 0x5C] @ ''.)*'' @
     ''([A-Za-z0-9]|[A-Za-z0-9][A-Za-z0-9'' @ [CHR 0x5C] @ ''-]*[A-Za-z0-9])$''"

definition util_valid_host_name :: "string option \<Rightarrow> bool" where
  "util_valid_host_name name =
     (case name of
        None \<Rightarrow> False
      | Some s \<Rightarrow>
          if length s > MAX_HOST_NAME_LEN then False
          else util_reg_match (Some HOST_NAME_REGEXP) (Some s) = 0)"

section \<open>Images\<close>

definition MAX_IMAGE_NAME_LEN :: nat where
  "MAX_IMAGE_NAME_LEN = 255"

definition TagPattern :: string where
  "TagPattern = ''^:([A-Za-z_0-9][A-Za-z_0-9.-]{0,127})$''"

definition NamePattern :: string where
  "NamePattern =
     ''^(([a-zA-Z0-9]|[a-zA-Z0-9][a-zA-Z0-9-]*[a-zA-Z0-9])'' @
     ''(('' @ [CHR 0x5C] @ ''.([a-zA-Z0-9]|[a-zA-Z0-9][a-zA-Z0-9-]*[a-zA-Z0-9]))+)?(:[0-9]+)?/)?[a-z0-9]'' @
     ''+((([._]|__|[-]*)[a-z0-9]+)+)?((/[a-z0-9]+((([._]|__|[-]*)[a-z0-9]+)+)?)+)?'' @
     ''(:([A-Za-z_0-9][A-Za-z_0-9.-]{0,127}))?$''"

definition DIGESTPattern :: string where
  "DIGESTPattern = ''@[a-z0-9]+:[a-z0-9]{32,}''"

text \<open>\<^verbatim>\<open>strrchr\<close>: the text before the last occurrence of the character and the text from it on.\<close>

definition strrchr :: "char \<Rightarrow> string \<Rightarrow> (string \<times> string) option" where
  "strrchr d s =
     (if d \<in> set s
      then (let n = length (takeWhile (\<lambda>c. c \<noteq> d) (rev s)) + 1
            in Some (take (length s - n) s, drop (length s - n) s))
      else None)"

definition util_tag_pos :: "string option \<Rightarrow> (string \<times> string) option" where
  "util_tag_pos ref =
     (case ref of
        None \<Rightarrow> None
      | Some r \<Rightarrow>
          (case strrchr CHR '':'' r of
             None \<Rightarrow> None
           | Some (pre, tag) \<Rightarrow> if CHR ''/'' \<notin> set tag then Some (pre, tag) else None))"

definition util_valid_embedded_image_name :: "string option \<Rightarrow> bool" where
  "util_valid_embedded_image_name name =
     (case name of
        None \<Rightarrow> False
      | Some s \<Rightarrow>
          if length s > MAX_IMAGE_NAME_LEN then False
          else (case util_tag_pos (Some s) of
                  None \<Rightarrow> False
                | Some (pre, tag) \<Rightarrow>
                    if util_reg_match (Some TagPattern) (Some tag) \<noteq> 0 then False
                    else if util_reg_match (Some NamePattern) (Some pre) \<noteq> 0 then False
                    else True))"

definition util_valid_image_name :: "string option \<Rightarrow> bool" where
  "util_valid_image_name name =
     (case name of
        None \<Rightarrow> False
      | Some s \<Rightarrow>
          if length s > MAX_IMAGE_NAME_LEN then False
          else
            (case strrchr CHR ''@'' s of
               Some (pre, digest) \<Rightarrow>
                 if util_reg_match (Some DIGESTPattern) (Some digest) \<noteq> 0 then False
                 else util_reg_match (Some NamePattern) (Some pre) = 0
             | None \<Rightarrow>
                 (case util_tag_pos (Some s) of
                    Some (pre, tag) \<Rightarrow>
                      if util_reg_match (Some TagPattern) (Some tag) \<noteq> 0 then False
                      else util_reg_match (Some NamePattern) (Some pre) = 0
                  | None \<Rightarrow> util_reg_match (Some NamePattern) (Some s) = 0)))"

definition util_valid_time_tz :: "string option \<Rightarrow> bool" where
  "util_valid_time_tz time =
     (case time of
        None \<Rightarrow> False
      | Some s \<Rightarrow>
          util_reg_match
            (Some ''^[0-9]{4}-[0-9]{2}-[0-9]{2}T[0-9]{2}:[0-9]{2}:[0-9]{2}(.[0-9]{1,9})?(Z|[+-][0-9]{2}:[0-9]{2})$'')
            (Some s) = 0)"

definition util_valid_digest :: "string option \<Rightarrow> bool" where
  "util_valid_digest digest =
     (case digest of None \<Rightarrow> False | Some s \<Rightarrow> util_reg_match (Some ''^sha256:([a-f0-9]{64})$'') (Some s) = 0)"

definition SHA256_PREFIX :: string where
  "SHA256_PREFIX = ''sha256:''"

definition util_valid_tag :: "string option \<Rightarrow> bool" where
  "util_valid_tag tag =
     (case tag of
        None \<Rightarrow> False
      | Some s \<Rightarrow>
          if length s \<ge> length SHA256_PREFIX \<and> strcase_eq (take (length SHA256_PREFIX) s) SHA256_PREFIX then False
          else if util_reg_match (Some ''^[a-f0-9]{64}$'') (Some s) = 0 then False
          else if \<not> util_valid_image_name (Some s) then False
          else True)"

text \<open>\<open>stat\<close> is the system call: the mode bits of a path, or \<open>None\<close> when it fails.\<close>

definition util_valid_file :: "(string \<Rightarrow> nat option) \<Rightarrow> string option \<Rightarrow> nat \<Rightarrow> bool" where
  "util_valid_file stat pth fmod =
     (case pth of
        None \<Rightarrow> False
      | Some p \<Rightarrow> (case stat p of None \<Rightarrow> False | Some mode \<Rightarrow> (mode mod 2 ^ 16) div 2 ^ 12 * 2 ^ 12 = fmod))"

definition util_valid_short_sha256_id :: "string option \<Rightarrow> bool" where
  "util_valid_short_sha256_id cid =
     (case cid of
        None \<Rightarrow> False
      | Some s \<Rightarrow>
          if length s > 64 then False
          else if util_reg_match (Some ''^[a-f0-9]{3,64}$'') (Some s) \<noteq> 0 then False
          else True)"

definition util_valid_exec_suffix :: "string option \<Rightarrow> bool" where
  "util_valid_exec_suffix suffix =
     (case suffix of None \<Rightarrow> False | Some s \<Rightarrow> util_reg_match (Some ''^[a-f0-9]{64}$'') (Some s) = 0)"

section \<open>Keys and values of mounts and devices\<close>

definition one_of :: "string list \<Rightarrow> string option \<Rightarrow> bool" where
  "one_of names k = (case k of None \<Rightarrow> False | Some s \<Rightarrow> list_ex (\<lambda>n. s = n) names)"

definition util_valid_key_type :: "string option \<Rightarrow> bool" where
  "util_valid_key_type = one_of [''type'']"

definition util_valid_key_src :: "string option \<Rightarrow> bool" where
  "util_valid_key_src = one_of [''src'', ''source'']"

definition util_valid_key_dst :: "string option \<Rightarrow> bool" where
  "util_valid_key_dst = one_of [''dst'', ''destination'', ''target'']"

definition util_valid_key_ro :: "string option \<Rightarrow> bool" where
  "util_valid_key_ro = one_of [''ro'', ''readonly'']"

definition util_valid_key_propagation :: "string option \<Rightarrow> bool" where
  "util_valid_key_propagation = one_of [''bind-propagation'']"

definition util_valid_key_selinux :: "string option \<Rightarrow> bool" where
  "util_valid_key_selinux = one_of [''bind-selinux-opts'', ''selinux-opts'']"

definition util_valid_key_tmpfs_size :: "string option \<Rightarrow> bool" where
  "util_valid_key_tmpfs_size = one_of [''tmpfs-size'']"

definition util_valid_key_tmpfs_mode :: "string option \<Rightarrow> bool" where
  "util_valid_key_tmpfs_mode = one_of [''tmpfs-mode'']"

definition util_valid_key_nocopy :: "string option \<Rightarrow> bool" where
  "util_valid_key_nocopy = one_of [''volume-nocopy'']"

definition util_valid_value_true :: "string option \<Rightarrow> bool" where
  "util_valid_value_true = one_of [''1'', ''true'']"

definition util_valid_value_false :: "string option \<Rightarrow> bool" where
  "util_valid_value_false = one_of [''0'', ''false'']"

definition util_valid_bool_string :: "string option \<Rightarrow> bool" where
  "util_valid_bool_string = one_of [''true'', ''false'']"

definition util_valid_rw_mode :: "string option \<Rightarrow> bool" where
  "util_valid_rw_mode = one_of [''rw'', ''ro'']"

definition util_valid_label_mode :: "string option \<Rightarrow> bool" where
  "util_valid_label_mode = one_of [''z'', ''Z'']"

definition util_valid_copy_mode :: "string option \<Rightarrow> bool" where
  "util_valid_copy_mode = one_of [''nocopy'']"

definition util_valid_propagation_mode :: "string option \<Rightarrow> bool" where
  "util_valid_propagation_mode = one_of [''private'', ''rprivate'', ''slave'', ''rslave'', ''shared'', ''rshared'']"

text \<open>The counters of the modes seen: read-write, propagation, label, copy; \<open>None\<close> on an unknown mode.\<close>

fun count_modes :: "nat \<times> nat \<times> nat \<times> nat \<Rightarrow> string list \<Rightarrow> (nat \<times> nat \<times> nat \<times> nat) option" where
  "count_modes (rw, pro, lab, cpy) [] = Some (rw, pro, lab, cpy)"
| "count_modes (rw, pro, lab, cpy) (m # ms) =
     (if util_valid_rw_mode (Some m) then count_modes (rw + 1, pro, lab, cpy) ms
      else if util_valid_propagation_mode (Some m) then count_modes (rw, pro + 1, lab, cpy) ms
      else if util_valid_label_mode (Some m) then count_modes (rw, pro, lab + 1, cpy) ms
      else if util_valid_copy_mode (Some m) then count_modes (rw, pro, lab, cpy + 1) ms
      else None)"

text \<open>\<open>alloc\<close> and \<open>shrink\<close> answer the allocations of the split; the outer option is its undefined behaviour.\<close>

definition util_valid_mount_mode :: "(nat \<Rightarrow> bool) \<Rightarrow> bool \<Rightarrow> string option \<Rightarrow> bool option" where
  "util_valid_mount_mode alloc shrink mode = do {
     modes \<leftarrow> util_string_split alloc shrink mode CHR '','';
     (case modes of
        None \<Rightarrow> Some False
      | Some b \<Rightarrow> do {
          mlen \<leftarrow> util_array_len (Some b);
          (case count_modes (0, 0, 0, 0) (map the (take mlen b)) of
             None \<Rightarrow> Some False
           | Some (rw, pro, lab, cpy) \<Rightarrow> Some (\<not> (rw > 1 \<or> pro > 1 \<or> lab > 1 \<or> cpy > 1)))
        })
   }"

definition util_valid_positive_interger :: "string option \<Rightarrow> bool" where
  "util_valid_positive_interger value =
     (case value of
        None \<Rightarrow> False
      | Some s \<Rightarrow> if s = [] then False else util_reg_match (Some ''^[0-9]*$'') (Some s) = 0)"

definition cgroup_rule_pattern :: string where
  "cgroup_rule_pattern =
     ''^([acb]) ([0-9]+|'' @ [CHR 0x5C] @ ''*):([0-9]+|'' @ [CHR 0x5C] @ ''*) ([rwm]{1,3})$''"

definition util_valid_device_cgroup_rule :: "string option \<Rightarrow> bool" where
  "util_valid_device_cgroup_rule value =
     (case value of None \<Rightarrow> False | Some s \<Rightarrow> util_reg_match (Some cgroup_rule_pattern) (Some s) = 0)"

section \<open>Environment variables and the rest\<close>

text \<open>The return code and the key and value stored, when the caller asks for them.\<close>

definition util_valid_split_env :: "(nat \<Rightarrow> bool) \<Rightarrow> string option \<Rightarrow> (int \<times> (string \<times> string) option) option" where
  "util_valid_split_env alloc env = do {
     arr \<leftarrow> util_string_split_n alloc env CHR ''='' 2;
     (case arr of
        None \<Rightarrow> Some (-1, None)
      | Some b \<Rightarrow> do {
          k0 \<leftarrow> read_cell b 0;
          k \<leftarrow> k0;
          if length k = 0 then Some (-1, None)
          else do {
            n \<leftarrow> util_array_len (Some b);
            v \<leftarrow> (if n > 1 then do { v0 \<leftarrow> read_cell b 1; v0 } else Some []);
            Some (0, Some (k, v))
          }
        })
   }"

text \<open>\<open>getenv\<close> is the daemon's environment; the result is the return code and \<^verbatim>\<open>*dst\<close>.\<close>

definition util_valid_env ::
  "(nat \<Rightarrow> bool) \<Rightarrow> bool \<Rightarrow> bool \<Rightarrow> (string \<Rightarrow> string option) \<Rightarrow> string option \<Rightarrow> (int \<times> string option) option" where
  "util_valid_env alloc shrink alloc_dst getenv env = do {
     arr \<leftarrow> util_string_split_multi alloc shrink env CHR ''='';
     (case arr of
        None \<Rightarrow> Some (-1, None)
      | Some b \<Rightarrow> do {
          e \<leftarrow> env;
          k0 \<leftarrow> read_cell b 0;
          k \<leftarrow> k0;
          if length k = 0 then Some (-1, None)
          else do {
            n \<leftarrow> util_array_len (Some b);
            if n > 1 then Some (0, Some e)
            else (case getenv e of
                    None \<Rightarrow> Some (0, None)
                  | Some v \<Rightarrow>
                      if length e + 1 + length v + 1 > MAX_MEMORY_SIZE \<or> \<not> alloc_dst then Some (-1, None)
                      else Some (0, Some (e @ ''='' @ v)))
          }
        })
   }"

definition sysctl_full_keys :: "string list" where
  "sysctl_full_keys = [''kernel.msgmax'', ''kernel.msgmnb'', ''kernel.msgmni'', ''kernel.sem'',
     ''kernel.shmall'', ''kernel.shmmax'', ''kernel.shmmni'', ''kernel.shm_rmid_forced'']"

definition util_valid_sysctl :: "string option \<Rightarrow> bool" where
  "util_valid_sysctl key =
     (case key of
        None \<Rightarrow> False
      | Some k \<Rightarrow>
          if list_ex (\<lambda>f. f = k) sysctl_full_keys then True
          else list_ex (\<lambda>p. is_prefix p k) [''net.'', ''fs.mqueue.''])"

definition util_valid_volume_name :: "string option \<Rightarrow> bool" where
  "util_valid_volume_name name =
     (case name of
        None \<Rightarrow> False
      | Some s \<Rightarrow> util_reg_match (Some ''^[a-zA-Z0-9][a-zA-Z0-9_.-]{1,63}$'') (Some s) = 0)"

definition util_valid_isulad_tmpdir :: "string option \<Rightarrow> bool" where
  "util_valid_isulad_tmpdir dir = (util_valid_str dir \<and> dir \<noteq> Some ''/tmp'')"

definition util_valid_search_name :: "string option \<Rightarrow> bool" where
  "util_valid_search_name name =
     (case name of
        None \<Rightarrow> False
      | Some s \<Rightarrow>
          if s = [] then False
          else if util_strings_contains_word (Some s) (Some ''://'') then False
          else True)"

section \<open>Languages of character classes\<close>

lemma Sym_in: "s \<in> lang (Sym cs) \<longleftrightarrow> (\<exists>c. s = [c] \<and> in_cset c cs)"
  by auto

lemma conc_Sym: "s \<in> conc (lang (Sym cs)) B \<longleftrightarrow> (\<exists>c t. s = c # t \<and> in_cset c cs \<and> t \<in> B)"
proof
  assume "s \<in> conc (lang (Sym cs)) B"
  then show "\<exists>c t. s = c # t \<and> in_cset c cs \<and> t \<in> B" by (auto simp: conc_def)
next
  assume "\<exists>c t. s = c # t \<and> in_cset c cs \<and> t \<in> B"
  then obtain c t where "s = [c] @ t" "[c] \<in> lang (Sym cs)" "t \<in> B" by auto
  then show "s \<in> conc (lang (Sym cs)) B" unfolding conc_def by blast
qed

lemma pow_class: "s \<in> pow (lang (Sym cs)) n \<longleftrightarrow> length s = n \<and> (\<forall>c \<in> set s. in_cset c cs)"
proof (induction n arbitrary: s)
  case (Suc n)
  show ?case unfolding pow.simps conc_Sym Suc by (cases s) auto
qed auto

lemma Rep_class:
  "s \<in> lang (Rep (Sym cs) m n) \<longleftrightarrow> m \<le> length s \<and> length s \<le> n \<and> (\<forall>c \<in> set s. in_cset c cs)"
  unfolding lang.simps(7) using pow_class [of s cs] by auto

lemma Star_class: "s \<in> lang (Star (Sym cs)) \<longleftrightarrow> (\<forall>c \<in> set s. in_cset c cs)"
  unfolding lang.simps(6) using pow_class [of s cs] by auto

lemma Seq_One: "lang (Seq r One) = lang r"
  by (auto simp: conc_def)

lemma Seq_Sym: "s \<in> lang (Seq (Sym cs) r) \<longleftrightarrow> (\<exists>c t. s = c # t \<and> in_cset c cs \<and> t \<in> lang r)"
  unfolding lang.simps(4) by (rule conc_Sym)

lemma Seq_opt: "s \<in> lang (Seq (Rep q 0 1) r) \<longleftrightarrow> s \<in> lang r \<or> s \<in> lang (Seq q r)"
proof -
  have "{0..1 :: nat} = {0, 1}" by auto
  then have "lang (Rep q 0 1) = {[]} \<union> lang q" by (auto simp: conc_def)
  then show ?thesis by (auto simp: conc_def)
qed

lemma Plus_class: "s \<in> lang (Seq (Sym cs) (Star (Sym cs))) \<longleftrightarrow> s \<noteq> [] \<and> (\<forall>c \<in> set s. in_cset c cs)"
  unfolding Seq_Sym Star_class by (cases s) auto

lemmas lang_rules = Sym_in Rep_class Star_class Seq_One Seq_Sym Seq_opt Plus_class

lemma reg_match_lang: "regcomp p = Some r \<Longrightarrow> util_reg_match (Some p) (Some s) = 0 \<longleftrightarrow> s \<in> lang r"
  by (simp add: util_reg_match_def accepts_iff del: lang.simps)

section \<open>The classes of characters the patterns use\<close>

definition between :: "char \<Rightarrow> char \<Rightarrow> char \<Rightarrow> bool" where
  "between a b c \<longleftrightarrow> code_of a \<le> code_of c \<and> code_of c \<le> code_of b"

abbreviation hex_char :: "char \<Rightarrow> bool" where
  "hex_char c \<equiv> between CHR ''a'' CHR ''f'' c \<or> between CHR ''0'' CHR ''9'' c"

abbreviation alnum_char :: "char \<Rightarrow> bool" where
  "alnum_char c \<equiv> between CHR ''a'' CHR ''z'' c \<or> between CHR ''A'' CHR ''Z'' c \<or> between CHR ''0'' CHR ''9'' c"

abbreviation name_char :: "char \<Rightarrow> bool" where
  "name_char c \<equiv> alnum_char c \<or> c \<in> {CHR ''_'', CHR ''.'', CHR ''-''}"

lemma between_same [simp]: "between a a c \<longleftrightarrow> c = a"
  by (auto simp: between_def simp flip: code_of_inj)

lemma in_cset_between: "in_cset c (CSet neg rs) \<longleftrightarrow> (neg \<noteq> list_ex (\<lambda>(a, b). between a b c) rs)"
  by (auto simp: between_def list_ex_iff)

section \<open>The compiled patterns\<close>

abbreviation hex_class :: rexp where
  "hex_class \<equiv> Sym (CSet False [(CHR ''a'', CHR ''f''), (CHR ''0'', CHR ''9'')])"

abbreviation alnum_class :: rexp where
  "alnum_class \<equiv> Sym (CSet False [(CHR ''a'', CHR ''z''), (CHR ''A'', CHR ''Z''), (CHR ''0'', CHR ''9'')])"

abbreviation name_class :: rexp where
  "name_class \<equiv> Sym (CSet False [(CHR ''a'', CHR ''z''), (CHR ''A'', CHR ''Z''), (CHR ''0'', CHR ''9''),
     (CHR ''_'', CHR ''_''), (CHR ''.'', CHR ''.''), (CHR ''-'', CHR ''-'')])"

abbreviation slash_class :: rexp where
  "slash_class \<equiv> Sym (CSet False [(CHR ''/'', CHR ''/'')])"

abbreviation segment_class :: rexp where
  "segment_class \<equiv> Sym (CSet True [(CHR ''/'', CHR ''/''), (CHR '' '', CHR '' '')])"

lemma comp_id: "regcomp ''^[a-f0-9]{1,64}$'' = Some (Seq (Rep hex_class 1 64) One)"
  by code_simp

lemma comp_name: "regcomp ''^/?[a-zA-Z0-9][a-zA-Z0-9_.-]+$'' =
    Some (Seq (Rep slash_class 0 1) (Seq alnum_class (Seq (Seq name_class (Star name_class)) One)))"
  by code_simp

lemma comp_volume: "regcomp ''^[a-zA-Z0-9][a-zA-Z0-9_.-]{1,63}$'' =
    Some (Seq alnum_class (Seq (Rep name_class 1 63) One))"
  by code_simp

lemma comp_path: "regcomp ''^(/[^/ ]*)+/?$'' =
    Some (Seq (Seq (Seq slash_class (Seq (Star segment_class) One)) (Star (Seq slash_class (Seq (Star segment_class) One))))
      (Seq (Rep slash_class 0 1) One))"
  by code_simp

lemma classes:
  "in_cset c (CSet False [(CHR ''a'', CHR ''f''), (CHR ''0'', CHR ''9'')]) \<longleftrightarrow> hex_char c"
  "in_cset c (CSet False [(CHR ''a'', CHR ''z''), (CHR ''A'', CHR ''Z''), (CHR ''0'', CHR ''9'')]) \<longleftrightarrow> alnum_char c"
  "in_cset c (CSet False [(CHR ''a'', CHR ''z''), (CHR ''A'', CHR ''Z''), (CHR ''0'', CHR ''9''),
     (CHR ''_'', CHR ''_''), (CHR ''.'', CHR ''.''), (CHR ''-'', CHR ''-'')]) \<longleftrightarrow> name_char c"
  "in_cset c (CSet False [(CHR ''/'', CHR ''/'')]) \<longleftrightarrow> c = CHR ''/''"
  "in_cset c (CSet True [(CHR ''/'', CHR ''/''), (CHR '' '', CHR '' '')]) \<longleftrightarrow> c \<noteq> CHR ''/'' \<and> c \<noteq> CHR '' ''"
  unfolding in_cset_between by auto

lemma valid_id_iff:
  "util_valid_container_id (Some s) \<longleftrightarrow> 1 \<le> length s \<and> length s \<le> 64 \<and> (\<forall>c \<in> set s. hex_char c)"
  unfolding util_valid_container_id_def option.case reg_match_lang [OF comp_id] lang_rules classes ..

lemma plus_name: "t \<in> lang (Seq (Seq name_class (Star name_class)) One) \<longleftrightarrow> t \<noteq> [] \<and> (\<forall>c \<in> set t. name_char c)"
  unfolding Seq_One Plus_class classes ..

lemma name_tail: "s \<in> lang (Seq alnum_class (Seq (Seq name_class (Star name_class)) One)) \<longleftrightarrow>
    (\<exists>h t. s = h # t \<and> alnum_char h \<and> t \<noteq> [] \<and> (\<forall>c \<in> set t. name_char c))"
  unfolding Seq_Sym [of s] plus_name classes ..

definition name_shape :: "string \<Rightarrow> bool" where
  "name_shape s \<longleftrightarrow> (\<exists>h t. s = h # t \<and> alnum_char h \<and> t \<noteq> [] \<and> (\<forall>c \<in> set t. name_char c))"

lemma name_lang:
  "s \<in> lang (Seq (Rep slash_class 0 1) (Seq alnum_class (Seq (Seq name_class (Star name_class)) One))) \<longleftrightarrow>
     name_shape s \<or> (\<exists>t. s = CHR ''/'' # t \<and> name_shape t)"
  unfolding Seq_opt [of s] name_tail [folded name_shape_def] Seq_Sym [of s "CSet False [(CHR ''/'', CHR ''/'')]"]
    classes(4) by (rule disj_cong [OF refl]) blast

lemma valid_name_iff:
  "util_valid_container_name (Some s) \<longleftrightarrow> length s \<le> MAX_CONTAINER_NAME_LEN \<and>
     (name_shape s \<or> (\<exists>t. s = CHR ''/'' # t \<and> name_shape t))"
  unfolding util_valid_container_name_def option.case reg_match_lang [OF comp_name] name_lang by simp

lemma valid_volume_iff:
  "util_valid_volume_name (Some s) \<longleftrightarrow>
     (\<exists>h t. s = h # t \<and> alnum_char h \<and> (1 \<le> length t \<and> length t \<le> 63 \<and> (\<forall>c \<in> set t. name_char c)))"
  unfolding util_valid_volume_name_def option.case reg_match_lang [OF comp_volume] Seq_Sym [of s] Seq_One Rep_class
    classes ..

section \<open>Absolute paths\<close>

lemma star_Cons: "u \<in> A \<Longrightarrow> v \<in> (\<Union>n. pow A n) \<Longrightarrow> u @ v \<in> (\<Union>n. pow A n)"
proof -
  assume "u \<in> A" "v \<in> (\<Union>n. pow A n)"
  then obtain n where "u @ v \<in> pow A (Suc n)" by (auto simp: conc_def)
  then show ?thesis by blast
qed

definition segments :: "string set" where
  "segments = {CHR ''/'' # t | t. CHR ''/'' \<notin> set t \<and> CHR '' '' \<notin> set t}"

lemma segment_lang: "lang (Seq slash_class (Seq (Star segment_class) One)) = segments"
  unfolding set_eq_iff Seq_Sym Seq_One Star_class classes segments_def by auto

lemma star_no_blank: "s \<in> pow segments n \<Longrightarrow> CHR '' '' \<notin> set s"
  by (induction n arbitrary: s) (auto simp: conc_def segments_def)

lemma star_path: "CHR '' '' \<notin> set t \<Longrightarrow> CHR ''/'' # t \<in> (\<Union>n. pow segments n)"
proof (induction t rule: length_induct)
  case (1 t)
  let ?u = "takeWhile (\<lambda>c. c \<noteq> CHR ''/'') t" and ?v = "dropWhile (\<lambda>c. c \<noteq> CHR ''/'') t"
  have u: "CHR ''/'' # ?u \<in> segments" using 1 by (auto simp: segments_def dest: set_takeWhileD)
  have "?v \<in> (\<Union>n. pow segments n)"
  proof (cases "?v = []")
    case True
    then have "?v \<in> pow segments 0" by simp
    then show ?thesis by blast
  next
    case False
    then obtain w where w: "?v = CHR ''/'' # w" using hd_dropWhile [OF False] by (cases ?v) auto
    have "length w < length t" using w length_dropWhile_le [of "\<lambda>c. c \<noteq> CHR ''/''" t] by simp
    moreover have "CHR '' '' \<notin> set w" using 1 w set_dropWhileD [of "CHR '' ''" "\<lambda>c. c \<noteq> CHR ''/''" t] by auto
    ultimately show ?thesis using 1 w by simp
  qed
  from star_Cons [OF u this] show ?case by simp
qed

lemma conc_iff: "s \<in> conc A B \<longleftrightarrow> (\<exists>u v. s = u @ v \<and> u \<in> A \<and> v \<in> B)"
  by (auto simp: conc_def)

lemma path_lang:
  "s \<in> conc (conc segments (\<Union>n. pow segments n)) (lang (Seq (Rep slash_class 0 1) One)) \<longleftrightarrow>
     s \<noteq> [] \<and> hd s = CHR ''/'' \<and> CHR '' '' \<notin> set s"
proof
  assume "s \<in> conc (conc segments (\<Union>n. pow segments n)) (lang (Seq (Rep slash_class 0 1) One))"
  then obtain p w where s: "s = p @ w" "p \<in> conc segments (\<Union>n. pow segments n)" "w \<in> lang (Rep slash_class 0 1)"
    unfolding Seq_One conc_iff [of s] by (elim exE conjE)
  from s(2) obtain u v where p: "p = u @ v" "u \<in> segments" "v \<in> (\<Union>n. pow segments n)"
    unfolding conc_iff [of p] by (elim exE conjE)
  have "CHR '' '' \<notin> set w" using s(3) unfolding Rep_class classes by auto
  moreover have "CHR '' '' \<notin> set v" using p(3) star_no_blank by blast
  ultimately show "s \<noteq> [] \<and> hd s = CHR ''/'' \<and> CHR '' '' \<notin> set s"
    using s(1) p(1,2) by (auto simp: segments_def)
next
  assume *: "s \<noteq> [] \<and> hd s = CHR ''/'' \<and> CHR '' '' \<notin> set s"
  then obtain t where t: "s = CHR ''/'' # t" "CHR '' '' \<notin> set t" by (cases s) auto
  obtain n where n: "s \<in> pow segments n" using star_path [OF t(2)] t(1) by blast
  then obtain m where "n = Suc m" using * by (cases n) auto
  with n have "s \<in> conc segments (\<Union>n. pow segments n)" by (auto simp: conc_iff)
  moreover have "[] \<in> lang (Seq (Rep slash_class 0 1) One)" unfolding Seq_One Rep_class by simp
  ultimately show "s \<in> conc (conc segments (\<Union>n. pow segments n)) (lang (Seq (Rep slash_class 0 1) One))"
    unfolding conc_iff [of s "conc _ _"] by (intro exI [of _ s] exI [of _ "[]"]) simp
qed

lemma absolute_path_iff:
  "util_validate_absolute_path (Some s) = 0 \<longleftrightarrow> s \<noteq> [] \<and> hd s = CHR ''/'' \<and> CHR '' '' \<notin> set s"
proof -
  have "util_validate_absolute_path (Some s) = 0 \<longleftrightarrow> util_reg_match (Some ''^(/[^/ ]*)+/?$'') (Some s) = 0"
    unfolding util_validate_absolute_path_def option.case by simp
  then show ?thesis
    unfolding reg_match_lang [OF comp_path] lang.simps(4) [of "Seq (Seq slash_class _) _"]
      lang.simps(4) [of "Seq slash_class (Seq (Star segment_class) One)"] lang.simps(6) [of "Seq _ _"] segment_lang path_lang .
qed

lemma device_loop_iff:
  "device_mode_loop r w m s \<longleftrightarrow> distinct s \<and> set s \<subseteq> {CHR ''r'', CHR ''w'', CHR ''m''} \<and>
     (r \<longrightarrow> CHR ''r'' \<notin> set s) \<and> (w \<longrightarrow> CHR ''w'' \<notin> set s) \<and> (m \<longrightarrow> CHR ''m'' \<notin> set s)"
  by (induction r w m s rule: device_mode_loop.induct) auto

section \<open>Mount modes\<close>

definition mode_class :: "string \<Rightarrow> nat" where
  "mode_class m =
     (if util_valid_rw_mode (Some m) then 0 else if util_valid_propagation_mode (Some m) then 1
      else if util_valid_label_mode (Some m) then 2 else if util_valid_copy_mode (Some m) then 3 else 4)"

lemma count_modes_eq:
  "count_modes (a, b, c, d) ms =
     (if \<exists>m \<in> set ms. mode_class m = 4 then None
      else Some (a + length (filter (\<lambda>m. mode_class m = 0) ms), b + length (filter (\<lambda>m. mode_class m = 1) ms),
                 c + length (filter (\<lambda>m. mode_class m = 2) ms), d + length (filter (\<lambda>m. mode_class m = 3) ms)))"
  by (induction ms arbitrary: a b c d) (simp_all add: mode_class_def)

lemma strtok_count: "length (strtok_tokens d s) \<le> length s"
proof (induction d s rule: strtok_tokens.induct)
  case (1 d s)
  let ?s1 = "dropWhile (\<lambda>c. c = d) s"
  show ?case
  proof (cases "?s1 = []")
    case True
    then show ?thesis by (subst strtok_tokens.simps) simp
  next
    case False
    then obtain c cs where c: "?s1 = c # cs" "c \<noteq> d" using hd_dropWhile [OF False] by (cases ?s1) auto
    have "length (strtok_tokens d (dropWhile (\<lambda>c. c \<noteq> d) ?s1)) \<le> length cs"
      using "1.IH" [OF refl False] c length_dropWhile_le [of "\<lambda>c. c \<noteq> d" cs] by simp
    moreover have "length cs < length s" using c(1) length_dropWhile_le [of "\<lambda>c. c = d" s] by simp
    ultimately show ?thesis using False by (subst strtok_tokens.simps) (simp add: Let_def)
  qed
qed

lemma name_shape_alt: "name_shape s \<longleftrightarrow> length s \<ge> 2 \<and> alnum_char (hd s) \<and> list_all name_char (tl s)"
  by (cases s; cases "tl s") (auto simp: name_shape_def list_all_iff)

lemma slash_not_alnum: "\<not> alnum_char CHR ''/''"
  by (simp add: between_def code_of_def)

lemma distinct_classes: "distinct (map f xs) \<longleftrightarrow> (\<forall>k. length (filter (\<lambda>x. f x = k) xs) \<le> 1)"
proof (induction xs)
  case (Cons x xs)
  have "f x \<notin> set (map f xs) \<longleftrightarrow> filter (\<lambda>y. f y = f x) xs = []"
    by (simp add: filter_empty_conv image_iff) metis
  with Cons show ?case by (auto simp: le_Suc_eq)
qed simp

lemma four_classes:
  assumes "\<forall>x \<in> set xs. f x < (4 :: nat)"
  shows "distinct (map f xs) \<longleftrightarrow> length (filter (\<lambda>x. f x = 0) xs) \<le> 1 \<and> length (filter (\<lambda>x. f x = 1) xs) \<le> 1 \<and>
    length (filter (\<lambda>x. f x = 2) xs) \<le> 1 \<and> length (filter (\<lambda>x. f x = 3) xs) \<le> 1"
proof -
  have "filter (\<lambda>x. f x = k) xs = []" if "k \<ge> 4" for k using assms that by (auto simp: filter_empty_conv)
  then have "(\<forall>k. length (filter (\<lambda>x. f x = k) xs) \<le> 1) \<longleftrightarrow> (\<forall>k < 4. length (filter (\<lambda>x. f x = k) xs) \<le> 1)"
    by (metis le_zero_eq list.size(3) not_le_imp_less zero_le)
  also have "\<dots> \<longleftrightarrow> (\<forall>k \<in> {0, 1, 2, 3}. length (filter (\<lambda>x. f x = k) xs) \<le> 1)"
  proof -
    have "k < 4 \<longleftrightarrow> k \<in> {0, 1, 2, 3 :: nat}" for k by auto
    then show ?thesis by auto
  qed
  finally show ?thesis unfolding distinct_classes by simp
qed

lemma mode_class_le: "mode_class m \<le> 4"
  by (simp add: mode_class_def)

lemma modes_array:
  assumes "length s + 17 \<le> MAX_MEMORY_SIZE div sizeof_ptr"
  shows "util_string_split (\<lambda>_. True) True (Some s) d =
    Some (Some (map Some (if strtok_tokens d s = [] then [[]] else strtok_tokens d s) @ [None]))"
proof (cases "strtok_tokens d s = []")
  case True
  then show ?thesis by (simp add: util_string_split_def make_empty_array_def)
next
  case False
  have "strtok_tokens d [] = []" by (subst strtok_tokens.simps) simp
  then have "s \<noteq> []" using False by auto
  with False tokens_array [of "strtok_tokens d s"] strtok_count [of d s] assms show ?thesis
    by (auto simp: util_string_split_def)
qed

section \<open>Properties\<close>

text \<open>
  Container ids and names: the daemon accepts as an id exactly the strings of 1 to 64 lower-case
  hexadecimal digits, and as a name exactly the strings of at most 1024 characters that, after an optional
  slash, start with a letter or digit and continue with at least one letter, digit, underscore, dot or
  minus sign.
\<close>

theorem container_id_name_exact:
  "(util_valid_container_id (Some s) \<longleftrightarrow> length s \<in> {1..64} \<and> list_all hex_char s) \<and>
   (util_valid_container_name (Some s) \<longleftrightarrow> length s \<le> 1024 \<and>
      (let t = (if take 1 s = ''/'' then drop 1 s else s)
       in length t \<ge> 2 \<and> alnum_char (hd t) \<and> list_all name_char (tl t)))"
proof
  show "util_valid_container_id (Some s) \<longleftrightarrow> length s \<in> {1..64} \<and> list_all hex_char s"
    unfolding valid_id_iff by (auto simp: list_all_iff)
  have "take 1 s = ''/'' \<longleftrightarrow> (\<exists>t. s = CHR ''/'' # t)" by (cases s) auto
  then show "util_valid_container_name (Some s) \<longleftrightarrow> length s \<le> 1024 \<and>
      (let t = (if take 1 s = ''/'' then drop 1 s else s)
       in length t \<ge> 2 \<and> alnum_char (hd t) \<and> list_all name_char (tl t))"
    unfolding valid_name_iff name_shape_alt MAX_CONTAINER_NAME_LEN_def using slash_not_alnum by (auto simp: Let_def)
qed

text \<open>
  Absolute paths: the pattern of \<^verbatim>\<open>util_validate_absolute_path\<close> accepts exactly the strings that start
  with a slash and contain no blank.
\<close>

theorem absolute_path_exact:
  "util_validate_absolute_path (Some s) = (if take 1 s = ''/'' \<and> CHR '' '' \<notin> set s then 0 else -1)"
proof -
  have "util_validate_absolute_path (Some s) \<in> {0, -1}" by (simp add: util_validate_absolute_path_def)
  moreover have "take 1 s = ''/'' \<longleftrightarrow> s \<noteq> [] \<and> hd s = CHR ''/''" by (cases s) auto
  ultimately show ?thesis using absolute_path_iff [of s] by auto
qed

text \<open>
  Device modes: accepted are exactly the non-empty strings over r, w and m in which no letter occurs
  twice.
\<close>

theorem device_mode_exact:
  "util_valid_device_mode (Some s) \<longleftrightarrow> s \<noteq> [] \<and> distinct s \<and> set s \<subseteq> set ''rwm''"
  using device_loop_iff [of False False False s] by (auto simp: util_valid_device_mode_def)

text \<open>
  Mount modes: when memory is available, a comma-separated list is accepted exactly when it names at
  least one mode, every name is a known mode, and no two names belong to the same class (read-write,
  propagation, label, copy). In particular the empty string is refused.
\<close>

theorem mount_mode_exact:
  assumes "length s + 17 \<le> MAX_MEMORY_SIZE div sizeof_ptr"
  shows "util_valid_mount_mode (\<lambda>_. True) True (Some s) =
    Some (strtok_tokens CHR '','' s \<noteq> [] \<and> (\<forall>m \<in> set (strtok_tokens CHR '','' s). mode_class m < 4) \<and>
      distinct (map mode_class (strtok_tokens CHR '','' s)))"
proof -
  define ts where "ts = strtok_tokens CHR '','' s"
  define us where "us = (if ts = [] then [[]] else ts)"
  have sp: "util_string_split (\<lambda>_. True) True (Some s) CHR '','' = Some (Some (map Some us @ [None]))"
    using modes_array [OF assms] by (simp add: us_def ts_def)
  have "util_valid_mount_mode (\<lambda>_. True) True (Some s) =
      Some (case count_modes (0, 0, 0, 0) us of None \<Rightarrow> False
            | Some (rw, pro, lab, cpy) \<Rightarrow> \<not> (rw > 1 \<or> pro > 1 \<or> lab > 1 \<or> cpy > 1))"
    using terminator_holds [of us "[]"]
    by (simp add: util_valid_mount_mode_def sp util_array_len_def comp_def split: option.splits)
  also have "\<dots> = Some ((\<forall>m \<in> set us. mode_class m < 4) \<and> distinct (map mode_class us))"
  proof (cases "\<exists>m \<in> set us. mode_class m = 4")
    case True
    then have "\<not> (\<forall>m \<in> set us. mode_class m < 4)" by force
    with True show ?thesis by (simp add: count_modes_eq)
  next
    case False
    then have lt: "\<forall>m \<in> set us. mode_class m < 4" using mode_class_le by (simp add: less_le)
    with False show ?thesis unfolding four_classes [OF lt] count_modes_eq by (simp add: not_less)
  qed
  also have "\<dots> = Some (ts \<noteq> [] \<and> (\<forall>m \<in> set ts. mode_class m < 4) \<and> distinct (map mode_class ts))"
  proof (cases "ts = []")
    case True
    have "mode_class [] = 4" by code_simp
    then show ?thesis using True by (simp add: us_def)
  qed (simp add: us_def)
  finally show ?thesis by (simp add: ts_def)
qed

theorem mount_mode_exact_witness:
  "util_valid_mount_mode (\<lambda>_. True) True (Some ''ro,rslave'') = Some True \<and>
   util_valid_mount_mode (\<lambda>_. True) True (Some ''ro,rw'') = Some False"
proof -
  have t: "strtok_tokens CHR '','' ''ro,rslave'' = [''ro'', ''rslave'']" "strtok_tokens CHR '','' ''ro,rw'' = [''ro'', ''rw'']"
    by code_simp+
  have c: "map mode_class [''ro'', ''rslave''] = [0, 1]" "map mode_class [''ro'', ''rw''] = [0, 0]" by code_simp+
  show ?thesis
    using mount_mode_exact [of "''ro,rslave''"] mount_mode_exact [of "''ro,rw''"] c unfolding t by (simp add: max_cells)
qed

section \<open>Strings the patterns let through\<close>

text \<open>
  The dots of the address pattern and of the time pattern are not escaped and the last octet has a wrong
  range; the digest pattern is not anchored at its end; the host name pattern admits a backslash.
\<close>

lemma tcp_socket_lax:
  "util_vaildate_tcp_socket (Some ''tcp://1x1y1z259:80'')"
  by code_simp

lemma digest_lax:
  "util_valid_image_name (Some ''busybox@a:01234567890123456789012345678901/../x'')"
  by code_simp

lemma host_name_lax:
  "util_valid_host_name (Some (''a'' @ [CHR 0x5C] @ ''b''))"
  by code_simp

lemma time_tz_lax:
  "util_valid_time_tz (Some ''2020-01-01T00:00:00x5Z'')"
  by code_simp

end
