(* ===== verification/Id_Name_Manager.thy ===== *)
theory Id_Name_Manager
  imports Utils_Verify
begin

text \<open>
  The reservation of container ids and names in \<^verbatim>\<open>src/daemon/common/id_name_manager.c\<close>: two global sets of
  strings (maps from string to bool), each behind its own mutex. Every access to one set is atomic; an
  operation that touches both sets is a sequence of such accesses and can be interleaved with others.
  \<open>None\<close> is a store that has not been created. The answers of the mutex and of the allocator are the
  \<open>op_env\<close> of each access.
\<close>

section \<open>One store\<close>

record op_env =
  lock_ok :: bool
  copy_ok :: bool
  node_ok :: bool

definition env_ok :: op_env where
  "env_ok = \<lparr>lock_ok = True, copy_ok = True, node_ok = True\<rparr>"

type_synonym map_store = "bool smap option"

definition map_store_new :: "bool \<Rightarrow> bool \<Rightarrow> bool \<Rightarrow> map_store" where
  "map_store_new alloc mutex_ok alloc_map =
     (if \<not> alloc then None else if \<not> mutex_ok then None else if \<not> alloc_map then None else Some [])"

definition map_store_add :: "op_env \<Rightarrow> map_store \<Rightarrow> string \<Rightarrow> bool \<times> map_store" where
  "map_store_add e st item =
     (case st of
        None \<Rightarrow> (False, None)
      | Some m \<Rightarrow>
          if \<not> lock_ok e then (False, Some m)
          else if smap_search m item \<noteq> None then (False, Some m)
          else (let (r, m') = smap_replace (copy_ok e) (node_ok e) m item True
                in if \<not> r then (False, Some m') else (True, Some m')))"

definition map_store_search :: "op_env \<Rightarrow> map_store \<Rightarrow> string \<Rightarrow> bool" where
  "map_store_search e st item =
     (case st of
        None \<Rightarrow> False
      | Some m \<Rightarrow> if \<not> lock_ok e then False else smap_search m item \<noteq> None)"

definition map_store_remove :: "op_env \<Rightarrow> map_store \<Rightarrow> string \<Rightarrow> bool \<times> map_store" where
  "map_store_remove e st item =
     (case st of
        None \<Rightarrow> (False, None)
      | Some m \<Rightarrow>
          if \<not> lock_ok e then (False, Some m)
          else (let (r, m') = smap_remove m item in if \<not> r then (False, Some m') else (True, Some m')))"

section \<open>Ids and names\<close>

record id_name_state =
  g_id_store :: map_store
  g_name_store :: map_store

definition id_name_manager_release :: "id_name_state \<Rightarrow> id_name_state" where
  "id_name_manager_release s = s\<lparr>g_id_store := None, g_name_store := None\<rparr>"

text \<open>The two arguments are what \<^verbatim>\<open>map_store_new\<close> returns for the ids and for the names.\<close>

definition id_name_manager_init :: "map_store \<Rightarrow> map_store \<Rightarrow> id_name_state \<Rightarrow> int \<times> id_name_state" where
  "id_name_manager_init ids names s =
     (case ids of
        None \<Rightarrow> (-1, s\<lparr>g_id_store := None\<rparr>)
      | Some i \<Rightarrow>
          (case names of
             None \<Rightarrow> (-1, s\<lparr>g_id_store := None, g_name_store := None\<rparr>)
           | Some n \<Rightarrow> (0, s\<lparr>g_id_store := Some i, g_name_store := Some n\<rparr>)))"

definition try_add_id :: "op_env \<Rightarrow> id_name_state \<Rightarrow> string option \<Rightarrow> bool \<times> id_name_state" where
  "try_add_id e s cid =
     (case cid of
        None \<Rightarrow> (False, s)
      | Some i \<Rightarrow>
          if \<not> util_valid_container_id (Some i) then (False, s)
          else (let (r, st) = map_store_add e (g_id_store s) i in (r, s\<lparr>g_id_store := st\<rparr>)))"

definition try_remove_id :: "op_env \<Rightarrow> id_name_state \<Rightarrow> string option \<Rightarrow> bool \<times> id_name_state" where
  "try_remove_id e s cid =
     (case cid of
        None \<Rightarrow> (True, s)
      | Some i \<Rightarrow>
          if \<not> util_valid_container_id (Some i) then (False, s)
          else (let (r, st) = map_store_remove e (g_id_store s) i in (r, s\<lparr>g_id_store := st\<rparr>)))"

definition try_add_name :: "op_env \<Rightarrow> id_name_state \<Rightarrow> string option \<Rightarrow> bool \<times> id_name_state" where
  "try_add_name e s name =
     (case name of
        None \<Rightarrow> (False, s)
      | Some n \<Rightarrow>
          if \<not> util_valid_container_name (Some n) then (False, s)
          else (let (r, st) = map_store_add e (g_name_store s) n in (r, s\<lparr>g_name_store := st\<rparr>)))"

definition try_remove_name :: "op_env \<Rightarrow> id_name_state \<Rightarrow> string option \<Rightarrow> bool \<times> id_name_state" where
  "try_remove_name e s name =
     (case name of
        None \<Rightarrow> (True, s)
      | Some n \<Rightarrow>
          if \<not> util_valid_container_name (Some n) then (False, s)
          else (let (r, st) = map_store_remove e (g_name_store s) n in (r, s\<lparr>g_name_store := st\<rparr>)))"

text \<open>
  \<open>rand i\<close> is the string the random source gives in the \<open>i\<close>-th round (\<open>None\<close>: it fails), \<open>env i\<close> the
  answers of the store access of that round. At most ten rounds are made.
\<close>

fun get_new_id_loop ::
  "(nat \<Rightarrow> string option) \<Rightarrow> (nat \<Rightarrow> op_env) \<Rightarrow> nat \<Rightarrow> nat \<Rightarrow> id_name_state \<Rightarrow> string option \<times> id_name_state" where
  "get_new_id_loop rand env i 0 s = (None, s)"
| "get_new_id_loop rand env i (Suc n) s =
     (case rand i of
        None \<Rightarrow> (None, s)
      | Some r \<Rightarrow>
          (let (ok, s') = try_add_id (env i) s (Some r)
           in if ok then (Some r, s') else get_new_id_loop rand env (Suc i) n s'))"

definition get_new_id ::
  "bool \<Rightarrow> (nat \<Rightarrow> string option) \<Rightarrow> (nat \<Rightarrow> op_env) \<Rightarrow> id_name_state \<Rightarrow> string option \<times> id_name_state" where
  "get_new_id alloc rand env s =
     (if g_id_store s = None then (None, s)
      else if \<not> alloc then (None, s)
      else get_new_id_loop rand env 0 10 s)"

definition id_name_manager_add_entry_with_existing_id ::
  "op_env \<Rightarrow> op_env \<Rightarrow> op_env \<Rightarrow> id_name_state \<Rightarrow> string option \<Rightarrow> string option \<Rightarrow> bool \<times> id_name_state" where
  "id_name_manager_add_entry_with_existing_id e1 e2 e3 s cid name =
     (if cid = None \<or> name = None then (False, s)
      else
        (let (ok, s1) = try_add_id e1 s cid
         in if \<not> ok then (False, s1)
            else
              (let (ok2, s2) = try_add_name e2 s1 name
               in if ok2 then (True, s2)
                  else (False, snd (try_remove_id e3 s2 cid)))))"

text \<open>The result, the id stored through \<^verbatim>\<open>*id\<close> and the state.\<close>

definition id_name_manager_add_entry_with_new_id ::
  "bool \<Rightarrow> (nat \<Rightarrow> string option) \<Rightarrow> (nat \<Rightarrow> op_env) \<Rightarrow> op_env \<Rightarrow> op_env \<Rightarrow> id_name_state \<Rightarrow> string option
     \<Rightarrow> bool \<times> string option \<times> id_name_state" where
  "id_name_manager_add_entry_with_new_id alloc rand env e2 e3 s name =
     (if name = None then (False, None, s)
      else
        (let (cid, s1) = get_new_id alloc rand env s
         in if cid = None then (False, None, s1)
            else
              (let (ok2, s2) = try_add_name e2 s1 name
               in if ok2 then (True, cid, s2)
                  else (False, None, snd (try_remove_id e3 s2 cid)))))"

definition id_name_manager_add_entry_with_new_id_and_name ::
  "bool \<Rightarrow> (nat \<Rightarrow> string option) \<Rightarrow> (nat \<Rightarrow> op_env) \<Rightarrow> op_env \<Rightarrow> op_env \<Rightarrow> id_name_state
     \<Rightarrow> bool \<times> string option \<times> string option \<times> id_name_state" where
  "id_name_manager_add_entry_with_new_id_and_name alloc rand env e2 e3 s =
     (let (cid, s1) = get_new_id alloc rand env s
      in if cid = None then (False, None, None, s1)
         else
           (let name = cid; (ok2, s2) = try_add_name e2 s1 name
            in if ok2 then (True, cid, name, s2)
               else (False, None, None, snd (try_remove_id e3 s2 cid))))"

definition id_name_manager_remove_entry ::
  "op_env \<Rightarrow> op_env \<Rightarrow> id_name_state \<Rightarrow> string option \<Rightarrow> string option \<Rightarrow> bool \<times> id_name_state" where
  "id_name_manager_remove_entry e1 e2 s cid name =
     (let (ok1, s1) = try_remove_id e1 s cid;
          (ok2, s2) = try_remove_name e2 s1 name
      in (ok1 \<and> ok2, s2))"

definition id_name_manager_rename ::
  "op_env \<Rightarrow> op_env \<Rightarrow> id_name_state \<Rightarrow> string option \<Rightarrow> string option \<Rightarrow> bool \<times> id_name_state" where
  "id_name_manager_rename e1 e2 s new_name old_name =
     (if old_name = None \<or> new_name = None then (False, s)
      else
        (let (ok, s1) = try_add_name e1 s new_name
         in if \<not> ok then (False, s1) else (True, snd (try_remove_name e2 s1 old_name))))"

definition id_name_manager_has_id_and_name ::
  "op_env \<Rightarrow> op_env \<Rightarrow> id_name_state \<Rightarrow> string option \<Rightarrow> string option \<Rightarrow> bool" where
  "id_name_manager_has_id_and_name e1 e2 s cid name =
     (case (cid, name) of
        (Some i, Some n) \<Rightarrow> map_store_search e1 (g_id_store s) i \<and> map_store_search e2 (g_name_store s) n
      | _ \<Rightarrow> False)"

section \<open>Concurrent reservations\<close>

text \<open>
  A thread that reserves an existing id with a name and may give them back later. Each constructor is
  the next access it makes: the accesses of \<open>id_name_manager_add_entry_with_existing_id\<close>, then, from
  \<open>Holds\<close> on, those of \<open>id_name_manager_remove_entry\<close>.
\<close>

datatype phase = Add_Id | Add_Name | Undo_Id | Failed | Holds | Rem_Id | Rem_Name | Gone

record thread =
  t_id :: string
  t_name :: string
  t_phase :: phase

record system =
  stores :: id_name_state
  threads :: "nat \<Rightarrow> thread"

definition goto :: "nat \<Rightarrow> phase \<Rightarrow> id_name_state \<Rightarrow> system \<Rightarrow> system" where
  "goto i ph st y = y\<lparr>stores := st, threads := (threads y)(i := threads y i\<lparr>t_phase := ph\<rparr>)\<rparr>"

inductive step :: "system \<Rightarrow> system \<Rightarrow> bool" where
  add_id: "t_phase (threads y i) = Add_Id \<Longrightarrow> try_add_id e (stores y) (Some (t_id (threads y i))) = (ok, st) \<Longrightarrow>
     step y (goto i (if ok then Add_Name else Failed) st y)"
| add_name: "t_phase (threads y i) = Add_Name \<Longrightarrow> try_add_name e (stores y) (Some (t_name (threads y i))) = (ok, st) \<Longrightarrow>
     step y (goto i (if ok then Holds else Undo_Id) st y)"
| undo_id: "t_phase (threads y i) = Undo_Id \<Longrightarrow> try_remove_id e (stores y) (Some (t_id (threads y i))) = (ok, st) \<Longrightarrow>
     step y (goto i Failed st y)"
| release: "t_phase (threads y i) = Holds \<Longrightarrow> step y (goto i Rem_Id (stores y) y)"
| rem_id: "t_phase (threads y i) = Rem_Id \<Longrightarrow> try_remove_id e (stores y) (Some (t_id (threads y i))) = (ok, st) \<Longrightarrow>
     step y (goto i Rem_Name st y)"
| rem_name: "t_phase (threads y i) = Rem_Name \<Longrightarrow> try_remove_name e (stores y) (Some (t_name (threads y i))) = (ok, st) \<Longrightarrow>
     step y (goto i Gone st y)"

inductive reach :: "system \<Rightarrow> system \<Rightarrow> bool" for y0 where
  start: "reach y0 y0"
| more: "reach y0 y \<Longrightarrow> step y y' \<Longrightarrow> reach y0 y'"

definition owns_id :: "thread \<Rightarrow> bool" where
  "owns_id t \<longleftrightarrow> t_phase t \<in> {Add_Name, Undo_Id, Holds, Rem_Id}"

definition owns_name :: "thread \<Rightarrow> bool" where
  "owns_name t \<longleftrightarrow> t_phase t \<in> {Holds, Rem_Id, Rem_Name}"

definition contents :: "map_store \<Rightarrow> string set" where
  "contents st = (case st of None \<Rightarrow> {} | Some m \<Rightarrow> dom (smap_search m))"

text \<open>Every owner's id and name is in its store, and no two owners share one.\<close>

definition owners_ok :: "system \<Rightarrow> bool" where
  "owners_ok y \<longleftrightarrow>
     (\<forall>i. owns_id (threads y i) \<longrightarrow> t_id (threads y i) \<in> contents (g_id_store (stores y))) \<and>
     (\<forall>i. owns_name (threads y i) \<longrightarrow> t_name (threads y i) \<in> contents (g_name_store (stores y))) \<and>
     (\<forall>i j. owns_id (threads y i) \<longrightarrow> owns_id (threads y j) \<longrightarrow> t_id (threads y i) = t_id (threads y j) \<longrightarrow> i = j) \<and>
     (\<forall>i j. owns_name (threads y i) \<longrightarrow> owns_name (threads y j) \<longrightarrow> t_name (threads y i) = t_name (threads y j) \<longrightarrow> i = j)"

section \<open>What each access does\<close>

lemma store_add_spec:
  assumes "map_store_add e st k = (ok, st')"
  shows "contents st' = (if ok then insert k (contents st) else contents st)" and "ok \<Longrightarrow> k \<notin> contents st"
proof -
  have "contents st' = (if ok then insert k (contents st) else contents st) \<and> (ok \<longrightarrow> k \<notin> contents st)"
  proof (cases st)
    case (Some m)
    obtain r m' where r: "smap_replace (copy_ok e) (node_ok e) m k True = (r, m')" by fastforce
    have "dom (smap_search m') = (if r then insert k (dom (smap_search m)) else dom (smap_search m))"
      using smap.replace_search [of "copy_ok e" "node_ok e" m k True] r by (simp split: if_splits)
    then show ?thesis using assms Some r by (auto simp: map_store_add_def contents_def split: if_splits)
  qed (use assms in \<open>auto simp: map_store_add_def\<close>)
  then show "contents st' = (if ok then insert k (contents st) else contents st)" "ok \<Longrightarrow> k \<notin> contents st"
    by blast+
qed

lemma store_remove_spec:
  assumes "map_store_remove e st k = (ok, st')"
  shows "contents st' = (if ok then contents st - {k} else contents st)"
proof (cases st)
  case (Some m)
  obtain r m' where r: "smap_remove m k = (r, m')" by fastforce
  have "dom (smap_search m') = (if r then dom (smap_search m) - {k} else dom (smap_search m))"
  proof (cases r)
    case True
    then show ?thesis using smap.remove_search [of m k] r by simp
  next
    case False
    then show ?thesis using smap.failed_remove [of m k] r by simp
  qed
  then show ?thesis using assms Some r by (auto simp: map_store_remove_def contents_def split: if_splits)
qed (use assms in \<open>auto simp: map_store_remove_def\<close>)

lemma add_id_spec:
  assumes "try_add_id e s (Some k) = (ok, s')"
  shows "g_name_store s' = g_name_store s"
    and "contents (g_id_store s') = (if ok then insert k (contents (g_id_store s)) else contents (g_id_store s))"
    and "ok \<Longrightarrow> k \<notin> contents (g_id_store s)" and "ok \<Longrightarrow> util_valid_container_id (Some k)"
proof -
  obtain r st where r: "map_store_add e (g_id_store s) k = (r, st)" by fastforce
  have *: "ok = (util_valid_container_id (Some k) \<and> r)"
    "s' = (if util_valid_container_id (Some k) then s\<lparr>g_id_store := st\<rparr> else s)"
    using assms r by (simp_all add: try_add_id_def split: if_splits)
  show "g_name_store s' = g_name_store s" using *(2) by simp
  show "contents (g_id_store s') = (if ok then insert k (contents (g_id_store s)) else contents (g_id_store s))"
    using * store_add_spec(1) [OF r] by simp
  show "ok \<Longrightarrow> k \<notin> contents (g_id_store s)" "ok \<Longrightarrow> util_valid_container_id (Some k)"
    using * store_add_spec(2) [OF r] by simp_all
qed

lemma add_name_spec:
  assumes "try_add_name e s (Some k) = (ok, s')"
  shows "g_id_store s' = g_id_store s"
    and "contents (g_name_store s') = (if ok then insert k (contents (g_name_store s)) else contents (g_name_store s))"
    and "ok \<Longrightarrow> k \<notin> contents (g_name_store s)" and "ok \<Longrightarrow> util_valid_container_name (Some k)"
proof -
  obtain r st where r: "map_store_add e (g_name_store s) k = (r, st)" by fastforce
  have *: "ok = (util_valid_container_name (Some k) \<and> r)"
    "s' = (if util_valid_container_name (Some k) then s\<lparr>g_name_store := st\<rparr> else s)"
    using assms r by (simp_all add: try_add_name_def split: if_splits)
  show "g_id_store s' = g_id_store s" using *(2) by simp
  show "contents (g_name_store s') = (if ok then insert k (contents (g_name_store s)) else contents (g_name_store s))"
    using * store_add_spec(1) [OF r] by simp
  show "ok \<Longrightarrow> k \<notin> contents (g_name_store s)" "ok \<Longrightarrow> util_valid_container_name (Some k)"
    using * store_add_spec(2) [OF r] by simp_all
qed

lemma remove_id_spec:
  assumes "try_remove_id e s (Some k) = (ok, s')"
  shows "g_name_store s' = g_name_store s"
    and "contents (g_id_store s') = (if ok then contents (g_id_store s) - {k} else contents (g_id_store s))"
proof -
  obtain r st where r: "map_store_remove e (g_id_store s) k = (r, st)" by fastforce
  have "ok = (util_valid_container_id (Some k) \<and> r)"
    "s' = (if util_valid_container_id (Some k) then s\<lparr>g_id_store := st\<rparr> else s)"
    using assms r by (simp_all add: try_remove_id_def split: if_splits)
  with store_remove_spec [OF r] show "g_name_store s' = g_name_store s"
    "contents (g_id_store s') = (if ok then contents (g_id_store s) - {k} else contents (g_id_store s))"
    by simp_all
qed

lemma remove_name_spec:
  assumes "try_remove_name e s (Some k) = (ok, s')"
  shows "g_id_store s' = g_id_store s"
    and "contents (g_name_store s') = (if ok then contents (g_name_store s) - {k} else contents (g_name_store s))"
proof -
  obtain r st where r: "map_store_remove e (g_name_store s) k = (r, st)" by fastforce
  have "ok = (util_valid_container_name (Some k) \<and> r)"
    "s' = (if util_valid_container_name (Some k) then s\<lparr>g_name_store := st\<rparr> else s)"
    using assms r by (simp_all add: try_remove_name_def split: if_splits)
  with store_remove_spec [OF r] show "g_id_store s' = g_id_store s"
    "contents (g_name_store s') = (if ok then contents (g_name_store s) - {k} else contents (g_name_store s))"
    by simp_all
qed

lemma goto_simps [simp]:
  "stores (goto i ph st y) = st"
  "threads (goto i ph st y) j = (if j = i then threads y i\<lparr>t_phase := ph\<rparr> else threads y j)"
  by (auto simp: goto_def)

lemma owners_goto:
  assumes ok: "owners_ok y"
    and ids: "contents (g_id_store (stores y)) - drop_id \<subseteq> contents (g_id_store st)"
    and names: "contents (g_name_store (stores y)) - drop_name \<subseteq> contents (g_name_store st)"
    and did: "drop_id \<subseteq> {t_id (threads y i)}" "drop_id \<noteq> {} \<Longrightarrow> owns_id (threads y i) \<and> \<not> owns_id (threads y i\<lparr>t_phase := ph\<rparr>)"
    and dname: "drop_name \<subseteq> {t_name (threads y i)}" "drop_name \<noteq> {} \<Longrightarrow> owns_name (threads y i) \<and> \<not> owns_name (threads y i\<lparr>t_phase := ph\<rparr>)"
    and new_id: "owns_id (threads y i\<lparr>t_phase := ph\<rparr>) \<Longrightarrow> owns_id (threads y i) \<or>
      (t_id (threads y i) \<notin> contents (g_id_store (stores y)) \<and> t_id (threads y i) \<in> contents (g_id_store st))"
    and new_name: "owns_name (threads y i\<lparr>t_phase := ph\<rparr>) \<Longrightarrow> owns_name (threads y i) \<or>
      (t_name (threads y i) \<notin> contents (g_name_store (stores y)) \<and> t_name (threads y i) \<in> contents (g_name_store st))"
  shows "owners_ok (goto i ph st y)"
proof -
  let ?T = "threads y" and ?t = "threads y i\<lparr>t_phase := ph\<rparr>"
  have id_in: "owns_id (?T j) \<Longrightarrow> t_id (?T j) \<in> contents (g_id_store (stores y))" for j
    using ok by (simp add: owners_ok_def)
  have name_in: "owns_name (?T j) \<Longrightarrow> t_name (?T j) \<in> contents (g_name_store (stores y))" for j
    using ok by (simp add: owners_ok_def)
  have id_inj: "owns_id (?T j) \<Longrightarrow> owns_id (?T k) \<Longrightarrow> t_id (?T j) = t_id (?T k) \<Longrightarrow> j = k" for j k
    using ok unfolding owners_ok_def by blast
  have name_inj: "owns_name (?T j) \<Longrightarrow> owns_name (?T k) \<Longrightarrow> t_name (?T j) = t_name (?T k) \<Longrightarrow> j = k" for j k
    using ok unfolding owners_ok_def by blast
  have a: "t_id (?T j) \<in> contents (g_id_store st)" if "owns_id (?T j)" "j \<noteq> i" for j
    using id_in [OF that(1)] ids did id_inj [OF that(1), of i] that(2) by blast
  have b: "t_name (?T j) \<in> contents (g_name_store st)" if "owns_name (?T j)" "j \<noteq> i" for j
    using name_in [OF that(1)] names dname name_inj [OF that(1), of i] that(2) by blast
  have c: "t_id (?T i) \<in> contents (g_id_store st)" if "owns_id ?t"
    using new_id [OF that] id_in [of i] ids did that by blast
  have d: "t_name (?T i) \<in> contents (g_name_store st)" if "owns_name ?t"
    using new_name [OF that] name_in [of i] names dname that by blast
  have e: "t_id (?T j) \<noteq> t_id (?T i)" if "owns_id ?t" "owns_id (?T j)" "j \<noteq> i" for j
    using new_id [OF that(1)] id_in [OF that(2)] id_inj [OF that(2), of i] that(3) by metis
  have f: "t_name (?T j) \<noteq> t_name (?T i)" if "owns_name ?t" "owns_name (?T j)" "j \<noteq> i" for j
    using new_name [OF that(1)] name_in [OF that(2)] name_inj [OF that(2), of i] that(3) by metis
  show ?thesis
    unfolding owners_ok_def goto_simps
    using a b c d e f id_inj name_inj by (auto split: if_splits) metis+
qed

lemmas owns_defs = owns_id_def owns_name_def

lemma step_owners:
  assumes "step y y'" and "owners_ok y"
  shows "owners_ok y'"
  using assms
proof (induction rule: step.induct)
  case (add_id y i e ok st)
  note sp = add_id_spec [OF add_id(2)]
  show ?case
    by (rule owners_goto [OF add_id(3), where drop_id = "{}" and drop_name = "{}"])
      (use sp add_id(1) in \<open>auto simp: owns_defs split: if_splits\<close>)
next
  case (add_name y i e ok st)
  note sp = add_name_spec [OF add_name(2)]
  show ?case
    by (rule owners_goto [OF add_name(3), where drop_id = "{}" and drop_name = "{}"])
      (use sp add_name(1) in \<open>auto simp: owns_defs split: if_splits\<close>)
next
  case (undo_id y i e ok st)
  note sp = remove_id_spec [OF undo_id(2)]
  show ?case
    by (rule owners_goto [OF undo_id(3), where drop_id = "{t_id (threads y i)}" and drop_name = "{}"])
      (use sp undo_id(1) in \<open>auto simp: owns_defs split: if_splits\<close>)
next
  case (release y i)
  show ?case
    by (rule owners_goto [OF release(2), where drop_id = "{}" and drop_name = "{}"])
      (use release(1) in \<open>auto simp: owns_defs split: if_splits\<close>)
next
  case (rem_id y i e ok st)
  note sp = remove_id_spec [OF rem_id(2)]
  show ?case
    by (rule owners_goto [OF rem_id(3), where drop_id = "{t_id (threads y i)}" and drop_name = "{}"])
      (use sp rem_id(1) in \<open>auto simp: owns_defs split: if_splits\<close>)
next
  case (rem_name y i e ok st)
  note sp = remove_name_spec [OF rem_name(2)]
  show ?case
    by (rule owners_goto [OF rem_name(3), where drop_id = "{}" and drop_name = "{t_name (threads y i)}"])
      (use sp rem_name(1) in \<open>auto simp: owns_defs split: if_splits\<close>)
qed

lemma reach_owners: "reach y0 y \<Longrightarrow> owners_ok y0 \<Longrightarrow> owners_ok y"
  by (induction rule: reach.induct) (auto intro: step_owners)

lemma initial_owners: "\<forall>i. t_phase (threads y i) = Add_Id \<Longrightarrow> owners_ok y"
  by (simp add: owners_ok_def owns_defs)

section \<open>New ids\<close>

lemma get_new_id_spec:
  assumes "get_new_id_loop rand env i n s = (res, s')"
  shows "g_name_store s' = g_name_store s"
    and "case res of
           None \<Rightarrow> contents (g_id_store s') = contents (g_id_store s)
         | Some k \<Rightarrow> contents (g_id_store s') = insert k (contents (g_id_store s)) \<and> k \<notin> contents (g_id_store s) \<and>
             util_valid_container_id (Some k) \<and> (\<exists>j < n. rand (i + j) = Some k)"
proof -
  have "g_name_store s' = g_name_store s \<and> (case res of
           None \<Rightarrow> contents (g_id_store s') = contents (g_id_store s)
         | Some k \<Rightarrow> contents (g_id_store s') = insert k (contents (g_id_store s)) \<and> k \<notin> contents (g_id_store s) \<and>
             util_valid_container_id (Some k) \<and> (\<exists>j < n. rand (i + j) = Some k))"
    using assms
  proof (induction n arbitrary: i s)
    case (Suc n)
    show ?case
    proof (cases "rand i")
      case None
      then show ?thesis using Suc.prems by simp
    next
      case (Some r)
      obtain ok s1 where r: "try_add_id (env i) s (Some r) = (ok, s1)" by fastforce
      note sp = add_id_spec [OF r]
      show ?thesis
      proof (cases ok)
        case True
        then have "res = Some r" "s' = s1" using Suc.prems Some r by simp_all
        then show ?thesis using True Some sp by (auto intro: exI [of _ 0])
      next
        case False
        then have *: "get_new_id_loop rand env (Suc i) n s1 = (res, s')" using Suc.prems Some r by simp
        have "(\<exists>j < n. rand (Suc i + j) = Some k) \<Longrightarrow> (\<exists>j < Suc n. rand (i + j) = Some k)" for k
          by (metis Suc_less_eq add_Suc_shift)
        with Suc.IH [OF *] sp False show ?thesis by (auto split: option.splits)
      qed
    qed
  qed simp
  then show "g_name_store s' = g_name_store s" "case res of
           None \<Rightarrow> contents (g_id_store s') = contents (g_id_store s)
         | Some k \<Rightarrow> contents (g_id_store s') = insert k (contents (g_id_store s)) \<and> k \<notin> contents (g_id_store s) \<and>
             util_valid_container_id (Some k) \<and> (\<exists>j < n. rand (i + j) = Some k)" by blast+
qed

section \<open>Properties\<close>

text \<open>
  C10. Reservations are exclusive under every interleaving. Any number of threads reserve an id with a name
  and give them back, their accesses to the two stores interleaved in any order and with lock and
  allocation failures anywhere; two threads that hold their reservations never share an id or a name, and
  both are in the stores.
\<close>

theorem reservations_exclusive:
  assumes "\<forall>i. t_phase (threads y0 i) = Add_Id" and "reach y0 y"
    and "t_phase (threads y i) = Holds" and "t_phase (threads y j) = Holds" and "i \<noteq> j"
  shows "t_id (threads y i) \<noteq> t_id (threads y j) \<and> t_name (threads y i) \<noteq> t_name (threads y j) \<and>
    t_id (threads y i) \<in> contents (g_id_store (stores y)) \<and> t_name (threads y i) \<in> contents (g_name_store (stores y))"
proof -
  have "owners_ok y" using reach_owners [OF assms(2)] initial_owners [OF assms(1)] by blast
  moreover have "owns_id (threads y i)" "owns_id (threads y j)" "owns_name (threads y i)" "owns_name (threads y j)"
    using assms(3,4) by (simp_all add: owns_defs)
  ultimately show ?thesis using assms(5) unfolding owners_ok_def by blast
qed

definition store_of :: "string list \<Rightarrow> string list \<Rightarrow> id_name_state" where
  "store_of ids names = \<lparr>g_id_store = Some (map (\<lambda>k. (k, True)) ids), g_name_store = Some (map (\<lambda>k. (k, True)) names)\<rparr>"

definition demo_system :: system where
  "demo_system = \<lparr>stores = store_of [] [],
     threads = (\<lambda>i. \<lparr>t_id = (if i = 0 then ''a0'' else ''b1''), t_name = (if i = 0 then ''web'' else ''db''),
                     t_phase = Add_Id\<rparr>)\<rparr>"

lemma demo_accesses:
  "try_add_id env_ok (store_of [] []) (Some ''a0'') = (True, store_of [''a0''] [])"
  "try_add_id env_ok (store_of [''a0''] []) (Some ''b1'') = (True, store_of [''a0'', ''b1''] [])"
  "try_add_name env_ok (store_of [''a0'', ''b1''] []) (Some ''web'') = (True, store_of [''a0'', ''b1''] [''web''])"
  "try_add_name env_ok (store_of [''a0'', ''b1''] [''web'']) (Some ''db'') = (True, store_of [''a0'', ''b1''] [''db'', ''web''])"
  by code_simp+

definition demo_final :: system where
  "demo_final =
     goto 1 Holds (store_of [''a0'', ''b1''] [''db'', ''web'']) (goto 0 Holds (store_of [''a0'', ''b1''] [''web''])
       (goto 1 Add_Name (store_of [''a0'', ''b1''] []) (goto 0 Add_Name (store_of [''a0''] []) demo_system)))"

lemma demo_reach: "reach demo_system demo_final"
  unfolding demo_final_def
  by (intro reach.more [OF _ add_name [where ok = True and e = env_ok, simplified]]
      reach.more [OF _ add_id [where ok = True and e = env_ok, simplified]] reach.start)
    (simp_all add: demo_system_def demo_accesses)

theorem reservations_exclusive_witness:
  "t_id (threads demo_final 0) \<noteq> t_id (threads demo_final 1) \<and>
   t_name (threads demo_final 0) \<noteq> t_name (threads demo_final 1) \<and>
   t_id (threads demo_final 0) \<in> contents (g_id_store (stores demo_final)) \<and>
   t_name (threads demo_final 0) \<in> contents (g_name_store (stores demo_final))"
  by (rule reservations_exclusive [OF _ demo_reach]) (simp_all add: demo_system_def demo_final_def)

text \<open>
  C35. A reservation is all or nothing: when the mutexes can be locked, reserving an id with a name either
  succeeds, and then both were free and valid and exactly these two are added, or fails and leaves both
  stores with the contents they had (the id taken first is given back).
\<close>

theorem reserve_atomic:
  assumes "lock_ok e3"
    and "id_name_manager_add_entry_with_existing_id e1 e2 e3 s (Some i) (Some n) = (ok, s')"
  shows "if ok
    then i \<notin> contents (g_id_store s) \<and> n \<notin> contents (g_name_store s) \<and>
      util_valid_container_id (Some i) \<and> util_valid_container_name (Some n) \<and>
      contents (g_id_store s') = insert i (contents (g_id_store s)) \<and>
      contents (g_name_store s') = insert n (contents (g_name_store s))
    else contents (g_id_store s') = contents (g_id_store s) \<and> contents (g_name_store s') = contents (g_name_store s)"
proof -
  obtain r1 s1 where 1: "try_add_id e1 s (Some i) = (r1, s1)" by fastforce
  obtain r2 s2 where 2: "try_add_name e2 s1 (Some n) = (r2, s2)" by fastforce
  obtain r3 s3 where 3: "try_remove_id e3 s2 (Some i) = (r3, s3)" by fastforce
  note sp1 = add_id_spec [OF 1] and sp2 = add_name_spec [OF 2] and sp3 = remove_id_spec [OF 3]
  have undo: "r3" if "r1" "\<not> r2"
  proof -
    have "i \<in> contents (g_id_store s2)" using sp1(2) sp2(1) that by simp
    then obtain m where "g_id_store s2 = Some m" "smap_search m i \<noteq> None"
      by (auto simp: contents_def split: option.splits)
    with 3 sp1(4) that assms(1) smap.remove_fails [of m i] show r3
      by (auto simp: try_remove_id_def map_store_remove_def split: if_splits prod.splits)
  qed
  show ?thesis
    using assms(2) 1 2 3 sp1 sp2 sp3 undo
    by (cases r1; cases r2) (auto simp: id_name_manager_add_entry_with_existing_id_def)
qed

lemma demo_reserve:
  "id_name_manager_add_entry_with_existing_id env_ok env_ok env_ok (store_of [] []) (Some ''a0'') (Some ''web'') =
     (True, store_of [''a0''] [''web''])"
  by code_simp

theorem reserve_atomic_witness:
  "''a0'' \<notin> contents (g_id_store (store_of [] [])) \<and> ''web'' \<notin> contents (g_name_store (store_of [] [])) \<and>
   contents (g_id_store (store_of [''a0''] [''web''])) = insert ''a0'' (contents (g_id_store (store_of [] [])))"
  using reserve_atomic [OF _ demo_reserve] by (simp add: env_ok_def)

text \<open>
  C36. A generated id is new and valid: when \<^verbatim>\<open>id_name_manager_add_entry_with_new_id\<close> succeeds, the id it
  returns is one of the first ten random strings, a valid container id that was not in use, and it and
  the name are now reserved; when it fails, no id is returned and, if the mutex can be locked for the roll
  back, nothing stays reserved.
\<close>

theorem new_id_fresh:
  assumes "lock_ok e3"
    and "id_name_manager_add_entry_with_new_id alloc rand env e2 e3 s (Some n) = (ok, cid, s')"
  shows "if ok
    then \<exists>k j. cid = Some k \<and> j < 10 \<and> rand j = Some k \<and> util_valid_container_id (Some k) \<and>
      k \<notin> contents (g_id_store s) \<and> contents (g_id_store s') = insert k (contents (g_id_store s)) \<and>
      n \<notin> contents (g_name_store s) \<and> contents (g_name_store s') = insert n (contents (g_name_store s))
    else cid = None \<and> contents (g_id_store s') = contents (g_id_store s) \<and>
      contents (g_name_store s') = contents (g_name_store s)"
proof -
  obtain r1 s1 where 1: "get_new_id alloc rand env s = (r1, s1)" by fastforce
  have sp1: "g_name_store s1 = g_name_store s \<and> (case r1 of
      None \<Rightarrow> contents (g_id_store s1) = contents (g_id_store s)
    | Some k \<Rightarrow> contents (g_id_store s1) = insert k (contents (g_id_store s)) \<and> k \<notin> contents (g_id_store s) \<and>
        util_valid_container_id (Some k) \<and> (\<exists>j < 10. rand j = Some k))"
    using 1 get_new_id_spec [of rand env 0 10 s r1 s1]
    by (cases r1) (auto simp: get_new_id_def split: if_splits)
  show ?thesis
  proof (cases r1)
    case None
    then show ?thesis using assms(2) 1 sp1 by (auto simp: id_name_manager_add_entry_with_new_id_def)
  next
    case (Some k)
    obtain r2 s2 where 2: "try_add_name e2 s1 (Some n) = (r2, s2)" by fastforce
    obtain r3 s3 where 3: "try_remove_id e3 s2 (Some k) = (r3, s3)" by fastforce
    note sp2 = add_name_spec [OF 2] and sp3 = remove_id_spec [OF 3]
    have undo: "r3" if "\<not> r2"
    proof -
      have "k \<in> contents (g_id_store s2)" using sp1 sp2(1) Some by simp
      then obtain m where "g_id_store s2 = Some m" "smap_search m k \<noteq> None"
        by (auto simp: contents_def split: option.splits)
      with 3 sp1 Some assms(1) smap.remove_fails [of m k] show r3
        by (auto simp: try_remove_id_def map_store_remove_def split: if_splits prod.splits)
    qed
    have "(ok, cid, s') = (if r2 then (True, Some k, s2) else (False, None, s3))"
      using assms(2) 1 2 3 Some by (cases r2) (simp_all add: id_name_manager_add_entry_with_new_id_def)
    then show ?thesis using sp1 sp2 sp3 undo Some by (cases r2) auto
  qed
qed

lemma demo_new_id:
  "id_name_manager_add_entry_with_new_id True (\<lambda>i. Some (if i = 0 then ''a0'' else ''a1'')) (\<lambda>_. env_ok) env_ok env_ok
     (store_of [''a0''] []) (Some ''web'') = (True, Some ''a1'', store_of [''a0'', ''a1''] [''web''])"
  by code_simp

theorem new_id_fresh_witness:
  "\<exists>k j. Some ''a1'' = Some k \<and> j < 10 \<and> (\<lambda>i. Some (if i = (0::nat) then ''a0'' else ''a1'')) j = Some k \<and>
     k \<notin> contents (g_id_store (store_of [''a0''] []))"
  using new_id_fresh [OF _ demo_new_id] by (auto simp: env_ok_def)

end
