(* ===== verification/Util_Atomic.thy ===== *)
theory Util_Atomic
  imports Prelude
begin

text \<open>
  The counters of \<^verbatim>\<open>src/utils/cutils/util_atomic.h\<close>. Each operation holds one global mutex, so it is a
  function of the old value of a \<^verbatim>\<open>uint64_t\<close>, here a \<open>nat\<close> below \<open>2 ^ 64\<close> with the wrap-around written
  out; the result is the returned value with the new content.
\<close>

definition atomic_int_inc :: "nat \<Rightarrow> nat \<times> nat" where
  "atomic_int_inc v = (let v' = (v + 1) mod 2 ^ 64 in (v', v'))"

definition atomic_int_dec_test :: "nat \<Rightarrow> bool \<times> nat" where
  "atomic_int_dec_test v = (let v' = (v + (2 ^ 64 - 1)) mod 2 ^ 64 in (v' = 0, v'))"

definition atomic_int_compare_exchange :: "nat \<Rightarrow> nat \<Rightarrow> nat \<Rightarrow> bool \<times> nat" where
  "atomic_int_compare_exchange v oldval newval = (if v = oldval then (True, newval) else (False, v))"

definition atomic_int_add :: "nat \<Rightarrow> nat \<Rightarrow> nat \<times> nat" where
  "atomic_int_add v x = (v, (v + x) mod 2 ^ 64)"

lemma atomic_inc: "v + 1 < 2 ^ 64 \<Longrightarrow> atomic_int_inc v = (v + 1, v + 1)"
  by (simp add: atomic_int_inc_def)

lemma atomic_dec:
  assumes "0 < v" and "v < 2 ^ 64"
  shows "atomic_int_dec_test v = (v = 1, v - 1)"
proof -
  have "v + (2 ^ 64 - 1) = (v - 1) + 2 ^ 64" using assms by simp
  then have "(v + (2 ^ 64 - 1)) mod 2 ^ 64 = (v - 1) mod 2 ^ 64" by (simp only: mod_add_self2)
  also have "\<dots> = v - 1" using assms by (intro mod_less) simp
  finally show ?thesis using assms by (auto simp: atomic_int_dec_test_def Let_def simp del: power_numeral)
qed

text \<open>A decrement of zero wraps: the object is not freed, and its count is the largest value.\<close>

lemma atomic_dec_zero: "atomic_int_dec_test 0 = (False, 2 ^ 64 - 1)"
  by (simp add: atomic_int_dec_test_def)

end
