(* ===== verification/Containers_Store.thy ===== *)
theory Containers_Store
  imports Id_Name_Manager Util_Atomic
begin

text \<open>
  The registry of containers in \<^verbatim>\<open>src/daemon/modules/container/containers_store.c\<close>: a map from ids to
  containers and an index from names to ids, each behind its own read-write lock, and the reference counts
  of the containers (\<^verbatim>\<open>container_refinc\<close>, \<^verbatim>\<open>container_unref\<close> of \<^verbatim>\<open>container_unix.c\<close>). A container is an address;
  \<open>refs\<close> holds the count of every live one, and an access to an address outside it is a use after free.
  A store of \<open>None\<close> is the NULL pointer before initialisation. In the option monad \<open>None\<close> is undefined
  behaviour; the answers of locks and allocator are the \<open>store_env\<close> of each access.
\<close>

section \<open>State\<close>

record store_env =
  se_lock :: bool
  se_unlock :: bool
  se_copy :: bool
  se_node :: bool
  se_itor :: bool
  se_array :: bool

definition store_env_ok :: store_env where
  "store_env_ok = \<lparr>se_lock = True, se_unlock = True, se_copy = True, se_node = True, se_itor = True, se_array = True\<rparr>"

record registry =
  g_containers_store :: "addr smap option"
  g_indexs :: "string smap option"
  refs :: "addr \<rightharpoonup> nat"

section \<open>Reference counts\<close>

definition container_refinc :: "addr option \<Rightarrow> registry \<Rightarrow> registry option" where
  "container_refinc cont w =
     (case cont of
        None \<Rightarrow> Some w
      | Some c \<Rightarrow> do {
          n \<leftarrow> refs w c;
          Some (w\<lparr>refs := (refs w)(c \<mapsto> snd (atomic_int_inc n))\<rparr>)
        })"

text \<open>\<^verbatim>\<open>container_free\<close> runs when the count reaches zero: the address leaves \<open>refs\<close>.\<close>

definition container_unref :: "addr option \<Rightarrow> registry \<Rightarrow> registry option" where
  "container_unref cont w =
     (case cont of
        None \<Rightarrow> Some w
      | Some c \<Rightarrow> do {
          n \<leftarrow> refs w c;
          let (is_zero, n') = atomic_int_dec_test n;
          Some (w\<lparr>refs := (if is_zero then (refs w)(c := None) else (refs w)(c \<mapsto> n'))\<rparr>)
        })"

section \<open>The name index\<close>

definition name_index_new :: "bool \<Rightarrow> bool \<Rightarrow> bool \<Rightarrow> string smap option" where
  "name_index_new alloc lock_init alloc_map =
     (if \<not> alloc then None else if \<not> lock_init then None else if \<not> alloc_map then None else Some [])"

definition container_name_index_init :: "bool \<Rightarrow> bool \<Rightarrow> bool \<Rightarrow> registry \<Rightarrow> int \<times> registry" where
  "container_name_index_init alloc lock_init alloc_map w =
     (let st = name_index_new alloc lock_init alloc_map; w' = w\<lparr>g_indexs := st\<rparr>
      in if st = None then (-1, w') else (0, w'))"

definition container_name_index_add ::
  "store_env \<Rightarrow> string option \<Rightarrow> string option \<Rightarrow> registry \<Rightarrow> (bool \<times> registry) option" where
  "container_name_index_add e name cid w = do {
     m \<leftarrow> g_indexs w;
     if \<not> se_lock e then Some (False, w)
     else (case (name, cid) of
             (Some n, Some i) \<Rightarrow>
               let (ret, m') = smap_insert (se_copy e) (se_node e) m n i
               in Some (se_unlock e \<and> ret, w\<lparr>g_indexs := Some m'\<rparr>)
           | _ \<Rightarrow> Some (False, w))
   }"

definition container_name_index_rename ::
  "store_env \<Rightarrow> string \<Rightarrow> string \<Rightarrow> string \<Rightarrow> registry \<Rightarrow> (bool \<times> registry) option" where
  "container_name_index_rename e new_name old_name cid w = do {
     m \<leftarrow> g_indexs w;
     if \<not> se_lock e then Some (False, w)
     else
       let (ret, m1) = smap_insert (se_copy e) (se_node e) m new_name cid
       in if \<not> ret then Some (False, w\<lparr>g_indexs := Some m1\<rparr>)
          else (let (ret2, m2) = smap_remove m1 old_name
                in Some (se_unlock e \<and> ret2, w\<lparr>g_indexs := Some m2\<rparr>))
   }"

definition container_name_index_get :: "store_env \<Rightarrow> string option \<Rightarrow> registry \<Rightarrow> string option option" where
  "container_name_index_get e name w =
     (case name of
        None \<Rightarrow> Some None
      | Some n \<Rightarrow> do {
          m \<leftarrow> g_indexs w;
          Some (if \<not> se_lock e then None else smap_search m n)
        })"

definition container_name_index_remove ::
  "store_env \<Rightarrow> string option \<Rightarrow> registry \<Rightarrow> (bool \<times> registry) option" where
  "container_name_index_remove e name w = do {
     m \<leftarrow> g_indexs w;
     if \<not> se_lock e then Some (False, w)
     else (case name of
             None \<Rightarrow> Some (False, w)
           | Some n \<Rightarrow>
               let (ret, m') = smap_remove m n in Some (se_unlock e \<and> ret, w\<lparr>g_indexs := Some m'\<rparr>))
   }"

text \<open>The index is copied, turned around, into a fresh map; \<open>None\<close> is a failed insertion.\<close>

fun invert_entries :: "bool \<Rightarrow> bool \<Rightarrow> string smap \<Rightarrow> string smap \<Rightarrow> string smap option" where
  "invert_entries copy node [] acc = Some acc"
| "invert_entries copy node ((n, i) # m) acc =
     (let (ok, acc') = smap_insert copy node acc i n
      in if \<not> ok then None else invert_entries copy node m acc')"

definition container_name_index_get_all :: "bool \<Rightarrow> store_env \<Rightarrow> registry \<Rightarrow> string smap option option" where
  "container_name_index_get_all alloc_map e w =
     (if \<not> alloc_map then Some None
      else do {
        m \<leftarrow> g_indexs w;
        Some (if \<not> se_lock e then None
              else if length m = 0 then Some []
              else if \<not> se_itor e then None
              else invert_entries (se_copy e) (se_node e) m [])
      })"

section \<open>The container store\<close>

definition memory_store_new :: "bool \<Rightarrow> bool \<Rightarrow> bool \<Rightarrow> addr smap option" where
  "memory_store_new alloc lock_init alloc_map =
     (if \<not> alloc then None else if \<not> lock_init then None else if \<not> alloc_map then None else Some [])"

definition containers_store_init :: "bool \<Rightarrow> bool \<Rightarrow> bool \<Rightarrow> registry \<Rightarrow> int \<times> registry" where
  "containers_store_init alloc lock_init alloc_map w =
     (let st = memory_store_new alloc lock_init alloc_map; w' = w\<lparr>g_containers_store := st\<rparr>
      in if st = None then (-1, w') else (0, w'))"

text \<open>The map's destructor for a value drops the reference the store holds.\<close>

definition memory_store_map_kvfree :: "addr option \<Rightarrow> registry \<Rightarrow> registry option" where
  "memory_store_map_kvfree val w = container_unref val w"

definition containers_store_add ::
  "store_env \<Rightarrow> string option \<Rightarrow> addr option \<Rightarrow> registry \<Rightarrow> (bool \<times> registry) option" where
  "containers_store_add e cid cont w = do {
     m \<leftarrow> g_containers_store w;
     if \<not> se_lock e then Some (False, w)
     else (case (cid, cont) of
             (Some i, Some c) \<Rightarrow>
               let (ret, m') = smap_replace (se_copy e) (se_node e) m i c
               in do {
                 w1 \<leftarrow> (if ret then memory_store_map_kvfree (smap_search m i) w else Some w);
                 Some (se_unlock e \<and> ret, w1\<lparr>g_containers_store := Some m'\<rparr>)
               }
           | _ \<Rightarrow> Some (False, w))
   }"

definition containers_store_remove ::
  "store_env \<Rightarrow> string option \<Rightarrow> registry \<Rightarrow> (bool \<times> registry) option" where
  "containers_store_remove e cid w = do {
     m \<leftarrow> g_containers_store w;
     if \<not> se_lock e then Some (False, w)
     else (case cid of
             None \<Rightarrow> Some (False, w)
           | Some i \<Rightarrow>
               let (ret, m') = smap_remove m i
               in do {
                 w1 \<leftarrow> memory_store_map_kvfree (smap_search m i) w;
                 Some (se_unlock e \<and> ret, w1\<lparr>g_containers_store := Some m'\<rparr>)
               })
   }"

definition containers_store_get_by_id ::
  "store_env \<Rightarrow> string option \<Rightarrow> registry \<Rightarrow> (addr option \<times> registry) option" where
  "containers_store_get_by_id e cid w =
     (case cid of
        None \<Rightarrow> Some (None, w)
      | Some i \<Rightarrow> do {
          m \<leftarrow> g_containers_store w;
          if \<not> se_lock e then Some (None, w)
          else do {
            w1 \<leftarrow> container_refinc (smap_search m i) w;
            Some (smap_search m i, w1)
          }
        })"

definition containers_store_get_by_name ::
  "store_env \<Rightarrow> store_env \<Rightarrow> string option \<Rightarrow> registry \<Rightarrow> (addr option \<times> registry) option" where
  "containers_store_get_by_name e1 e2 name w =
     (if name = None then Some (None, w)
      else do {
        cid \<leftarrow> container_name_index_get e1 name w;
        if cid = None then Some (None, w) else containers_store_get_by_id e2 cid w
      })"

text \<open>The scan for a prefix; \<open>None\<close> is the second match, on which it gives up.\<close>

fun prefix_scan :: "string \<Rightarrow> addr smap \<Rightarrow> addr option \<Rightarrow> addr option option" where
  "prefix_scan prefix [] cont = Some cont"
| "prefix_scan prefix ((container_id, c) # m) cont =
     (if is_prefix prefix container_id
      then (if cont \<noteq> None then None else prefix_scan prefix m (Some c))
      else prefix_scan prefix m cont)"

definition containers_store_get_by_prefix ::
  "store_env \<Rightarrow> string option \<Rightarrow> registry \<Rightarrow> (addr option \<times> registry) option" where
  "containers_store_get_by_prefix e prefix w =
     (case prefix of
        None \<Rightarrow> Some (None, w)
      | Some p \<Rightarrow> do {
          m \<leftarrow> g_containers_store w;
          if \<not> se_lock e then Some (None, w)
          else if \<not> se_itor e then Some (None, w)
          else (case prefix_scan p m None of
                  None \<Rightarrow> Some (None, w)
                | Some cont \<Rightarrow> do { w1 \<leftarrow> container_refinc cont w; Some (cont, w1) })
        })"

text \<open>The three lookups, each with its own accesses: by id, by name (index, then store), by prefix.\<close>

definition containers_store_get ::
  "(nat \<Rightarrow> store_env) \<Rightarrow> string option \<Rightarrow> registry \<Rightarrow> (addr option \<times> registry) option" where
  "containers_store_get e id_or_name w =
     (if id_or_name = None then Some (None, w)
      else do {
        (c1, w1) \<leftarrow> containers_store_get_by_id (e 0) id_or_name w;
        if c1 \<noteq> None then Some (c1, w1)
        else do {
          (c2, w2) \<leftarrow> containers_store_get_by_name (e 1) (e 2) id_or_name w1;
          if c2 \<noteq> None then Some (c2, w2)
          else do {
            (c3, w3) \<leftarrow> containers_store_get_by_prefix (e 3) id_or_name w2;
            if c3 \<noteq> None then Some (c3, w3) else Some (None, w3)
          }
        }
      })"

text \<open>\<open>list_loop\<close> fills \<^verbatim>\<open>conts[i]\<close> for the remaining \<open>n\<close> slots of the array.\<close>

fun list_loop :: "nat \<Rightarrow> addr smap \<Rightarrow> registry \<Rightarrow> (addr list \<times> registry) option" where
  "list_loop n [] w = Some ([], w)"
| "list_loop 0 (x # m) w = Some ([], w)"
| "list_loop (Suc n) (x # m) w = do {
     w1 \<leftarrow> container_refinc (Some (snd x)) w;
     (cs, w2) \<leftarrow> list_loop n m w1;
     Some (snd x # cs, w2)
   }"

text \<open>
  The return code and what is stored through \<^verbatim>\<open>out\<close> (\<open>None\<close>: NULL) and \<^verbatim>\<open>size\<close>, if anything is; \<open>args\<close> says that
  both pointers are given.
\<close>

definition containers_store_list ::
  "bool \<Rightarrow> store_env \<Rightarrow> registry \<Rightarrow> (int \<times> (addr list option \<times> nat) option \<times> registry) option" where
  "containers_store_list args e w =
     (if \<not> args then Some (-1, None, w)
      else do {
        m \<leftarrow> g_containers_store w;
        if \<not> se_lock e then Some (-1, None, w)
        else if length m = 0 then Some (0, Some (None, 0), w)
        else if \<not> se_array e \<or> length m > MAX_MEMORY_SIZE div sizeof_ptr then Some (-1, Some (None, 0), w)
        else if \<not> se_itor e then Some (-1, Some (None, 0), w)
        else do {
          (cs, w1) \<leftarrow> list_loop (length m) m w;
          Some (0, Some (Some cs, length m), w1)
        }
      })"

definition containers_store_list_ids ::
  "(nat \<Rightarrow> bool) \<Rightarrow> store_env \<Rightarrow> registry \<Rightarrow> string block option option" where
  "containers_store_list_ids alloc e w = do {
     m \<leftarrow> g_containers_store w;
     if \<not> se_lock e then Some None
     else if length m = 0 then Some None
     else if \<not> se_itor e then Some None
     else do {
       (ok, arr) \<leftarrow> append_tokens alloc 0 (map fst m) None;
       Some (if ok then arr else None)
     }
   }"

text \<open>
  A new container has one reference, its creator's. \<open>alloc\<close> is the fresh address; when the mutex or the
  events handler cannot be made the container is dropped again.
\<close>

definition container_new ::
  "bool \<Rightarrow> addr option \<Rightarrow> bool \<Rightarrow> bool \<Rightarrow> registry \<Rightarrow> (addr option \<times> registry) option" where
  "container_new args alloc mutex_ok handler_ok w =
     (if \<not> args then Some (None, w)
      else (case alloc of
              None \<Rightarrow> do { w1 \<leftarrow> container_unref None w; Some (None, w1) }
            | Some c \<Rightarrow>
                (let w1 = w\<lparr>refs := (refs w)(c \<mapsto> 1)\<rparr>
                 in if \<not> mutex_ok \<or> \<not> handler_ok then do { w2 \<leftarrow> container_unref (Some c) w1; Some (None, w2) }
                    else Some (Some c, w1))))"

section \<open>Clients\<close>

text \<open>
  Any number of threads use the registry. \<open>held c\<close> counts the references to the container \<open>c\<close> that they
  hold; the store holds one for each entry.
\<close>

record clients =
  reg :: registry
  held :: "addr \<Rightarrow> nat"

datatype client_op =
    New_Container addr
  | Register string addr
  | Get_Id string
  | Get_Prefix string
  | List_All
  | Remove_Id string
  | Unref addr

definition take_refs :: "addr list \<Rightarrow> clients \<Rightarrow> clients" where
  "take_refs cs y = y\<lparr>held := (\<lambda>c. held y c + count_list cs c)\<rparr>"

definition drop_ref :: "addr \<Rightarrow> clients \<Rightarrow> clients" where
  "drop_ref c y = y\<lparr>held := (held y)(c := held y c - 1)\<rparr>"

text \<open>
  A registered container is handed over to the store. A lookup gives the caller a reference to what it
  returns. \<open>None\<close> is undefined behaviour in the called function.
\<close>

fun client_step :: "store_env \<Rightarrow> client_op \<Rightarrow> clients \<Rightarrow> clients option" where
  "client_step e (New_Container c) y = do {
     (r, w) \<leftarrow> container_new True (Some c) (se_lock e) (se_node e) (reg y);
     Some (case r of None \<Rightarrow> y\<lparr>reg := w\<rparr> | Some c \<Rightarrow> take_refs [c] (y\<lparr>reg := w\<rparr>))
   }"
| "client_step e (Register i c) y = do {
     (ok, w) \<leftarrow> containers_store_add e (Some i) (Some c) (reg y);
     Some (if ok then drop_ref c (y\<lparr>reg := w\<rparr>) else y\<lparr>reg := w\<rparr>)
   }"
| "client_step e (Get_Id i) y = do {
     (r, w) \<leftarrow> containers_store_get_by_id e (Some i) (reg y);
     Some (case r of None \<Rightarrow> y\<lparr>reg := w\<rparr> | Some c \<Rightarrow> take_refs [c] (y\<lparr>reg := w\<rparr>))
   }"
| "client_step e (Get_Prefix p) y = do {
     (r, w) \<leftarrow> containers_store_get_by_prefix e (Some p) (reg y);
     Some (case r of None \<Rightarrow> y\<lparr>reg := w\<rparr> | Some c \<Rightarrow> take_refs [c] (y\<lparr>reg := w\<rparr>))
   }"
| "client_step e List_All y = do {
     (rc, out, w) \<leftarrow> containers_store_list True e (reg y);
     Some (case out of Some (Some cs, n) \<Rightarrow> take_refs cs (y\<lparr>reg := w\<rparr>) | _ \<Rightarrow> y\<lparr>reg := w\<rparr>)
   }"
| "client_step e (Remove_Id i) y = do {
     (ok, w) \<leftarrow> containers_store_remove e (Some i) (reg y);
     Some (y\<lparr>reg := w\<rparr>)
   }"
| "client_step e (Unref c) y = do {
     w \<leftarrow> container_unref (Some c) (reg y);
     Some (drop_ref c (y\<lparr>reg := w\<rparr>))
   }"

definition registered :: "registry \<Rightarrow> addr \<Rightarrow> nat" where
  "registered w c = (case g_containers_store w of None \<Rightarrow> 0 | Some m \<Rightarrow> count_list (map snd m) c)"

text \<open>
  What a client may do: only a fresh address is allocated, only a reference that is held is given away,
  and ids are C strings. A held lock can be released, and no count comes near \<open>2 ^ 64\<close>.
\<close>

fun op_allowed :: "client_op \<Rightarrow> clients \<Rightarrow> bool" where
  "op_allowed (New_Container c) y = (refs (reg y) c = None)"
| "op_allowed (Register i c) y = (0 < held y c \<and> no_nul i)"
| "op_allowed (Unref c) y = (0 < held y c)"
| "op_allowed op y = True"

definition references :: "clients \<Rightarrow> addr \<Rightarrow> nat" where
  "references y c = held y c + registered (reg y) c"

definition counts_small :: "clients \<Rightarrow> bool" where
  "counts_small y \<longleftrightarrow> (\<forall>c. references y c + registered (reg y) c + 1 < 2 ^ 64)"

inductive reached :: "clients \<Rightarrow> clients \<Rightarrow> bool" for y0 where
  reached_start: "reached y0 y0"
| reached_step: "reached y0 y \<Longrightarrow> op_allowed op y \<Longrightarrow> se_unlock e \<Longrightarrow> counts_small y \<Longrightarrow>
     client_step e op y = Some y' \<Longrightarrow> reached y0 y'"

text \<open>The invariant: the store is a well-formed map and every count is the number of references.\<close>

definition as_refs :: "(addr \<Rightarrow> nat) \<Rightarrow> addr \<rightharpoonup> nat" where
  "as_refs f = (\<lambda>c. if f c = 0 then None else Some (f c))"

definition refs_exact :: "clients \<Rightarrow> bool" where
  "refs_exact y \<longleftrightarrow> (\<exists>m. g_containers_store (reg y) = Some m \<and> smap_ok m) \<and> refs (reg y) = as_refs (references y)"

section \<open>Counting entries\<close>

lemma count_al_insert:
  "count_list (map snd (al_insert cmp k v m)) c = count_list (map snd m) c + (if v = c then 1 else 0)"
  by (induction m) auto

lemma count_al_update:
  assumes "distinct (map fst m)" and "map_of m k = Some old"
  shows "count_list (map snd (al_update k v m)) c + (if old = c then 1 else 0) =
    count_list (map snd m) c + (if v = c then 1 else 0)"
  using assms
proof (induction m)
  case (Cons x m)
  show ?case
  proof (cases "fst x = k")
    case True
    then have "al_update k v m = m" using Cons.prems(1)
      by (auto simp: al_update_def intro!: map_idI) (metis fst_conv image_eqI)
    then show ?thesis using Cons.prems(2) True by (cases x) (auto simp: al_update_def)
  next
    case False
    then show ?thesis using Cons by (cases x) (auto simp: al_update_def)
  qed
qed simp

lemma count_al_remove:
  assumes "distinct (map fst m)"
  shows "count_list (map snd (al_remove k m)) c + (if map_of m k = Some c then 1 else 0) = count_list (map snd m) c"
  using assms
proof (induction m)
  case (Cons x m)
  show ?case
  proof (cases "fst x = k")
    case True
    then have "al_remove k m = m" using Cons.prems
      by (auto simp: al_remove_def filter_id_conv rev_image_eqI)
    then show ?thesis using True by (cases x) (auto simp: al_remove_def)
  next
    case False
    then show ?thesis using Cons by (cases x) (auto simp: al_remove_def)
  qed
qed (simp add: al_remove_def)

lemma count_pos: "map_of m k = Some c \<Longrightarrow> 0 < count_list (map snd m) c"
  by (metis count_list_0_iff gr0I image_eqI list.set_map map_of_SomeD snd_conv)

lemma prefix_scan_in: "prefix_scan p m a = Some (Some c) \<Longrightarrow> a = Some c \<or> c \<in> snd ` set m"
  by (induction p m a rule: prefix_scan.induct) (auto split: if_splits)

section \<open>Counts under one operation\<close>

lemma refinc_as:
  assumes "refs w = as_refs f" and "0 < f c" and "f c + 1 < 2 ^ 64"
  shows "container_refinc (Some c) w = Some (w\<lparr>refs := as_refs (f(c := f c + 1))\<rparr>)"
proof -
  have "refs w c = Some (f c)" using assms(1,2) by (simp add: as_refs_def)
  moreover have "(refs w)(c \<mapsto> f c + 1) = as_refs (f(c := f c + 1))"
    using assms(1) by (auto simp: as_refs_def fun_eq_iff)
  ultimately show ?thesis using assms(3) by (simp add: container_refinc_def atomic_inc)
qed

lemma unref_as:
  assumes "refs w = as_refs f" and "0 < f c" and "f c < 2 ^ 64"
  shows "container_unref (Some c) w = Some (w\<lparr>refs := as_refs (f(c := f c - 1))\<rparr>)"
proof -
  have "refs w c = Some (f c)" using assms(1,2) by (simp add: as_refs_def)
  moreover have "(if f c = 1 then (refs w)(c := None) else (refs w)(c \<mapsto> f c - 1)) = as_refs (f(c := f c - 1))"
    using assms(1,2) by (auto simp: as_refs_def fun_eq_iff)
  ultimately show ?thesis using atomic_dec [OF assms(2,3)]
    by (cases "f c = 1") (simp_all add: container_unref_def)
qed

lemma list_loop_as:
  assumes "refs w = as_refs f" and "\<forall>c \<in> snd ` set m. 0 < f c"
    and "\<forall>c. f c + count_list (map snd m) c < 2 ^ 64" and "length m \<le> n"
  shows "list_loop n m w = Some (map snd m, w\<lparr>refs := as_refs (\<lambda>c. f c + count_list (map snd m) c)\<rparr>)"
  using assms
proof (induction n m w arbitrary: f rule: list_loop.induct)
  case (3 n x m w)
  let ?c = "snd x" and ?f = "f(snd x := f (snd x) + 1)"
  have "f ?c + 1 < 2 ^ 64" using 3(4) by (auto dest: spec [of _ ?c])
  then have r: "container_refinc (Some ?c) w = Some (w\<lparr>refs := as_refs ?f\<rparr>)"
    using refinc_as [OF 3(2)] 3(3) by simp
  have "list_loop n m (w\<lparr>refs := as_refs ?f\<rparr>) =
      Some (map snd m, w\<lparr>refs := as_refs ?f, refs := as_refs (\<lambda>c. ?f c + count_list (map snd m) c)\<rparr>)"
  proof (subst 3(1) [OF r, of ?f])
    show "\<forall>c \<in> snd ` set m. 0 < ?f c" using 3(3) by simp
    show "\<forall>c. ?f c + count_list (map snd m) c < 2 ^ 64"
    proof
      fix c show "?f c + count_list (map snd m) c < 2 ^ 64" using 3(4) [rule_format, of c] by (auto split: if_splits)
    qed
  qed (use 3(5) in simp_all)
  moreover have "(\<lambda>c. ?f c + count_list (map snd m) c) = (\<lambda>c. f c + count_list (map snd (x # m)) c)"
    by auto
  ultimately show ?case using r by simp
qed auto

lemma refs_exact_get:
  assumes "refs_exact y" and "counts_small y"
  obtains m where "g_containers_store (reg y) = Some m" "smap_ok m" "refs (reg y) = as_refs (references y)"
    "\<And>c. references y c = held y c + count_list (map snd m) c"
    "\<And>c. references y c + count_list (map snd m) c + 1 < 2 ^ 64"
  using assms by (fastforce simp: refs_exact_def counts_small_def references_def registered_def)

text \<open>Handing a reference to something that is alive to a client.\<close>

lemma take_one_exact:
  assumes "refs_exact y" and "counts_small y" and "0 < registered (reg y) c"
  shows "\<exists>w. container_refinc (Some c) (reg y) = Some w \<and> refs_exact (take_refs [c] (y\<lparr>reg := w\<rparr>))"
proof -
  let ?w = "reg y\<lparr>refs := as_refs ((references y)(c := references y c + 1))\<rparr>"
  have "0 < references y c" "references y c + 1 < 2 ^ 64"
    using assms(2,3) by (auto simp: counts_small_def references_def dest: spec [of _ c])
  then have "container_refinc (Some c) (reg y) = Some ?w"
    using refinc_as [of "reg y" "references y" c] assms(1) by (simp add: refs_exact_def)
  moreover have "references (take_refs [c] (y\<lparr>reg := ?w\<rparr>)) = (references y)(c := references y c + 1)"
    by (auto simp: references_def take_refs_def registered_def)
  ultimately show ?thesis using assms(1) by (auto simp: refs_exact_def take_refs_def)
qed

lemma new_exact:
  assumes "refs_exact y" and "refs (reg y) c = None"
  shows "\<exists>y'. client_step e (New_Container c) y = Some y' \<and> refs_exact y'"
proof -
  have z: "references y c = 0" using assms by (auto simp: refs_exact_def as_refs_def split: if_splits)
  let ?w = "reg y\<lparr>refs := (refs (reg y))(c \<mapsto> 1)\<rparr>"
  show ?thesis
  proof (cases "se_lock e \<and> se_node e")
    case True
    have "(refs (reg y))(c \<mapsto> 1) = as_refs ((references y)(c := 1))"
      using assms(1) by (auto simp: refs_exact_def as_refs_def fun_eq_iff)
    moreover have "references (take_refs [c] (y\<lparr>reg := ?w\<rparr>)) = (references y)(c := 1)"
      using z by (auto simp: references_def take_refs_def registered_def)
    ultimately have "refs_exact (take_refs [c] (y\<lparr>reg := ?w\<rparr>))"
      using assms(1) by (auto simp: refs_exact_def take_refs_def)
    then show ?thesis using True by (simp add: container_new_def)
  next
    case False
    have "?w\<lparr>refs := (refs ?w)(c := None)\<rparr> = reg y"
      using assms(2) by (cases "reg y") (auto simp: fun_upd_idem)
    then have "container_unref (Some c) ?w = Some (reg y)"
      using atomic_dec [of 1] by (simp add: container_unref_def)
    then show ?thesis using False assms(1) by (auto simp: container_new_def)
  qed
qed

lemma unref_exact:
  assumes "refs_exact y" and "counts_small y" and "0 < held y c"
  shows "\<exists>y'. client_step e (Unref c) y = Some y' \<and> refs_exact y'"
proof -
  have "0 < references y c" "references y c < 2 ^ 64"
    using assms(2,3) by (auto simp: counts_small_def references_def dest: spec [of _ c])
  then have u: "container_unref (Some c) (reg y) = Some (reg y\<lparr>refs := as_refs ((references y)(c := references y c - 1))\<rparr>)"
    (is "_ = Some ?w") using unref_as assms(1) by (simp add: refs_exact_def)
  have "references (drop_ref c (y\<lparr>reg := ?w\<rparr>)) = (references y)(c := references y c - 1)"
    using assms(3) by (auto simp: references_def drop_ref_def registered_def)
  then show ?thesis using u assms(1) by (auto simp: refs_exact_def drop_ref_def)
qed

lemma references_same [simp]:
  "references (y\<lparr>reg := reg y\<rparr>) = references y"
  "g_containers_store (reg y) = Some m \<Longrightarrow>
    references (y\<lparr>reg := reg y\<lparr>g_containers_store := Some m\<rparr>\<rparr>) = references y"
  by (auto simp: references_def registered_def)

lemma remove_exact:
  assumes "refs_exact y" and "counts_small y"
  shows "\<exists>y'. client_step e (Remove_Id i) y = Some y' \<and> refs_exact y'"
proof -
  obtain m where m: "g_containers_store (reg y) = Some m" "smap_ok m" "refs (reg y) = as_refs (references y)"
    "\<And>c. references y c = held y c + count_list (map snd m) c"
    "\<And>c. references y c + count_list (map snd m) c + 1 < 2 ^ 64" by (rule refs_exact_get [OF assms]) blast
  show ?thesis
  proof (cases "map_of m i")
    case None
    then show ?thesis using m(1) assms(1)
      by (auto simp: containers_store_remove_def smap_remove_def smap_search_def memory_store_map_kvfree_def
          container_unref_def refs_exact_def)
  next
    case (Some c)
    let ?f = "(references y)(c := references y c - 1)" and ?m = "al_remove i m"
    have pos: "0 < references y c" "references y c < 2 ^ 64" using count_pos [OF Some] m(4,5) [of c] by simp_all
    have u: "memory_store_map_kvfree (Some c) (reg y) = Some (reg y\<lparr>refs := as_refs ?f\<rparr>)"
      using unref_as [OF m(3) pos] by (simp add: memory_store_map_kvfree_def)
    let ?w = "reg y\<lparr>refs := as_refs ?f, g_containers_store := Some ?m\<rparr>"
    have "references (y\<lparr>reg := ?w\<rparr>) = ?f"
    proof
      fix d show "references (y\<lparr>reg := ?w\<rparr>) d = ?f d"
        using count_al_remove [OF smap_ok_distinct [OF m(2)], of i d] Some m(4) [of d]
        by (auto simp: references_def registered_def split: if_splits)
    qed
    moreover have "smap_ok ?m" using smap.remove_ok [OF m(2), of i] Some by (simp add: smap_remove_def)
    ultimately have "refs_exact (y\<lparr>reg := ?w\<rparr>)" by (simp add: refs_exact_def)
    then show ?thesis using m(1) u Some assms(1)
      by (auto simp: containers_store_remove_def smap_remove_def smap_search_def)
  qed
qed

lemma register_exact:
  assumes "refs_exact y" and "counts_small y" and "0 < held y c" and "no_nul i" and "se_unlock e"
  shows "\<exists>y'. client_step e (Register i c) y = Some y' \<and> refs_exact y'"
proof -
  obtain m where m: "g_containers_store (reg y) = Some m" "smap_ok m" "refs (reg y) = as_refs (references y)"
    "\<And>c. references y c = held y c + count_list (map snd m) c"
    "\<And>c. references y c + count_list (map snd m) c + 1 < 2 ^ 64" by (rule refs_exact_get [OF assms(1,2)]) blast
  obtain r m' where r: "smap_replace (se_copy e) (se_node e) m i c = (r, m')" by fastforce
  show ?thesis
  proof (cases "se_lock e \<and> r")
    case False
    then have "m' = m" if "se_lock e" using smap.failed_replace [of "se_copy e" "se_node e" m i c] r that by simp
    then show ?thesis using False m(1) r assms(1)
      by (auto simp: containers_store_add_def refs_exact_def)
  next
    case True
    have ok': "smap_ok m'" using smap.replace_ok [OF m(2) assms(4), of "se_copy e" "se_node e" c] r by simp
    let ?g = "case map_of m i of None \<Rightarrow> references y | Some old \<Rightarrow> (references y)(old := references y old - 1)"
    have u: "memory_store_map_kvfree (smap_search m i) (reg y) = Some (reg y\<lparr>refs := as_refs ?g\<rparr>)"
    proof (cases "map_of m i")
      case None
      then show ?thesis using m(3) by (simp add: memory_store_map_kvfree_def container_unref_def smap_search_def)
    next
      case (Some old)
      then have "0 < references y old" "references y old < 2 ^ 64"
        using count_pos [OF Some] m(4,5) [of old] by simp_all
      then show ?thesis using unref_as [OF m(3)] Some by (simp add: memory_store_map_kvfree_def smap_search_def)
    qed
    let ?w = "reg y\<lparr>refs := as_refs ?g, g_containers_store := Some m'\<rparr>"
    have "count_list (map snd m') d + (if map_of m i = Some d then 1 else 0) =
        count_list (map snd m) d + (if c = d then 1 else 0)" for d
      using r True count_al_update [OF smap_ok_distinct [OF m(2)], of i _ c d] count_al_insert [of _ i c m d]
      by (auto simp: smap_replace_def smap_insert_def split: if_splits)
    note cnt = this
    have "references (drop_ref c (y\<lparr>reg := ?w\<rparr>)) = ?g"
    proof
      fix d
      have "map_of m i = Some d \<Longrightarrow> 0 < count_list (map snd m) d" by (rule count_pos)
      then show "references (drop_ref c (y\<lparr>reg := ?w\<rparr>)) d = ?g d"
        using cnt [of d] m(4) [of d] assms(3)
        by (auto simp: references_def registered_def drop_ref_def split: option.splits if_splits)
    qed
    then have "refs_exact (drop_ref c (y\<lparr>reg := ?w\<rparr>))" using ok' by (simp add: refs_exact_def drop_ref_def)
    then show ?thesis using m(1) u r True assms(5) by (simp add: containers_store_add_def)
  qed
qed

lemma list_exact:
  assumes "refs_exact y" and "counts_small y"
  shows "\<exists>y'. client_step e List_All y = Some y' \<and> refs_exact y'"
proof -
  obtain m where m: "g_containers_store (reg y) = Some m" "smap_ok m" "refs (reg y) = as_refs (references y)"
    "\<And>c. references y c = held y c + count_list (map snd m) c"
    "\<And>c. references y c + count_list (map snd m) c + 1 < 2 ^ 64" by (rule refs_exact_get [OF assms]) blast
  let ?w = "reg y\<lparr>refs := as_refs (\<lambda>c. references y c + count_list (map snd m) c)\<rparr>"
  have "\<forall>c \<in> snd ` set m. 0 < references y c"
    using m(4) by (auto simp: count_list_0_iff) (metis count_list_0_iff gr0I image_eqI list.set_map snd_conv)
  moreover have "\<forall>c. references y c + count_list (map snd m) c < 2 ^ 64" using m(5) add_lessD1 by blast
  ultimately have l: "list_loop (length m) m (reg y) = Some (map snd m, ?w)"
    using list_loop_as [OF m(3)] by simp
  have "references (take_refs (map snd m) (y\<lparr>reg := ?w\<rparr>)) = (\<lambda>c. references y c + count_list (map snd m) c)"
    by (auto simp: references_def take_refs_def registered_def)
  then have "refs_exact (take_refs (map snd m) (y\<lparr>reg := ?w\<rparr>))" using m(1,2) by (simp add: refs_exact_def take_refs_def)
  then show ?thesis using m(1) l assms(1) by (auto simp: containers_store_list_def)
qed

lemma get_id_exact:
  assumes "refs_exact y" and "counts_small y"
  shows "\<exists>y'. client_step e (Get_Id i) y = Some y' \<and> refs_exact y'"
proof -
  obtain m where m: "g_containers_store (reg y) = Some m" using assms(1) by (auto simp: refs_exact_def)
  show ?thesis
  proof (cases "se_lock e \<and> map_of m i \<noteq> None")
    case True
    then obtain c where c: "map_of m i = Some c" by blast
    have "0 < registered (reg y) c" using count_pos [OF c] m by (simp add: registered_def)
    from take_one_exact [OF assms this] show ?thesis
      using m True c by (auto simp: containers_store_get_by_id_def smap_search_def)
  next
    case False
    then show ?thesis using m assms(1)
      by (auto simp: containers_store_get_by_id_def smap_search_def container_refinc_def)
  qed
qed

lemma get_prefix_exact:
  assumes "refs_exact y" and "counts_small y"
  shows "\<exists>y'. client_step e (Get_Prefix p) y = Some y' \<and> refs_exact y'"
proof -
  obtain m where m: "g_containers_store (reg y) = Some m" using assms(1) by (auto simp: refs_exact_def)
  show ?thesis
  proof (cases "se_lock e \<and> se_itor e \<and> (\<exists>c. prefix_scan p m None = Some (Some c))")
    case True
    then obtain c where c: "prefix_scan p m None = Some (Some c)" by blast
    have "c \<in> set (map snd m)" using prefix_scan_in [OF c] by simp
    then have "0 < registered (reg y) c" using m by (simp add: registered_def count_list_0_iff flip: neq0_conv)
    from take_one_exact [OF assms this] show ?thesis
      using m True c by (auto simp: containers_store_get_by_prefix_def)
  next
    case False
    then show ?thesis using m assms(1)
      by (cases "prefix_scan p m None"; cases "the (prefix_scan p m None)")
        (auto simp: containers_store_get_by_prefix_def container_refinc_def)
  qed
qed

lemmas step_exact = new_exact register_exact get_id_exact get_prefix_exact list_exact remove_exact unref_exact

lemma client_exact:
  assumes "refs_exact y" and "counts_small y" and "op_allowed op y" and "se_unlock e"
  shows "\<exists>y'. client_step e op y = Some y' \<and> refs_exact y'"
  using assms step_exact by (cases op) (simp_all del: client_step.simps)

lemma reached_exact: "reached y0 y \<Longrightarrow> refs_exact y0 \<Longrightarrow> refs_exact y"
  by (induction rule: reached.induct) (use client_exact in fastforce)+

section \<open>Lookup\<close>

lemma prefix_scan_more:
  "prefix_scan p m (Some c) = (if \<exists>k \<in> fst ` set m. is_prefix p k then None else Some (Some c))"
  by (induction p m "Some c" rule: prefix_scan.induct) auto

lemma prefix_scan_eq:
  assumes "distinct (map fst m)"
  shows "prefix_scan p m None = Some (Some c) \<longleftrightarrow>
    (\<exists>k. is_prefix p k \<and> map_of m k = Some c \<and> (\<forall>k' \<in> fst ` set m. is_prefix p k' \<longrightarrow> k' = k))"
  using assms
proof (induction m)
  case (Cons x m)
  obtain k v where x: "x = (k, v)" by fastforce
  have new: "map_of m k = None" using Cons.prems x by (simp add: map_of_eq_None_iff)
  show ?case
  proof (cases "is_prefix p k")
    case True
    then show ?thesis using x Cons.prems new by (auto simp: prefix_scan_more)
  next
    case False
    then have "prefix_scan p (x # m) None = prefix_scan p m None" using x by simp
    moreover have "map_of (x # m) k' = map_of m k'" if "is_prefix p k'" for k'
      using False that x by auto
    moreover have "(\<forall>k' \<in> fst ` set (x # m). is_prefix p k' \<longrightarrow> k' = l) \<longleftrightarrow>
        (\<forall>k' \<in> fst ` set m. is_prefix p k' \<longrightarrow> k' = l)" for l using False x by auto
    ultimately show ?thesis using Cons.IH Cons.prems by (simp only: distinct.simps list.map cong: conj_cong)
  qed
qed simp

definition named :: "addr smap \<Rightarrow> string smap \<Rightarrow> string \<Rightarrow> addr option" where
  "named m ix q = (case map_of ix q of None \<Rightarrow> None | Some i \<Rightarrow> map_of m i)"

lemma get_by_prefix_eq:
  assumes "g_containers_store w = Some m" and "refs w = as_refs f" and "\<forall>c \<in> snd ` set m. 0 < f c"
    and "\<forall>c. f c + 1 < 2 ^ 64"
  shows "containers_store_get_by_prefix store_env_ok (Some p) w =
    (case prefix_scan p m None of
       Some (Some c) \<Rightarrow> Some (Some c, w\<lparr>refs := as_refs (f(c := f c + 1))\<rparr>)
     | _ \<Rightarrow> Some (None, w))"
proof (cases "\<exists>c. prefix_scan p m None = Some (Some c)")
  case True
  then obtain c where c: "prefix_scan p m None = Some (Some c)" by blast
  have "0 < f c" using prefix_scan_in [OF c] assms(3) by auto
  then show ?thesis using c assms refinc_as [OF assms(2), of c]
    by (simp add: containers_store_get_by_prefix_def store_env_ok_def)
next
  case False
  then show ?thesis using assms(1)
    by (cases "prefix_scan p m None"; cases "the (prefix_scan p m None)")
      (auto simp: containers_store_get_by_prefix_def store_env_ok_def container_refinc_def)
qed

lemma get_by_id_eq:
  assumes "g_containers_store w = Some m" and "refs w = as_refs f" and "\<forall>c \<in> snd ` set m. 0 < f c"
    and "\<forall>c. f c + 1 < 2 ^ 64"
  shows "containers_store_get_by_id store_env_ok (Some i) w =
    (case map_of m i of
       Some c \<Rightarrow> Some (Some c, w\<lparr>refs := as_refs (f(c := f c + 1))\<rparr>)
     | None \<Rightarrow> Some (None, w))"
proof (cases "map_of m i")
  case (Some c)
  then have "0 < f c" using assms(3) map_of_SomeD [OF Some] by force
  then show ?thesis using Some assms refinc_as [OF assms(2), of c]
    by (simp add: containers_store_get_by_id_def store_env_ok_def smap_search_def)
next
  case None
  then show ?thesis using assms(1)
    by (simp add: containers_store_get_by_id_def store_env_ok_def smap_search_def container_refinc_def)
qed

lemma get_by_name_eq:
  assumes "g_containers_store w = Some m" and "g_indexs w = Some ix" and "refs w = as_refs f"
    and "\<forall>c \<in> snd ` set m. 0 < f c" and "\<forall>c. f c + 1 < 2 ^ 64"
  shows "containers_store_get_by_name store_env_ok store_env_ok (Some q) w =
    (case named m ix q of
       Some c \<Rightarrow> Some (Some c, w\<lparr>refs := as_refs (f(c := f c + 1))\<rparr>)
     | None \<Rightarrow> Some (None, w))"
  using assms(2) get_by_id_eq [OF assms(1,3,4,5)]
  by (cases "map_of ix q")
    (simp_all add: containers_store_get_by_name_def container_name_index_get_def store_env_ok_def
      smap_search_def named_def)

section \<open>Properties\<close>

definition registry_start :: clients where
  "registry_start =
     \<lparr>reg = snd (container_name_index_init True True True (snd (containers_store_init True True True
              \<lparr>g_containers_store = None, g_indexs = None, refs = Map.empty\<rparr>))),
      held = (\<lambda>_. 0)\<rparr>"

lemma start_exact: "refs_exact registry_start"
  by (simp add: refs_exact_def registry_start_def container_name_index_init_def containers_store_init_def
      name_index_new_def memory_store_new_def references_def registered_def as_refs_def)

text \<open>
  C3. No container is used after it is freed and none leaks. Starting from the initialised registry, any
  number of clients create, register, look up (by id, by prefix, as a list), remove and drop containers
  in any order, with lock and allocation failures at any call; a client only gives away references it
  holds. In every state that can be reached, the count of a container is exactly the number of
  references held by clients and by the store, a container is freed exactly when there is no reference
  left, and no further call touches a freed container.
\<close>

theorem registry_refcounts:
  assumes "reached registry_start y" and "counts_small y"
  shows "(\<forall>c. 0 < held y c + registered (reg y) c \<longrightarrow> refs (reg y) c = Some (held y c + registered (reg y) c)) \<and>
    (\<forall>c. refs (reg y) c = None \<longleftrightarrow> held y c = 0 \<and> registered (reg y) c = 0) \<and>
    (\<forall>op e. op_allowed op y \<longrightarrow> se_unlock e \<longrightarrow> client_step e op y \<noteq> None)"
proof (intro conjI allI impI)
  have ex: "refs_exact y" using reached_exact [OF assms(1) start_exact] .
  then have r: "refs (reg y) c = (if held y c + registered (reg y) c = 0 then None
      else Some (held y c + registered (reg y) c))" for c
    by (simp add: refs_exact_def as_refs_def references_def)
  show "refs (reg y) c = Some (held y c + registered (reg y) c)" if "0 < held y c + registered (reg y) c" for c
    using that by (simp add: r)
  show "refs (reg y) c = None \<longleftrightarrow> held y c = 0 \<and> registered (reg y) c = 0" for c by (simp add: r)
  show "client_step e op y \<noteq> None" if "op_allowed op y" "se_unlock e" for op e
    using client_exact [OF ex assms(2) that] by auto
qed

definition demo_registry :: "addr smap \<Rightarrow> nat \<Rightarrow> nat \<Rightarrow> clients" where
  "demo_registry m n h = \<lparr>reg = \<lparr>g_containers_store = Some m, g_indexs = Some [], refs = [7 \<mapsto> n]\<rparr>,
     held = (\<lambda>_. 0)(7 := h)\<rparr>"

lemma demo_small: "length m \<le> 1 \<Longrightarrow> h \<le> 1 \<Longrightarrow> counts_small (demo_registry m n h)"
  by (cases m) (auto simp: counts_small_def references_def registered_def demo_registry_def)

lemma start_small: "counts_small registry_start"
  by (simp add: counts_small_def references_def registered_def registry_start_def container_name_index_init_def
      containers_store_init_def name_index_new_def memory_store_new_def)

lemma demo_steps:
  "client_step store_env_ok (New_Container 7) registry_start = Some (demo_registry [] 1 1)"
  "client_step store_env_ok (Register ''a0'' 7) (demo_registry [] 1 1) = Some (demo_registry [(''a0'', 7)] 1 0)"
  "client_step store_env_ok (Get_Prefix ''a'') (demo_registry [(''a0'', 7)] 1 0) = Some (demo_registry [(''a0'', 7)] 2 1)"
  "client_step store_env_ok (Remove_Id ''a0'') (demo_registry [(''a0'', 7)] 2 1) = Some (demo_registry [] 1 1)"
  by (auto simp: registry_start_def demo_registry_def container_name_index_init_def containers_store_init_def
      name_index_new_def memory_store_new_def container_new_def store_env_ok_def take_refs_def drop_ref_def
      containers_store_add_def smap_replace_def smap_insert_def smap_search_def memory_store_map_kvfree_def
      container_unref_def containers_store_get_by_prefix_def container_refinc_def atomic_int_inc_def
      containers_store_remove_def smap_remove_def al_remove_def atomic_dec)

lemma demo_reached: "reached registry_start (demo_registry [(''a0'', 7)] 2 1)"
proof -
  have "reached registry_start (demo_registry [] 1 1)"
    by (rule reached_step [OF reached_start _ _ start_small demo_steps(1)])
      (simp_all add: registry_start_def store_env_ok_def container_name_index_init_def containers_store_init_def
        Let_def)
  then have "reached registry_start (demo_registry [(''a0'', 7)] 1 0)"
    by (rule reached_step [OF _ _ _ demo_small demo_steps(2)])
      (simp_all add: demo_registry_def store_env_ok_def no_nul_def)
  then show ?thesis
    by (rule reached_step [OF _ _ _ demo_small demo_steps(3)]) (simp_all add: store_env_ok_def)
qed

theorem registry_refcounts_witness:
  "refs (reg (demo_registry [(''a0'', 7)] 2 1)) 7 = Some 2 \<and>
    client_step store_env_ok (Unref 7) (demo_registry [(''a0'', 7)] 2 1) \<noteq> None"
proof -
  let ?y = "demo_registry [(''a0'', 7)] 2 1"
  have "counts_small ?y" by (rule demo_small) simp_all
  note safe = registry_refcounts [OF demo_reached this]
  have "op_allowed (Unref 7) ?y" "se_unlock store_env_ok" "held ?y 7 = 1" "registered (reg ?y) 7 = 1"
    by (simp_all add: demo_registry_def store_env_ok_def registered_def)
  then show ?thesis
    using safe [THEN conjunct1, rule_format, of 7] safe [THEN conjunct2, THEN conjunct2, rule_format, of "Unref 7"]
    by simp
qed

text \<open>
  C19. How a container is found. When no lock or allocation fails, a lookup of \<open>q\<close> returns the container
  with the id \<open>q\<close>; if there is none, the one whose name is \<open>q\<close>; if there is none either, the one whose id
  starts with \<open>q\<close>, provided that it is the only one; and otherwise nothing. The returned container, and
  no other, gains one reference.
\<close>

theorem store_get_exact:
  assumes "g_containers_store w = Some m" and "smap_ok m" and "g_indexs w = Some ix"
    and "refs w = as_refs f" and "\<forall>c \<in> snd ` set m. 0 < f c" and "\<forall>c. f c + 1 < 2 ^ 64"
  shows "\<exists>r. containers_store_get (\<lambda>_. store_env_ok) (Some q) w =
      Some (r, case r of None \<Rightarrow> w | Some c \<Rightarrow> w\<lparr>refs := as_refs (f(c := f c + 1))\<rparr>) \<and>
    (\<forall>c. r = Some c \<longleftrightarrow>
       map_of m q = Some c \<or>
       map_of m q = None \<and> named m ix q = Some c \<or>
       map_of m q = None \<and> named m ix q = None \<and>
         (\<exists>k. is_prefix q k \<and> map_of m k = Some c \<and> (\<forall>k' \<in> fst ` set m. is_prefix q k' \<longrightarrow> k' = k)))"
proof -
  note eqs = get_by_id_eq [OF assms(1,4,5,6)] get_by_name_eq [OF assms(1,3-6)] get_by_prefix_eq [OF assms(1,4,5,6)]
  show ?thesis
  proof (cases "map_of m q = None \<and> named m ix q = None")
    case True
    then show ?thesis
      unfolding prefix_scan_eq [OF smap_ok_distinct [OF assms(2)], symmetric]
      by (auto simp: containers_store_get_def eqs split: option.splits)
  next
    case False
    then show ?thesis by (auto simp: containers_store_get_def eqs split: option.splits)
  qed
qed

definition demo_lookup :: registry where
  "demo_lookup = \<lparr>g_containers_store = Some [(''a0'', 7), (''b1'', 8)], g_indexs = Some [(''web'', ''b1'')],
     refs = as_refs (\<lambda>c. if c \<in> {7, 8} then 1 else 0)\<rparr>"

theorem store_get_exact_witness:
  "(\<exists>w. containers_store_get (\<lambda>_. store_env_ok) (Some ''web'') demo_lookup = Some (Some 8, w)) \<and>
   (\<exists>w. containers_store_get (\<lambda>_. store_env_ok) (Some ''a'') demo_lookup = Some (Some 7, w))"
proof -
  let ?m = "[(''a0'', 7), (''b1'', 8)] :: addr smap" and ?ix = "[(''web'', ''b1'')]"
  have d: "g_containers_store demo_lookup = Some ?m" "smap_ok ?m" "g_indexs demo_lookup = Some ?ix"
    "refs demo_lookup = as_refs (\<lambda>c. if c \<in> {7, 8} then 1 else 0)"
    by (simp_all add: demo_lookup_def smap_ok_def char_signed_def char_value_def no_nul_def)
  have "\<forall>c \<in> snd ` set ?m. 0 < (if c \<in> {7, 8 :: addr} then 1 else 0 :: nat)"
    "\<forall>c. (if c \<in> {7, 8 :: addr} then 1 else 0 :: nat) + 1 < 2 ^ 64" by simp_all
  note get = store_get_exact [OF d this]
  obtain r where "containers_store_get (\<lambda>_. store_env_ok) (Some ''web'') demo_lookup = Some (Some 8, r)"
    using get [of "''web''"] by (auto simp: named_def)
  moreover obtain r' where "containers_store_get (\<lambda>_. store_env_ok) (Some ''a'') demo_lookup = Some (Some 7, r')"
    using get [of "''a''"] by (auto simp: named_def split: if_splits)
  ultimately show ?thesis by blast
qed

end
