(* ===== verification/Container_State.thy ===== *)
theory Container_State
  imports Prelude
begin

text \<open>
  The container state of \<^verbatim>\<open>src/daemon/modules/container/container_state.c\<close>: the record of flags
  that says whether a container is created, starting, running, paused, restarting or stopped, its
  setters and getters, and the status derived from the flags. Every setter takes the state pointer
  (\<open>None\<close> for NULL, where the C returns at once) and runs under the state's mutex, so it is one
  atomic update. The strings that \<^verbatim>\<open>util_get_now_time_buffer\<close> writes are the argument \<open>now\<close>.
\<close>

section \<open>Data\<close>

datatype Container_Status =
  CONTAINER_STATUS_UNKNOWN | CONTAINER_STATUS_CREATED | CONTAINER_STATUS_STARTING
| CONTAINER_STATUS_RUNNING | CONTAINER_STATUS_STOPPED | CONTAINER_STATUS_PAUSED
| CONTAINER_STATUS_RESTARTING | CONTAINER_STATUS_MAX_STATE

definition defaultContainerTime :: string where
  "defaultContainerTime = ''0001-01-01T00:00:00Z''"

record pid_ppid_info_t =
  pi_pid :: int
  pi_ppid :: int
  pi_start_time :: nat
  pi_pstart_time :: nat

record defs_health_log_element =
  log_start :: "string option"
  log_end :: "string option"
  log_exit_code :: int
  log_output :: "string option"

record defs_health =
  h_status :: "string option"
  failing_streak :: int
  h_log :: "defs_health_log_element list"

record container_state =
  running :: bool
  paused :: bool
  restarting :: bool
  starting :: bool
  oom_killed :: bool
  removal_inprogress :: bool
  dead :: bool
  has_been_manually_stopped :: bool
  pid :: int
  start_time :: nat
  p_pid :: int
  p_start_time :: nat
  exit_code :: int
  state_error :: "string option"
  started_at :: "string option"
  finished_at :: "string option"
  restart_count :: int
  health :: "defs_health option"

type_synonym state_ptr = "container_state option"

definition zeroed_state :: container_state where
  "zeroed_state = \<lparr>running = False, paused = False, restarting = False, starting = False,
     oom_killed = False, removal_inprogress = False, dead = False,
     has_been_manually_stopped = False, pid = 0, start_time = 0, p_pid = 0, p_start_time = 0,
     exit_code = 0, state_error = None, started_at = None, finished_at = None,
     restart_count = 0, health = None\<rparr>"

section \<open>Construction\<close>

definition container_state_new :: "bool \<Rightarrow> bool \<Rightarrow> bool \<Rightarrow> state_ptr" where
  "container_state_new calloc_outer mutex_init_ok calloc_state =
     (if \<not> calloc_outer then None
      else if \<not> mutex_init_ok then None
      else if \<not> calloc_state then None
      else Some (zeroed_state\<lparr>started_at := Some defaultContainerTime,
                              finished_at := Some defaultContainerTime\<rparr>))"

section \<open>Setters\<close>

definition container_state_set_starting :: "state_ptr \<Rightarrow> state_ptr" where
  [state_defs]: "container_state_set_starting = map_option (\<lambda>s. s\<lparr>starting := True\<rparr>)"

definition container_state_set_dead :: "state_ptr \<Rightarrow> state_ptr" where
  [state_defs]: "container_state_set_dead = map_option (\<lambda>s. s\<lparr>dead := True\<rparr>)"

definition container_state_reset_starting :: "state_ptr \<Rightarrow> state_ptr" where
  [state_defs]: "container_state_reset_starting = map_option (\<lambda>s. s\<lparr>starting := False\<rparr>)"

definition set_running_state ::
  "pid_ppid_info_t option \<Rightarrow> bool \<Rightarrow> string \<Rightarrow> container_state \<Rightarrow> container_state" where
  [state_defs]: "set_running_state pid_info initial now s0 =
     (let s1 = s0\<lparr>state_error := None, running := True, starting := False, restarting := False\<rparr>;
          s2 = (if initial then s1\<lparr>paused := False\<rparr> else s1);
          s3 = s2\<lparr>exit_code := 0, oom_killed := False\<rparr>;
          s4 = (case pid_info of
                  Some i \<Rightarrow> s3\<lparr>pid := pi_pid i, start_time := pi_start_time i,
                              p_pid := pi_ppid i, p_start_time := pi_pstart_time i\<rparr>
                | None \<Rightarrow> s3\<lparr>pid := 0, start_time := 0, p_pid := 0, p_start_time := 0\<rparr>)
      in s4\<lparr>started_at := Some now\<rparr>)"

definition container_state_set_running ::
  "pid_ppid_info_t option \<Rightarrow> bool \<Rightarrow> string \<Rightarrow> state_ptr \<Rightarrow> state_ptr" where
  [state_defs]: "container_state_set_running pid_info initial now =
     map_option (set_running_state pid_info initial now)"

definition container_state_set_stopped :: "int \<Rightarrow> string \<Rightarrow> state_ptr \<Rightarrow> state_ptr" where
  [state_defs]: "container_state_set_stopped code now =
     map_option (\<lambda>s. s\<lparr>running := False, starting := False, restarting := False, paused := False,
       exit_code := code, pid := 0, start_time := 0, p_pid := 0, p_start_time := 0,
       finished_at := Some now\<rparr>)"

definition container_state_set_paused :: "state_ptr \<Rightarrow> state_ptr" where
  [state_defs]: "container_state_set_paused = map_option (\<lambda>s. s\<lparr>paused := True\<rparr>)"

definition container_state_set_oom_killed :: "state_ptr \<Rightarrow> state_ptr" where
  [state_defs]: "container_state_set_oom_killed = map_option (\<lambda>s. s\<lparr>oom_killed := True\<rparr>)"

definition container_state_reset_paused :: "state_ptr \<Rightarrow> state_ptr" where
  [state_defs]: "container_state_reset_paused = map_option (\<lambda>s. s\<lparr>paused := False\<rparr>)"

definition container_restart_update_start_and_finish_time ::
  "string option \<Rightarrow> string \<Rightarrow> state_ptr \<Rightarrow> state_ptr" where
  [state_defs]: "container_restart_update_start_and_finish_time finish_at now =
     map_option (\<lambda>s. s\<lparr>running := True, starting := False, restarting := False, paused := False,
       exit_code := 0, finished_at := finish_at, started_at := Some now\<rparr>)"

definition container_state_set_restarting :: "int \<Rightarrow> string \<Rightarrow> state_ptr \<Rightarrow> state_ptr" where
  [state_defs]: "container_state_set_restarting code now =
     map_option (\<lambda>s. s\<lparr>running := True, starting := False, restarting := True, paused := False,
       pid := 0, start_time := 0, p_pid := 0, p_start_time := 0, exit_code := code,
       finished_at := Some now\<rparr>)"

definition container_state_increase_restart_count :: "state_ptr \<Rightarrow> state_ptr" where
  [state_defs]: "container_state_increase_restart_count =
     map_option (\<lambda>s. s\<lparr>restart_count := wrap32 (restart_count s + 1)\<rparr>)"

definition container_state_reset_restart_count :: "state_ptr \<Rightarrow> state_ptr" where
  [state_defs]: "container_state_reset_restart_count = map_option (\<lambda>s. s\<lparr>restart_count := 0\<rparr>)"

definition container_state_get_restart_count :: "state_ptr \<Rightarrow> int" where
  [state_defs]: "container_state_get_restart_count s =
     (case s of None \<Rightarrow> 0 | Some st \<Rightarrow> restart_count st)"

text \<open>Returns true when the container was already being removed.\<close>

definition container_state_set_removal_in_progress :: "state_ptr \<Rightarrow> bool \<times> state_ptr" where
  [state_defs]: "container_state_set_removal_in_progress s =
     (case s of
        None \<Rightarrow> (False, None)
      | Some st \<Rightarrow> if removal_inprogress st then (True, Some st)
                   else (False, Some (st\<lparr>removal_inprogress := True\<rparr>)))"

definition container_state_reset_removal_in_progress :: "state_ptr \<Rightarrow> state_ptr" where
  [state_defs]: "container_state_reset_removal_in_progress =
     map_option (\<lambda>s. s\<lparr>removal_inprogress := False\<rparr>)"

text \<open>This setter has no NULL check in the source, so it takes the state itself.\<close>

definition container_state_set_error :: "string option \<Rightarrow> container_state \<Rightarrow> container_state" where
  [state_defs]: "container_state_set_error err s =
     (case err of None \<Rightarrow> s | Some e \<Rightarrow> s\<lparr>state_error := Some e\<rparr>)"

definition container_state_get_has_been_manual_stopped :: "state_ptr \<Rightarrow> bool" where
  [state_defs]: "container_state_get_has_been_manual_stopped s =
     (case s of None \<Rightarrow> False | Some st \<Rightarrow> has_been_manually_stopped st)"

definition container_state_set_has_been_manual_stopped :: "state_ptr \<Rightarrow> state_ptr" where
  [state_defs]: "container_state_set_has_been_manual_stopped =
     map_option (\<lambda>s. s\<lparr>has_been_manually_stopped := True\<rparr>)"

definition container_state_reset_has_been_manual_stopped :: "state_ptr \<Rightarrow> state_ptr" where
  [state_defs]: "container_state_reset_has_been_manual_stopped =
     map_option (\<lambda>s. s\<lparr>has_been_manually_stopped := False\<rparr>)"

section \<open>Status\<close>

definition container_state_judge_status :: "state_ptr \<Rightarrow> Container_Status" where
  "container_state_judge_status st =
     (case st of
        None \<Rightarrow> CONTAINER_STATUS_UNKNOWN
      | Some s \<Rightarrow>
          if running s then
            (if paused s then CONTAINER_STATUS_PAUSED
             else if restarting s then CONTAINER_STATUS_RESTARTING
             else CONTAINER_STATUS_RUNNING)
          else if starting s then CONTAINER_STATUS_STARTING
          else (case (started_at s, finished_at s) of
                  (Some b, Some e) \<Rightarrow>
                    if b = defaultContainerTime \<and> e = defaultContainerTime
                    then CONTAINER_STATUS_CREATED else CONTAINER_STATUS_STOPPED
                | _ \<Rightarrow> CONTAINER_STATUS_UNKNOWN))"

primrec status_index :: "Container_Status \<Rightarrow> nat" where
  "status_index CONTAINER_STATUS_UNKNOWN = 0"
| "status_index CONTAINER_STATUS_CREATED = 1"
| "status_index CONTAINER_STATUS_STARTING = 2"
| "status_index CONTAINER_STATUS_RUNNING = 3"
| "status_index CONTAINER_STATUS_STOPPED = 4"
| "status_index CONTAINER_STATUS_PAUSED = 5"
| "status_index CONTAINER_STATUS_RESTARTING = 6"
| "status_index CONTAINER_STATUS_MAX_STATE = 7"

definition container_state_to_string :: "Container_Status \<Rightarrow> string" where
  "container_state_to_string cs =
     (let state_string = [''unknown'', ''inited'', ''starting'', ''running'', ''exited'',
                          ''paused'', ''restarting'']
      in if status_index cs \<ge> 7 then ''unknown'' else state_string ! status_index cs)"

definition container_state_get_status :: "state_ptr \<Rightarrow> Container_Status" where
  "container_state_get_status s =
     (case s of None \<Rightarrow> CONTAINER_STATUS_UNKNOWN
              | Some _ \<Rightarrow> container_state_judge_status s)"

section \<open>Copies\<close>

text \<open>
  \<open>alloc\<close> answers the allocator's calls in the order the function makes them: call 0 is the health
  record, call 1 the log array, call \<open>i + 2\<close> the \<open>i\<close>-th log element. The result is the return code
  and the value stored through \<^verbatim>\<open>dst\<close>, which stays \<open>None\<close> (zeroed memory) unless the copy succeeds.
\<close>

fun dup_health_logs ::
  "(nat \<Rightarrow> bool) \<Rightarrow> nat \<Rightarrow> defs_health_log_element list \<Rightarrow> defs_health_log_element list option" where
  "dup_health_logs alloc i [] = Some []"
| "dup_health_logs alloc i (e # es) =
     (if \<not> alloc (i + 2) then None
      else do {
        rest \<leftarrow> dup_health_logs alloc (Suc i) es;
        Some (\<lparr>log_start = log_start e, log_end = log_end e, log_exit_code = log_exit_code e,
               log_output = log_output e\<rparr> # rest)
      })"

definition container_dup_health_check_status ::
  "(nat \<Rightarrow> bool) \<Rightarrow> defs_health option \<Rightarrow> int \<times> defs_health option" where
  "container_dup_health_check_status alloc src =
     (case src of
        None \<Rightarrow> (0, None)
      | Some h \<Rightarrow>
          if \<not> alloc 0 then (-1, None)
          else if h_log h = [] then
            (0, Some \<lparr>h_status = h_status h, failing_streak = failing_streak h, h_log = []\<rparr>)
          else if \<not> alloc 1 then (-1, None)
          else (case dup_health_logs alloc 0 (h_log h) of
                  None \<Rightarrow> (-1, None)
                | Some ls \<Rightarrow> (0, Some \<lparr>h_status = h_status h, failing_streak = failing_streak h,
                                      h_log = ls\<rparr>)))"

definition time_or_default :: "string option \<Rightarrow> string option" where
  "time_or_default t = (case t of Some x \<Rightarrow> Some x | None \<Rightarrow> Some defaultContainerTime)"

text \<open>The copy for callers: \<open>alloc_state\<close> answers the allocation of the copy itself.\<close>

definition container_dup_state ::
  "bool \<Rightarrow> (nat \<Rightarrow> bool) \<Rightarrow> state_ptr \<Rightarrow> state_ptr" where
  "container_dup_state alloc_state alloc sp =
     (case sp of
        None \<Rightarrow> None
      | Some s \<Rightarrow>
          if \<not> alloc_state then None
          else
            (let c = zeroed_state\<lparr>pid := pid s, oom_killed := oom_killed s, dead := dead s,
                       paused := paused s, running := running s, restarting := restarting s,
                       removal_inprogress := removal_inprogress s, starting := starting s,
                       exit_code := exit_code s,
                       started_at := time_or_default (started_at s),
                       finished_at := time_or_default (finished_at s),
                       state_error := state_error s\<rparr>;
                 (rc, hc) = container_dup_health_check_status alloc (health s)
             in if rc \<noteq> 0 then None
                else Some (c\<lparr>health := hc, restart_count := restart_count s\<rparr>)))"

record container_inspect_state =
  is_status :: string
  is_running :: bool
  is_paused :: bool
  is_restarting :: bool
  is_oom_killed :: bool
  is_pid :: int
  is_exit_code :: int
  is_started_at :: "string option"
  is_finished_at :: "string option"
  is_error :: "string option"
  is_health :: "defs_health option"

text \<open>
  \<open>oom_monitor\<close> says whether the code was built with \<^verbatim>\<open>ENABLE_OOM_MONITOR\<close>; without it the field
  keeps its zero.
\<close>

definition container_state_to_inspect_state ::
  "bool \<Rightarrow> bool \<Rightarrow> (nat \<Rightarrow> bool) \<Rightarrow> state_ptr \<Rightarrow> container_inspect_state option" where
  "container_state_to_inspect_state oom_monitor alloc_state alloc sp =
     (case sp of
        None \<Rightarrow> None
      | Some s \<Rightarrow>
          if \<not> alloc_state then None
          else
            (let (rc, hc) = container_dup_health_check_status alloc (health s)
             in if rc \<noteq> 0 then None
                else Some \<lparr>is_status = container_state_to_string (container_state_judge_status (Some s)),
                           is_running = running s, is_paused = paused s,
                           is_restarting = restarting s,
                           is_oom_killed = (oom_monitor \<and> oom_killed s),
                           is_pid = pid s, is_exit_code = exit_code s,
                           is_started_at = time_or_default (started_at s),
                           is_finished_at = time_or_default (finished_at s),
                           is_error = state_error s, is_health = hc\<rparr>))"

section \<open>Getters\<close>

definition container_state_get_exitcode :: "state_ptr \<Rightarrow> int" where
  [state_defs]: "container_state_get_exitcode s =
     (case s of None \<Rightarrow> 0 | Some st \<Rightarrow> exit_code st mod 2 ^ 32)"

definition container_is_running :: "state_ptr \<Rightarrow> bool" where
  [state_defs]: "container_is_running s = (case s of None \<Rightarrow> False | Some st \<Rightarrow> running st)"

definition container_is_restarting :: "state_ptr \<Rightarrow> bool" where
  [state_defs]: "container_is_restarting s = (case s of None \<Rightarrow> False | Some st \<Rightarrow> restarting st)"

definition container_is_paused :: "state_ptr \<Rightarrow> bool" where
  [state_defs]: "container_is_paused s = (case s of None \<Rightarrow> False | Some st \<Rightarrow> paused st)"

definition container_is_removal_in_progress :: "state_ptr \<Rightarrow> bool" where
  [state_defs]: "container_is_removal_in_progress s =
     (case s of None \<Rightarrow> False | Some st \<Rightarrow> removal_inprogress st)"

definition container_is_dead :: "state_ptr \<Rightarrow> bool" where
  [state_defs]: "container_is_dead s = (case s of None \<Rightarrow> False | Some st \<Rightarrow> dead st)"

definition container_state_get_pid :: "state_ptr \<Rightarrow> int" where
  [state_defs]: "container_state_get_pid s = (case s of None \<Rightarrow> 0 | Some st \<Rightarrow> pid st)"

definition container_state_get_started_at :: "state_ptr \<Rightarrow> string option" where
  [state_defs]: "container_state_get_started_at s =
     (case s of None \<Rightarrow> None | Some st \<Rightarrow> started_at st)"

definition container_is_valid_state_string :: "string option \<Rightarrow> bool" where
  "container_is_valid_state_string st =
     (case st of
        None \<Rightarrow> False
      | Some s \<Rightarrow>
          if s \<noteq> ''paused'' \<and> s \<noteq> ''restarting'' \<and> s \<noteq> ''running'' \<and> s \<noteq> ''dead''
             \<and> s \<noteq> ''created'' \<and> s \<noteq> ''exited'' then False
          else True)"

section \<open>What the status says about the flags\<close>

definition state_consistent :: "container_state \<Rightarrow> bool" where
  "state_consistent s \<longleftrightarrow>
     (paused s \<longrightarrow> running s \<and> \<not> restarting s) \<and>
     (restarting s \<longrightarrow> running s \<and> pid s = 0) \<and>
     (\<not> running s \<longrightarrow> pid s = 0 \<and> p_pid s = 0 \<and> start_time s = 0 \<and> p_start_time s = 0) \<and>
     started_at s \<noteq> None \<and> finished_at s \<noteq> None"

text \<open>Several threads try to take over the removal of a container, one after the other under its mutex.\<close>

fun removal_attempts :: "nat \<Rightarrow> state_ptr \<Rightarrow> bool list \<times> state_ptr" where
  "removal_attempts 0 s = ([], s)"
| "removal_attempts (Suc n) s =
     (let (b, s1) = container_state_set_removal_in_progress s;
          (bs, s2) = removal_attempts n s1
      in (b # bs, s2))"

lemma dup_health_logs_eq: "dup_health_logs alloc i es = Some ls \<Longrightarrow> ls = es"
  by (induction es arbitrary: i ls) (auto split: if_splits Option.bind_splits)

text \<open>A health record is copied whole or not at all.\<close>

lemma dup_health_whole:
  assumes "container_dup_health_check_status alloc src = (rc, dst)"
  shows "(rc = 0 \<and> dst = src) \<or> (rc = -1 \<and> dst = None)"
  using assms
  by (auto simp: container_dup_health_check_status_def dest: dup_health_logs_eq
      split: option.splits if_splits)

lemma dup_health_logs_all: "(\<And>j. alloc j) \<Longrightarrow> dup_health_logs alloc i es = Some es"
  by (induction es arbitrary: i) simp_all

lemma dup_health_succeeds:
  "(\<And>i. alloc i) \<Longrightarrow> container_dup_health_check_status alloc src = (0, src)"
  by (auto simp: container_dup_health_check_status_def dup_health_logs_all split: option.splits)

lemma removal_attempts_taken:
  "removal_inprogress s \<Longrightarrow> removal_attempts n (Some s) = (replicate n True, Some s)"
  by (induction n) (simp_all add: state_defs)

section \<open>Properties\<close>





end
