(* ===== verification/Restart_Manager.thy ===== *)
theory Restart_Manager
  imports Util_Atomic
begin

text \<open>
  The restart manager of \<^verbatim>\<open>src/daemon/modules/container/restart_manager/restartmanager.c\<close>: the
  restart policy, the failure count, the back-off delay and the cancellation flag of one container.
  Times are nanoseconds. The reference count is the \<^verbatim>\<open>uint64_t\<close> of the source; an object whose
  count reaches zero is freed, which the model shows as \<open>None\<close>.
\<close>

section \<open>Constants and data\<close>

definition Time_Milli :: int where "Time_Milli = 1000 * 1000"
definition Time_Second :: int where "Time_Second = 1000 * Time_Milli"
definition Time_Minute :: int where "Time_Minute = 60 * Time_Second"

definition backoffMultipulier :: int where "backoffMultipulier = 2"
definition defaultTimeout :: int where "defaultTimeout = 100 * Time_Milli"
definition maxRestartTimeout :: int where "maxRestartTimeout = Time_Minute"

lemmas time_defs = Time_Milli_def Time_Second_def Time_Minute_def backoffMultipulier_def
  defaultTimeout_def maxRestartTimeout_def

record host_config_restart_policy =
  rp_name :: "string option"
  maximum_retry_count :: int

record restart_manager_t =
  init_mutex :: bool
  init_wait_cancel_con :: bool
  rm_refcnt :: nat
  policy :: "host_config_restart_policy option"
  failure_count :: int
  rm_timeout :: int
  active :: bool
  canceled :: bool

definition zeroed_policy :: host_config_restart_policy where
  "zeroed_policy = \<lparr>rp_name = None, maximum_retry_count = 0\<rparr>"

definition zeroed_rm :: restart_manager_t where
  "zeroed_rm = \<lparr>init_mutex = False, init_wait_cancel_con = False, rm_refcnt = 0, policy = None,
     failure_count = 0, rm_timeout = 0, active = False, canceled = False\<rparr>"

section \<open>Operations\<close>

text \<open>
  \<open>alloc_rm\<close>, \<open>mutex_ok\<close>, \<open>cond_ok\<close> and \<open>alloc_policy\<close> answer the four calls that can fail, in the
  order of the source.
\<close>

definition restart_manager_new ::
  "bool \<Rightarrow> bool \<Rightarrow> bool \<Rightarrow> bool \<Rightarrow> host_config_restart_policy option \<Rightarrow> int
     \<Rightarrow> restart_manager_t option" where
  "restart_manager_new alloc_rm mutex_ok cond_ok alloc_policy p fcount =
     (if \<not> alloc_rm then None
      else if \<not> mutex_ok then None
      else if \<not> cond_ok then None
      else if \<not> alloc_policy then None
      else Some (zeroed_rm\<lparr>init_mutex := True, init_wait_cancel_con := True, rm_refcnt := 1,
             policy := Some (case p of None \<Rightarrow> zeroed_policy
                                     | Some q \<Rightarrow> \<lparr>rp_name = rp_name q,
                                                 maximum_retry_count = maximum_retry_count q\<rparr>),
             failure_count := fcount\<rparr>))"

definition restart_manager_refinc :: "restart_manager_t option \<Rightarrow> restart_manager_t option" where
  "restart_manager_refinc = map_option (\<lambda>rm. rm\<lparr>rm_refcnt := snd (atomic_int_inc (rm_refcnt rm))\<rparr>)"

definition restart_manager_unref :: "restart_manager_t option \<Rightarrow> restart_manager_t option" where
  "restart_manager_unref p =
     (case p of
        None \<Rightarrow> None
      | Some rm \<Rightarrow>
          (let (is_zero, n) = atomic_int_dec_test (rm_refcnt rm)
           in if \<not> is_zero then Some (rm\<lparr>rm_refcnt := n\<rparr>) else None))"

definition restart_manager_set_policy ::
  "bool \<Rightarrow> restart_manager_t option \<Rightarrow> host_config_restart_policy option
     \<Rightarrow> int \<times> restart_manager_t option" where
  "restart_manager_set_policy alloc p pol =
     (case (p, pol) of
        (Some rm, Some q) \<Rightarrow>
          if \<not> alloc then (-1, Some rm)
          else (0, Some (rm\<lparr>policy := Some \<lparr>rp_name = rp_name q,
                                          maximum_retry_count = maximum_retry_count q\<rparr>\<rparr>))
      | _ \<Rightarrow> (-1, p))"

definition restart_manager_set_items :: "restart_manager_t \<Rightarrow> int \<Rightarrow> int \<Rightarrow> restart_manager_t" where
  "restart_manager_set_items rm0 ecode exec_duration =
     (let rm1 = (if ecode \<noteq> 0 then rm0\<lparr>failure_count := wrap32 (failure_count rm0 + 1)\<rparr>
                 else rm0\<lparr>failure_count := 0\<rparr>);
          rm2 = (if exec_duration \<ge> 10 then rm1\<lparr>rm_timeout := 0\<rparr> else rm1);
          rm3 = (if rm_timeout rm2 = 0 then rm2\<lparr>rm_timeout := defaultTimeout\<rparr>
                 else if rm_timeout rm2 < maxRestartTimeout
                      then rm2\<lparr>rm_timeout := rm_timeout rm2 * backoffMultipulier\<rparr>
                 else rm2)
      in if rm_timeout rm3 > maxRestartTimeout then rm3\<lparr>rm_timeout := maxRestartTimeout\<rparr> else rm3)"

text \<open>
  The code reads \<^verbatim>\<open>rm->policy->name\<close> through two pointers; its caller has checked both, and the
  model answers \<open>None\<close> where the C would read through a NULL pointer.
\<close>

definition should_be_restart :: "restart_manager_t \<Rightarrow> int \<Rightarrow> bool \<Rightarrow> bool option" where
  "should_be_restart rm ecode manually_stopped = do {
     pol \<leftarrow> policy rm;
     nm \<leftarrow> rp_name pol;
     Some (if nm = ''always'' then True
           else if nm = ''unless-stopped'' \<and> \<not> manually_stopped then True
           else if nm = ''on-failure'' then
             (if maximum_retry_count pol = 0 \<or> failure_count rm \<le> maximum_retry_count pol
              then ecode \<noteq> 0 else False)
           else if nm = ''on-reboot'' then ecode = 129
           else False)
   }"

text \<open>
  The part of \<^verbatim>\<open>restart_manager_should_restart\<close> that works on the manager, once the container and its
  manager have been found: the answer, the value stored through \<^verbatim>\<open>timeout\<close> (\<open>None\<close> when nothing is
  stored) and the manager afterwards.
\<close>

definition rm_decide ::
  "restart_manager_t \<Rightarrow> int \<Rightarrow> bool \<Rightarrow> int \<Rightarrow> bool \<times> int option \<times> restart_manager_t" where
  "rm_decide rm ecode manually_stopped exec_duration =
     (case policy rm of
        None \<Rightarrow> (False, None, rm)
      | Some pol \<Rightarrow>
          (case rp_name pol of
             None \<Rightarrow> (False, None, rm)
           | Some _ \<Rightarrow>
               if canceled rm then (False, None, rm)
               else
                 (let rm' = restart_manager_set_items rm ecode exec_duration;
                      restart = (case should_be_restart rm' ecode manually_stopped of
                                   Some b \<Rightarrow> b | None \<Rightarrow> False)
                  in (restart, if restart then Some (rm_timeout rm') else None, rm'))))"

definition restart_manager_cancel ::
  "restart_manager_t option \<Rightarrow> int \<times> restart_manager_t option" where
  "restart_manager_cancel p =
     (case p of None \<Rightarrow> (-1, None) | Some rm \<Rightarrow> (0, Some (rm\<lparr>canceled := True\<rparr>)))"

text \<open>
  The deadline a waiting restart thread computes from the clock reading \<open>(tv_sec, tv_nsec)\<close>;
  \<open>None\<close> when the clock cannot be read.
\<close>

definition wait_deadline :: "(int \<times> int) option \<Rightarrow> int \<Rightarrow> (int \<times> int) option" where
  "wait_deadline clock timeout =
     (let sec = timeout div Time_Second;
          nsec = timeout - sec * Time_Second
      in case clock of
           None \<Rightarrow> None
         | Some (tv_sec, tv_nsec) \<Rightarrow>
             (let nsec' = nsec + tv_nsec
              in Some (tv_sec + (sec + nsec' div Time_Second), nsec' mod Time_Second)))"

text \<open>
  \<open>timedwait\<close> is \<^verbatim>\<open>pthread_cond_timedwait\<close> on the computed deadline: 0 when another thread
  signalled the condition, an error number (\<^verbatim>\<open>ETIMEDOUT\<close>) otherwise.
\<close>

definition restart_manager_wait_cancel_cond_wait ::
  "(int \<times> int) option \<Rightarrow> (int \<times> int \<Rightarrow> int) \<Rightarrow> int \<Rightarrow> int" where
  "restart_manager_wait_cancel_cond_wait clock timedwait timeout =
     (case wait_deadline clock timeout of None \<Rightarrow> -1 | Some ts \<Rightarrow> timedwait ts)"

definition restart_manager_wait_cancel ::
  "(int \<times> int) option \<Rightarrow> (int \<times> int \<Rightarrow> int) \<Rightarrow> restart_manager_t option \<Rightarrow> int \<Rightarrow> int" where
  "restart_manager_wait_cancel clock timedwait p timeout =
     (case p of
        None \<Rightarrow> -1
      | Some rm \<Rightarrow> if canceled rm then 0
                   else restart_manager_wait_cancel_cond_wait clock timedwait timeout)"

section \<open>Reference definitions\<close>

text \<open>
  The reference definition of the delay: the \<open>n\<close>-th quick exit in a row (counting from 0) waits
  100 ms doubled \<open>n\<close> times, capped at one minute.
\<close>

definition backoff :: "nat \<Rightarrow> int" where
  "backoff n = min (defaultTimeout * 2 ^ n) maxRestartTimeout"

fun exits :: "restart_manager_t \<Rightarrow> (int \<times> int) list \<Rightarrow> restart_manager_t" where
  "exits rm [] = rm"
| "exits rm ((e, d) # es) = exits (restart_manager_set_items rm e d) es"

text \<open>Any number of owners take and drop their references, in any order.\<close>

datatype ref_op = Ref | Unref

fun ref_run :: "ref_op list \<Rightarrow> restart_manager_t option \<Rightarrow> restart_manager_t option" where
  "ref_run [] p = p"
| "ref_run (Ref # os) p = ref_run os (restart_manager_refinc p)"
| "ref_run (Unref # os) p = ref_run os (restart_manager_unref p)"

text \<open>The number of references held after each prefix of the sequence; 0 is the end of the object.\<close>

fun refs_after :: "ref_op list \<Rightarrow> nat \<Rightarrow> nat" where
  "refs_after [] n = n"
| "refs_after (Ref # os) n = (if n = 0 then 0 else refs_after os (n + 1))"
| "refs_after (Unref # os) n = (if n = 0 then 0 else refs_after os (n - 1))"

section \<open>Reference counts\<close>

lemma refinc_unref:
  assumes "0 < rm_refcnt rm" and "rm_refcnt rm + 1 < 2 ^ 64"
  shows "restart_manager_unref (restart_manager_refinc (Some rm)) = Some rm"
proof -
  have "(rm_refcnt rm + 1 + (2 ^ 64 - 1)) mod (2 ^ 64) = rm_refcnt rm mod (2 ^ 64)"
    by (metis (no_types, lifting) add.assoc le_add_diff_inverse mod_add_self2 one_le_numeral one_le_power)
  with assms show ?thesis
    by (simp add: restart_manager_unref_def restart_manager_refinc_def atomic_int_dec_test_def atomic_int_inc_def)
qed

lemma unref_last: "restart_manager_unref (Some (rm\<lparr>rm_refcnt := 1\<rparr>)) = None"
  by (simp add: restart_manager_unref_def atomic_int_dec_test_def)

section \<open>The back-off delay\<close>

lemma set_items_timeout_bounds:
  assumes "0 \<le> rm_timeout rm"
  shows "0 < rm_timeout (restart_manager_set_items rm e d)"
    and "rm_timeout (restart_manager_set_items rm e d) \<le> maxRestartTimeout"
  using assms by (auto simp: restart_manager_set_items_def Let_def time_defs)

lemma exits_append: "exits rm (xs @ ys) = exits (exits rm xs) ys"
  by (induction rm xs rule: exits.induct) simp_all

lemma backoff_le_max: "backoff n \<le> maxRestartTimeout"
  by (simp add: backoff_def)

lemma backoff_Suc:
  "(if backoff n < maxRestartTimeout then min (backoff n * 2) maxRestartTimeout else backoff n)
     = backoff (Suc n)"
proof (cases "defaultTimeout * 2 ^ n < maxRestartTimeout")
  case True
  then show ?thesis by (simp add: backoff_def)
next
  case False
  moreover have "defaultTimeout * 2 ^ n \<le> defaultTimeout * 2 ^ Suc n"
    by (simp add: time_defs)
  ultimately show ?thesis by (simp add: backoff_def)
qed

lemma set_items_quick:
  assumes "rm_timeout rm = backoff n" and "d < 10"
  shows "rm_timeout (restart_manager_set_items rm e d) = backoff (Suc n)"
proof -
  have "backoff n \<noteq> 0" by (simp add: backoff_def time_defs min_def)
  with assms show ?thesis
    using backoff_Suc [of n] backoff_le_max [of n]
    by (auto simp: restart_manager_set_items_def Let_def min_def backoffMultipulier_def
        split: if_splits)
qed

lemma set_items_first:
  "rm_timeout rm = 0 \<or> d \<ge> 10 \<Longrightarrow> rm_timeout (restart_manager_set_items rm e d) = backoff 0"
  by (auto simp: restart_manager_set_items_def Let_def backoff_def time_defs)

lemma exits_quick:
  assumes "\<forall>(e, d) \<in> set es. d < 10" and "rm_timeout rm = backoff n"
  shows "rm_timeout (exits rm es) = backoff (n + length es)"
  using assms
proof (induction rm es arbitrary: n rule: exits.induct)
  case (2 rm e d es)
  from "2.prems" have "rm_timeout (restart_manager_set_items rm e d) = backoff (Suc n)"
    by (intro set_items_quick) auto
  with "2.IH" [of "Suc n"] "2.prems" show ?case by simp
qed simp

section \<open>The failure count\<close>

lemma set_items_failure_count:
  "failure_count (restart_manager_set_items rm e d) =
     (if e \<noteq> 0 then wrap32 (failure_count rm + 1) else 0)"
  by (simp add: restart_manager_set_items_def Let_def)

lemma set_items_policy [simp]:
  "policy (restart_manager_set_items rm e d) = policy rm"
  "canceled (restart_manager_set_items rm e d) = canceled rm"
  "rm_refcnt (restart_manager_set_items rm e d) = rm_refcnt rm"
  by (simp_all add: restart_manager_set_items_def Let_def)

lemma exits_kept:
  "policy (exits rm es) = policy rm" "canceled (exits rm es) = canceled rm"
  by (induction rm es rule: exits.induct) simp_all

lemma exits_failure_count:
  assumes "\<forall>(e, d) \<in> set es. e \<noteq> 0" and "INT_MIN \<le> failure_count rm"
    and "failure_count rm + int (length es) \<le> INT_MAX"
  shows "failure_count (exits rm es) = failure_count rm + int (length es)"
  using assms
proof (induction rm es rule: exits.induct)
  case (2 rm e d es)
  then show ?case by (auto simp: set_items_failure_count)
qed simp

lemma rm_decide_canceled: "canceled rm \<Longrightarrow> rm_decide rm e m d = (False, None, rm)"
  by (simp add: rm_decide_def split: option.splits)

lemma unref_eq:
  assumes "0 < rm_refcnt rm" and "rm_refcnt rm < 2 ^ 64"
  shows "restart_manager_unref (Some rm) =
    (if rm_refcnt rm = 1 then None else Some (rm\<lparr>rm_refcnt := rm_refcnt rm - 1\<rparr>))"
  using assms by (simp add: restart_manager_unref_def atomic_dec)

lemma ref_run_None [simp]: "ref_run os None = None"
proof (induction os)
  case (Cons x os)
  then show ?case by (cases x) (simp_all add: restart_manager_refinc_def restart_manager_unref_def)
qed simp

lemma refs_after_0 [simp]: "refs_after os 0 = 0"
proof (cases os)
  case (Cons x xs)
  then show ?thesis by (cases x) simp_all
qed simp

lemma ref_run_eq:
  assumes "0 < rm_refcnt rm" and "rm_refcnt rm + length os < 2 ^ 64"
  shows "ref_run os (Some rm) =
    (if refs_after os (rm_refcnt rm) = 0 then None
     else Some (rm\<lparr>rm_refcnt := refs_after os (rm_refcnt rm)\<rparr>))"
  using assms
proof (induction os arbitrary: rm)
  case (Cons x os)
  show ?case
  proof (cases x)
    case Ref
    with Cons.prems Cons.IH [of "rm\<lparr>rm_refcnt := rm_refcnt rm + 1\<rparr>"] show ?thesis
      by (simp add: restart_manager_refinc_def atomic_int_inc_def)
  next
    case Unref
    with Cons.prems Cons.IH [of "rm\<lparr>rm_refcnt := rm_refcnt rm - 1\<rparr>"] unref_eq [of rm] show ?thesis
      by (simp split: if_splits)
  qed
qed simp

section \<open>Properties\<close>

text \<open>
  C30. Exponential back-off. From a manager that has not waited yet (timeout 0), after any run of
  \<open>n + 1\<close> container exits that each came within ten seconds of the start, whatever their exit codes,
  the restart delay is exactly 100 ms doubled \<open>n\<close> times and capped at one minute.
\<close>

theorem backoff_after_quick_exits:
  assumes "rm_timeout rm = 0" and "\<forall>(e, d) \<in> set es. d < 10" and "es \<noteq> []"
  shows "rm_timeout (exits rm es) = min (100 * Time_Milli * 2 ^ (length es - 1)) (1 * Time_Minute)"
proof -
  obtain e d es' where es: "es = (e, d) # es'" using assms(3) by (cases es) auto
  have "rm_timeout (exits (restart_manager_set_items rm e d) es') = backoff (0 + length es')"
    by (rule exits_quick) (use assms es set_items_first [of rm d e] in auto)
  then show ?thesis by (simp add: es backoff_def defaultTimeout_def maxRestartTimeout_def)
qed

theorem backoff_after_quick_exits_witness:
  "rm_timeout (exits zeroed_rm [(1, 0), (137, 3), (0, 9)]) = 400 * Time_Milli"
  using backoff_after_quick_exits [of zeroed_rm "[(1, 0), (137, 3), (0, 9)]"]
  by (simp add: zeroed_rm_def Time_Minute_def Time_Second_def Time_Milli_def)

text \<open>
  C31. The on-failure policy gives up. With a maximum of \<open>k > 0\<close> retries and no failure counted yet,
  after \<open>n\<close> failed exits the next failed exit restarts the container exactly while \<open>n + 1 \<le> k\<close>; so
  exactly \<open>k\<close> restarts are made (for counts that fit a C int).
\<close>

theorem on_failure_gives_up:
  assumes "policy rm = Some \<lparr>rp_name = Some ''on-failure'', maximum_retry_count = k\<rparr>" and "0 < k"
    and "\<not> canceled rm" and "failure_count rm = 0"
    and "\<forall>(e, d) \<in> set es. e \<noteq> 0" and "e \<noteq> 0" and "int (length es) < INT_MAX"
  shows "fst (rm_decide (exits rm es) e stopped d) \<longleftrightarrow> int (length es) + 1 \<le> k"
proof -
  have "failure_count (exits rm es) = int (length es)"
    using exits_failure_count [of es rm] assms by (simp add: INT_MIN_def)
  moreover have "wrap32 (int (length es) + 1) = int (length es) + 1"
    using assms(7) by (intro wrap32_id) (simp_all add: INT_MIN_def INT_MAX_def)
  ultimately show ?thesis
    using assms by (simp add: rm_decide_def Let_def should_be_restart_def set_items_failure_count exits_kept)
qed

definition retry_rm :: restart_manager_t where
  "retry_rm = zeroed_rm\<lparr>policy := Some \<lparr>rp_name = Some ''on-failure'', maximum_retry_count = 2\<rparr>\<rparr>"

theorem on_failure_gives_up_witness:
  "fst (rm_decide (exits retry_rm [(1, 5)]) 1 False 5) \<and>
   \<not> fst (rm_decide (exits retry_rm [(1, 5), (2, 30)]) 1 False 5)"
  using on_failure_gives_up [of retry_rm 2 "[(1, 5)]" 1 False 5]
    on_failure_gives_up [of retry_rm 2 "[(1, 5), (2, 30)]" 1 False 5]
  by (simp add: retry_rm_def zeroed_rm_def INT_MAX_def)

text \<open>
  C32. Cancelling is final: once a restart manager has been cancelled, no exit, whatever its code, its
  duration and the policy in force, makes it answer restart, and a thread that waits out a restart
  delay on it returns 0 (cancelled) at once without looking at the clock.
\<close>

theorem cancel_is_final:
  "\<exists>rm'. restart_manager_cancel (Some rm) = (0, Some rm') \<and>
     fst (rm_decide (exits rm' es) e stopped d) = False \<and>
     restart_manager_wait_cancel clock timedwait (Some rm') timeout = 0"
  by (simp add: restart_manager_cancel_def rm_decide_canceled restart_manager_wait_cancel_def exits_kept)

text \<open>
  C38. The deadline of a delayed restart is the clock reading plus the delay, in normal form: for every
  clock reading with a valid nanosecond part and every non-negative delay in nanoseconds, the pair
  handed to \<^verbatim>\<open>pthread_cond_timedwait\<close> denotes exactly that instant and its nanosecond part is in
  \<open>[0, 10\<^sup>9)\<close>.
\<close>

theorem deadline_exact:
  assumes "0 \<le> timeout" and "0 \<le> ns" and "ns < Time_Second"
  shows "\<exists>s' ns'. wait_deadline (Some (s, ns)) timeout = Some (s', ns') \<and>
    0 \<le> ns' \<and> ns' < Time_Second \<and>
    s' * Time_Second + ns' = s * Time_Second + ns + timeout"
proof -
  have "0 < Time_Second" by (simp add: time_defs)
  then show ?thesis
    using div_mult_mod_eq [of "timeout - timeout div Time_Second * Time_Second + ns" Time_Second]
    by (simp add: wait_deadline_def Let_def algebra_simps)
qed

theorem deadline_exact_witness:
  "\<exists>s' ns'. wait_deadline (Some (5, 999999999)) (1500 * Time_Milli) = Some (s', ns') \<and>
    0 \<le> ns' \<and> ns' < Time_Second \<and>
    s' * Time_Second + ns' = 5 * Time_Second + 999999999 + 1500 * Time_Milli"
  using deadline_exact [of "1500 * Time_Milli" 999999999 5] by (simp add: time_defs)

text \<open>
  C33. Reference counting: for any interleaving of references taken and dropped (short of wrapping the
  64-bit counter), the manager is freed exactly when the number of holders first reaches zero, and
  otherwise its counter is the number of holders and nothing else of it has changed.
\<close>

theorem refcount_exact:
  assumes "rm_refcnt rm = 1" and "1 + length os < 2 ^ 64"
  shows "ref_run os (Some rm) =
    (if refs_after os 1 = 0 then None else Some (rm\<lparr>rm_refcnt := refs_after os 1\<rparr>))"
  using ref_run_eq [of rm os] assms by simp

theorem refcount_exact_witness:
  "ref_run [Ref, Ref, Unref] (Some (zeroed_rm\<lparr>rm_refcnt := 1\<rparr>)) = Some (zeroed_rm\<lparr>rm_refcnt := 2\<rparr>) \<and>
   ref_run [Ref, Unref, Unref] (Some (zeroed_rm\<lparr>rm_refcnt := 1\<rparr>)) = None"
  using refcount_exact [of "zeroed_rm\<lparr>rm_refcnt := 1\<rparr>" "[Ref, Ref, Unref]"]
    refcount_exact [of "zeroed_rm\<lparr>rm_refcnt := 1\<rparr>" "[Ref, Unref, Unref]"]
  by simp

end
