(* ===== verification/Container_Unix.thy ===== *)
theory Container_Unix
  imports Containers_Store Container_State Restart_Manager
begin

text \<open>
  The container object of \<^verbatim>\<open>src/daemon/modules/container/container_unix.c\<close>: its configuration, its state and
  its restart manager. Restart managers are shared between a container and its restart threads, so they
  live in a heap (\<open>rms\<close>) and the container holds an address; \<open>life\<close> is one container with that heap. The
  parser of signal names of \<^verbatim>\<open>src/utils/cutils/utils.c\<close>, which decides how a container is stopped, is here too.
\<close>

section \<open>Signals\<close>

definition SIGTERM :: int where "SIGTERM = 15"
definition SIGKILL :: int where "SIGKILL = 9"

text \<open>The names of \<^verbatim>\<open>SIGNAL_MAP_DEFAULT\<close>, in the order of \<open>signal_numbers\<close>.\<close>

definition signal_names :: "string list" where
  "signal_names =
     [''HUP'', ''INT'', ''QUIT'', ''ILL'', ''ABRT'', ''FPE'', ''KILL'', ''SEGV'', ''PIPE'', ''ALRM'', ''TERM'', ''USR1'',
      ''USR2'', ''CHLD'', ''CONT'', ''STOP'', ''TSTP'', ''TTIN'', ''TTOU'', ''TRAP'', ''IOT'', ''EMT'', ''BUS'',
      ''STKFLT'', ''CLD'', ''URG'', ''XCPU'', ''XFSZ'', ''VTALRM'', ''PROF'', ''WINCH'', ''IO'', ''POLL'', ''INFO'',
      ''LOST'', ''PWR'', ''UNUSED'', ''SYS'', ''RTMIN''] @
     map (\<lambda>i. ''RTMIN+'' @ dec i) [1 ..< 16] @ map (\<lambda>i. ''RTMAX-'' @ dec (14 - i)) [0 ..< 14] @ [''RTMAX'']"

definition sig_num :: "string \<Rightarrow> int" where
  "sig_num sig = (case util_safe_int (Some sig) of (rc, n) \<Rightarrow> if rc < 0 then -1 else the n)"

definition signame_find :: "string \<Rightarrow> int" where
  "signame_find s = (case List.find (\<lambda>(num, name). strcase_eq name s) (zip signal_numbers signal_names) of
                       Some (num, name) \<Rightarrow> num | None \<Rightarrow> -1)"

definition util_sig_parse :: "string option \<Rightarrow> int" where
  "util_sig_parse sig_name =
     (case sig_name of
        None \<Rightarrow> -1
      | Some s \<Rightarrow>
          if s \<noteq> [] \<and> isdigit_c (hd s) then sig_num s
          else if strcase_eq (take 3 s) ''sig'' then signame_find (drop 3 s)
          else signame_find s)"

section \<open>The container\<close>

record port_binding =
  pb_key :: "string option"
  pb_hosts :: "(string option \<times> string option) list"

record host_config =
  restart_policy :: "host_config_restart_policy option"
  auto_remove :: bool
  auto_remove_bak :: bool
  binds :: "string list"
  port_bindings :: "port_binding list option"

record container_config =
  cfg_env :: "string list"
  stop_signal :: "string option"
  entrypoint :: "string list"
  cfg_cmd :: "string list"

record common_config =
  cc_id :: string
  cc_name :: string
  cc_path :: "string option"
  cc_args :: "string list"
  cc_image :: "string option"
  cc_config :: "container_config option"
  cc_mount_points :: "string list option"

record container_t =
  common_config :: "common_config option"
  hostconfig :: "host_config option"
  c_state :: state_ptr
  c_rm :: "addr option"

record life =
  cont :: container_t
  rms :: "addr \<rightharpoonup> restart_manager_t"

definition set_state :: "(state_ptr \<Rightarrow> state_ptr) \<Rightarrow> life \<Rightarrow> life" where
  "set_state f w = w\<lparr>cont := cont w\<lparr>c_state := f (c_state (cont w))\<rparr>\<rparr>"

definition set_host :: "(host_config \<Rightarrow> host_config) \<Rightarrow> life \<Rightarrow> life" where
  "set_host f w = w\<lparr>cont := cont w\<lparr>hostconfig := map_option f (hostconfig (cont w))\<rparr>\<rparr>"

section \<open>Filling a container\<close>

definition container_fill_v2_config :: "common_config option \<Rightarrow> container_t \<Rightarrow> int \<times> container_t" where
  "container_fill_v2_config cc c = (if cc = None then (-1, c) else (0, c\<lparr>common_config := cc\<rparr>))"

definition container_fill_host_config :: "host_config option \<Rightarrow> container_t \<Rightarrow> int \<times> container_t" where
  "container_fill_host_config hc c = (if hc = None then (-1, c) else (0, c\<lparr>hostconfig := hc\<rparr>))"

text \<open>\<open>fresh\<close> is what \<^verbatim>\<open>container_state_new\<close> returns.\<close>

definition container_fill_state :: "state_ptr \<Rightarrow> state_ptr \<Rightarrow> container_t \<Rightarrow> int \<times> container_t" where
  "container_fill_state fresh st c =
     (if fresh = None then (-1, c\<lparr>c_state := None\<rparr>)
      else (0, c\<lparr>c_state := (if st \<noteq> None then st else fresh)\<rparr>))"

text \<open>
  \<open>new_rm\<close> is the address of a new restart manager with the answers of its allocations and
  initialisations; the result of \<open>rm_alloc\<close> is \<open>None\<close> when one of them fails.
\<close>

record rm_env =
  rm_addr :: addr
  rm_alloc_ok :: bool
  rm_mutex_ok :: bool
  rm_cond_ok :: bool
  rm_policy_ok :: bool

definition rm_alloc :: "rm_env \<Rightarrow> host_config_restart_policy option \<Rightarrow> int \<Rightarrow> restart_manager_t option" where
  "rm_alloc e pol n = restart_manager_new (rm_alloc_ok e) (rm_mutex_ok e) (rm_cond_ok e) (rm_policy_ok e) pol n"

definition container_fill_restart_manager :: "rm_env \<Rightarrow> life \<Rightarrow> int \<times> life" where
  "container_fill_restart_manager e w =
     (case (hostconfig (cont w), c_state (cont w)) of
        (Some hc, Some s) \<Rightarrow>
          (case rm_alloc e (restart_policy hc) (restart_count s) of
             None \<Rightarrow> (-1, w\<lparr>cont := cont w\<lparr>c_rm := None\<rparr>\<rparr>)
           | Some rm \<Rightarrow> (0, w\<lparr>cont := cont w\<lparr>c_rm := Some (rm_addr e)\<rparr>, rms := (rms w)(rm_addr e \<mapsto> rm)\<rparr>))
      | _ \<Rightarrow> (-1, w))"

section \<open>The restart manager of a container\<close>

text \<open>
  References through an address: \<open>None\<close> is an access to a manager that has been freed.
\<close>

definition rm_ref :: "addr \<Rightarrow> life \<Rightarrow> life option" where
  "rm_ref a w = do { rm \<leftarrow> rms w a; Some (w\<lparr>rms := (rms w)(a := restart_manager_refinc (Some rm))\<rparr>) }"

definition rm_unref :: "addr option \<Rightarrow> life \<Rightarrow> life option" where
  "rm_unref p w =
     (case p of
        None \<Rightarrow> Some w
      | Some a \<Rightarrow> do { rm \<leftarrow> rms w a; Some (w\<lparr>rms := (rms w)(a := restart_manager_unref (Some rm))\<rparr>) })"

definition rm_cancel :: "addr \<Rightarrow> life \<Rightarrow> (int \<times> life) option" where
  "rm_cancel a w = do {
     rm \<leftarrow> rms w a;
     let (ret, rm') = restart_manager_cancel (Some rm);
     Some (ret, w\<lparr>rms := (rms w)(a := rm')\<rparr>)
   }"

definition container_reset_restart_manager :: "bool \<Rightarrow> life \<Rightarrow> (bool \<times> life) option" where
  "container_reset_restart_manager reset_count w = do {
     (ok, w1) \<leftarrow> (case c_rm (cont w) of
                     None \<Rightarrow> Some (True, w)
                   | Some a \<Rightarrow> do {
                       (ret, w1) \<leftarrow> rm_cancel a w;
                       if ret \<noteq> 0 then Some (False, w1)
                       else do { w2 \<leftarrow> rm_unref (Some a) w1; Some (True, w2) }
                     });
     if \<not> ok then Some (False, w1)
     else
       let w2 = (if reset_count then set_state container_state_reset_restart_count w1 else w1)
       in Some (True, w2\<lparr>cont := cont w2\<lparr>c_rm := None\<rparr>\<rparr>)
   }"

text \<open>A missing host configuration is read through without a check when a manager has to be made.\<close>

definition get_restart_manager :: "rm_env \<Rightarrow> life \<Rightarrow> (addr option \<times> life) option" where
  "get_restart_manager e w =
     (case c_rm (cont w) of
        Some a \<Rightarrow> do { w1 \<leftarrow> rm_ref a w; Some (Some a, w1) }
      | None \<Rightarrow> do {
          hc \<leftarrow> hostconfig (cont w);
          (case rm_alloc e (restart_policy hc) (container_state_get_restart_count (c_state (cont w))) of
             None \<Rightarrow> Some (None, w)
           | Some rm \<Rightarrow> do {
               w1 \<leftarrow> rm_ref (rm_addr e)
                      (w\<lparr>cont := cont w\<lparr>c_rm := Some (rm_addr e)\<rparr>, rms := (rms w)(rm_addr e \<mapsto> rm)\<rparr>);
               Some (Some (rm_addr e), w1)
             })
        })"

definition container_update_restart_manager ::
  "rm_env \<Rightarrow> bool \<Rightarrow> host_config_restart_policy option \<Rightarrow> life \<Rightarrow> life option" where
  "container_update_restart_manager e alloc pol w =
     (if pol = None then Some w
      else do {
        (p, w1) \<leftarrow> get_restart_manager e w;
        (case p of
           None \<Rightarrow> Some w1
         | Some a \<Rightarrow> do {
             rm \<leftarrow> rms w1 a;
             rm_unref (Some a) (w1\<lparr>rms := (rms w1)(a := snd (restart_manager_set_policy alloc (Some rm) pol))\<rparr>)
           })
      })"

definition container_exit_on_next :: "rm_env \<Rightarrow> life \<Rightarrow> (int \<times> life) option" where
  "container_exit_on_next e w = do {
     (p, w1) \<leftarrow> get_restart_manager e w;
     (case p of
        None \<Rightarrow> Some (-1, w1)
      | Some a \<Rightarrow> do {
          (ret, w2) \<leftarrow> rm_cancel a w1;
          w3 \<leftarrow> rm_unref (Some a) w2;
          Some (ret, w3)
        })
   }"

section \<open>Reading the configuration\<close>

fun env_value :: "string \<Rightarrow> string list \<Rightarrow> string option" where
  "env_value key [] = None"
| "env_value key (env # es) =
     (if length key < length env \<and> is_prefix key env \<and> env ! length key = CHR ''=''
      then Some (drop (length key + 1) env) else env_value key es)"

definition container_get_env_nolock :: "container_t option \<Rightarrow> string option \<Rightarrow> string option" where
  "container_get_env_nolock cp kp =
     (case (cp, kp) of
        (Some c, Some key) \<Rightarrow>
          (case common_config c of
             None \<Rightarrow> None
           | Some cc \<Rightarrow> (case cc_config cc of None \<Rightarrow> None | Some cfg \<Rightarrow> env_value key (cfg_env cfg)))
      | _ \<Rightarrow> None)"

definition container_has_mount_for :: "container_t option \<Rightarrow> string option \<Rightarrow> bool" where
  "container_has_mount_for cp mp =
     (case (cp, mp) of
        (Some c, Some mpath) \<Rightarrow>
          (case common_config c of
             None \<Rightarrow> False
           | Some cc \<Rightarrow>
               (case cc_mount_points cc of
                  None \<Rightarrow> False
                | Some keys \<Rightarrow>
                    if list_ex (\<lambda>k. k = mpath) keys then True
                    else (case hostconfig c of
                            None \<Rightarrow> False
                          | Some hc \<Rightarrow>
                              list_ex (\<lambda>b. case strrchr CHR '':'' b of
                                             None \<Rightarrow> False
                                           | Some (before, work) \<Rightarrow> work = mpath) (binds hc))))
      | _ \<Rightarrow> False)"

definition container_get_image :: "container_t option \<Rightarrow> string option" where
  "container_get_image cp =
     (case cp of None \<Rightarrow> None | Some c \<Rightarrow> (case common_config c of None \<Rightarrow> None | Some cc \<Rightarrow> cc_image cc))"

text \<open>
  The path and the arguments of the first process; the result is the return code, the path and the
  arguments written. \<^verbatim>\<open>add_to_config_v2_args\<close> writes the next cell of the array.
\<close>

fun add_to_config_v2_args :: "string list \<Rightarrow> string block \<Rightarrow> nat \<Rightarrow> (string block \<times> nat) option" where
  "add_to_config_v2_args [] args n = Some (args, n)"
| "add_to_config_v2_args (s # ss) args n = do {
     args1 \<leftarrow> write_cell args n (Some s);
     add_to_config_v2_args ss args1 (n + 1)
   }"

definition pack_path_and_args_from_container_spec ::
  "bool \<Rightarrow> container_config \<Rightarrow> (int \<times> string option \<times> (string block \<times> nat) option) option" where
  "pack_path_and_args_from_container_spec alloc cfg =
     (if entrypoint cfg \<noteq> [] then
        (let pth = hd (entrypoint cfg); total = length (entrypoint cfg) + length (cfg_cmd cfg) - 1
         in if total = 0 then Some (0, Some pth, None)
            else (case util_smart_calloc_s alloc total of
                    None \<Rightarrow> Some (-1, Some pth, None)
                  | Some args \<Rightarrow> do {
                      (args1, n1) \<leftarrow> add_to_config_v2_args (tl (entrypoint cfg)) args 0;
                      (args2, n2) \<leftarrow> add_to_config_v2_args (cfg_cmd cfg) args1 n1;
                      Some (0, Some pth, Some (args2, n2))
                    }))
      else if cfg_cmd cfg \<noteq> [] then
        (let pth = hd (cfg_cmd cfg); total = length (cfg_cmd cfg) - 1
         in if total = 0 then Some (0, Some pth, None)
            else (case util_smart_calloc_s alloc total of
                    None \<Rightarrow> Some (-1, Some pth, None)
                  | Some args \<Rightarrow> do {
                      (args1, n1) \<leftarrow> add_to_config_v2_args (tl (cfg_cmd cfg)) args 0;
                      Some (0, Some pth, Some (args1, n1))
                    }))
      else Some (0, None, None))"

definition append_quote_to_arg :: "bool \<Rightarrow> string \<Rightarrow> string option" where
  "append_quote_to_arg alloc arg =
     (if length arg > (2 ^ 64 - 1) - 3 then None
      else (let part = (if CHR '' '' \<in> set arg then [CHR 0x27] else []);
                total = length arg + 1 + (if CHR '' '' \<in> set arg then 2 else 0)
            in if \<not> alloc \<or> total > MAX_MEMORY_SIZE then None
               else if length (part @ arg @ part) \<ge> total then None
               else Some (part @ arg @ part)))"

fun append_quoted :: "(nat \<Rightarrow> bool) \<Rightarrow> nat \<Rightarrow> string list \<Rightarrow> string block option \<Rightarrow> (bool \<times> string block option) option" where
  "append_quoted alloc i [] arr = Some (True, arr)"
| "append_quoted alloc i (a # as) arr =
     (case append_quote_to_arg (alloc i) a of
        None \<Rightarrow> Some (False, arr)
      | Some q \<Rightarrow> do {
          (rc, arr1) \<leftarrow> util_array_append (alloc (Suc i)) arr (Some q);
          if rc < 0 then Some (False, arr1) else append_quoted alloc (i + 2) as arr1
        })"

text \<open>\<open>Some None\<close> is the NULL result.\<close>

definition container_get_command :: "(nat \<Rightarrow> bool) \<Rightarrow> bool \<Rightarrow> container_t option \<Rightarrow> string option option" where
  "container_get_command alloc alloc_join cp =
     (case cp of
        None \<Rightarrow> Some None
      | Some c \<Rightarrow>
          (case common_config c of
             None \<Rightarrow> Some None
           | Some cc \<Rightarrow> do {
               (rc, arr) \<leftarrow> (case cc_path cc of
                              None \<Rightarrow> Some (0, None)
                            | Some p \<Rightarrow> util_array_append (alloc 0) None (Some p));
               if rc < 0 then Some None
               else do {
                 (ok, arr1) \<leftarrow> append_quoted alloc 1 (cc_args cc) arr;
                 if \<not> ok then Some None
                 else do {
                   n \<leftarrow> util_array_len arr1;
                   util_string_join alloc_join (Some '' '') (map_option (take n) arr1)
                 }
               }
             }))"

definition port_string :: "string option \<Rightarrow> string option \<Rightarrow> string option \<Rightarrow> string" where
  "port_string host_ip host_port cont_port =
     (case host_ip of None \<Rightarrow> ''0.0.0.0'' | Some s \<Rightarrow> s) @ '':'' @ (case host_port of None \<Rightarrow> [] | Some s \<Rightarrow> s) @
     ''->'' @ (case cont_port of None \<Rightarrow> [] | Some s \<Rightarrow> s)"

definition container_get_ports :: "(nat \<Rightarrow> bool) \<Rightarrow> bool \<Rightarrow> container_t option \<Rightarrow> string option option" where
  "container_get_ports alloc alloc_join cp =
     (case cp of
        None \<Rightarrow> Some None
      | Some c \<Rightarrow>
          (case hostconfig c of
             None \<Rightarrow> Some None
           | Some hc \<Rightarrow>
               (case port_bindings hc of
                  None \<Rightarrow> Some None
                | Some pbs \<Rightarrow>
                    (let ports = concat (map (\<lambda>pb. map (\<lambda>(ip, p). port_string ip p (pb_key pb)) (pb_hosts pb)) pbs)
                     in do {
                       (ok, arr) \<leftarrow> append_tokens alloc 0 ports None;
                       if \<not> ok then Some None
                       else util_string_join alloc_join (Some '', '') (map_option (take (length ports)) arr)
                     }))))"

section \<open>What these functions compute\<close>

lemma strrchr_split: "d \<notin> set ys \<Longrightarrow> strrchr d (xs @ d # ys) = Some (xs, d # ys)"
proof -
  assume "d \<notin> set ys"
  then have "takeWhile (\<lambda>c. c \<noteq> d) (rev (xs @ d # ys)) = rev ys"
    by (auto simp: takeWhile_tail takeWhile_eq_all_conv)
  then show ?thesis by (simp add: strrchr_def)
qed

lemma mount_for_binds_ignored:
  assumes "mpath \<noteq> []" and "hd mpath \<noteq> CHR '':''"
  shows "container_has_mount_for (Some c) (Some mpath) \<longleftrightarrow>
    (\<exists>cc keys. common_config c = Some cc \<and> cc_mount_points cc = Some keys \<and> mpath \<in> set keys)"
proof -
  have no: "\<not> (case strrchr CHR '':'' b of None \<Rightarrow> False | Some (before, work) \<Rightarrow> work = mpath)" for b
  proof (cases "CHR '':'' \<in> set b")
    case True
    then obtain xs ys where "b = xs @ CHR '':'' # ys" "CHR '':'' \<notin> set ys" using split_list_last by fastforce
    then show ?thesis using assms strrchr_split by auto
  qed (simp add: strrchr_def)
  then show ?thesis
    unfolding container_has_mount_for_def by (auto simp: list_ex_iff split: option.splits)
qed

lemma find_by_name:
  assumes "distinct (map f ys)" and "i < length ys" and "length ns = length ys" and "f s = f (ys ! i)"
  shows "List.find (\<lambda>(num, name). f name = f s) (zip ns ys) = Some (ns ! i, ys ! i)"
proof -
  have "f (ys ! j) \<noteq> f s" if "j < i" for j
    using assms(1,2,4) that by (metis (mono_tags) distinct_conv_nth length_map nat_neq_iff nth_map order_less_trans)
  then show ?thesis using assms(2,3,4) by (auto simp: find_Some_iff intro!: exI [of _ i])
qed

lemma signal_names_ok:
  "distinct (map (map tolower_c) signal_names)" "length signal_numbers = length signal_names"
  "list_all (\<lambda>n. n \<noteq> [] \<and> \<not> isdigit_c (hd n) \<and> \<not> strcase_eq (take 3 n) ''sig'') signal_names"
  by code_simp+

text \<open>Every name of the table, in any letter case and with or without the prefix, gives its number.\<close>

lemma signame_find_nth:
  assumes "i < length signal_names" and "map tolower_c s = map tolower_c (signal_names ! i)"
  shows "signame_find s = signal_numbers ! i"
  using find_by_name [OF signal_names_ok(1) assms(1) signal_names_ok(2), of s] assms(2)
  by (simp add: signame_find_def strcase_eq_def)

lemma sig_parse_name:
  assumes "i < length signal_names" and "map tolower_c s = map tolower_c (signal_names ! i)"
    and "map tolower_c pre = ''sig''"
  shows "util_sig_parse (Some (pre @ s)) = signal_numbers ! i"
proof -
  have "length (map tolower_c pre) = 3" using assms(3) by simp
  then have l: "length pre = 3" by simp
  then have "pre \<noteq> []" by auto
  moreover have "\<not> isdigit_c (hd pre)"
  proof -
    have "tolower_c (hd pre) = CHR ''s''" using assms(3) by (cases pre) auto
    then show ?thesis by (auto simp: isdigit_c_def tolower_c_def ord_c_def split: if_splits)
  qed
  moreover have "map tolower_c ''sig'' = ''sig''" by code_simp
  ultimately show ?thesis
    using l signame_find_nth [OF assms(1,2)] assms(3) by (simp add: util_sig_parse_def strcase_eq_def del: list.map)
qed

lemma write_args:
  "length pre = n \<Longrightarrow> length ss \<le> length post \<Longrightarrow>
    add_to_config_v2_args ss (pre @ post) n = Some (pre @ map Some ss @ drop (length ss) post, n + length ss)"
proof (induction ss arbitrary: pre post n)
  case (Cons s ss)
  then obtain p post' where post: "post = p # post'" by (cases post) auto
  have "write_cell (pre @ post) n (Some s) = Some ((pre @ [Some s]) @ post')"
    using Cons.prems(1) post by (auto simp: write_cell_def list_update_append)
  moreover have "add_to_config_v2_args ss ((pre @ [Some s]) @ post') (n + 1) =
      Some ((pre @ [Some s]) @ map Some ss @ drop (length ss) post', n + 1 + length ss)"
    using Cons.IH [of "pre @ [Some s]" "n + 1" post'] Cons.prems post by simp
  ultimately show ?case using post by simp
qed simp

text \<open>The argument array is filled exactly: nothing is written outside it and no cell is left empty.\<close>

lemma pack_args_exact:
  assumes "entrypoint cfg @ cfg_cmd cfg = p # as" and "length as \<le> MAX_MEMORY_SIZE div sizeof_ptr"
  shows "pack_path_and_args_from_container_spec True cfg =
    Some (0, Some p, if as = [] then None else Some (map Some as, length as))"
proof (cases "entrypoint cfg")
  case Nil
  then show ?thesis using assms write_args [of "[]" 0 as "replicate (length as) None"]
    by (auto simp: pack_path_and_args_from_container_spec_def util_smart_calloc_s_def)
next
  case (Cons e es)
  then have as: "as = es @ cfg_cmd cfg" "p = e" using assms(1) by auto
  have "length es + length (cfg_cmd cfg) = length as" using as by simp
  then show ?thesis
    using Cons as assms(2) write_args [of "[]" 0 es "replicate (length as) None"]
      write_args [of "map Some es" "length es" "cfg_cmd cfg" "replicate (length (cfg_cmd cfg)) None"]
    by (auto simp: pack_path_and_args_from_container_spec_def util_smart_calloc_s_def)
qed

end
