(* ===== verification/Container_Service.thy ===== *)
theory Container_Service
  imports Container_Unix
begin

text \<open>
  How a container is started, stopped, killed, paused, restarted and collected: the operations of
  \<^verbatim>\<open>src/daemon/modules/service/service_container.c\<close>, the exit handler of \<^verbatim>\<open>container_events_handler.c\<close>, the restart
  thread of \<^verbatim>\<open>restartmanager.c\<close>, the pause and resume handlers of \<^verbatim>\<open>execution_extend.c\<close>, the restart handler
  of \<^verbatim>\<open>execution.c\<close> and the policy of the garbage collector in \<^verbatim>\<open>containers_gc.c\<close>. They all work on one
  container under its mutex, so a locked section is one atomic step on \<open>life\<close>; a wait on a condition
  variable gives the mutex away and splits an operation. What the runtime, the disk, the clock and the
  network answer is an argument. \<open>None\<close> is undefined behaviour.
\<close>

section \<open>Removal\<close>

definition set_container_to_removal :: "container_t option \<Rightarrow> int \<times> container_t option" where
  "set_container_to_removal cp =
     (case cp of
        None \<Rightarrow> (-1, None)
      | Some c \<Rightarrow>
          (let (removal_progress, st) = container_state_set_removal_in_progress (c_state c);
               c' = c\<lparr>c_state := st\<rparr>
           in if removal_progress then (-1, Some c') else (0, Some c')))"

definition to_removal :: "life \<Rightarrow> int \<times> life" where
  "to_removal w = (let (ret, c) = set_container_to_removal (Some (cont w)) in (ret, w\<lparr>cont := the c\<rparr>))"

text \<open>The exit code for a failed start, read off the error message.\<close>

fun strcasestr :: "string \<Rightarrow> string \<Rightarrow> bool" where
  "strcasestr [] sub = (sub = [])"
| "strcasestr (c # cs) sub = (is_prefix (map tolower_c sub) (map tolower_c (c # cs)) \<or> strcasestr cs sub)"

definition util_contain_errmsg :: "string option \<Rightarrow> int \<Rightarrow> int" where
  "util_contain_errmsg errmsg ec =
     (case errmsg of
        None \<Rightarrow> ec
      | Some m \<Rightarrow>
          if strcasestr m ''executable file not found'' \<or> strcasestr m ''no such file or directory'' \<or>
             strcasestr m ''system cannot find the file specified'' then 127
          else if strcasestr m ''permission denied'' then 126
          else if strcasestr m ''not a directory'' then 127
          else ec)"

section \<open>Starting\<close>

text \<open>
  The calls of \<^verbatim>\<open>do_start_container\<close> in their order; \<open>ans\<close> is what they return. The restart manager is reset
  between the first three and the others. Besides the code the function returns, in order, the calls it
  makes to undo what was done.
\<close>

datatype start_call =
    Print_Bundle | Mount_Dev_Tmpfs | Prepare_User_Remap
  | Get_Log_Config | Prepare_State_Files
  | Load_Oci_Config | Write_Env | Mount_Rootfs | Oci_Spec_Update | Container_To_Disk | Setup_Ipc_Dirs
  | Create_Mtab | Verify_Mounts | Renew_Oci_Config | Verify_Settings | Save_Oci_Config
  | Plugin_Pre_Start | Sandbox_Prepare | Runtime_Create
  | Runtime_Start | Post_Start

datatype undo_call =
    Plugin_Post_Stop | Wait_Exit_Fifo | Sandbox_Purge | Close_Exit_Fd | Clean_Resources | Umount_Rootfs | Umount_Dev_Tmpfs

definition before_fifo :: "start_call list" where
  "before_fifo = [Get_Log_Config, Prepare_State_Files]"

definition after_fifo :: "start_call list" where
  "after_fifo = [Load_Oci_Config, Write_Env, Mount_Rootfs, Oci_Spec_Update, Container_To_Disk, Setup_Ipc_Dirs,
     Create_Mtab, Verify_Mounts, Renew_Oci_Config, Verify_Settings, Save_Oci_Config,
     Plugin_Pre_Start, Sandbox_Prepare, Runtime_Create]"

text \<open>The first call that fails.\<close>

definition first_failure :: "(start_call \<Rightarrow> bool) \<Rightarrow> start_call list \<Rightarrow> start_call option" where
  "first_failure ans cs = List.find (\<lambda>c. \<not> ans c) cs"

definition on_failure :: "undo_call list" where
  "on_failure = [Umount_Rootfs, Umount_Dev_Tmpfs]"

definition close_exit_fd :: "bool \<Rightarrow> undo_call list" where
  "close_exit_fd prepared = (if prepared then [Sandbox_Purge] else []) @ [Close_Exit_Fd, Clean_Resources] @ on_failure"

definition do_start_container ::
  "(start_call \<Rightarrow> bool) \<Rightarrow> int \<Rightarrow> bool \<Rightarrow> bool \<Rightarrow> life \<Rightarrow> (int \<times> undo_call list \<times> life) option" where
  "do_start_container ans start_rc sandboxed reset_rm w =
     (if first_failure ans [Print_Bundle, Mount_Dev_Tmpfs, Prepare_User_Remap] \<noteq> None then Some (-1, on_failure, w)
      else do {
        (ok, w1) \<leftarrow> (if reset_rm then container_reset_restart_manager True w else Some (True, w));
        if \<not> ok then Some (-1, on_failure, w1)
        else if first_failure ans before_fifo \<noteq> None then Some (-1, on_failure, w1)
        else (case first_failure ans after_fifo of
                Some c \<Rightarrow>
                  Some (-1, (if c = Plugin_Pre_Start then [Plugin_Post_Stop] else []) @
                            close_exit_fd (sandboxed \<and> c = Runtime_Create), w1)
              | None \<Rightarrow>
                  if start_rc \<noteq> 0 then Some (start_rc, Wait_Exit_Fifo # close_exit_fd sandboxed, w1)
                  else if \<not> ans Post_Start then Some (-1, close_exit_fd sandboxed, w1)
                  else Some (0, [], w1))
      })"

text \<open>
  The native network: \<open>net_native\<close> says that the code is built with it and the container uses it,
  \<open>net_post\<close> that the network is set up after the start; the others are the answers of its calls.
\<close>

record start_env =
  in_gc :: bool
  net_native :: bool
  net_valid :: bool
  net_post :: bool
  net_prepare :: bool
  call_ans :: "start_call \<Rightarrow> bool"
  start_rc :: int
  sandboxed :: bool
  start_pids :: pid_ppid_info_t
  start_now :: string
  stop_now :: string
  errmsg :: "string option"
  save_ok :: bool

datatype start_result = Finished int | Removing int

text \<open>
  The part of \<^verbatim>\<open>set_stopped\<close> up to \<^verbatim>\<open>save_after_auto_remove\<close>: \<open>Removing\<close> says that the container was marked for
  removal and is deleted next, outside the lock. \<^verbatim>\<open>container_state_set_error\<close> has no NULL check.
\<close>

definition start_failed :: "start_env \<Rightarrow> life \<Rightarrow> (start_result \<times> life) option" where
  "start_failed e w = do {
     s \<leftarrow> c_state (cont w);
     let w1 = set_state (\<lambda>_. Some (container_state_set_error (errmsg e) s)) w;
     let w2 = set_state (container_state_set_stopped (util_contain_errmsg (errmsg e) 125) (stop_now e)) w1;
     (if (case hostconfig (cont w2) of None \<Rightarrow> False | Some hc \<Rightarrow> auto_remove hc)
      then (let (nret, w3) = to_removal w2
            in if nret \<noteq> 0 then Some (Finished (-1), w3) else Some (Removing (-1), w3))
      else Some (Finished (-1), w2))
   }"

text \<open>
  \<open>fk\<close> is \<^verbatim>\<open>force_kill\<close>, used when the network of a started container cannot be set up; a hostconfig is read
  there without a check.
\<close>

definition start_section ::
  "(life \<Rightarrow> (int \<times> life) option) \<Rightarrow> start_env \<Rightarrow> bool \<Rightarrow> life \<Rightarrow> (start_result \<times> life) option" where
  "start_section fk e reset_rm w =
     (let st = c_state (cont w)
      in if reset_rm \<and> container_is_running st then Some (Finished 0, w)
         else if container_is_paused st then Some (Finished (-1), w)
         else if container_is_removal_in_progress st \<or> container_is_dead st then Some (Finished (-1), w)
         else if in_gc e then Some (Finished (-1), w)
         else if net_native e \<and> \<not> net_valid e then Some (Finished (-1), w)
         else if net_native e \<and> \<not> net_post e \<and> \<not> net_prepare e then Some (Finished (-1), w)
         else do {
           (rc, undo, w1) \<leftarrow> do_start_container (call_ans e) (start_rc e) (sandboxed e) reset_rm w;
           if rc \<noteq> 0 then start_failed e w1
           else
             let w2 = set_state (container_state_set_running (Some (start_pids e)) True (start_now e)) w1
             in if net_native e \<and> net_post e \<and> \<not> net_prepare e then do {
                  (frc, w3) \<leftarrow> fk (set_host (\<lambda>h. h\<lparr>auto_remove := False\<rparr>) w2);
                  start_failed e (set_host (\<lambda>h. h\<lparr>auto_remove := auto_remove_bak h\<rparr>) w3)
                }
                else
                  let w3 = set_state container_state_reset_has_been_manual_stopped w2
                  in Some (Finished (if save_ok e then 0 else -1), w3)
         })"

text \<open>
  The whole function: \<open>del\<close> is \<^verbatim>\<open>delete_container\<close>, run without the lock. Saving to disk afterwards can turn
  the result into an error, which it is already.
\<close>

definition start_container ::
  "(life \<Rightarrow> (int \<times> life) option) \<Rightarrow> (life \<Rightarrow> (int \<times> life) option) \<Rightarrow> start_env \<Rightarrow> bool \<Rightarrow> life \<Rightarrow> (int \<times> life) option" where
  "start_container fk del e reset_rm w = do {
     (r, w1) \<leftarrow> start_section fk e reset_rm w;
     (case r of
        Finished rc \<Rightarrow> Some (rc, w1)
      | Removing rc \<Rightarrow> do { (nret, w2) \<leftarrow> del w1; Some (rc, w2) })
   }"

section \<open>Stopping\<close>

definition send_signal_to_process :: "bool \<Rightarrow> int \<Rightarrow> int \<Rightarrow> int \<Rightarrow> int" where
  "send_signal_to_process alive kill_rc stop_sig sig =
     (if \<not> alive then (if sig = stop_sig \<or> sig = SIGKILL then 0 else -1)
      else if kill_rc < 0 then -1 else 0)"

definition container_stop_signal :: "life \<Rightarrow> int option" where
  "container_stop_signal w = do {
     cc \<leftarrow> common_config (cont w);
     let sig = (case cc_config cc of
                  None \<Rightarrow> 0
                | Some cfg \<Rightarrow> (if stop_signal cfg = None then 0 else util_sig_parse (stop_signal cfg)));
     Some (if sig \<le> 0 then SIGTERM else sig)
   }"

text \<open>The answers while a container is killed: of the runtime, and of the monitor process.\<close>

record kill_env =
  k_rm :: rm_env
  k_kill :: int
  k_resume :: int

definition kill_with_signal :: "kill_env \<Rightarrow> int \<Rightarrow> life \<Rightarrow> (int \<times> life) option" where
  "kill_with_signal e sig w = do {
     stop_sig \<leftarrow> container_stop_signal w;
     let need_unpause = container_is_paused (c_state (cont w));
     (cancel, w1) \<leftarrow> container_exit_on_next (k_rm e) w;
     if cancel \<noteq> 0 then Some (-1, w1)
     else
       let w2 = set_state container_state_set_has_been_manual_stopped w1
       in if \<not> container_is_running (c_state (cont w2)) then Some (0, w2)
          else if container_is_restarting (c_state (cont w2)) then Some (0, w2)
          else if sig = SIGKILL \<and> need_unpause \<and> k_resume e \<noteq> 0 then Some (-1, w2)
          else Some (k_kill e, w2)
   }"

text \<open>
  A wait gives the mutex away: \<open>wait\<close> is the result of \<^verbatim>\<open>pthread_cond_wait\<close> for a timeout with the container
  as the other threads leave it.
\<close>

definition container_wait_stop :: "(int \<Rightarrow> life \<Rightarrow> int \<times> life) \<Rightarrow> int \<Rightarrow> life \<Rightarrow> int \<times> life" where
  "container_wait_stop wait timeout w =
     (if \<not> container_is_running (c_state (cont w)) then (0, w) else wait timeout w)"

record stop_env =
  s_grace :: kill_env
  s_force :: kill_env
  s_wait :: "int \<Rightarrow> life \<Rightarrow> int \<times> life"
  mon_alive :: bool
  mon_kill :: int
  s_purge :: bool

definition force_kill :: "stop_env \<Rightarrow> life \<Rightarrow> (int \<times> life) option" where
  "force_kill e w = do {
     stop_sig \<leftarrow> container_stop_signal w;
     (kret, w1) \<leftarrow> kill_with_signal (s_force e) SIGKILL w;
     let (ret, w2) = container_wait_stop (s_wait e) 90 w1;
     (if ret \<noteq> 0
      then (let ret2 = send_signal_to_process (mon_alive e) (mon_kill e) stop_sig SIGKILL
            in if ret2 \<noteq> 0 then Some (ret2, w2)
               else Some (container_wait_stop (s_wait e) (-1) w2))
      else Some (ret, w2))
   }"

definition restore_auto_remove :: "bool \<Rightarrow> life \<Rightarrow> life" where
  "restore_auto_remove restart w = (if restart then set_host (\<lambda>h. h\<lparr>auto_remove := auto_remove_bak h\<rparr>) w else w)"

definition stop_container :: "stop_env \<Rightarrow> int \<Rightarrow> bool \<Rightarrow> bool \<Rightarrow> life \<Rightarrow> (int \<times> life) option" where
  "stop_container e timeout force restart w =
     (if \<not> container_is_running (c_state (cont w)) then Some (0, restore_auto_remove restart w)
      else do {
        let w1 = (if restart then set_host (\<lambda>h. h\<lparr>auto_remove := False\<rparr>) w else w);
        stop_sig \<leftarrow> container_stop_signal w1;
        (ret, w2) \<leftarrow>
          (if \<not> force then do {
             (kret, w2) \<leftarrow> kill_with_signal (s_grace e) stop_sig w1;
             let (wret, w3) = container_wait_stop (s_wait e) timeout w2;
             (if wret \<noteq> 0 then force_kill e w3 else Some (wret, w3))
           } else force_kill e w1);
        Some (if ret \<noteq> 0 then ret else if \<not> s_purge e then -1 else ret, restore_auto_remove restart w2)
      })"

definition kill_container :: "stop_env \<Rightarrow> int \<Rightarrow> life \<Rightarrow> (int \<times> life) option" where
  "kill_container e sig w =
     (if \<not> container_is_running (c_state (cont w)) then Some (-1, w)
      else do {
        (ret, w1) \<leftarrow> (if sig = 0 \<or> sig = SIGKILL then force_kill e w else kill_with_signal (s_grace e) sig w);
        Some (if ret \<noteq> 0 then -1 else ret, w1)
      })"

text \<open>\<open>del\<close> is \<^verbatim>\<open>do_delete_container\<close>; the test whether the container runs is made without the lock.\<close>

definition delete_container ::
  "stop_env \<Rightarrow> (life \<Rightarrow> (int \<times> life) option) \<Rightarrow> bool \<Rightarrow> life \<Rightarrow> (int \<times> life) option" where
  "delete_container e del force w = do {
     (ret, w1) \<leftarrow>
       (if container_is_running (c_state (cont w)) then
          (if \<not> force then Some (-1, w)
           else do {
             (r, w1) \<leftarrow> stop_container e 3 force False w;
             (if r \<noteq> 0 then Some (-1, w1) else del w1)
           })
        else del w);
     if ret \<noteq> 0 then Some (ret, set_state container_state_reset_removal_in_progress w1) else Some (ret, w1)
   }"

section \<open>Pausing\<close>

definition do_pause_container :: "bool \<Rightarrow> bool \<Rightarrow> life \<Rightarrow> int \<times> life" where
  "do_pause_container pause_ok disk_ok w =
     (let st = c_state (cont w)
      in if \<not> container_is_running st then (-1, w)
         else if container_is_paused st then (-1, w)
         else if container_is_restarting st then (-1, w)
         else if \<not> pause_ok then (-1, w)
         else (if disk_ok then 0 else -1, set_state container_state_set_paused w))"

definition do_resume_container :: "bool \<Rightarrow> bool \<Rightarrow> life \<Rightarrow> int \<times> life" where
  "do_resume_container resume_ok disk_ok w =
     (let st = c_state (cont w)
      in if \<not> container_is_running st then (-1, w)
         else if \<not> container_is_paused st then (-1, w)
         else if \<not> resume_ok then (-1, w)
         else (if disk_ok then 0 else -1, set_state container_state_reset_paused w))"

text \<open>The collector resumes a container that is left over, without a look at its state.\<close>

definition do_runtime_resume_container :: "bool \<Rightarrow> bool \<Rightarrow> life \<Rightarrow> int \<times> life" where
  "do_runtime_resume_container resume_ok disk_ok w =
     (if \<not> resume_ok then (-1, w)
      else (if disk_ok then 0 else -1, set_state container_state_reset_paused w))"

text \<open>\<open>rt\<close> is the answer of a runtime that can restart a container itself; \<open>-2\<close> says that it cannot.\<close>

definition restart_container :: "int \<Rightarrow> bool \<Rightarrow> string option \<Rightarrow> string \<Rightarrow> life \<Rightarrow> int \<times> life" where
  "restart_container rt disk_ok finish_at now w =
     (if container_is_removal_in_progress (c_state (cont w)) \<or> container_is_dead (c_state (cont w)) then (0, w)
      else if rt = -2 then (rt, w)
      else (let w1 = (if rt = 0 then set_state (container_restart_update_start_and_finish_time finish_at now) w else w)
            in if \<not> disk_ok then (-1, w1) else (rt, w1)))"

section \<open>Restarting\<close>

text \<open>
  \<^verbatim>\<open>restart_manager_should_restart\<close> looks the container up again (\<open>found\<close>) and asks its manager.
\<close>

definition restart_manager_should_restart ::
  "rm_env \<Rightarrow> bool \<Rightarrow> int \<Rightarrow> bool \<Rightarrow> int \<Rightarrow> life \<Rightarrow> (bool \<times> int option \<times> life) option" where
  "restart_manager_should_restart e found ecode manually_stopped exec_duration w =
     (if \<not> found then Some (False, None, w)
      else do {
        (p, w1) \<leftarrow> get_restart_manager e w;
        (case p of
           None \<Rightarrow> Some (False, None, w1)
         | Some a \<Rightarrow> do {
             rm \<leftarrow> rms w1 a;
             let (restart, timeout, rm') = rm_decide rm ecode manually_stopped exec_duration;
             w2 \<leftarrow> rm_unref (Some a) (w1\<lparr>rms := (rms w1)(a \<mapsto> rm')\<rparr>);
             Some (restart, timeout, w2)
           })
      })"

text \<open>
  \<open>create_rc\<close> is what \<^verbatim>\<open>pthread_create\<close> returns. A restart thread is started with the timeout and the exit
  code; the callers ignore the result of \<^verbatim>\<open>container_restart_in_thread\<close>.
\<close>

definition container_restart_in_thread ::
  "bool \<Rightarrow> int \<Rightarrow> int \<Rightarrow> int \<Rightarrow> int \<times> (int \<times> int) option" where
  "container_restart_in_thread alloc create_rc timeout ec =
     (if \<not> alloc then (-1, None) else if create_rc \<noteq> 0 then (-1, None) else (0, Some (timeout, ec)))"

record exit_env =
  x_rm :: rm_env
  x_found :: bool
  x_duration :: int
  x_now :: string
  x_alloc :: bool
  x_create :: int
  x_disk :: bool

text \<open>
  The section for an exit event: the return code, the thread that was started and whether the container
  is to be deleted. \<open>evpid\<close> is the pid of the event as an \<^verbatim>\<open>int\<close>, \<open>evcode\<close> its exit status, a \<^verbatim>\<open>uint32_t\<close>.
\<close>

definition stopped_section ::
  "exit_env \<Rightarrow> int \<Rightarrow> int \<Rightarrow> life \<Rightarrow> (int \<times> (int \<times> int) option \<times> bool \<times> life) option" where
  "stopped_section e evpid evcode w =
     (let st = c_state (cont w)
      in if \<not> container_is_running st then Some (0, None, False, w)
         else if container_state_get_pid st \<noteq> evpid then Some (0, None, False, w)
         else do {
           (restart, timeout, w1) \<leftarrow> restart_manager_should_restart (x_rm e) (x_found e) evcode
              (container_state_get_has_been_manual_stopped st) (x_duration e) w;
           let (td, w2) =
             (if restart then
                (snd (container_restart_in_thread (x_alloc e) (x_create e) (the timeout) (wrap32 evcode)),
                 set_state (container_state_set_restarting (wrap32 evcode) (x_now e))
                   (set_state container_state_increase_restart_count w1))
              else (None, set_state (container_state_set_stopped (wrap32 evcode) (x_now e)) w1));
           let rmv = (\<not> restart \<and> (case hostconfig (cont w2) of None \<Rightarrow> False | Some hc \<Rightarrow> auto_remove hc));
           let (ret, w3) = (if rmv then to_removal w2 else (0, w2));
           Some (if \<not> x_disk e then (-1, td, False, w3) else (ret, td, rmv, w3))
         })"

definition oom_section :: "life \<Rightarrow> life" where
  "oom_section w = set_state container_state_set_oom_killed w"

definition apply_restart_policy_after_gc :: "bool \<Rightarrow> exit_env \<Rightarrow> life \<Rightarrow> ((int \<times> int) option \<times> life) option" where
  "apply_restart_policy_after_gc present e w =
     (let st = c_state (cont w); ec = container_state_get_exitcode st
      in if \<not> present then Some (None, w)
         else if container_is_running st then Some (None, w)
         else do {
           (restart, timeout, w1) \<leftarrow> restart_manager_should_restart (x_rm e) (x_found e) ec
              (container_state_get_has_been_manual_stopped st) (x_duration e) w;
           if restart then
             Some (snd (container_restart_in_thread (x_alloc e) (x_create e) (the timeout) (wrap32 ec)),
                   set_state (container_state_set_restarting (wrap32 ec) (x_now e))
                     (set_state container_state_increase_restart_count w1))
           else Some (None, w1)
         })"

section \<open>The restart thread\<close>

text \<open>
  The thread waits until the delay is over or the restart is cancelled, then starts the container or
  marks it stopped. A phase is what it does next; \<open>None\<close> as next phase ends it.
\<close>

datatype rphase = R_Begin | R_Wait addr | R_Start addr | R_Stop "addr option"

record rthread =
  r_timeout :: int
  r_code :: int
  r_phase :: rphase

definition rm_held :: "rphase \<Rightarrow> addr option" where
  "rm_held ph = (case ph of R_Begin \<Rightarrow> None | R_Wait a \<Rightarrow> Some a | R_Start a \<Rightarrow> Some a | R_Stop p \<Rightarrow> p)"

definition restart_enter :: "rm_env \<Rightarrow> bool \<Rightarrow> life \<Rightarrow> (rphase \<times> life) option" where
  "restart_enter e gc w =
     (if gc then Some (R_Stop None, w)
      else do {
        (p, w1) \<leftarrow> get_restart_manager e w;
        Some (case p of None \<Rightarrow> R_Stop None | Some a \<Rightarrow> R_Wait a, w1)
      })"

definition restart_wait ::
  "(int \<times> int) option \<Rightarrow> (int \<times> int \<Rightarrow> int) \<Rightarrow> addr \<Rightarrow> int \<Rightarrow> life \<Rightarrow> rphase option" where
  "restart_wait clock timedwait a timeout w = do {
     rm \<leftarrow> rms w a;
     Some (if restart_manager_wait_cancel clock timedwait (Some rm) timeout = 0 then R_Stop (Some a) else R_Start a)
   }"

definition restart_start ::
  "(life \<Rightarrow> (int \<times> life) option) \<Rightarrow> (life \<Rightarrow> (int \<times> life) option) \<Rightarrow> start_env \<Rightarrow> addr \<Rightarrow> life
     \<Rightarrow> (rphase option \<times> life) option" where
  "restart_start fk del e a w = do {
     (rc, w1) \<leftarrow> start_container fk del e False w;
     if rc \<noteq> 0 \<and> container_is_restarting (c_state (cont w1)) then Some (Some (R_Stop (Some a)), w1)
     else do { w2 \<leftarrow> rm_unref (Some a) w1; Some (None, w2) }
   }"

definition restart_stop :: "int \<Rightarrow> string \<Rightarrow> addr option \<Rightarrow> life \<Rightarrow> life option" where
  "restart_stop code now p w = rm_unref p (set_state (container_state_set_stopped code now) w)"

record thread_env =
  t_rm :: rm_env
  t_gc :: bool
  t_clock :: "(int \<times> int) option"
  t_wait :: "int \<times> int \<Rightarrow> int"
  t_start :: start_env
  t_now :: string

definition no_delete :: "life \<Rightarrow> (int \<times> life) option" where
  "no_delete w = Some (0, w)"

text \<open>One step of the thread; \<open>fk\<close> and \<open>del\<close> as in \<open>start_container\<close>.\<close>

definition thread_step ::
  "(life \<Rightarrow> (int \<times> life) option) \<Rightarrow> (life \<Rightarrow> (int \<times> life) option) \<Rightarrow> thread_env \<Rightarrow> rthread \<Rightarrow> life
     \<Rightarrow> (rthread option \<times> life) option" where
  "thread_step fk del e t w =
     (case r_phase t of
        R_Begin \<Rightarrow> do { (ph, w1) \<leftarrow> restart_enter (t_rm e) (t_gc e) w; Some (Some (t\<lparr>r_phase := ph\<rparr>), w1) }
      | R_Wait a \<Rightarrow> do {
          ph \<leftarrow> restart_wait (t_clock e) (t_wait e) a (r_timeout t) w;
          Some (Some (t\<lparr>r_phase := ph\<rparr>), w)
        }
      | R_Start a \<Rightarrow> do {
          (ph, w1) \<leftarrow> restart_start fk del (t_start e) a w;
          Some (map_option (\<lambda>ph. t\<lparr>r_phase := ph\<rparr>) ph, w1)
        }
      | R_Stop p \<Rightarrow> do { w1 \<leftarrow> restart_stop (r_code t) (t_now e) p w; Some (None, w1) })"

text \<open>
  The whole body when no other thread comes in between: \<open>detached\<close> is the result of \<^verbatim>\<open>pthread_detach\<close>,
  \<open>found\<close> says that the container is still registered.
\<close>

fun thread_run ::
  "nat \<Rightarrow> (life \<Rightarrow> (int \<times> life) option) \<Rightarrow> (life \<Rightarrow> (int \<times> life) option) \<Rightarrow> thread_env \<Rightarrow> rthread \<Rightarrow> life \<Rightarrow> life option" where
  "thread_run 0 fk del e t w = None"
| "thread_run (Suc n) fk del e t w = do {
     (t', w1) \<leftarrow> thread_step fk del e t w;
     (case t' of None \<Rightarrow> Some w1 | Some t1 \<Rightarrow> thread_run n fk del e t1 w1)
   }"

definition container_restart ::
  "bool \<Rightarrow> bool \<Rightarrow> (life \<Rightarrow> (int \<times> life) option) \<Rightarrow> (life \<Rightarrow> (int \<times> life) option) \<Rightarrow> thread_env \<Rightarrow> int \<Rightarrow> int \<Rightarrow> life
     \<Rightarrow> life option" where
  "container_restart detached found fk del e timeout ec w =
     (if \<not> detached \<or> \<not> found then Some w
      else thread_run 4 fk del e \<lparr>r_timeout = timeout, r_code = ec, r_phase = R_Begin\<rparr> w)"

section \<open>Interleaving\<close>

text \<open>
  The locked sections of all operations on one container, run in any order. A container that is being
  deleted is only marked; what else deletion does is in other steps. Waiting is a gap between steps.
\<close>

record lsys =
  ls :: life
  thr :: "rthread list"

datatype lop =
    User_Start start_env
  | Signal kill_env int
  | Exit_Event exit_env int int
  | Oom_Event
  | Pause bool bool
  | Resume bool bool
  | Gc_Resume bool bool
  | Gc_Restart bool exit_env
  | Mark_Removal
  | Unmark_Removal
  | Set_Starting
  | Reset_Starting
  | Runtime_Restart int bool "string option" string
  | Update_Policy rm_env bool "host_config_restart_policy option"
  | Thread thread_env

definition new_thread :: "(int \<times> int) option \<Rightarrow> rthread list" where
  "new_thread td = (case td of None \<Rightarrow> [] | Some (t, c) \<Rightarrow> [\<lparr>r_timeout = t, r_code = c, r_phase = R_Begin\<rparr>])"

definition no_kill :: "life \<Rightarrow> (int \<times> life) option" where
  "no_kill w = None"

fun lrun :: "lop \<Rightarrow> lsys \<Rightarrow> lsys option" where
  "lrun (User_Start e) y = do { (r, w) \<leftarrow> start_section no_kill e True (ls y); Some (y\<lparr>ls := w\<rparr>) }"
| "lrun (Signal e sig) y = do { (r, w) \<leftarrow> kill_with_signal e sig (ls y); Some (y\<lparr>ls := w\<rparr>) }"
| "lrun (Exit_Event e p c) y = do {
     (r, td, d, w) \<leftarrow> stopped_section e p c (ls y);
     Some (y\<lparr>ls := w, thr := thr y @ new_thread td\<rparr>)
   }"
| "lrun Oom_Event y = Some (y\<lparr>ls := oom_section (ls y)\<rparr>)"
| "lrun (Pause a b) y = Some (y\<lparr>ls := snd (do_pause_container a b (ls y))\<rparr>)"
| "lrun (Resume a b) y = Some (y\<lparr>ls := snd (do_resume_container a b (ls y))\<rparr>)"
| "lrun (Gc_Resume a b) y = Some (y\<lparr>ls := snd (do_runtime_resume_container a b (ls y))\<rparr>)"
| "lrun (Gc_Restart r e) y = do {
     (td, w) \<leftarrow> apply_restart_policy_after_gc r e (ls y);
     Some (y\<lparr>ls := w, thr := thr y @ new_thread td\<rparr>)
   }"
| "lrun Mark_Removal y = Some (y\<lparr>ls := snd (to_removal (ls y))\<rparr>)"
| "lrun Unmark_Removal y = Some (y\<lparr>ls := set_state container_state_reset_removal_in_progress (ls y)\<rparr>)"
| "lrun Set_Starting y = Some (y\<lparr>ls := set_state container_state_set_starting (ls y)\<rparr>)"
| "lrun Reset_Starting y = Some (y\<lparr>ls := set_state container_state_reset_starting (ls y)\<rparr>)"
| "lrun (Runtime_Restart rt d f n) y = Some (y\<lparr>ls := snd (restart_container rt d f n (ls y))\<rparr>)"
| "lrun (Update_Policy e a p) y = do { w \<leftarrow> container_update_restart_manager e a p (ls y); Some (y\<lparr>ls := w\<rparr>) }"
| "lrun (Thread e) y =
     (case thr y of
        [] \<Rightarrow> Some y
      | t # ts \<Rightarrow> do {
          (t', w) \<leftarrow> thread_step no_kill no_delete e t (ls y);
          Some (y\<lparr>ls := w, thr := (case t' of None \<Rightarrow> ts | Some t1 \<Rightarrow> t1 # ts)\<rparr>)
        })"

text \<open>
  What the environment does: fresh addresses for new managers, an exit event has the pid of a process,
  threads can be created, a runtime restarts only a container that has a process and gives it a finish
  time, and the network is set up before the start.
\<close>

definition fresh_rm :: "rm_env \<Rightarrow> lsys \<Rightarrow> bool" where
  "fresh_rm e y \<longleftrightarrow> rms (ls y) (rm_addr e) = None"

definition start_ok :: "start_env \<Rightarrow> bool" where
  "start_ok e \<longleftrightarrow> \<not> (net_native e \<and> net_post e \<and> \<not> net_prepare e)"

definition threads_ok :: "exit_env \<Rightarrow> bool" where
  "threads_ok e \<longleftrightarrow> x_alloc e \<and> x_create e = 0"

fun lop_ok :: "lop \<Rightarrow> lsys \<Rightarrow> bool" where
  "lop_ok (User_Start e) y = start_ok e"
| "lop_ok (Signal e sig) y = fresh_rm (k_rm e) y"
| "lop_ok (Exit_Event e p c) y = (fresh_rm (x_rm e) y \<and> p \<noteq> 0 \<and> threads_ok e)"
| "lop_ok (Gc_Restart r e) y = (fresh_rm (x_rm e) y \<and> threads_ok e)"
| "lop_ok (Runtime_Restart rt d f n) y = (rt = 0 \<longrightarrow> \<not> container_is_restarting (c_state (cont (ls y))) \<and> f \<noteq> None)"
| "lop_ok (Update_Policy e a p) y = fresh_rm e y"
| "lop_ok (Thread e) y = (fresh_rm (t_rm e) y \<and> start_ok (t_start e))"
| "lop_ok op y = True"

inductive lreach :: "(lop \<Rightarrow> bool) \<Rightarrow> lsys \<Rightarrow> lsys \<Rightarrow> bool" for P y0 where
  lreach_start: "lreach P y0 y0"
| lreach_step: "lreach P y0 y \<Longrightarrow> P op \<Longrightarrow> lop_ok op y \<Longrightarrow> lrun op y = Some y' \<Longrightarrow> lreach P y0 y'"

end
