(* ===== verification/Container_Lifecycle.thy ===== *)
theory Container_Lifecycle
  imports Container_Service
begin

text \<open>
  What holds however the operations on a container are interleaved: its flags stay consistent, its restart
  manager is never used after it is freed, a container is restarting exactly while there is one restart
  thread for it, and a container that was told to stop is not restarted.
\<close>

section \<open>The invariant\<close>

text \<open>
  \<open>hs\<close> lists the managers that restart threads hold a reference to. Every manager has exactly as many
  references as there are holders, and is freed when there is none.
\<close>

definition rm_count :: "life \<Rightarrow> addr list \<Rightarrow> addr \<Rightarrow> nat" where
  "rm_count w hs a = (if c_rm (cont w) = Some a then 1 else 0) + count_list hs a"

definition rms_ok :: "life \<Rightarrow> addr list \<Rightarrow> bool" where
  "rms_ok w hs \<longleftrightarrow> (\<forall>a. rms w a = None \<longrightarrow> rm_count w hs a = 0) \<and>
     (\<forall>a rm. rms w a = Some rm \<longrightarrow> 0 < rm_count w hs a \<and> rm_refcnt rm = rm_count w hs a)"

definition canceled_life :: "life \<Rightarrow> bool" where
  "canceled_life w \<longleftrightarrow> (\<exists>a rm. c_rm (cont w) = Some a \<and> rms w a = Some rm \<and> canceled rm)"

definition is_restarting_l :: "life \<Rightarrow> bool" where
  "is_restarting_l w = container_is_restarting (c_state (cont w))"

definition wf_life :: "life \<Rightarrow> addr list \<Rightarrow> bool" where
  "wf_life w hs \<longleftrightarrow> (\<exists>s. c_state (cont w) = Some s \<and> state_consistent s) \<and>
     common_config (cont w) \<noteq> None \<and> hostconfig (cont w) \<noteq> None \<and> rms_ok w hs \<and> length hs \<le> 1"

definition held_rms :: "lsys \<Rightarrow> addr list" where
  "held_rms y = List.map_filter (\<lambda>t. rm_held (r_phase t)) (thr y)"

definition linv :: "lsys \<Rightarrow> bool" where
  "linv y \<longleftrightarrow> wf_life (ls y) (held_rms y) \<and> length (thr y) \<le> 1 \<and> (is_restarting_l (ls y) \<longleftrightarrow> thr y \<noteq> [])"

section \<open>Managers\<close>

text \<open>The container except for its manager is the same, and a cancelled manager stays.\<close>

definition rm_only :: "life \<Rightarrow> life \<Rightarrow> bool" where
  "rm_only w w' \<longleftrightarrow> common_config (cont w') = common_config (cont w) \<and> hostconfig (cont w') = hostconfig (cont w) \<and>
     c_state (cont w') = c_state (cont w) \<and> (canceled_life w \<longrightarrow> canceled_life w')"

lemma rm_only_refl [simp]: "rm_only w w"
  by (simp add: rm_only_def)

lemma rm_only_trans: "rm_only u v \<Longrightarrow> rm_only v w \<Longrightarrow> rm_only u w"
  by (simp add: rm_only_def)

lemma rms_okD:
  assumes "rms_ok w hs" and "0 < rm_count w hs a"
  obtains rm where "rms w a = Some rm" "rm_refcnt rm = rm_count w hs a"
  using assms unfolding rms_ok_def by (metis less_numeral_extra(3) option.exhaust)

lemma rm_count_rms [simp]: "rm_count (w\<lparr>rms := h\<rparr>) hs a = rm_count w hs a"
  by (simp add: rm_count_def)

lemma rm_count_Cons [simp]: "rm_count w (a # hs) b = rm_count w hs b + (if b = a then 1 else 0)"
  by (simp add: rm_count_def)

lemma count_le: "rm_count w hs a \<le> 1 + length hs"
  using count_le_length [of hs a] by (simp add: rm_count_def)

lemma ref_ok:
  assumes "rms_ok w hs" and "0 < rm_count w hs a" and "length hs \<le> 2"
  shows "\<exists>w1. rm_ref a w = Some w1 \<and> cont w1 = cont w \<and> rms_ok w1 (a # hs) \<and> rm_only w w1"
proof -
  obtain rm where rm: "rms w a = Some rm" "rm_refcnt rm = rm_count w hs a" using assms(1,2) by (rule rms_okD)
  have "rm_refcnt rm + 1 < 2 ^ 64" using count_le [of w hs a] rm(2) assms(3) by simp
  then have inc: "restart_manager_refinc (Some rm) = Some (rm\<lparr>rm_refcnt := rm_refcnt rm + 1\<rparr>)" (is "_ = Some ?rm")
    by (simp add: restart_manager_refinc_def atomic_inc)
  let ?w = "w\<lparr>rms := (rms w)(a \<mapsto> ?rm)\<rparr>"
  have "rms_ok ?w (a # hs)" using assms(1) rm unfolding rms_ok_def by (auto split: if_splits)
  moreover have "rm_only w ?w" using rm(1) by (auto simp: rm_only_def canceled_life_def)
  ultimately show ?thesis using rm(1) inc by (simp add: rm_ref_def)
qed

lemma unref_ok:
  assumes "rms_ok w (a # hs)" and "length hs \<le> 2"
  shows "\<exists>w1. rm_unref (Some a) w = Some w1 \<and> cont w1 = cont w \<and> rms_ok w1 hs \<and> rm_only w w1"
proof -
  have "0 < rm_count w (a # hs) a" by simp
  then obtain rm where rm: "rms w a = Some rm" "rm_refcnt rm = rm_count w (a # hs) a" using assms(1) by (auto elim: rms_okD)
  have b: "0 < rm_refcnt rm" "rm_refcnt rm < 2 ^ 64"
    using count_le [of w "a # hs" a] rm(2) assms(2) by simp_all
  let ?rm = "if rm_refcnt rm = 1 then None else Some (rm\<lparr>rm_refcnt := rm_refcnt rm - 1\<rparr>)"
  let ?w = "w\<lparr>rms := (rms w)(a := ?rm)\<rparr>"
  have "rms_ok ?w hs"
    using assms(1) rm unfolding rms_ok_def by (auto split: if_splits)
  moreover have "rm_only w ?w"
  proof -
    have "canceled_life ?w" if "canceled_life w"
    proof (cases "c_rm (cont w) = Some a")
      case True
      then have "rm_refcnt rm \<noteq> 1" using rm(2) by (simp add: rm_count_def)
      then show ?thesis using that rm(1) by (auto simp: canceled_life_def)
    qed (use that in \<open>auto simp: canceled_life_def\<close>)
    then show ?thesis by (simp add: rm_only_def)
  qed
  ultimately show ?thesis using rm(1) unref_eq [OF b] by (simp add: rm_unref_def)
qed

text \<open>Writing a manager without touching its count.\<close>

lemma write_ok:
  assumes "rms_ok w hs" and "rms w a = Some rm" and "rm_refcnt rm' = rm_refcnt rm" and "canceled rm \<longrightarrow> canceled rm'"
  shows "rms_ok (w\<lparr>rms := (rms w)(a \<mapsto> rm')\<rparr>) hs \<and> rm_only w (w\<lparr>rms := (rms w)(a \<mapsto> rm')\<rparr>)"
proof -
  have "rms_ok (w\<lparr>rms := (rms w)(a \<mapsto> rm')\<rparr>) hs" using assms(1-3) unfolding rms_ok_def by (auto split: if_splits)
  then show ?thesis using assms(2,4) by (auto simp: rm_only_def canceled_life_def)
qed

lemma get_rm_ok:
  assumes "rms_ok w hs" and "hostconfig (cont w) \<noteq> None" and "rms w (rm_addr e) = None" and "length hs \<le> 2"
  shows "\<exists>p w1. get_restart_manager e w = Some (p, w1) \<and> rm_only w w1 \<and>
    (case p of None \<Rightarrow> w1 = w \<and> c_rm (cont w) = None | Some a \<Rightarrow> c_rm (cont w1) = Some a \<and> rms_ok w1 (a # hs))"
proof (cases "c_rm (cont w)")
  case (Some a)
  then have "0 < rm_count w hs a" by (simp add: rm_count_def)
  from ref_ok [OF assms(1) this assms(4)] show ?thesis using Some by (auto simp: get_restart_manager_def)
next
  case None
  obtain hc where hc: "hostconfig (cont w) = Some hc" using assms(2) by blast
  show ?thesis
  proof (cases "rm_alloc e (restart_policy hc) (container_state_get_restart_count (c_state (cont w)))")
    case None
    then show ?thesis using \<open>c_rm (cont w) = None\<close> hc by (simp add: get_restart_manager_def)
  next
    case (Some rm)
    let ?a = "rm_addr e"
    let ?w = "w\<lparr>cont := cont w\<lparr>c_rm := Some ?a\<rparr>, rms := (rms w)(?a \<mapsto> rm)\<rparr>"
    have z: "rm_count w hs ?a = 0" using assms(1,3) by (simp add: rms_ok_def)
    have "rm_refcnt rm = 1" using Some by (auto simp: rm_alloc_def restart_manager_new_def split: if_splits)
    moreover have "rm_count ?w hs b = rm_count w hs b + (if b = ?a then 1 else 0)" for b
      using None by (auto simp: rm_count_def)
    ultimately have "rms_ok ?w hs" using assms(1) z unfolding rms_ok_def by (auto split: if_splits)
    moreover have "0 < rm_count ?w hs ?a" by (simp add: rm_count_def)
    ultimately obtain w1 where w1: "rm_ref ?a ?w = Some w1" "cont w1 = cont ?w" "rms_ok w1 (?a # hs)" "rm_only ?w w1"
      using ref_ok [OF _ _ assms(4)] by blast
    have "rm_only w ?w" using None by (simp add: rm_only_def canceled_life_def)
    then have "rm_only w w1" using w1(4) rm_only_trans by blast
    then show ?thesis using None hc Some w1 by (simp add: get_restart_manager_def)
  qed
qed

lemma exit_on_next_ok:
  assumes "rms_ok w hs" and "hostconfig (cont w) \<noteq> None" and "rms w (rm_addr e) = None" and "length hs \<le> 1"
  shows "\<exists>r w1. container_exit_on_next e w = Some (r, w1) \<and> rm_only w w1 \<and> rms_ok w1 hs \<and> (r = 0 \<longrightarrow> canceled_life w1)"
proof -
  have "length hs \<le> 2" using assms(4) by simp
  from get_rm_ok [OF assms(1-3) this] obtain p w1 where g: "get_restart_manager e w = Some (p, w1)" "rm_only w w1"
    "case p of None \<Rightarrow> w1 = w \<and> c_rm (cont w) = None | Some a \<Rightarrow> c_rm (cont w1) = Some a \<and> rms_ok w1 (a # hs)" by blast
  show ?thesis
  proof (cases p)
    case None
    then show ?thesis using g assms(1) by (simp add: container_exit_on_next_def)
  next
    case (Some a)
    then have a: "c_rm (cont w1) = Some a" "rms_ok w1 (a # hs)" using g(3) by simp_all
    obtain rm where rm: "rms w1 a = Some rm" using a(2) by (auto elim: rms_okD [of _ _ a])
    let ?w2 = "w1\<lparr>rms := (rms w1)(a \<mapsto> rm\<lparr>canceled := True\<rparr>)\<rparr>"
    have w2: "rms_ok ?w2 (a # hs)" "rm_only w1 ?w2" using write_ok [OF a(2) rm] by auto
    have "canceled_life ?w2" using a(1) by (simp add: canceled_life_def)
    moreover obtain w3 where w3: "rm_unref (Some a) ?w2 = Some w3" "rms_ok w3 hs" "rm_only ?w2 w3"
      using unref_ok [OF w2(1)] assms(4) by auto
    ultimately have "canceled_life w3" by (simp add: rm_only_def)
    moreover have "rm_only w w3" using g(2) w2(2) w3(3) rm_only_trans by blast
    ultimately show ?thesis
      using g(1) Some rm w3 by (simp add: container_exit_on_next_def rm_cancel_def restart_manager_cancel_def)
  qed
qed

lemma update_ok:
  assumes "rms_ok w hs" and "hostconfig (cont w) \<noteq> None" and "rms w (rm_addr e) = None" and "length hs \<le> 1"
  shows "\<exists>w1. container_update_restart_manager e al pol w = Some w1 \<and> rm_only w w1 \<and> rms_ok w1 hs"
proof (cases pol)
  case None
  then show ?thesis using assms(1) by (simp add: container_update_restart_manager_def)
next
  case pol: (Some q)
  have "length hs \<le> 2" using assms(4) by simp
  from get_rm_ok [OF assms(1-3) this] obtain p w1 where g: "get_restart_manager e w = Some (p, w1)" "rm_only w w1"
    "case p of None \<Rightarrow> w1 = w \<and> c_rm (cont w) = None | Some a \<Rightarrow> c_rm (cont w1) = Some a \<and> rms_ok w1 (a # hs)" by blast
  show ?thesis
  proof (cases p)
    case None
    then show ?thesis using g pol assms(1) by (simp add: container_update_restart_manager_def)
  next
    case (Some a)
    then have a: "rms_ok w1 (a # hs)" using g(3) by simp
    obtain rm where rm: "rms w1 a = Some rm" using a by (auto elim: rms_okD [of _ _ a])
    obtain rm' where rm': "snd (restart_manager_set_policy al (Some rm) pol) = Some rm'"
      "rm_refcnt rm' = rm_refcnt rm" "canceled rm' = canceled rm"
      using pol by (cases al) (auto simp: restart_manager_set_policy_def)
    have w2: "rms_ok (w1\<lparr>rms := (rms w1)(a \<mapsto> rm')\<rparr>) (a # hs)" "rm_only w1 (w1\<lparr>rms := (rms w1)(a \<mapsto> rm')\<rparr>)"
      using write_ok [OF a rm rm'(2)] rm'(3) by auto
    obtain w3 where w3: "rm_unref (Some a) (w1\<lparr>rms := (rms w1)(a \<mapsto> rm')\<rparr>) = Some w3" "rms_ok w3 hs"
      "rm_only (w1\<lparr>rms := (rms w1)(a \<mapsto> rm')\<rparr>) w3"
      using unref_ok [OF w2(1)] assms(4) by auto
    moreover have "rm_only w w3" using g(2) w2(2) w3(3) rm_only_trans by blast
    ultimately show ?thesis using g(1) Some rm rm'(1) pol by (simp add: container_update_restart_manager_def)
  qed
qed

lemma decide_keeps:
  assumes "rm_decide rm ec m d = (restart, timeout, rm')"
  shows "rm_refcnt rm' = rm_refcnt rm" and "canceled rm' = canceled rm" and "restart \<Longrightarrow> timeout \<noteq> None"
    and "canceled rm \<Longrightarrow> \<not> restart"
  using assms by (auto simp: rm_decide_def restart_manager_set_items_def Let_def split: option.splits if_splits)

lemma should_restart_ok:
  assumes "rms_ok w hs" and "hostconfig (cont w) \<noteq> None" and "rms w (rm_addr e) = None" and "length hs \<le> 1"
  shows "\<exists>restart timeout w1. restart_manager_should_restart e found ec m d w = Some (restart, timeout, w1) \<and>
    rm_only w w1 \<and> rms_ok w1 hs \<and> (restart \<longrightarrow> timeout \<noteq> None) \<and> (canceled_life w \<longrightarrow> \<not> restart)"
proof (cases found)
  case False
  then show ?thesis using assms(1) by (auto simp: restart_manager_should_restart_def)
next
  case True
  have "length hs \<le> 2" using assms(4) by simp
  from get_rm_ok [OF assms(1-3) this] obtain p w1 where g: "get_restart_manager e w = Some (p, w1)" "rm_only w w1"
    "case p of None \<Rightarrow> w1 = w \<and> c_rm (cont w) = None | Some a \<Rightarrow> c_rm (cont w1) = Some a \<and> rms_ok w1 (a # hs)" by blast
  show ?thesis
  proof (cases p)
    case None
    then show ?thesis using g True assms(1) by (auto simp: restart_manager_should_restart_def)
  next
    case (Some a)
    then have a: "c_rm (cont w1) = Some a" "rms_ok w1 (a # hs)" using g(3) by simp_all
    obtain rm where rm: "rms w1 a = Some rm" using a(2) by (auto elim: rms_okD [of _ _ a])
    obtain restart timeout rm' where d: "rm_decide rm ec m d = (restart, timeout, rm')"
      using prod_cases3 by blast
    note dk = decide_keeps [OF d]
    have w2: "rms_ok (w1\<lparr>rms := (rms w1)(a \<mapsto> rm')\<rparr>) (a # hs)" "rm_only w1 (w1\<lparr>rms := (rms w1)(a \<mapsto> rm')\<rparr>)"
      using write_ok [OF a(2) rm dk(1)] dk(2) by auto
    obtain w3 where w3: "rm_unref (Some a) (w1\<lparr>rms := (rms w1)(a \<mapsto> rm')\<rparr>) = Some w3" "rms_ok w3 hs"
      "rm_only (w1\<lparr>rms := (rms w1)(a \<mapsto> rm')\<rparr>) w3"
      using unref_ok [OF w2(1)] assms(4) by auto
    have "canceled_life w \<Longrightarrow> canceled rm" using g(2) a(1) rm by (auto simp: rm_only_def canceled_life_def)
    then have "canceled_life w \<longrightarrow> \<not> restart" using dk(4) by blast
    moreover have "restart_manager_should_restart e found ec m d w = Some (restart, timeout, w3)"
      using g(1) Some rm d w3(1) True by (simp add: restart_manager_should_restart_def)
    moreover have "rm_only w w3" using g(2) w2(2) w3(3) rm_only_trans by blast
    ultimately show ?thesis using w3(2) dk(3) by blast
  qed
qed

lemma reset_ok:
  assumes "rms_ok w hs" and "length hs \<le> 1"
  shows "\<exists>w1. container_reset_restart_manager rc w = Some (True, w1) \<and> rms_ok w1 hs \<and>
    common_config (cont w1) = common_config (cont w) \<and> hostconfig (cont w1) = hostconfig (cont w) \<and>
    c_state (cont w1) = (if rc then container_state_reset_restart_count (c_state (cont w)) else c_state (cont w))"
proof (cases "c_rm (cont w)")
  case None
  have "rms_ok (w\<lparr>cont := cont w\<lparr>c_state := s, c_rm := None\<rparr>\<rparr>) hs" for s
    using None assms(1) by (simp add: rms_ok_def rm_count_def)
  from this [of "container_state_reset_restart_count (c_state (cont w))"] this [of "c_state (cont w)"]
  show ?thesis using None by (simp add: container_reset_restart_manager_def set_state_def)
next
  case (Some a)
  then have "0 < rm_count w hs a" by (simp add: rm_count_def)
  then obtain rm where rm: "rms w a = Some rm" using assms(1) by (auto elim: rms_okD)
  let ?w1 = "w\<lparr>rms := (rms w)(a \<mapsto> rm\<lparr>canceled := True\<rparr>)\<rparr>"
  let ?v = "?w1\<lparr>cont := cont w\<lparr>c_rm := None\<rparr>\<rparr>"
  have c: "rm_count w hs x = rm_count ?v (a # hs) x" for x using Some by (simp add: rm_count_def)
  have "rms_ok ?w1 hs" using write_ok [OF assms(1) rm] by auto
  then have "rms_ok ?v (a # hs)" unfolding rms_ok_def rm_count_rms c by simp
  from unref_ok [OF this] assms(2) obtain w2 where w2: "rm_unref (Some a) ?v = Some w2"
    "cont w2 = cont w\<lparr>c_rm := None\<rparr>" "rms_ok w2 hs" by auto
  have u: "rm_unref (Some a) ?w1 = Some (w2\<lparr>cont := cont w\<rparr>)" using w2(1) by (auto simp: rm_unref_def)
  have "rms_ok (w2\<lparr>cont := cont w\<lparr>c_state := s, c_rm := None\<rparr>\<rparr>) hs" for s
    using w2(2,3) by (simp add: rms_ok_def rm_count_def)
  from this [of "container_state_reset_restart_count (c_state (cont w))"] this [of "c_state (cont w)"]
  show ?thesis using Some rm u
    by (simp add: container_reset_restart_manager_def rm_cancel_def restart_manager_cancel_def set_state_def)
qed

section \<open>States\<close>

definition st_keeps :: "(state_ptr \<Rightarrow> state_ptr) \<Rightarrow> container_state \<Rightarrow> bool" where
  "st_keeps f s \<longleftrightarrow> (state_consistent s \<longrightarrow> (\<exists>s'. f (Some s) = Some s' \<and> state_consistent s'))"

lemma setters_keep [simp]:
  "st_keeps container_state_set_starting s" "st_keeps container_state_reset_starting s"
  "st_keeps (container_state_set_running p True now) s" "st_keeps (container_state_set_stopped c now) s"
  "st_keeps container_state_set_oom_killed s" "st_keeps container_state_reset_paused s"
  "st_keeps (container_state_set_restarting c now) s" "st_keeps container_state_increase_restart_count s"
  "st_keeps container_state_reset_restart_count s" "st_keeps container_state_reset_removal_in_progress s"
  "st_keeps container_state_set_has_been_manual_stopped s" "st_keeps container_state_reset_has_been_manual_stopped s"
  "st_keeps (\<lambda>p. snd (container_state_set_removal_in_progress p)) s"
  "st_keeps (\<lambda>_. Some (container_state_set_error err s)) s"
  by (auto simp: st_keeps_def state_defs state_consistent_def Let_def split: option.splits)

lemma pause_keeps: "running s \<Longrightarrow> \<not> restarting s \<Longrightarrow> st_keeps container_state_set_paused s"
  by (auto simp: st_keeps_def state_defs state_consistent_def)

lemma update_keeps: "fin \<noteq> None \<Longrightarrow> st_keeps (container_restart_update_start_and_finish_time fin now) s"
  by (auto simp: st_keeps_def state_defs state_consistent_def)

lemma restarting_after [simp]:
  "container_is_restarting (container_state_set_stopped c now p) = False"
  "container_is_restarting (container_state_set_running i True now p) = False"
  "container_is_restarting (container_restart_update_start_and_finish_time fin now p) = False"
  "container_is_restarting (container_state_set_restarting c now p) = (p \<noteq> None)"
  "container_is_restarting (container_state_set_starting p) = container_is_restarting p"
  "container_is_restarting (container_state_reset_starting p) = container_is_restarting p"
  "container_is_restarting (container_state_set_oom_killed p) = container_is_restarting p"
  "container_is_restarting (container_state_set_paused p) = container_is_restarting p"
  "container_is_restarting (container_state_reset_paused p) = container_is_restarting p"
  "container_is_restarting (container_state_reset_restart_count p) = container_is_restarting p"
  "container_is_restarting (container_state_increase_restart_count p) = container_is_restarting p"
  "container_is_restarting (container_state_reset_removal_in_progress p) = container_is_restarting p"
  "container_is_restarting (container_state_set_has_been_manual_stopped p) = container_is_restarting p"
  "container_is_restarting (container_state_reset_has_been_manual_stopped p) = container_is_restarting p"
  "container_is_restarting (snd (container_state_set_removal_in_progress p)) = container_is_restarting p"
  by (auto simp: state_defs Let_def split: option.splits)

lemma set_state_simps [simp]:
  "c_state (cont (set_state f w)) = f (c_state (cont w))" "rms (set_state f w) = rms w"
  "common_config (cont (set_state f w)) = common_config (cont w)"
  "hostconfig (cont (set_state f w)) = hostconfig (cont w)"
  "canceled_life (set_state f w) = canceled_life w"
  "is_restarting_l (set_state f w) = container_is_restarting (f (c_state (cont w)))"
  by (simp_all add: set_state_def canceled_life_def is_restarting_l_def)

lemma set_state_rms [simp]: "rms_ok (set_state f w) hs = rms_ok w hs"
  by (simp add: set_state_def rms_ok_def rm_count_def)

lemma set_state_wf:
  assumes "wf_life w hs" and "\<And>s. c_state (cont w) = Some s \<Longrightarrow> st_keeps f s"
  shows "wf_life (set_state f w) hs"
  using assms by (auto simp: wf_life_def st_keeps_def)

lemma to_removal_eq: "snd (to_removal w) = set_state (\<lambda>p. snd (container_state_set_removal_in_progress p)) w"
  by (simp add: to_removal_def set_container_to_removal_def set_state_def Let_def case_prod_unfold)

lemma wf_rm_only:
  assumes "wf_life w hs" and "rm_only w w1" and "rms_ok w1 hs'" and "length hs' \<le> 1"
  shows "wf_life w1 hs'"
  using assms by (simp add: wf_life_def rm_only_def)

lemma rm_only_restarting: "rm_only w w1 \<Longrightarrow> is_restarting_l w1 = is_restarting_l w"
  by (simp add: rm_only_def is_restarting_l_def)

section \<open>Sections\<close>

lemma kill_ok:
  assumes "wf_life w hs" and "rms w (rm_addr (k_rm e)) = None"
  shows "\<exists>r w1. kill_with_signal e sig w = Some (r, w1) \<and> wf_life w1 hs \<and> is_restarting_l w1 = is_restarting_l w \<and>
    (canceled_life w \<longrightarrow> canceled_life w1) \<and> (r = 0 \<longrightarrow> canceled_life w1)"
proof -
  have wf: "rms_ok w hs" "hostconfig (cont w) \<noteq> None" "length hs \<le> 1" using assms(1) by (simp_all add: wf_life_def)
  obtain ss where ss: "container_stop_signal w = Some ss"
    using assms(1) by (auto simp: wf_life_def container_stop_signal_def Let_def)
  obtain r w1 where x: "container_exit_on_next (k_rm e) w = Some (r, w1)" "rm_only w w1" "rms_ok w1 hs"
    "r = 0 \<longrightarrow> canceled_life w1" using exit_on_next_ok [OF wf(1,2) assms(2) wf(3)] by blast
  have w1: "wf_life w1 hs" using wf_rm_only [OF assms(1) x(2,3) wf(3)] .
  note rr = rm_only_restarting [OF x(2)]
  show ?thesis
  proof (cases "r = 0")
    case False
    then show ?thesis using ss x(1,2) w1 rr by (simp add: kill_with_signal_def rm_only_def)
  next
    case True
    let ?w2 = "set_state container_state_set_has_been_manual_stopped w1"
    have "wf_life ?w2 hs" "canceled_life ?w2" "is_restarting_l ?w2 = is_restarting_l w"
      using set_state_wf [OF w1] x(4) True rr by (simp_all add: is_restarting_l_def)
    moreover have "\<exists>rc. kill_with_signal e sig w = Some (rc, ?w2)"
      using ss x(1) True by (simp add: kill_with_signal_def Let_def)
    ultimately show ?thesis by blast
  qed
qed

lemma start_failed_ok:
  assumes "wf_life w hs"
  shows "\<exists>r w1. start_failed e w = Some (r, w1) \<and> wf_life w1 hs \<and> \<not> is_restarting_l w1 \<and>
    (canceled_life w \<longrightarrow> canceled_life w1)"
proof -
  obtain s where s: "c_state (cont w) = Some s" using assms by (auto simp: wf_life_def)
  let ?w1 = "set_state (\<lambda>_. Some (container_state_set_error (errmsg e) s)) w"
  let ?w2 = "set_state (container_state_set_stopped (util_contain_errmsg (errmsg e) 125) (stop_now e)) ?w1"
  have "wf_life ?w1 hs" using set_state_wf [OF assms] s by simp
  then have w2: "wf_life ?w2 hs" "\<not> is_restarting_l ?w2" using set_state_wf by simp_all
  have w3: "wf_life (snd (to_removal ?w2)) hs" "\<not> is_restarting_l (snd (to_removal ?w2))"
    using set_state_wf [OF w2(1)] w2(2) by (simp_all add: to_removal_eq)
  have "start_failed e w =
      (if (case hostconfig (cont ?w2) of None \<Rightarrow> False | Some hc \<Rightarrow> auto_remove hc)
       then Some (if fst (to_removal ?w2) \<noteq> 0 then Finished (-1) else Removing (-1), snd (to_removal ?w2))
       else Some (Finished (-1), ?w2))"
    unfolding start_failed_def s by (simp add: case_prod_unfold Let_def)
  then show ?thesis using w2 w3 by (auto simp: to_removal_eq)
qed

lemma do_start_ok:
  assumes "wf_life w hs"
  shows "\<exists>rc undo w1. do_start_container ans src sb reset w = Some (rc, undo, w1) \<and> wf_life w1 hs \<and>
    is_restarting_l w1 = is_restarting_l w \<and> (\<not> reset \<longrightarrow> w1 = w)"
proof (cases reset)
  case False
  then show ?thesis using assms
    by (auto simp: do_start_container_def split: option.splits)
next
  case True
  have wf: "rms_ok w hs" "length hs \<le> 1" using assms by (simp_all add: wf_life_def)
  obtain w1 where w1: "container_reset_restart_manager True w = Some (True, w1)" "rms_ok w1 hs"
    "common_config (cont w1) = common_config (cont w)" "hostconfig (cont w1) = hostconfig (cont w)"
    "c_state (cont w1) = container_state_reset_restart_count (c_state (cont w))"
    using reset_ok [OF wf, of True] by auto
  have "st_keeps container_state_reset_restart_count s" for s by simp
  then have "wf_life w1 hs" "is_restarting_l w1 = is_restarting_l w"
    using assms w1 unfolding wf_life_def st_keeps_def is_restarting_l_def by (metis, simp)
  then show ?thesis using True w1(1) assms
    by (auto simp: do_start_container_def split: option.splits)
qed

lemma start_section_ok:
  assumes "wf_life w hs" and "start_ok e"
  shows "\<exists>r w1. start_section fk e reset w = Some (r, w1) \<and> wf_life w1 hs \<and>
    (reset \<longrightarrow> is_restarting_l w1 = is_restarting_l w) \<and>
    (\<not> reset \<longrightarrow> is_restarting_l w1 \<longrightarrow> is_restarting_l w \<and> (\<exists>rc. r = Finished rc \<and> rc \<noteq> 0)) \<and>
    (\<not> reset \<longrightarrow> canceled_life w \<longrightarrow> canceled_life w1)"
proof -
  obtain s where s: "c_state (cont w) = Some s" "state_consistent s" using assms(1) by (auto simp: wf_life_def)
  consider (run) "reset \<and> running s"
    | (no) "\<not> (reset \<and> running s)" "paused s \<or> removal_inprogress s \<or> dead s \<or> in_gc e \<or>
        net_native e \<and> \<not> net_valid e \<or> net_native e \<and> \<not> net_post e \<and> \<not> net_prepare e"
    | (go) "\<not> (reset \<and> running s)" "\<not> (paused s \<or> removal_inprogress s \<or> dead s \<or> in_gc e \<or>
        net_native e \<and> \<not> net_valid e \<or> net_native e \<and> \<not> net_post e \<and> \<not> net_prepare e)" by blast
  then show ?thesis
  proof cases
    case run
    then show ?thesis using s assms(1) by (simp add: start_section_def container_is_running_def)
  next
    case no
    then have "start_section fk e reset w = Some (Finished (-1), w)"
      using s by (auto simp: start_section_def state_defs Let_def)
    then show ?thesis using assms(1) by simp
  next
    case go
    have nr: "reset \<Longrightarrow> \<not> is_restarting_l w" using go(1) s by (auto simp: is_restarting_l_def state_defs state_consistent_def)
    obtain rc undo w1 where d: "do_start_container (call_ans e) (start_rc e) (sandboxed e) reset w = Some (rc, undo, w1)"
      "wf_life w1 hs" "is_restarting_l w1 = is_restarting_l w" "\<not> reset \<longrightarrow> w1 = w" using do_start_ok [OF assms(1)] by blast
    have eq: "start_section fk e reset w =
        (if rc \<noteq> 0 then start_failed e w1
         else Some (Finished (if save_ok e then 0 else -1), set_state container_state_reset_has_been_manual_stopped
                (set_state (container_state_set_running (Some (start_pids e)) True (start_now e)) w1)))"
      using go s assms(2) d(1) by (auto simp: start_section_def state_defs start_ok_def Let_def)
    show ?thesis
    proof (cases "rc = 0")
      case True
      let ?w2 = "set_state (container_state_set_running (Some (start_pids e)) True (start_now e)) w1"
      let ?w3 = "set_state container_state_reset_has_been_manual_stopped ?w2"
      have "wf_life ?w2 hs" using set_state_wf [OF d(2)] by simp
      then have "wf_life ?w3 hs" using set_state_wf by simp
      then show ?thesis using True eq nr d(4) by auto
    next
      case False
      then show ?thesis using eq start_failed_ok [OF d(2), of e] nr d(4) by auto
    qed
  qed
qed

lemma restarting_wf:
  assumes "wf_life w hs"
  shows "wf_life (set_state (container_state_set_restarting c now) (set_state container_state_increase_restart_count w)) hs"
    and "is_restarting_l (set_state (container_state_set_restarting c now) (set_state container_state_increase_restart_count w))"
proof -
  have "wf_life (set_state container_state_increase_restart_count w) hs" using set_state_wf [OF assms] by simp
  then show "wf_life (set_state (container_state_set_restarting c now) (set_state container_state_increase_restart_count w)) hs"
    using set_state_wf by simp
  show "is_restarting_l (set_state (container_state_set_restarting c now) (set_state container_state_increase_restart_count w))"
    using assms by (auto simp: wf_life_def container_state_increase_restart_count_def)
qed

lemma stopped_gen:
  assumes "wf_life w hs" and "rms w (rm_addr (x_rm e)) = None" and "p \<noteq> 0"
  shows "\<exists>r td d w1 restart. stopped_section e p c w = Some (r, td, d, w1) \<and> wf_life w1 hs \<and>
    is_restarting_l w1 = (is_restarting_l w \<or> restart) \<and> (restart \<longrightarrow> \<not> is_restarting_l w) \<and>
    (td \<noteq> None \<longleftrightarrow> restart \<and> threads_ok e) \<and> (canceled_life w \<longrightarrow> canceled_life w1 \<and> \<not> restart)"
proof -
  obtain s where s: "c_state (cont w) = Some s" "state_consistent s" using assms(1) by (auto simp: wf_life_def)
  have wf: "rms_ok w hs" "hostconfig (cont w) \<noteq> None" "length hs \<le> 1" using assms(1) by (simp_all add: wf_life_def)
  show ?thesis
  proof (cases "running s \<and> pid s = p")
    case False
    then have "stopped_section e p c w = Some (0, None, False, w)"
      using s by (auto simp: stopped_section_def state_defs Let_def)
    then show ?thesis using assms(1) by (intro exI [of _ 0] exI [of _ None] exI [of _ False] exI [of _ w]) simp
  next
    case True
    have nr: "\<not> is_restarting_l w" using True s assms(3) by (auto simp: is_restarting_l_def state_defs state_consistent_def)
    obtain restart timeout w1 where d:
      "restart_manager_should_restart (x_rm e) (x_found e) c (has_been_manually_stopped s) (x_duration e) w =
        Some (restart, timeout, w1)" "rm_only w w1" "rms_ok w1 hs" "restart \<longrightarrow> timeout \<noteq> None" "canceled_life w \<longrightarrow> \<not> restart"
      using should_restart_ok [OF wf(1,2) assms(2) wf(3)] by blast
    have w1: "wf_life w1 hs" using wf_rm_only [OF assms(1) d(2,3) wf(3)] .
    have s1: "c_state (cont w1) = Some s" using d(2) s by (simp add: rm_only_def)
    let ?w2 = "if restart then set_state (container_state_set_restarting (wrap32 c) (x_now e))
        (set_state container_state_increase_restart_count w1) else set_state (container_state_set_stopped (wrap32 c) (x_now e)) w1"
    have w2: "wf_life ?w2 hs" "is_restarting_l ?w2 = restart" "canceled_life ?w2 = canceled_life w1"
      using set_state_wf [OF w1] restarting_wf [OF w1] by auto
    have w3: "wf_life (snd (to_removal ?w2)) hs" "is_restarting_l (snd (to_removal ?w2)) = restart"
      "canceled_life (snd (to_removal ?w2)) = canceled_life w1"
      using set_state_wf [OF w2(1)] w2(2,3) unfolding to_removal_eq by (simp_all add: is_restarting_l_def)
    let ?td = "if restart \<and> threads_ok e then Some (the timeout, wrap32 c) else None"
    let ?rmv = "\<not> restart \<and> (case hostconfig (cont ?w2) of None \<Rightarrow> False | Some hc \<Rightarrow> auto_remove hc)"
    let ?w3 = "if ?rmv then snd (to_removal ?w2) else ?w2"
    have "stopped_section e p c w = Some (if \<not> x_disk e then -1 else if ?rmv then fst (to_removal ?w2) else 0, ?td,
        x_disk e \<and> ?rmv, ?w3)"
      using True s d(1)
      by (cases restart) (auto simp: stopped_section_def container_is_running_def container_state_get_pid_def
          container_state_get_has_been_manual_stopped_def threads_ok_def container_restart_in_thread_def Let_def case_prod_unfold)
    moreover have "canceled_life w \<longrightarrow> canceled_life w1" using d(2) by (simp add: rm_only_def)
    moreover have "wf_life ?w3 hs" "is_restarting_l ?w3 = restart" "canceled_life ?w3 = canceled_life w1"
      using w2 w3 by presburger+
    ultimately obtain r dl w3 where "stopped_section e p c w = Some (r, ?td, dl, w3)" "wf_life w3 hs"
      "is_restarting_l w3 = restart" "canceled_life w \<longrightarrow> canceled_life w3" by blast
    then show ?thesis using nr d(5)
      by (intro exI [of _ r] exI [of _ ?td] exI [of _ dl] exI [of _ w3] exI [of _ restart]) auto
  qed
qed

lemma stopped_ok:
  assumes "wf_life w hs" and "rms w (rm_addr (x_rm e)) = None" and "p \<noteq> 0" and "threads_ok e"
  shows "\<exists>r td d w1. stopped_section e p c w = Some (r, td, d, w1) \<and> wf_life w1 hs \<and>
    (if td = None then is_restarting_l w1 = is_restarting_l w else \<not> is_restarting_l w \<and> is_restarting_l w1) \<and>
    (canceled_life w \<longrightarrow> canceled_life w1 \<and> td = None)"
  using stopped_gen [OF assms(1-3), of c] assms(4) by fastforce

lemma gc_restart_ok:
  assumes "wf_life w hs" and "rms w (rm_addr (x_rm e)) = None" and "threads_ok e"
  shows "\<exists>td w1. apply_restart_policy_after_gc present e w = Some (td, w1) \<and> wf_life w1 hs \<and>
    (if td = None then is_restarting_l w1 = is_restarting_l w else \<not> is_restarting_l w \<and> is_restarting_l w1) \<and>
    (canceled_life w \<longrightarrow> canceled_life w1 \<and> td = None)"
proof -
  obtain s where s: "c_state (cont w) = Some s" "state_consistent s" using assms(1) by (auto simp: wf_life_def)
  have wf: "rms_ok w hs" "hostconfig (cont w) \<noteq> None" "length hs \<le> 1" using assms(1) by (simp_all add: wf_life_def)
  show ?thesis
  proof (cases "\<not> present \<or> running s")
    case True
    then have "apply_restart_policy_after_gc present e w = Some (None, w)"
      using s by (auto simp: apply_restart_policy_after_gc_def state_defs Let_def)
    then show ?thesis using assms(1) by auto
  next
    case False
    let ?ec = "container_state_get_exitcode (Some s)"
    have nr: "\<not> is_restarting_l w" using False s by (auto simp: is_restarting_l_def state_defs state_consistent_def)
    obtain restart timeout w1 where d:
      "restart_manager_should_restart (x_rm e) (x_found e) ?ec (has_been_manually_stopped s) (x_duration e) w =
        Some (restart, timeout, w1)" "rm_only w w1" "rms_ok w1 hs" "restart \<longrightarrow> timeout \<noteq> None" "canceled_life w \<longrightarrow> \<not> restart"
      using should_restart_ok [OF wf(1,2) assms(2) wf(3)] by blast
    have w1: "wf_life w1 hs" using wf_rm_only [OF assms(1) d(2,3) wf(3)] .
    have s1: "c_state (cont w1) = Some s" using d(2) s by (simp add: rm_only_def)
    let ?w2 = "if restart then set_state (container_state_set_restarting (wrap32 ?ec) (x_now e))
        (set_state container_state_increase_restart_count w1) else w1"
    have w2: "wf_life ?w2 hs" "is_restarting_l ?w2 = restart" "canceled_life ?w2 = canceled_life w1"
      using w1 restarting_wf [OF w1] nr rm_only_restarting [OF d(2)] by auto
    let ?td = "if restart then Some (the timeout, wrap32 ?ec) else None"
    have "apply_restart_policy_after_gc present e w = Some (?td, ?w2)"
      using False s d(1) assms(3)
      by (simp add: apply_restart_policy_after_gc_def container_is_running_def container_state_get_has_been_manual_stopped_def
          threads_ok_def container_restart_in_thread_def Let_def)
    moreover have "canceled_life w \<longrightarrow> canceled_life w1" using d(2) by (simp add: rm_only_def)
    ultimately show ?thesis using w2 nr d(5) by (intro exI [of _ ?td] exI [of _ ?w2]) auto
  qed
qed

section \<open>The thread\<close>

definition held_by :: "rthread option \<Rightarrow> addr list" where
  "held_by t = (case t of None \<Rightarrow> [] | Some t \<Rightarrow> (case rm_held (r_phase t) of None \<Rightarrow> [] | Some a \<Rightarrow> [a]))"

text \<open>How many steps the thread has left at most.\<close>

fun restart_rank :: "rphase \<Rightarrow> nat" where
  "restart_rank R_Begin = 4"
| "restart_rank (R_Wait a) = 3"
| "restart_rank (R_Start a) = 2"
| "restart_rank (R_Stop p) = 1"

definition thread_rank :: "rthread option \<Rightarrow> nat" where
  "thread_rank t = (case t of None \<Rightarrow> 0 | Some t \<Rightarrow> restart_rank (r_phase t))"

lemma unref_wf:
  assumes "wf_life w (held_by (Some t))" and "rm_held (r_phase t) = p"
  shows "\<exists>w1. rm_unref p w = Some w1 \<and> wf_life w1 [] \<and> is_restarting_l w1 = is_restarting_l w \<and>
    (canceled_life w \<longrightarrow> canceled_life w1)"
proof (cases p)
  case None
  then show ?thesis using assms by (simp add: rm_unref_def held_by_def)
next
  case (Some a)
  then have "rms_ok w [a]" using assms by (simp add: wf_life_def held_by_def)
  from unref_ok [OF this] obtain w1 where w1: "rm_unref (Some a) w = Some w1" "rms_ok w1 []" "rm_only w w1" by auto
  show ?thesis using w1 Some wf_rm_only [OF assms(1) w1(3,2)] rm_only_restarting [OF w1(3)] by (simp add: rm_only_def)
qed

lemma enter_ok:
  assumes "wf_life w []" and "rms w (rm_addr e) = None"
  shows "\<exists>ph w1. restart_enter e gc w = Some (ph, w1) \<and> wf_life w1 (case rm_held ph of None \<Rightarrow> [] | Some a \<Rightarrow> [a]) \<and>
    is_restarting_l w1 = is_restarting_l w \<and> restart_rank ph < 4 \<and> (canceled_life w \<longrightarrow> canceled_life w1)"
proof (cases gc)
  case True
  then show ?thesis using assms(1) by (simp add: restart_enter_def rm_held_def)
next
  case False
  have wf: "rms_ok w []" "hostconfig (cont w) \<noteq> None" using assms(1) by (simp_all add: wf_life_def)
  from get_rm_ok [OF wf assms(2)] obtain p w1 where g: "get_restart_manager e w = Some (p, w1)" "rm_only w w1"
    "case p of None \<Rightarrow> w1 = w \<and> c_rm (cont w) = None | Some a \<Rightarrow> c_rm (cont w1) = Some a \<and> rms_ok w1 [a]" by auto
  note rr = rm_only_restarting [OF g(2)]
  show ?thesis
  proof (cases p)
    case None
    then show ?thesis using g False assms(1) by (simp add: restart_enter_def rm_held_def)
  next
    case (Some a)
    then have "wf_life w1 [a]" using g(3) wf_rm_only [OF assms(1) g(2), of "[a]"] by simp
    then show ?thesis using g(1,2) Some False rr by (simp add: restart_enter_def rm_held_def rm_only_def)
  qed
qed

lemma thread_start_ok:
  assumes "wf_life w [a]" and "is_restarting_l w" and "start_ok e"
  shows "\<exists>ph w1. restart_start fk no_delete e a w = Some (ph, w1) \<and>
    wf_life w1 (case ph of None \<Rightarrow> [] | Some _ \<Rightarrow> [a]) \<and> (ph = None \<or> ph = Some (R_Stop (Some a))) \<and>
    (is_restarting_l w1 \<longleftrightarrow> ph \<noteq> None) \<and> (canceled_life w \<longrightarrow> canceled_life w1)"
proof -
  obtain r w1 where s: "start_section fk e False w = Some (r, w1)" "wf_life w1 [a]"
    "is_restarting_l w1 \<longrightarrow> (\<exists>rc. r = Finished rc \<and> rc \<noteq> 0)" "canceled_life w \<longrightarrow> canceled_life w1"
    using start_section_ok [OF assms(1,3), of fk False] by auto
  obtain rc where c: "start_container fk no_delete e False w = Some (rc, w1)" "is_restarting_l w1 \<longrightarrow> rc \<noteq> 0"
    using s(1,3) by (cases r) (auto simp: start_container_def no_delete_def)
  show ?thesis
  proof (cases "is_restarting_l w1")
    case True
    then show ?thesis using c s by (simp add: restart_start_def is_restarting_l_def)
  next
    case False
    let ?t = "\<lparr>r_timeout = 0, r_code = 0, r_phase = R_Start a\<rparr>"
    obtain w2 where "rm_unref (Some a) w1 = Some w2" "wf_life w2 []" "is_restarting_l w2 = is_restarting_l w1"
      "canceled_life w1 \<longrightarrow> canceled_life w2"
      using unref_wf [of w1 ?t "Some a"] s(2) by (auto simp: held_by_def rm_held_def)
    then show ?thesis using c(1) False s(4) by (simp add: restart_start_def is_restarting_l_def)
  qed
qed

lemma thread_ok:
  assumes "wf_life w (held_by (Some t))" and "is_restarting_l w" and "rms w (rm_addr (t_rm e)) = None"
    and "start_ok (t_start e)"
  shows "\<exists>t' w1. thread_step fk no_delete e t w = Some (t', w1) \<and> wf_life w1 (held_by t') \<and>
    (is_restarting_l w1 \<longleftrightarrow> t' \<noteq> None) \<and> thread_rank t' < thread_rank (Some t) \<and>
    (canceled_life w \<longrightarrow> canceled_life w1)"
proof (cases "r_phase t")
  case R_Begin
  then have "wf_life w []" using assms(1) by (simp add: held_by_def rm_held_def)
  from enter_ok [OF this assms(3), of "t_gc e"] show ?thesis
    using R_Begin assms(2) by (auto simp: thread_step_def held_by_def thread_rank_def)
next
  case (R_Wait a)
  then have w: "wf_life w [a]" using assms(1) by (simp add: held_by_def rm_held_def)
  then obtain rm where "rms w a = Some rm" by (auto simp: wf_life_def elim: rms_okD [of w "[a]" a])
  then show ?thesis using R_Wait w assms(2)
    by (simp add: thread_step_def restart_wait_def held_by_def thread_rank_def rm_held_def)
next
  case (R_Start a)
  then have "wf_life w [a]" using assms(1) by (simp add: held_by_def rm_held_def)
  from thread_start_ok [OF this assms(2,4), of fk] show ?thesis
    using R_Start by (auto simp: thread_step_def held_by_def thread_rank_def rm_held_def)
next
  case (R_Stop p)
  let ?w = "set_state (container_state_set_stopped (r_code t) (t_now e)) w"
  have "wf_life ?w (held_by (Some t))" using set_state_wf [OF assms(1)] by simp
  from unref_wf [OF this] obtain w1 where "rm_unref p ?w = Some w1" "wf_life w1 []" "\<not> is_restarting_l w1"
    "canceled_life w \<longrightarrow> canceled_life w1" using R_Stop by (auto simp: rm_held_def)
  then show ?thesis using R_Stop by (simp add: thread_step_def restart_stop_def held_by_def thread_rank_def)
qed

section \<open>Every step keeps the invariant\<close>

lemma linv_cases:
  assumes "linv y"
  obtains "thr y = []" "wf_life (ls y) []" "\<not> is_restarting_l (ls y)"
  | t where "thr y = [t]" "wf_life (ls y) (held_by (Some t))" "is_restarting_l (ls y)"
proof (cases "thr y")
  case Nil
  then show ?thesis using assms that(1) by (simp add: linv_def held_rms_def map_filter_simps)
next
  case (Cons t ts)
  then have "ts = []" using assms by (simp add: linv_def)
  then show ?thesis using Cons assms that(2)
    by (simp add: linv_def held_rms_def map_filter_simps held_by_def split: option.splits)
qed

definition rank :: "lsys \<Rightarrow> nat" where
  "rank y = (case thr y of [] \<Rightarrow> 0 | t # ts \<Rightarrow> thread_rank (Some t))"

text \<open>What one step of the whole system does.\<close>

definition step_good :: "lop \<Rightarrow> lsys \<Rightarrow> lsys \<Rightarrow> bool" where
  "step_good op y y' \<longleftrightarrow> linv y' \<and>
     ((\<forall>e. op \<noteq> User_Start e) \<longrightarrow> canceled_life (ls y) \<longrightarrow> canceled_life (ls y') \<and> rank y' \<le> rank y) \<and>
     (case op of Thread e \<Rightarrow> thr y \<noteq> [] \<longrightarrow> rank y' < rank y | _ \<Rightarrow> thr y \<noteq> [] \<longrightarrow> rank y' = rank y)"

lemma linv_hs:
  assumes "linv y"
  shows "wf_life (ls y) (held_rms y)" and "is_restarting_l (ls y) \<longleftrightarrow> thr y \<noteq> []"
  using assms by (simp_all add: linv_def)

lemma same_threads:
  assumes "linv y" and "wf_life w (held_rms y)" and "is_restarting_l w = is_restarting_l (ls y)"
    and "canceled_life (ls y) \<longrightarrow> canceled_life w" and "\<forall>e. op \<noteq> Thread e"
  shows "step_good op y (y\<lparr>ls := w\<rparr>)"
  using assms by (cases op) (simp_all add: step_good_def linv_def held_rms_def rank_def)

lemma new_thread_good:
  assumes "linv y" and "wf_life w (held_rms y)"
    and "if td = None then is_restarting_l w = is_restarting_l (ls y) else \<not> is_restarting_l (ls y) \<and> is_restarting_l w"
    and "canceled_life (ls y) \<longrightarrow> canceled_life w \<and> td = None" and "\<forall>e. op \<noteq> Thread e"
  shows "step_good op y (y\<lparr>ls := w, thr := thr y @ new_thread td\<rparr>)"
proof (cases td)
  case None
  then have "step_good op y (y\<lparr>ls := w\<rparr>)" using same_threads [OF assms(1,2)] assms(3,4,5) by simp
  then show ?thesis using None by (cases y) (simp add: new_thread_def)
next
  case (Some x)
  obtain tm c where x: "x = (tm, c)" by fastforce
  have "thr y = []" using Some assms(3) linv_hs(2) [OF assms(1)] by simp
  moreover have "\<not> canceled_life (ls y)" using Some assms(4) by auto
  ultimately show ?thesis using Some x assms
    by (cases op) (auto simp: step_good_def linv_def held_rms_def new_thread_def map_filter_simps rm_held_def)
qed

lemma simple_good:
  assumes "linv y" and "\<And>s. c_state (cont (ls y)) = Some s \<Longrightarrow> st_keeps f s"
    and "container_is_restarting (f (c_state (cont (ls y)))) = container_is_restarting (c_state (cont (ls y)))"
    and "\<forall>e. op \<noteq> Thread e"
  shows "step_good op y (y\<lparr>ls := set_state f (ls y)\<rparr>)"
  using same_threads [OF assms(1) set_state_wf [OF linv_hs(1) [OF assms(1)] assms(2)] _ _ assms(4)] assms(3)
  by (simp add: is_restarting_l_def)

lemma keep_good: "linv y \<Longrightarrow> \<forall>e. op \<noteq> Thread e \<Longrightarrow> step_good op y (y\<lparr>ls := ls y\<rparr>)"
  by (rule same_threads) (simp_all add: linv_hs)

lemma state_get:
  assumes "linv y" obtains s where "c_state (cont (ls y)) = Some s" "state_consistent s"
  using assms by (auto simp: linv_def wf_life_def)

lemma pause_good:
  assumes "linv y" and "\<forall>e. op \<noteq> Thread e"
  shows "step_good op y (y\<lparr>ls := snd (do_pause_container a b (ls y))\<rparr>)"
    and "step_good op y (y\<lparr>ls := snd (do_resume_container a b (ls y))\<rparr>)"
    and "step_good op y (y\<lparr>ls := snd (do_runtime_resume_container a b (ls y))\<rparr>)"
proof -
  obtain s where s: "c_state (cont (ls y)) = Some s" using assms(1) by (rule state_get)
  have k: "step_good op y (y\<lparr>ls := ls y\<rparr>)" using keep_good [OF assms] .
  have r: "step_good op y (y\<lparr>ls := set_state container_state_reset_paused (ls y)\<rparr>)"
    by (rule simple_good [OF assms(1)]) (simp_all add: assms(2))
  have p: "step_good op y (y\<lparr>ls := set_state container_state_set_paused (ls y)\<rparr>)" if "running s" "\<not> restarting s"
    by (rule simple_good [OF assms(1)]) (use that s assms(2) pause_keeps in simp_all)
  show "step_good op y (y\<lparr>ls := snd (do_pause_container a b (ls y))\<rparr>)"
    using k p s by (simp add: do_pause_container_def Let_def container_is_running_def container_is_restarting_def)
  show "step_good op y (y\<lparr>ls := snd (do_resume_container a b (ls y))\<rparr>)"
    using k r by (simp add: do_resume_container_def Let_def)
  show "step_good op y (y\<lparr>ls := snd (do_runtime_resume_container a b (ls y))\<rparr>)"
    using k r by (simp add: do_runtime_resume_container_def)
qed

lemma restart_good:
  assumes "linv y" and "rt = 0 \<longrightarrow> \<not> container_is_restarting (c_state (cont (ls y))) \<and> f \<noteq> None" and "\<forall>e. op \<noteq> Thread e"
  shows "step_good op y (y\<lparr>ls := snd (restart_container rt d f n (ls y))\<rparr>)"
proof -
  have "step_good op y (y\<lparr>ls := set_state (container_restart_update_start_and_finish_time f n) (ls y)\<rparr>)" if "rt = 0"
    by (rule simple_good [OF assms(1)]) (use that assms(2,3) update_keeps in simp_all)
  then show ?thesis using keep_good [OF assms(1,3)] by (simp add: restart_container_def Let_def)
qed

lemma thread_good:
  assumes "linv y" and "rms (ls y) (rm_addr (t_rm e)) = None" and "start_ok (t_start e)"
  shows "\<exists>y'. lrun (Thread e) y = Some y' \<and> step_good (Thread e) y y'"
  using assms(1)
proof (cases rule: linv_cases)
  case 1
  then show ?thesis using assms(1) by (simp add: step_good_def)
next
  case (2 t)
  obtain t' w1 where s: "thread_step no_kill no_delete e t (ls y) = Some (t', w1)" "wf_life w1 (held_by t')"
    "is_restarting_l w1 \<longleftrightarrow> t' \<noteq> None" "thread_rank t' < thread_rank (Some t)" "canceled_life (ls y) \<longrightarrow> canceled_life w1"
    using thread_ok [OF 2(2,3) assms(2,3)] by blast
  let ?y = "y\<lparr>ls := w1, thr := (case t' of None \<Rightarrow> [] | Some t1 \<Rightarrow> [t1])\<rparr>"
  have "linv ?y" "rank ?y = thread_rank t'" using s(2,3)
    by (auto simp: linv_def held_rms_def map_filter_simps held_by_def rank_def thread_rank_def split: option.splits)
  then have "step_good (Thread e) y ?y" using 2(1) s(4,5) by (simp add: step_good_def rank_def)
  then show ?thesis using 2(1) s(1) by auto
qed

lemma rm_step_good:
  assumes "linv y" and "rm_only (ls y) w" and "rms_ok w (held_rms y)" and "\<forall>e. op \<noteq> Thread e"
  shows "step_good op y (y\<lparr>ls := w\<rparr>)"
  using same_threads [OF assms(1) wf_rm_only [OF linv_hs(1) [OF assms(1)] assms(2,3)] rm_only_restarting [OF assms(2)] _ assms(4)]
    assms(1,2) by (simp add: rm_only_def linv_def wf_life_def)

lemma linv_wf:
  assumes "linv y"
  shows "rms_ok (ls y) (held_rms y)" "hostconfig (cont (ls y)) \<noteq> None" "length (held_rms y) \<le> 1"
  using assms by (simp_all add: linv_def wf_life_def)

lemma lrun_good:
  assumes "linv y" and "lop_ok op y"
  shows "\<exists>y'. lrun op y = Some y' \<and> step_good op y y'"
proof (cases op)
  case (User_Start e)
  obtain r w1 where s: "start_section no_kill e True (ls y) = Some (r, w1)" "wf_life w1 (held_rms y)"
    "is_restarting_l w1 = is_restarting_l (ls y)"
    using start_section_ok [OF linv_hs(1) [OF assms(1)], of e no_kill True] assms(2) User_Start by auto
  have "step_good op y (y\<lparr>ls := w1\<rparr>)" using s(2,3) assms(1) User_Start
    by (simp add: step_good_def linv_def held_rms_def rank_def)
  then show ?thesis using s(1) User_Start by simp
next
  case (Signal e sig)
  then have "rms (ls y) (rm_addr (k_rm e)) = None" using assms(2) by (simp add: fresh_rm_def)
  from kill_ok [OF linv_hs(1) [OF assms(1)] this, of sig] show ?thesis
    using same_threads [OF assms(1), of _ op] Signal by auto
next
  case (Exit_Event e p c)
  then have "rms (ls y) (rm_addr (x_rm e)) = None" "p \<noteq> 0" "threads_ok e" using assms(2) by (simp_all add: fresh_rm_def)
  from stopped_ok [OF linv_hs(1) [OF assms(1)] this, of c] show ?thesis
    using new_thread_good [OF assms(1), of _ _ op] Exit_Event by fastforce
next
  case (Gc_Restart present e)
  then have "rms (ls y) (rm_addr (x_rm e)) = None" "threads_ok e" using assms(2) by (simp_all add: fresh_rm_def)
  from gc_restart_ok [OF linv_hs(1) [OF assms(1)] this, of present] show ?thesis
    using new_thread_good [OF assms(1), of _ _ op] Gc_Restart by fastforce
next
  case (Update_Policy e a p)
  then have "rms (ls y) (rm_addr e) = None" using assms(2) by (simp add: fresh_rm_def)
  from update_ok [OF linv_wf(1,2) [OF assms(1)] this linv_wf(3) [OF assms(1)], of a p] show ?thesis
    using rm_step_good [OF assms(1), of _ op] Update_Policy by auto
next
  case (Thread e)
  then show ?thesis using thread_good [OF assms(1)] assms(2) by (simp add: fresh_rm_def del: lrun.simps)
next
  case (Runtime_Restart rt d f n)
  then show ?thesis using restart_good [OF assms(1), of rt f op d n] assms(2) by simp
qed (use assms(1) pause_good in \<open>simp_all add: to_removal_eq oom_section_def simple_good\<close>)

lemma lreach_linv: "lreach P y0 y \<Longrightarrow> linv y0 \<Longrightarrow> linv y"
  by (induction rule: lreach.induct) (use lrun_good in \<open>fastforce simp: step_good_def\<close>)+

definition not_start :: "lop \<Rightarrow> bool" where
  "not_start op = (case op of User_Start e \<Rightarrow> False | _ \<Rightarrow> True)"

lemma canceled_step:
  assumes "linv y" and "canceled_life (ls y)" and "lop_ok op y" and "not_start op" and "lrun op y = Some y'"
  shows "canceled_life (ls y')" and "rank y' \<le> rank y"
  using lrun_good [OF assms(1,3)] assms(2,4,5) by (auto simp: step_good_def not_start_def)

lemma lreach_canceled:
  "lreach not_start y0 y \<Longrightarrow> linv y0 \<Longrightarrow> canceled_life (ls y0) \<Longrightarrow> linv y \<and> canceled_life (ls y)"
proof (induction rule: lreach.induct)
  case (lreach_step y op y')
  then have "linv y" "canceled_life (ls y)" by simp_all
  then show ?case
    using canceled_step(1) [OF _ _ lreach_step(3,2,4)] lrun_good [OF _ lreach_step(3)] lreach_step(4)
    by (auto simp: step_good_def)
qed simp

lemma rank_0: "rank y = 0 \<longleftrightarrow> thr y = []"
proof (cases "thr y")
  case (Cons t ts)
  then show ?thesis by (cases "r_phase t") (simp_all add: rank_def thread_rank_def)
qed (simp add: rank_def)

lemma rank_le_4: "rank y \<le> 4"
proof (cases "thr y")
  case (Cons t ts)
  then show ?thesis by (cases "r_phase t") (simp_all add: rank_def thread_rank_def)
qed (simp add: rank_def)

fun lruns :: "lop list \<Rightarrow> lsys \<Rightarrow> lsys option" where
  "lruns [] y = Some y"
| "lruns (op # ops) y = (if lop_ok op y then do { y1 \<leftarrow> lrun op y; lruns ops y1 } else None)"

definition thread_ops :: "lop list \<Rightarrow> nat" where
  "thread_ops ops = length (filter (\<lambda>op. case op of Thread e \<Rightarrow> True | _ \<Rightarrow> False) ops)"

lemma restart_over:
  assumes "linv y" and "lruns ops y \<noteq> None" and "rank y \<le> thread_ops ops"
  shows "\<exists>us vs y1. ops = us @ vs \<and> lruns us y = Some y1 \<and> thr y1 = [] \<and> linv y1"
  using assms
proof (induction ops arbitrary: y)
  case Nil
  then show ?case by (simp add: thread_ops_def rank_0)
next
  case (Cons op ops)
  show ?case
  proof (cases "thr y = []")
    case True
    then show ?thesis using Cons.prems(1) by (intro exI [of _ "[]"] exI [of _ "op # ops"] exI [of _ y]) simp
  next
    case False
    have ok: "lop_ok op y" using Cons.prems(2) by (simp split: if_splits)
    obtain y1 where y1: "lrun op y = Some y1" "step_good op y y1" using lrun_good [OF Cons.prems(1) ok] by blast
    have "rank y1 \<le> thread_ops ops"
      using y1(2) Cons.prems(3) False by (cases op) (auto simp: step_good_def thread_ops_def)
    moreover have "linv y1" "lruns ops y1 \<noteq> None" using y1 Cons.prems(2) ok by (auto simp: step_good_def)
    ultimately obtain us vs y2 where "ops = us @ vs" "lruns us y1 = Some y2" "thr y2 = []" "linv y2"
      using Cons.IH by blast
    then show ?thesis using y1(1) ok by (intro exI [of _ "op # us"] exI [of _ vs] exI [of _ y2]) simp
  qed
qed

section \<open>Properties\<close>

text \<open>A container that was just created and filled: nothing runs and it has no restart manager yet.\<close>

definition fresh_container :: "lsys \<Rightarrow> bool" where
  "fresh_container y \<longleftrightarrow> thr y = [] \<and> c_state (cont (ls y)) = container_state_new True True True \<and>
     c_rm (cont (ls y)) = None \<and> rms (ls y) = Map.empty \<and>
     common_config (cont (ls y)) \<noteq> None \<and> hostconfig (cont (ls y)) \<noteq> None"

lemma fresh_linv: "fresh_container y \<Longrightarrow> linv y"
  by (simp add: fresh_container_def linv_def wf_life_def container_state_new_def zeroed_state_def state_consistent_def
      rms_ok_def rm_count_def held_rms_def map_filter_simps is_restarting_l_def container_is_restarting_def)

lemma lruns_reach: "lruns ops y0 = Some y \<Longrightarrow> \<forall>op \<in> set ops. P op \<Longrightarrow> lreach P y0 y"
proof (induction ops arbitrary: y rule: rev_induct)
  case (snoc op ops)
  have split: "lruns (us @ vs) u = (case lruns us u of None \<Rightarrow> None | Some v \<Rightarrow> lruns vs v)" for us vs u
  proof (induction us arbitrary: u)
    case (Cons a us)
    then show ?case by (cases "lrun a u") auto
  qed simp
  obtain y1 where y1: "lruns ops y0 = Some y1" "lop_ok op y1" "lrun op y1 = Some y"
    using snoc.prems(1) unfolding split by (auto split: option.splits if_splits bind_splits)
  show ?case using lreach_step [OF snoc.IH [OF y1(1)] _ y1(2,3)] snoc.prems(2) by simp
qed (simp add: lreach_start)

definition demo_life :: lsys where
  "demo_life =
     \<lparr>ls = \<lparr>cont = \<lparr>common_config = Some \<lparr>cc_id = ''a0'', cc_name = ''web'', cc_path = None, cc_args = [], cc_image = None,
                     cc_config = None, cc_mount_points = None\<rparr>,
                   hostconfig = Some \<lparr>restart_policy = Some \<lparr>rp_name = Some ''always'', maximum_retry_count = 0\<rparr>,
                     auto_remove = False, auto_remove_bak = False, binds = [], port_bindings = None\<rparr>,
                   c_state = container_state_new True True True, c_rm = None\<rparr>, rms = Map.empty\<rparr>, thr = []\<rparr>"

definition demo_rm :: "addr \<Rightarrow> rm_env" where
  "demo_rm a = \<lparr>rm_addr = a, rm_alloc_ok = True, rm_mutex_ok = True, rm_cond_ok = True, rm_policy_ok = True\<rparr>"

definition demo_start :: start_env where
  "demo_start = \<lparr>in_gc = False, net_native = False, net_valid = True, net_post = False, net_prepare = True,
     call_ans = (\<lambda>_. True), start_rc = 0, sandboxed = False,
     start_pids = \<lparr>pi_pid = 42, pi_ppid = 41, pi_start_time = 7, pi_pstart_time = 6\<rparr>,
     start_now = ''t1'', stop_now = ''t2'', errmsg = None, save_ok = True\<rparr>"

definition demo_exit :: "addr \<Rightarrow> exit_env" where
  "demo_exit a = \<lparr>x_rm = demo_rm a, x_found = True, x_duration = 1, x_now = ''t3'', x_alloc = True, x_create = 0, x_disk = True\<rparr>"

definition demo_thread :: "addr \<Rightarrow> thread_env" where
  "demo_thread a = \<lparr>t_rm = demo_rm a, t_gc = False, t_clock = Some (0, 0), t_wait = (\<lambda>_. 110), t_start = demo_start, t_now = ''t4''\<rparr>"

lemma demo_fresh: "fresh_container demo_life"
  by (simp add: fresh_container_def demo_life_def)



text \<open>
  C20. A restart comes to an end. From any state that can be reached, in any run of the system in which the
  restart thread makes four steps there is a moment at which the container is not restarting: the
  thread has started it or has marked it stopped.
\<close>

theorem restart_ends:
  assumes "fresh_container y0" and "lreach (\<lambda>_. True) y0 y" and "lruns ops y \<noteq> None" and "4 \<le> thread_ops ops"
  shows "\<exists>us vs y1. ops = us @ vs \<and> lruns us y = Some y1 \<and> \<not> container_is_restarting (c_state (cont (ls y1)))"
proof -
  have inv: "linv y" using lreach_linv [OF assms(2) fresh_linv [OF assms(1)]] .
  have "rank y \<le> thread_ops ops" using rank_le_4 [of y] assms(4) by simp
  from restart_over [OF inv assms(3) this] show ?thesis by (auto simp: linv_def is_restarting_l_def)
qed

definition demo_state :: "bool \<Rightarrow> container_state" where
  "demo_state manual = zeroed_state\<lparr>running := True, pid := 42, start_time := 7, p_pid := 41, p_start_time := 6,
     started_at := Some ''t1'', finished_at := Some defaultContainerTime, has_been_manually_stopped := manual\<rparr>"

definition demo_running :: lsys where
  "demo_running = demo_life\<lparr>ls := (ls demo_life)\<lparr>cont := (cont (ls demo_life))\<lparr>c_state := Some (demo_state False)\<rparr>\<rparr>\<rparr>"

lemma demo_started: "lruns [User_Start demo_start] demo_life = Some demo_running"
  by (simp add: demo_life_def demo_running_def demo_state_def demo_start_def start_ok_def start_section_def state_defs
      container_state_new_def zeroed_state_def do_start_container_def first_failure_def before_fifo_def after_fifo_def
      container_reset_restart_manager_def set_state_def Let_def)

lemmas demo_defs = demo_life_def demo_running_def demo_state_def demo_rm_def get_restart_manager_def rm_alloc_def
  restart_manager_new_def rm_ref_def restart_manager_refinc_def rm_cancel_def restart_manager_cancel_def rm_unref_def
  zeroed_rm_def zeroed_state_def set_state_def unref_eq atomic_inc Let_def container_state_get_restart_count_def

definition demo_manager :: "bool \<Rightarrow> restart_manager_t" where
  "demo_manager cancel = zeroed_rm\<lparr>init_mutex := True, init_wait_cancel_con := True, rm_refcnt := 1,
     policy := Some \<lparr>rp_name = Some ''always'', maximum_retry_count = 0\<rparr>, canceled := cancel\<rparr>"

definition demo_killed :: life where
  "demo_killed = (ls demo_life)\<lparr>cont := (cont (ls demo_life))\<lparr>c_state := Some (demo_state True), c_rm := Some 5\<rparr>,
     rms := [5 \<mapsto> demo_manager True]\<rparr>"

definition demo_kill :: kill_env where
  "demo_kill = \<lparr>k_rm = demo_rm 5, k_kill = 0, k_resume = 0\<rparr>"

lemma demo_kills: "kill_with_signal demo_kill SIGTERM (ls demo_running) = Some (0, demo_killed)"
  by (simp add: kill_with_signal_def demo_kill_def demo_killed_def demo_manager_def container_stop_signal_def
      container_exit_on_next_def demo_defs state_defs)

lemma demo_exits:
  "lrun (Exit_Event (demo_exit 6) 42 1) (demo_running\<lparr>ls := demo_killed\<rparr>) \<noteq> None"
  by (simp add: demo_killed_def demo_manager_def demo_exit_def stopped_section_def restart_manager_should_restart_def
      rm_decide_def demo_defs state_defs)

definition demo_ops :: "lop list" where
  "demo_ops = [Exit_Event (demo_exit 5) 42 1, Thread (demo_thread 6), Thread (demo_thread 6), Oom_Event,
     Thread (demo_thread 6), Thread (demo_thread 6)]"

lemma demo_restarts: "lruns demo_ops demo_running \<noteq> None"
  by (simp add: demo_ops_def demo_manager_def demo_exit_def stopped_section_def restart_manager_should_restart_def
      rm_decide_def demo_defs state_defs fresh_rm_def threads_ok_def start_ok_def demo_start_def demo_thread_def
      restart_manager_set_items_def should_be_restart_def time_defs new_thread_def thread_step_def restart_enter_def
      restart_wait_def restart_manager_wait_cancel_def restart_manager_wait_cancel_cond_wait_def wait_deadline_def
      restart_start_def start_container_def start_section_def do_start_container_def first_failure_def
      before_fifo_def after_fifo_def container_restart_in_thread_def oom_section_def restart_stop_def)

lemma demo_life_reach: "lreach (\<lambda>_. True) demo_life demo_running"
  using lruns_reach [OF demo_started] by simp



theorem restart_ends_witness:
  "\<exists>us vs y1. demo_ops = us @ vs \<and> lruns us demo_running = Some y1 \<and> \<not> container_is_restarting (c_state (cont (ls y1)))"
  by (rule restart_ends [OF demo_fresh demo_life_reach demo_restarts]) (simp add: demo_ops_def thread_ops_def)

section \<open>A restart without a thread\<close>

definition stuck :: "lsys \<Rightarrow> bool" where
  "stuck y \<longleftrightarrow> wf_life (ls y) [] \<and> is_restarting_l (ls y) \<and> thr y = []"

lemma stuck_same:
  "stuck y \<Longrightarrow> wf_life w [] \<Longrightarrow> is_restarting_l w = is_restarting_l (ls y) \<Longrightarrow> stuck (y\<lparr>ls := w\<rparr>)"
  by (simp add: stuck_def)

lemma stuck_simple:
  assumes "stuck y" and "\<And>s. c_state (cont (ls y)) = Some s \<Longrightarrow> st_keeps f s"
    and "container_is_restarting (f (c_state (cont (ls y)))) = container_is_restarting (c_state (cont (ls y)))"
  shows "stuck (y\<lparr>ls := set_state f (ls y)\<rparr>)"
  using assms set_state_wf [of "ls y" "[]" f] by (simp add: stuck_def is_restarting_l_def)

lemma stuck_keep: "stuck y \<Longrightarrow> stuck (y\<lparr>ls := ls y\<rparr>)"
  by (simp add: stuck_def)

lemma stuck_step:
  assumes "stuck y" and "lop_ok op y"
  shows "\<exists>y'. lrun op y = Some y' \<and> stuck y'"
proof -
  have wf: "wf_life (ls y) []" "is_restarting_l (ls y)" "thr y = []" using assms(1) by (simp_all add: stuck_def)
  have rs: "container_is_restarting (c_state (cont (ls y)))" using wf(2) by (simp add: is_restarting_l_def)
  show ?thesis
  proof (cases op)
    case (User_Start e)
    then show ?thesis using start_section_ok [OF wf(1), of e no_kill True] assms(2) stuck_same [OF assms(1)] by auto
  next
    case (Signal e sig)
    then show ?thesis using kill_ok [OF wf(1), of e sig] assms(2) stuck_same [OF assms(1)] by (auto simp: fresh_rm_def)
  next
    case (Exit_Event e p c)
    then obtain r d w1 where "stopped_section e p c (ls y) = Some (r, None, d, w1)" "wf_life w1 []" "is_restarting_l w1"
      using stopped_ok [OF wf(1), of e p c] assms(2) wf(2) by (fastforce simp: fresh_rm_def split: if_splits)
    then show ?thesis using Exit_Event wf(3) by (simp add: new_thread_def stuck_def)
  next
    case (Gc_Restart present e)
    then obtain w1 where "apply_restart_policy_after_gc present e (ls y) = Some (None, w1)" "wf_life w1 []" "is_restarting_l w1"
      using gc_restart_ok [OF wf(1), of e present] assms(2) wf(2) by (fastforce simp: fresh_rm_def split: if_splits)
    then show ?thesis using Gc_Restart wf(3) by (simp add: new_thread_def stuck_def)
  next
    case (Update_Policy e a p)
    have "rms_ok (ls y) []" "hostconfig (cont (ls y)) \<noteq> None" using wf(1) by (simp_all add: wf_life_def)
    from update_ok [OF this, of e a p] obtain w1 where "container_update_restart_manager e a p (ls y) = Some w1"
      "rm_only (ls y) w1" "rms_ok w1 []" using assms(2) Update_Policy by (auto simp: fresh_rm_def)
    then show ?thesis using Update_Policy stuck_same [OF assms(1) wf_rm_only [OF wf(1)] rm_only_restarting] by simp
  next
    case (Pause a b)
    then show ?thesis using rs stuck_keep [OF assms(1)] by (simp add: do_pause_container_def Let_def)
  next
    case (Resume a b)
    then show ?thesis using stuck_keep [OF assms(1)] stuck_simple [OF assms(1), of container_state_reset_paused]
      by (simp add: do_resume_container_def Let_def)
  next
    case (Gc_Resume a b)
    then show ?thesis using stuck_keep [OF assms(1)] stuck_simple [OF assms(1), of container_state_reset_paused]
      by (simp add: do_runtime_resume_container_def)
  next
    case (Runtime_Restart rt d f n)
    then show ?thesis using assms(2) rs stuck_keep [OF assms(1)] by (simp add: restart_container_def Let_def)
  next
    case (Thread e)
    then show ?thesis using assms(1) wf(3) by simp
  qed (use stuck_simple [OF assms(1)] in \<open>simp_all add: to_removal_eq oom_section_def\<close>)
qed

text \<open>
  C25. When the thread for a restart cannot be created, the container is lost: the exit handler ignores the
  failure, the container is restarting without a thread, and from then on it stays so, whatever
  starts, kills, events, collections and removals follow.
\<close>

theorem lost_restart_is_stuck:
  assumes "fresh_container y0" and "lreach (\<lambda>_. True) y0 y" and "rms (ls y) (rm_addr (x_rm e)) = None"
    and "p \<noteq> 0" and "x_create e \<noteq> 0" and "thr y = []"
    and "stopped_section e p c (ls y) = Some (r, td, d, w)" and "container_is_restarting (c_state (cont w))"
    and "lreach (\<lambda>_. True) (y\<lparr>ls := w, thr := new_thread td\<rparr>) y2"
  shows "td = None \<and> container_is_restarting (c_state (cont (ls y2))) \<and> thr y2 = []"
proof -
  have inv: "linv y" using lreach_linv [OF assms(2) fresh_linv [OF assms(1)]] .
  then have wf: "wf_life (ls y) []" using assms(6) by (auto simp: linv_def held_rms_def map_filter_simps)
  from stopped_gen [OF wf assms(3,4), of c] have "td = None" "wf_life w []"
    using assms(5,7) by (cases td; auto simp: threads_ok_def)+
  then have "stuck (y\<lparr>ls := w, thr := new_thread td\<rparr>)"
    using assms(8) by (simp add: stuck_def is_restarting_l_def new_thread_def)
  with assms(9) have "stuck y2"
    by (induction rule: lreach.induct) (use stuck_step in fastforce)+
  then show ?thesis using \<open>td = None\<close> by (simp add: stuck_def is_restarting_l_def)
qed

definition demo_lost :: exit_env where
  "demo_lost = (demo_exit 5)\<lparr>x_create := 11\<rparr>"

lemma demo_loses:
  "\<exists>r td d w. stopped_section demo_lost 42 1 (ls demo_running) = Some (r, td, d, w) \<and>
     container_is_restarting (c_state (cont w))"
  by (simp add: demo_lost_def demo_exit_def stopped_section_def restart_manager_should_restart_def rm_decide_def
      demo_defs state_defs restart_manager_set_items_def should_be_restart_def time_defs container_restart_in_thread_def)
    blast

theorem lost_restart_is_stuck_witness:
  "\<exists>r d w. stopped_section demo_lost 42 1 (ls demo_running) = Some (r, None, d, w) \<and>
    container_is_restarting (c_state (cont w))"
proof -
  obtain r td d w where s: "stopped_section demo_lost 42 1 (ls demo_running) = Some (r, td, d, w)"
    "container_is_restarting (c_state (cont w))" using demo_loses by blast
  have "rms (ls demo_running) (rm_addr (x_rm demo_lost)) = None" "thr demo_running = []"
    by (simp_all add: demo_running_def demo_life_def)
  then have "td = None"
    using lost_restart_is_stuck [OF demo_fresh demo_life_reach _ _ _ _ s lreach_start] by (simp add: demo_lost_def)
  then show ?thesis using s by blast
qed

end
