(* ===== verification/Utils_Path.thy ===== *)
theory Utils_Path
  imports Utils_String
begin

text \<open>
  Path handling of \<^verbatim>\<open>src/utils/cutils/path.c\<close>: the lexical cleaning of a path and the resolution of symbolic
  links inside a root directory.

  A pointer that walks through a constant string is the rest of that string. The destination is a buffer,
  the list of its cells, and a pointer into it is its index; an access outside the buffer makes the
  result \<open>None\<close>. What the kernel answers (\<^verbatim>\<open>getcwd\<close>, \<^verbatim>\<open>lstat\<close>, \<^verbatim>\<open>readlink\<close>) and the allocator are arguments; they
  may answer differently every time they are asked.
\<close>

section \<open>Buffers\<close>

definition PATH_MAX :: nat where
  "PATH_MAX = 4096"

definition MAXSYMLINKS :: int where
  "MAXSYMLINKS = 20"

definition ISSLASH :: "char \<Rightarrow> bool" where
  "ISSLASH c \<longleftrightarrow> c = CHR ''/''"

definition IS_ABSOLUTE_FILE_NAME :: "string \<Rightarrow> bool" where
  "IS_ABSOLUTE_FILE_NAME s \<longleftrightarrow> s \<noteq> [] \<and> ISSLASH (s ! 0)"

definition buf_get :: "string \<Rightarrow> nat \<Rightarrow> char option" where
  "buf_get buf i = (if i < length buf then Some (buf ! i) else None)"

definition buf_put :: "string \<Rightarrow> nat \<Rightarrow> char \<Rightarrow> string option" where
  "buf_put buf i c = (if i < length buf then Some (buf[i := c]) else None)"

text \<open>\<^verbatim>\<open>dest[-1]\<close>: there is no such cell at the start of the buffer.\<close>

definition buf_prev :: "string \<Rightarrow> nat \<Rightarrow> char option" where
  "buf_prev buf dest = (case dest of 0 \<Rightarrow> None | Suc d \<Rightarrow> buf_get buf d)"

definition buf_memcpy :: "string \<Rightarrow> nat \<Rightarrow> string \<Rightarrow> string option" where
  "buf_memcpy buf i s =
     (if i + length s \<le> length buf then Some (take i buf @ s @ drop (i + length s) buf) else None)"

text \<open>\<^verbatim>\<open>snprintf(buf, size, "%s...", ...)\<close> into an array of \<open>size\<close> cells, refused when it does not fit.\<close>

definition snprintf_fits :: "nat \<Rightarrow> string \<Rightarrow> string option" where
  "snprintf_fits cap s = (if length s \<ge> cap then None else Some s)"

text \<open>The loop \<^verbatim>\<open>for (--dest; dest > start && !ISSLASH(dest[-1]); --dest)\<close> after its first decrement.\<close>

fun back_to_slash :: "string \<Rightarrow> nat \<Rightarrow> nat option" where
  "back_to_slash buf 0 = Some 0"
| "back_to_slash buf (Suc d) =
     do { c \<leftarrow> buf_get buf d; if \<not> ISSLASH c then back_to_slash buf d else Some (Suc d) }"

section \<open>Cleaning a path\<close>

definition is_current_char :: "char \<Rightarrow> bool" where
  "is_current_char c \<longleftrightarrow> c = CHR ''.''"

definition is_specify_current :: "string \<Rightarrow> bool" where
  "is_specify_current seg \<longleftrightarrow> length seg = 1 \<and> is_current_char (seg ! 0)"

definition is_specify_parent :: "string \<Rightarrow> bool" where
  "is_specify_parent seg \<longleftrightarrow> length seg = 2 \<and> is_current_char (seg ! 0) \<and> is_current_char (seg ! 1)"

text \<open>The component between \<^verbatim>\<open>stpos\<close> and \<^verbatim>\<open>endpos\<close> and the string from \<^verbatim>\<open>endpos\<close> on, leading slashes skipped.\<close>

definition do_eval_symlinks_skip_slash :: "string \<Rightarrow> string \<times> string" where
  "do_eval_symlinks_skip_slash st =
     (let start = dropWhile ISSLASH st
      in (takeWhile (\<lambda>c. \<not> ISSLASH c) start, dropWhile (\<lambda>c. \<not> ISSLASH c) start))"

text \<open>A path component: not empty, without a slash.\<close>

definition is_comp :: "string \<Rightarrow> bool" where
  "is_comp c \<longleftrightarrow> c \<noteq> [] \<and> CHR ''/'' \<notin> set c"

lemma skip_slash_shorter:
  assumes "do_eval_symlinks_skip_slash st = (seg, rest)" "seg \<noteq> []"
  shows "length seg + length rest \<le> length st" "length rest < length st"
proof -
  have "seg @ rest = dropWhile ISSLASH st"
    using assms(1) by (auto simp: do_eval_symlinks_skip_slash_def Let_def)
  then have "length seg + length rest = length (dropWhile ISSLASH st)" by (metis length_append)
  also have "\<dots> \<le> length st" by (rule length_dropWhile_le)
  finally show "length seg + length rest \<le> length st" .
  with assms(2) show "length rest < length st" by (cases seg) auto
qed

definition do_clean_path_continue :: "string \<Rightarrow> string \<Rightarrow> nat \<Rightarrow> (bool \<times> nat) option" where
  "do_clean_path_continue buf seg dest =
     (if is_specify_current seg then Some (True, dest)
      else if is_specify_parent seg then
        (if dest \<le> 0 + 1 then Some (True, dest)
         else do { d \<leftarrow> back_to_slash buf (dest - 1); Some (True, d) })
      else Some (False, dest))"

definition add_slash :: "string \<Rightarrow> nat \<Rightarrow> (string \<times> nat) option" where
  "add_slash buf dest =
     do {
       c \<leftarrow> buf_prev buf dest;
       if \<not> ISSLASH c then do { b \<leftarrow> buf_put buf dest CHR ''/''; Some (b, dest + 1) } else Some (buf, dest)
     }"

definition add_comp :: "string \<Rightarrow> nat \<Rightarrow> string \<Rightarrow> (string \<times> nat) option" where
  "add_comp buf dest seg =
     do {
       b \<leftarrow> buf_memcpy buf dest seg;
       b \<leftarrow> buf_put b (dest + length seg) NUL;
       Some (b, dest + length seg)
     }"

text \<open>The buffer after the loop, with the final \<^verbatim>\<open>dest\<close>, or without it for the result -1.\<close>

function do_clean_path :: "nat \<Rightarrow> string \<Rightarrow> string \<Rightarrow> nat \<Rightarrow> (string \<times> nat option) option" where
  "do_clean_path limit st buf dest =
     (if st = [] then Some (buf, Some dest)
      else case do_eval_symlinks_skip_slash st of (seg, rest) \<Rightarrow>
        if seg = [] then Some (buf, Some dest)
        else do {
          (cont, dest) \<leftarrow> do_clean_path_continue buf seg dest;
          if cont then do_clean_path limit rest buf dest
          else do {
            (buf, dest) \<leftarrow> add_slash buf dest;
            if dest + length seg \<ge> limit then do {
              b \<leftarrow> buf_put buf (if dest > 0 + 1 then dest - 1 else dest) NUL;
              Some (b, None)
            }
            else do {
              (buf, dest) \<leftarrow> add_comp buf dest seg;
              do_clean_path limit rest buf dest
            }
          }
        })"
  by pat_completeness auto
termination
  by (relation "measure (\<lambda>(limit, st, buf, dest). length st)")
    (auto dest!: skip_slash_shorter(2) [OF sym])

text \<open>\<^verbatim>\<open>getcwd\<close> stores the directory in the buffer, or fails, also when it does not fit.\<close>

definition getcwd_into :: "string option \<Rightarrow> string \<Rightarrow> nat \<Rightarrow> string option option" where
  "getcwd_into cwd buf cap =
     (case cwd of
        None \<Rightarrow> Some None
      | Some d \<Rightarrow> if length d \<ge> cap then Some None else do { b \<leftarrow> buf_memcpy buf 0 (d @ [NUL]); Some (Some b) })"

definition clean_finish :: "string \<Rightarrow> string \<Rightarrow> nat \<Rightarrow> nat \<Rightarrow> string option option" where
  "clean_finish stpos buf dest limit =
     do {
       (buf, r) \<leftarrow> do_clean_path limit stpos buf dest;
       (case r of
          None \<Rightarrow> Some None
        | Some dest \<Rightarrow> do {
            dest \<leftarrow> (if dest > 0 + 1 then do { c \<leftarrow> buf_prev buf dest; Some (if ISSLASH c then dest - 1 else dest) }
                    else Some dest);
            b \<leftarrow> buf_put buf dest NUL;
            Some (Some b)
          })
     }"

text \<open>The caller's buffer after the call, or \<open>None\<close> for the result NULL.\<close>

definition util_clean_path :: "string option \<Rightarrow> string option \<Rightarrow> string option \<Rightarrow> nat \<Rightarrow> string option option" where
  "util_clean_path cwd pathp realpathp realpath_len =
     (case (pathp, realpathp) of
        (Some p, Some rp) \<Rightarrow>
          if p = [] \<or> realpath_len < PATH_MAX then Some None
          else if length rp < realpath_len then None
          else (let respath = replicate realpath_len NUL @ drop realpath_len rp in
            if \<not> IS_ABSOLUTE_FILE_NAME p then do {
              g \<leftarrow> getcwd_into cwd respath PATH_MAX;
              (case g of
                 None \<Rightarrow> Some None
               | Some respath \<Rightarrow>
                   let dest = length (c_string respath) in
                   if length p \<ge> (PATH_MAX - 1) - length (c_string respath) then Some None
                   else do {
                     respath \<leftarrow> buf_memcpy respath (length (c_string respath)) (p @ [NUL]);
                     clean_finish p respath dest PATH_MAX
                   })
            }
            else do {
              respath \<leftarrow> buf_put respath 0 CHR ''/'';
              clean_finish p respath 1 PATH_MAX
            })
      | _ \<Rightarrow> Some None)"

text \<open>A call with a fresh array of \<open>PATH_MAX\<close> cells; the value is the C string in it.\<close>

definition clean_path :: "string option \<Rightarrow> string option \<Rightarrow> string option option" where
  "clean_path cwd pathp =
     do {
       r \<leftarrow> util_clean_path cwd pathp (Some (replicate PATH_MAX NUL)) PATH_MAX;
       Some (map_option c_string r)
     }"

section \<open>Symbolic links inside a root\<close>

text \<open>
  What the kernel and the allocator answer. The number is the round of the loop that asks, so the file
  system may change between two questions. \<open>pe_lstat\<close> says whether the name is a symbolic link, \<open>None\<close>
  that the call failed; \<open>pe_readlink\<close> is the whole target.
\<close>

record path_env =
  pe_cwd :: "string option"
  pe_lstat :: "nat \<Rightarrow> string \<Rightarrow> bool option"
  pe_readlink :: "nat \<Rightarrow> string \<Rightarrow> string option"
  pe_realloc :: "nat \<Rightarrow> bool"
  pe_buf :: "nat \<Rightarrow> bool"
  pe_extra :: "nat \<Rightarrow> bool"
  pe_alloc :: bool

definition util_mem_realloc :: "bool \<Rightarrow> nat \<Rightarrow> string \<Rightarrow> nat \<Rightarrow> string option option" where
  "util_mem_realloc ok newsize old oldsize =
     (if newsize = 0 then Some None
      else if newsize > MAX_MEMORY_SIZE \<or> \<not> ok then Some None
      else (let n = (if newsize < oldsize then newsize else oldsize) in
        if n \<le> length old \<and> oldsize \<le> length old
        then Some (Some (take n old @ replicate (newsize - n) NUL)) else None))"

text \<open>The new block and its limit; the offset of \<^verbatim>\<open>dest\<close> is unchanged. \<open>Some None\<close> is the result -1.\<close>

definition do_path_realloc :: "bool \<Rightarrow> nat \<Rightarrow> string \<Rightarrow> nat \<Rightarrow> nat \<Rightarrow> (string \<times> nat) option option" where
  "do_path_realloc ok seglen rpath dest limit =
     (if dest + seglen < limit then Some (Some (rpath, limit))
      else (let gap = seglen + 1; new_size = limit in
        if new_size > SIZE_MAX - gap then Some None
        else (let new_size = (if gap > PATH_MAX then new_size + gap else new_size + PATH_MAX) in do {
          r \<leftarrow> util_mem_realloc ok new_size rpath PATH_MAX;
          (case r of None \<Rightarrow> Some None | Some new_rpath \<Rightarrow> Some (Some (new_rpath, new_size)))
        })))"

definition skip_dest_trailing_slash :: "string \<Rightarrow> nat \<Rightarrow> nat \<Rightarrow> nat option" where
  "skip_dest_trailing_slash rpath dest prefix_len =
     (if dest > prefix_len + 1 then back_to_slash rpath (dest - 1) else Some dest)"

definition do_get_symlinks_copy_buf :: "string \<Rightarrow> string \<Rightarrow> nat \<Rightarrow> string \<Rightarrow> nat \<Rightarrow> (string \<times> nat) option" where
  "do_get_symlinks_copy_buf buf prefix prefix_len rpath dest =
     (if IS_ABSOLUTE_FILE_NAME buf then do {
        rpath \<leftarrow> (if prefix_len \<noteq> 0 then buf_memcpy rpath 0 (take prefix_len prefix) else Some rpath);
        rpath \<leftarrow> buf_put rpath prefix_len CHR ''/'';
        Some (rpath, prefix_len + 1)
      }
      else do {
        d \<leftarrow> (if dest > prefix_len + 1 then back_to_slash rpath (dest - 1) else Some dest);
        Some (rpath, d)
      })"

text \<open>
  One followed link: the new rest of the path, buffer, \<^verbatim>\<open>dest\<close>, number of links and whether \<^verbatim>\<open>extra_buf\<close>
  is allocated. \<open>Some None\<close> is the result -1.
\<close>

definition do_get_symlinks ::
  "path_env \<Rightarrow> nat \<Rightarrow> string \<Rightarrow> nat \<Rightarrow> string \<Rightarrow> nat \<Rightarrow> string \<Rightarrow> int \<Rightarrow> bool
     \<Rightarrow> (string \<times> string \<times> nat \<times> int \<times> bool) option option" where
  "do_get_symlinks env t prefix prefix_len rpath dest endp num_links extra =
     (let num_links = num_links + 1 in
      if num_links > MAXSYMLINKS then Some None
      else if \<not> pe_buf env t then Some None
      else case pe_readlink env t (c_string rpath) of
        None \<Rightarrow> Some None
      | Some target \<Rightarrow>
          let buf = take (PATH_MAX - 1) target; n = length buf; len = length endp in
          if \<not> extra \<and> \<not> pe_extra env t then Some None
          else if len \<ge> PATH_MAX - n then Some None
          else if n + (len + 1) > PATH_MAX then None
          else do {
            (rpath, dest) \<leftarrow> do_get_symlinks_copy_buf buf prefix prefix_len rpath dest;
            Some (Some (buf @ endp, rpath, dest, num_links, True))
          })"

definition do_eval_symlinks_in_scope_is_symlink :: "path_env \<Rightarrow> nat \<Rightarrow> string \<Rightarrow> bool" where
  "do_eval_symlinks_in_scope_is_symlink env t p =
     (case pe_lstat env t p of None \<Rightarrow> True | Some link \<Rightarrow> \<not> link)"

lemma get_symlinks_counts:
  assumes "do_get_symlinks env t prefix pl rpath dest endp num extra = Some (Some (st, r, d, num', extra'))"
  shows "num' = num + 1" "num' \<le> MAXSYMLINKS" "length st < PATH_MAX"
  using assms
  by (auto simp: do_get_symlinks_def Let_def bind_eq_Some_conv split: if_splits option.splits prod.splits)

lemma get_symlinks_less:
  assumes "do_get_symlinks env t prefix pl rpath dest endp num extra = Some (Some (st, r, d, num', extra'))"
  shows "num < MAXSYMLINKS \<and> num' = num + 1"
  using get_symlinks_counts [OF assms] by simp

text \<open>The rounds taken, and the buffer with its \<^verbatim>\<open>dest\<close> or nothing for the result -1.\<close>

function do_eval_symlinks_in_scope ::
  "path_env \<Rightarrow> string \<Rightarrow> nat \<Rightarrow> string \<Rightarrow> string \<Rightarrow> nat \<Rightarrow> nat \<Rightarrow> int \<Rightarrow> bool \<Rightarrow> nat
     \<Rightarrow> (nat \<times> (string \<times> nat) option) option" where
  "do_eval_symlinks_in_scope env prefix prefix_len st rpath dest limit num_links extra t =
     (if st = [] then Some (t, Some (rpath, dest))
      else case do_eval_symlinks_skip_slash st of (seg, endp) \<Rightarrow>
        if seg = [] then Some (t, Some (rpath, dest))
        else if is_specify_current seg then
          do_eval_symlinks_in_scope env prefix prefix_len endp rpath dest limit num_links extra (t + 1)
        else if is_specify_parent seg then do {
          dest \<leftarrow> skip_dest_trailing_slash rpath dest prefix_len;
          do_eval_symlinks_in_scope env prefix prefix_len endp rpath dest limit num_links extra (t + 1)
        }
        else do {
          (rpath, dest) \<leftarrow> add_slash rpath dest;
          r \<leftarrow> do_path_realloc (pe_realloc env t) (length seg) rpath dest limit;
          (case r of
             None \<Rightarrow> Some (t + 1, None)
           | Some (rpath, limit) \<Rightarrow> do {
               (rpath, dest) \<leftarrow> add_comp rpath dest seg;
               if do_eval_symlinks_in_scope_is_symlink env t (c_string rpath) then
                 do_eval_symlinks_in_scope env prefix prefix_len endp rpath dest limit num_links extra (t + 1)
               else do {
                 g \<leftarrow> do_get_symlinks env t prefix prefix_len rpath dest endp num_links extra;
                 (case g of
                    None \<Rightarrow> Some (t + 1, None)
                  | Some (endp, rpath, dest, num_links, extra) \<Rightarrow>
                      do_eval_symlinks_in_scope env prefix prefix_len endp rpath dest limit num_links extra (t + 1))
               }
             })
        })"
  by pat_completeness auto
termination
  by (relation "measures [\<lambda>(env, prefix, pl, st, rpath, dest, limit, num, extra, t). nat (MAXSYMLINKS - num),
      \<lambda>(env, prefix, pl, st, rpath, dest, limit, num, extra, t). length st]")
    (auto dest!: skip_slash_shorter(2) [OF sym] get_symlinks_less)

definition eval_symlinks_in_scope :: "path_env \<Rightarrow> string option \<Rightarrow> string option \<Rightarrow> string option option" where
  "eval_symlinks_in_scope env fullp rootp =
     (case (fullp, rootp) of
        (Some fpath, Some _) \<Rightarrow> do {
          rdir \<leftarrow> clean_path (pe_cwd env) rootp;
          (case rdir of
             None \<Rightarrow> Some None
           | Some rdir \<Rightarrow>
               if fpath = rdir then Some (Some fpath)
               else if strstr fpath rdir = None then Some None
               else if \<not> pe_alloc env then Some None
               else (let rpath = replicate PATH_MAX NUL; prefix = rdir;
                         prefix_len = (if prefix = ''/'' then 0 else length prefix) in
                 if prefix_len \<ge> PATH_MAX - 1 then Some None
                 else if prefix_len > length fpath then None
                 else do {
                   rpath \<leftarrow> (if prefix_len \<noteq> 0 then buf_memcpy rpath 0 (take prefix_len prefix) else Some rpath);
                   rpath \<leftarrow> buf_put rpath prefix_len CHR ''/'';
                   (t, r) \<leftarrow> do_eval_symlinks_in_scope env prefix prefix_len (drop prefix_len fpath) rpath
                               (prefix_len + 1) PATH_MAX 0 False 0;
                   (case r of
                      None \<Rightarrow> Some None
                    | Some (rpath, dest) \<Rightarrow> do {
                        dest \<leftarrow> (if dest > prefix_len + 1
                                then do { c \<leftarrow> buf_prev rpath dest; Some (if ISSLASH c then dest - 1 else dest) }
                                else Some dest);
                        rpath \<leftarrow> buf_put rpath dest NUL;
                        Some (Some (c_string rpath))
                      })
                 }))
        }
      | _ \<Rightarrow> Some None)"

definition util_follow_symlink_in_scope :: "path_env \<Rightarrow> string option \<Rightarrow> string option \<Rightarrow> string option option" where
  "util_follow_symlink_in_scope env fullpath rootpath =
     do {
       fpath \<leftarrow> clean_path (pe_cwd env) fullpath;
       (case fpath of
          None \<Rightarrow> Some None
        | Some _ \<Rightarrow> do {
            rdir \<leftarrow> clean_path (pe_cwd env) rootpath;
            (case rdir of None \<Rightarrow> Some None | Some _ \<Rightarrow> eval_symlinks_in_scope env fpath rdir)
          })
     }"

section \<open>Splitting and joining paths\<close>

text \<open>\<^verbatim>\<open>basename\<close> and \<^verbatim>\<open>dirname\<close> of \<^verbatim>\<open>libgen.h\<close>.\<close>

definition basename_c :: "string \<Rightarrow> string" where
  "basename_c p =
     (if p = [] then ''.''
      else (let q = drop_last_while ISSLASH p
            in if q = [] then ''/'' else rev (takeWhile (\<lambda>c. \<not> ISSLASH c) (rev q))))"

definition dirname_root :: "string \<Rightarrow> string" where
  "dirname_root slashes = (if length slashes = 2 then ''//'' else ''/'')"

definition dirname_c :: "string \<Rightarrow> string" where
  "dirname_c p =
     (let q = drop_last_while ISSLASH p
      in if q = [] then (if p = [] then ''.'' else dirname_root p)
         else (let r = drop_last_while (\<lambda>c. \<not> ISSLASH c) q
               in if r = [] then ''.''
                  else (let u = drop_last_while ISSLASH r in if u = [] then dirname_root r else u)))"

definition util_specify_current_dir :: "string option \<Rightarrow> bool" where
  "util_specify_current_dir pathp =
     (case pathp of None \<Rightarrow> False | Some p \<Rightarrow> if p = [] then True else basename_c p = ''.'')"

definition util_has_trailing_path_separator :: "string option \<Rightarrow> bool" where
  "util_has_trailing_path_separator pathp =
     (case pathp of None \<Rightarrow> False | Some p \<Rightarrow> length p > 0 \<and> p ! (length p - 1) = CHR ''/'')"

text \<open>\<^verbatim>\<open>buf[strlen(buf)] = c\<close> in a zeroed array of \<open>cap\<close> cells; the cell after it must still be the NUL.\<close>

definition put_end :: "nat \<Rightarrow> string \<Rightarrow> char \<Rightarrow> string option" where
  "put_end cap s c = (if length s + 1 < cap then Some (s @ [c]) else None)"

definition util_preserve_trailing_dot_or_separator :: "string option \<Rightarrow> string option \<Rightarrow> string option option" where
  "util_preserve_trailing_dot_or_separator cleanedpath originalpath =
     (case (cleanedpath, originalpath) of
        (Some cp, Some op) \<Rightarrow>
          if cp = [] \<or> op = [] then Some None
          else (case snprintf_fits PATH_MAX cp of
             None \<Rightarrow> Some None
           | Some respath \<Rightarrow> do {
               respath \<leftarrow> (if \<not> util_specify_current_dir cleanedpath \<and> util_specify_current_dir originalpath
                  then do {
                    r \<leftarrow> (if \<not> util_has_trailing_path_separator (Some respath)
                          then put_end (PATH_MAX + 3) respath CHR ''/'' else Some respath);
                    put_end (PATH_MAX + 3) r CHR ''.''
                  } else Some respath);
               respath \<leftarrow> (if \<not> util_has_trailing_path_separator (Some respath) \<and>
                    util_has_trailing_path_separator originalpath
                  then put_end (PATH_MAX + 3) respath CHR ''/'' else Some respath);
               Some (Some respath)
             })
      | _ \<Rightarrow> Some None)"

text \<open>The index of the last slash below \<open>i\<close>; \<open>None\<close> is the index -1.\<close>

fun last_slash :: "string \<Rightarrow> nat \<Rightarrow> nat option" where
  "last_slash s 0 = None"
| "last_slash s (Suc i) = (if s ! i \<noteq> CHR ''/'' then last_slash s i else Some i)"

definition util_filepath_split :: "string option \<Rightarrow> int \<times> (string \<times> string) option" where
  "util_filepath_split pathp =
     (case pathp of
        None \<Rightarrow> (-1, None)
      | Some p \<Rightarrow> (case last_slash p (length p) of
            Some i \<Rightarrow> (0, Some (take (i + 1) p, drop (i + 1) p))
          | None \<Rightarrow> (0, Some (''.'', p))))"

definition util_split_dir_and_base_name :: "string option \<Rightarrow> int \<times> (string \<times> string) option" where
  "util_split_dir_and_base_name pathp =
     (case pathp of None \<Rightarrow> (-1, None) | Some p \<Rightarrow> (0, Some (dirname_c p, basename_c p)))"

definition util_get_resource_path :: "path_env \<Rightarrow> string option \<Rightarrow> string \<Rightarrow> string option option" where
  "util_get_resource_path env rootpath p =
     (case rootpath of
        None \<Rightarrow> Some None
      | Some rdir \<Rightarrow> (case snprintf_fits PATH_MAX (''/'' @ rdir @ ''/'' @ p) of
            None \<Rightarrow> Some None
          | Some tmppath \<Rightarrow> do {
              r \<leftarrow> clean_path (pe_cwd env) (Some tmppath);
              (case r of None \<Rightarrow> Some None | Some fullpath \<Rightarrow> util_follow_symlink_in_scope env (Some fullpath) rootpath)
            }))"

text \<open>The return value with the resolved and the absolute path, both NULL unless the value is 0.\<close>

definition util_resolve_path ::
  "path_env \<Rightarrow> bool \<Rightarrow> string option \<Rightarrow> string \<Rightarrow> (int \<times> (string \<times> string) option) option" where
  "util_resolve_path env alloc rootpath p =
     (if rootpath = None then Some (-1, None)
      else case snprintf_fits PATH_MAX (''/'' @ p) of
        None \<Rightarrow> Some (-1, None)
      | Some tmppath \<Rightarrow> do {
          c \<leftarrow> clean_path (pe_cwd env) (Some tmppath);
          (case c of
             None \<Rightarrow> Some (-1, None)
           | Some cleanedpath \<Rightarrow> do {
               a \<leftarrow> util_preserve_trailing_dot_or_separator (Some cleanedpath) (Some tmppath);
               (case a of
                  None \<Rightarrow> Some (-1, None)
                | Some abspath \<Rightarrow> (case util_filepath_split (Some abspath) of
                     (_, None) \<Rightarrow> Some (-1, None)
                   | (_, Some (dirpath, basepath)) \<Rightarrow> do {
                       r \<leftarrow> util_get_resource_path env rootpath dirpath;
                       (case r of
                          None \<Rightarrow> Some (-1, None)
                        | Some resolved_dir_path \<Rightarrow>
                            let len = length resolved_dir_path + length ''/'' + length basepath + 1 in
                            if len > MAX_MEMORY_SIZE \<or> \<not> alloc then Some (-1, None)
                            else case snprintf_fits len (resolved_dir_path @ ''/'' @ basepath) of
                              None \<Rightarrow> Some (-1, None)
                            | Some resolvedpath \<Rightarrow> Some (0, Some (resolvedpath, abspath)))
                     }))
             })
        })"

definition util_split_path_dir_entry :: "string option \<Rightarrow> string option \<Rightarrow> (int \<times> (string \<times> string) option) option" where
  "util_split_path_dir_entry cwd pathp =
     do {
       r \<leftarrow> util_clean_path cwd pathp (Some (replicate (PATH_MAX + 3) NUL)) PATH_MAX;
       (case r of
          None \<Rightarrow> Some (-1, None)
        | Some buf \<Rightarrow> do {
            cleaned \<leftarrow> (let cleaned = c_string buf in
               if util_specify_current_dir pathp then do {
                 c \<leftarrow> put_end (PATH_MAX + 3) cleaned CHR ''/'';
                 put_end (PATH_MAX + 3) c CHR ''.''
               } else Some cleaned);
            Some (0, Some (dirname_c cleaned, basename_c cleaned))
          })
     }"

definition util_path_join :: "string option \<Rightarrow> string option \<Rightarrow> string option \<Rightarrow> string option option" where
  "util_path_join cwd dirp filep =
     (case (dirp, filep) of
        (Some dir, Some file) \<Rightarrow>
          (case snprintf_fits PATH_MAX (dir @ ''/'' @ file) of
             None \<Rightarrow> Some None
           | Some p \<Rightarrow> clean_path cwd (Some p))
      | _ \<Rightarrow> Some None)"

section \<open>Following the last component only\<close>

function find_realpath_loop :: "path_env \<Rightarrow> nat \<Rightarrow> string \<Rightarrow> string option option" where
  "find_realpath_loop env i iter_path =
     (if i \<le> 10 \<and> pe_lstat env i iter_path = Some True then
        (case pe_readlink env i iter_path of
           None \<Rightarrow> Some None
         | Some link \<Rightarrow>
             let target = take (PATH_MAX - 1) link in
             if target \<noteq> [] \<and> target ! 0 \<noteq> CHR ''/'' then do {
               (ret, r) \<leftarrow> util_split_path_dir_entry (pe_cwd env) (Some iter_path);
               if ret < 0 then Some None
               else do {
                 j \<leftarrow> util_path_join (pe_cwd env) (map_option fst r) (Some target);
                 (case j of None \<Rightarrow> Some None | Some iter_path \<Rightarrow> find_realpath_loop env (i + 1) iter_path)
               }
             }
             else find_realpath_loop env (i + 1) target)
      else if i > 10 then Some None
      else Some (Some iter_path))"
  by pat_completeness auto
termination
  by (relation "measure (\<lambda>(env, i, iter_path). 11 - i)") auto

definition find_realpath :: "path_env \<Rightarrow> string \<Rightarrow> string option option" where
  "find_realpath env p = find_realpath_loop env 0 p"

definition util_realpath_in_scope ::
  "path_env \<Rightarrow> string option \<Rightarrow> string option \<Rightarrow> (int \<times> string option) option" where
  "util_realpath_in_scope env rootfs pathp =
     (case (rootfs, pathp) of
        (Some rdir, Some p) \<Rightarrow>
          (case snprintf_fits PATH_MAX (rdir @ p) of
             None \<Rightarrow> Some (-1, None)
           | Some full_path \<Rightarrow> do {
               c \<leftarrow> clean_path (pe_cwd env) (Some full_path);
               (case c of
                  None \<Rightarrow> Some (-1, None)
                | Some cleaned \<Rightarrow> do {
                    r \<leftarrow> find_realpath env cleaned;
                    (case r of
                       None \<Rightarrow> Some (-1, None)
                     | Some tmp \<Rightarrow> if \<not> is_prefix rdir tmp then Some (-1, None) else Some (0, Some tmp))
                  })
             })
      | _ \<Rightarrow> Some (-1, None))"

declare do_clean_path.simps [simp del] do_eval_symlinks_in_scope.simps [simp del] find_realpath_loop.simps [simp del]

end
