(* ===== verification/Path_Scope.thy ===== *)
theory Path_Scope
  imports Utils_Path
begin

text \<open>
  What the path functions of \<open>Utils_Path\<close> compute. The buffers are related to a list of components by
  \<open>path_at\<close>; a path is cleaned by a stack machine on its components, and the resolution of symbolic
  links is a walk over components that never leaves the root.
\<close>

section \<open>Spelling out components\<close>

definition slashes :: "string list \<Rightarrow> string" where
  "slashes stk = concat (map (\<lambda>c. CHR ''/'' # c) stk)"

text \<open>A path with its components, with a trailing slash or without.\<close>

definition spell :: "string \<Rightarrow> string list \<Rightarrow> bool \<Rightarrow> string" where
  "spell pre stk tr = pre @ slashes stk @ (if tr then ''/'' else [])"

definition render :: "string list \<Rightarrow> string" where
  "render stk = (if stk = [] then ''/'' else slashes stk)"

definition path_at :: "string \<Rightarrow> string list \<Rightarrow> bool \<Rightarrow> string \<Rightarrow> nat \<Rightarrow> bool" where
  "path_at pre stk tr buf dest \<longleftrightarrow>
     dest \<le> length buf \<and> take dest buf = spell pre stk tr \<and> (stk = [] \<longrightarrow> tr) \<and> (\<forall>c \<in> set stk. is_comp c)"

lemma slashes_simps [simp]:
  "slashes [] = []" "slashes (c # cs) = CHR ''/'' # c @ slashes cs" "slashes (xs @ ys) = slashes xs @ slashes ys"
  by (simp_all add: slashes_def)

lemma length_spell: "length (spell pre stk tr) = length pre + length (slashes stk) + (if tr then 1 else 0)"
  by (simp add: spell_def)

lemma path_at_dest: "path_at pre stk tr buf dest \<Longrightarrow> dest = length (spell pre stk tr)"
  unfolding path_at_def by (metis length_take min_absorb2)

lemma path_at_pos: "path_at pre stk tr buf dest \<Longrightarrow> length pre < dest"
  using path_at_dest [of pre stk tr buf dest] by (cases stk) (auto simp: length_spell path_at_def)

lemma path_at_prev:
  assumes "path_at pre stk tr buf dest"
  shows "\<exists>c. buf_prev buf dest = Some c \<and> (ISSLASH c \<longleftrightarrow> tr)"
proof -
  obtain d where d: "dest = Suc d" using path_at_pos [OF assms] by (cases dest) auto
  have "take (Suc d) buf = spell pre stk tr" "d < length buf" using assms d by (auto simp: path_at_def)
  then have l: "buf ! d = last (spell pre stk tr)" by (simp add: take_Suc_conv_app_nth)
      (metis last_snoc take_Suc_conv_app_nth)
  have "ISSLASH (last (spell pre stk tr)) \<longleftrightarrow> tr"
  proof (cases tr)
    case False
    then obtain xs c where "stk = xs @ [c]" using assms by (cases stk rule: rev_cases) (auto simp: path_at_def)
    moreover from this have "c \<noteq> []" "CHR ''/'' \<notin> set c" using assms by (auto simp: path_at_def is_comp_def)
    moreover from this have "last c \<noteq> CHR ''/''" by (metis last_in_set)
    ultimately show ?thesis using False by (simp add: spell_def ISSLASH_def)
  qed (simp add: spell_def ISSLASH_def)
  with l d \<open>d < length buf\<close> show ?thesis by (simp add: buf_prev_def buf_get_def)
qed

section \<open>The buffer operations on a spelled path\<close>

lemma back_to_slash_at:
  assumes "take n buf = u @ CHR ''/'' # v" and "n \<le> length buf" and "CHR ''/'' \<notin> set v"
  shows "back_to_slash buf n = Some (length u + 1)"
  using assms
proof (induction v arbitrary: n rule: rev_induct)
  case Nil
  then have n: "n = Suc (length u)" by (metis length_append_singleton length_take min_absorb2)
  then have "buf ! length u = CHR ''/''"
    using Nil(1,2) by (metis Suc_le_lessD last_snoc take_Suc_conv_app_nth)
  with n Nil(2) show ?case by (simp add: buf_get_def ISSLASH_def)
next
  case (snoc x v)
  have "n = length (u @ CHR ''/'' # v) + 1" using snoc(2,3) by (metis append_Cons append_assoc length_append_singleton length_take min_absorb2 Suc_eq_plus1)
  then obtain m where n: "n = Suc m" "m = length (u @ CHR ''/'' # v)" by simp
  have "take m buf @ [buf ! m] = (u @ CHR ''/'' # v) @ [x]"
    using snoc(2,3) n by (simp add: take_Suc_conv_app_nth)
  then have "take m buf = u @ CHR ''/'' # v" "buf ! m = x" by simp_all
  moreover have "m \<le> length buf" "m < length buf" "x \<noteq> CHR ''/''" "CHR ''/'' \<notin> set v"
    using snoc(3,4) n(1) by auto
  ultimately show ?case using snoc.IH [of m] by (simp add: n(1) buf_get_def ISSLASH_def)
qed

lemma back_one:
  assumes "path_at pre (stk @ [c]) tr buf dest"
  shows "\<exists>d. back_to_slash buf (dest - 1) = Some d \<and> path_at pre stk True buf d \<and> d < dest"
proof -
  define u where "u = pre @ slashes stk"
  have c: "is_comp c" using assms by (simp add: path_at_def)
  have sp: "take dest buf = u @ CHR ''/'' # c @ (if tr then ''/'' else [])"
    using assms by (simp add: path_at_def spell_def u_def)
  have len: "dest = length u + 1 + length c + (if tr then 1 else 0)" "dest \<le> length buf"
    using path_at_dest [OF assms] assms by (auto simp: length_spell u_def path_at_def)
  define v where "v = (if tr then c else butlast c)"
  have cs: "c \<noteq> []" "CHR ''/'' \<notin> set c" using c by (auto simp: is_comp_def)
  have "take (dest - 1) buf = take (dest - 1) (take dest buf)" by (simp add: min_def)
  also have "\<dots> = u @ CHR ''/'' # v"
    using cs len(1) unfolding sp v_def by (auto simp: butlast_conv_take take_Cons split: nat.splits)
  finally have v: "take (dest - 1) buf = u @ CHR ''/'' # v" .
  have nv: "CHR ''/'' \<notin> set v" using cs by (auto simp: v_def dest: in_set_butlastD)
  have b: "back_to_slash buf (dest - 1) = Some (length u + 1)"
    using back_to_slash_at [OF v _ nv] len(2) by simp
  have "take (length u + 1) buf = take (length u + 1) (take dest buf)" using len(1) by (simp add: min_def)
  also have "\<dots> = u @ ''/''" unfolding sp by simp
  finally have "path_at pre stk True buf (length u + 1)"
    using assms len by (auto simp: path_at_def spell_def u_def)
  with b len(1) cs show ?thesis by auto
qed

lemma add_slash_at:
  assumes "path_at pre stk tr buf dest" and "dest < length buf"
  shows "\<exists>b d. add_slash buf dest = Some (b, d) \<and> path_at pre stk True b d \<and> length b = length buf \<and>
    d = length (spell pre stk True)"
proof -
  obtain c where c: "buf_prev buf dest = Some c" "ISSLASH c \<longleftrightarrow> tr" using path_at_prev [OF assms(1)] by blast
  show ?thesis
  proof (cases tr)
    case True
    with c assms show ?thesis by (auto simp: add_slash_def dest: path_at_dest)
  next
    case False
    have "take (dest + 1) (buf[dest := CHR ''/'']) = take dest buf @ ''/''"
      using assms(2) by (simp add: take_Suc_conv_app_nth)
    then have "path_at pre stk True (buf[dest := CHR ''/'']) (dest + 1)"
      using assms False by (auto simp: path_at_def spell_def)
    with c False assms(2) show ?thesis by (auto simp: add_slash_def buf_put_def dest: path_at_dest)
  qed
qed

lemma add_comp_at:
  assumes "path_at pre stk True buf dest" and "dest + length c < length buf" and "is_comp c"
  shows "\<exists>b d. add_comp buf dest c = Some (b, d) \<and> path_at pre (stk @ [c]) False b d \<and> length b = length buf \<and>
    d = length (spell pre (stk @ [c]) False) \<and> b ! d = NUL"
proof -
  define b where "b = (take dest buf @ c @ drop (dest + length c) buf)[dest + length c := NUL]"
  have lb: "length b = length buf" using assms(2) by (simp add: b_def)
  have "take (dest + length c) b = take dest buf @ c"
    using assms(2) by (simp add: b_def)
  then have p: "path_at pre (stk @ [c]) False b (dest + length c)"
    using assms lb by (simp add: path_at_def spell_def)
  moreover have "b ! (dest + length c) = NUL" using assms(2) by (simp add: b_def)
  moreover have "add_comp buf dest c = Some (b, dest + length c)"
    using assms(2) by (simp add: add_comp_def buf_memcpy_def buf_put_def b_def)
  ultimately show ?thesis using lb path_at_dest [OF p] by blast
qed

section \<open>Cleaning is a stack machine on components\<close>

abbreviation segs :: "string \<Rightarrow> string list" where
  "segs s \<equiv> strtok_tokens CHR ''/'' s"

text \<open>
  The reference: a component is dropped, pops the stack or is pushed; pushing fails when the path would
  not fit below the limit.
\<close>

fun clean_stack :: "nat \<Rightarrow> string list \<Rightarrow> string list \<Rightarrow> string list option" where
  "clean_stack limit stk [] = Some stk"
| "clean_stack limit stk (c # cs) =
     (if c = ''.'' then clean_stack limit stk cs
      else if c = ''..'' then clean_stack limit (butlast stk) cs
      else if length (slashes stk) + 1 + length c \<ge> limit then None
      else clean_stack limit (stk @ [c]) cs)"

lemma skip_slash_segs:
  assumes "do_eval_symlinks_skip_slash st = (seg, rest)"
  shows "segs st = (if seg = [] then [] else seg # segs rest)" and "seg \<noteq> [] \<Longrightarrow> is_comp seg"
    and "set seg \<subseteq> set st" "set rest \<subseteq> set st"
proof -
  let ?s = "dropWhile ISSLASH st"
  have sl: "ISSLASH = (\<lambda>c. c = CHR ''/'')" by (auto simp: ISSLASH_def)
  have seg: "seg = takeWhile (\<lambda>c. \<not> ISSLASH c) ?s" "rest = dropWhile (\<lambda>c. \<not> ISSLASH c) ?s"
    using assms by (auto simp: do_eval_symlinks_skip_slash_def Let_def)
  have "?s \<noteq> [] \<Longrightarrow> seg \<noteq> []"
    using hd_dropWhile [of ISSLASH st] by (cases ?s) (auto simp: seg(1))
  moreover have "?s = [] \<Longrightarrow> seg = []" unfolding seg(1) by (simp only: takeWhile.simps)
  ultimately show "segs st = (if seg = [] then [] else seg # segs rest)"
    by (subst strtok_tokens.simps) (auto simp: Let_def seg sl)
  show "seg \<noteq> [] \<Longrightarrow> is_comp seg" by (auto simp: seg(1) is_comp_def ISSLASH_def dest: set_takeWhileD)
  show "set seg \<subseteq> set st" "set rest \<subseteq> set st"
    unfolding seg by (meson set_dropWhileD set_takeWhileD subsetI)+
qed

lemma segs_comps: "c \<in> set (segs s) \<Longrightarrow> is_comp c \<and> set c \<subseteq> set s"
proof (induction "length s" arbitrary: s rule: less_induct)
  case less
  obtain seg rest where sr: "do_eval_symlinks_skip_slash s = (seg, rest)" by fastforce
  note k = skip_slash_segs [OF sr]
  show ?case
  proof (cases "c = seg")
    case False
    then have "seg \<noteq> []" "c \<in> set (segs rest)" using less.prems k(1) by (auto split: if_splits)
    then have "is_comp c \<and> set c \<subseteq> set rest" using less.hyps skip_slash_shorter(2) [OF sr] by blast
    then show ?thesis using k(4) by blast
  qed (use less.prems k in \<open>auto split: if_splits\<close>)
qed

lemma dots: "is_specify_current c \<longleftrightarrow> c = ''.''" "is_specify_parent c \<longleftrightarrow> c = ''..''"
proof -
  show "is_specify_current c \<longleftrightarrow> c = ''.''"
    by (cases c) (auto simp: is_specify_current_def is_current_char_def)
  show "is_specify_parent c \<longleftrightarrow> c = ''..''"
    by (cases c; cases "tl c") (auto simp: is_specify_parent_def is_current_char_def)
qed

lemma parent_at:
  assumes "path_at pre stk tr buf dest"
  shows "\<exists>d tr'. (if dest \<le> length pre + 1 then Some dest else back_to_slash buf (dest - 1)) = Some d \<and>
    path_at pre (butlast stk) tr' buf d \<and> d \<le> dest"
proof (cases stk rule: rev_cases)
  case Nil
  then have "dest = length pre + 1" using path_at_dest [OF assms] assms by (simp add: length_spell path_at_def)
  with assms Nil show ?thesis by auto
next
  case (snoc xs c)
  then obtain d where d: "back_to_slash buf (dest - 1) = Some d" "path_at pre xs True buf d" "d < dest"
    using back_one assms by blast
  have "c \<noteq> []" using assms snoc by (simp add: path_at_def is_comp_def)
  then have "length pre + 1 < dest" using path_at_dest [OF assms] snoc by (cases c) (auto simp: length_spell)
  with d snoc show ?thesis by (auto intro: less_imp_le)
qed

lemma clean_loop:
  assumes "path_at [] stk tr buf dest" and "dest < limit" and "limit \<le> length buf"
  shows "\<exists>b r. do_clean_path limit st buf dest = Some (b, r) \<and> length b = length buf \<and>
    (case clean_stack limit stk (segs st) of
       None \<Rightarrow> r = None
     | Some stk' \<Rightarrow> \<exists>d tr'. r = Some d \<and> path_at [] stk' tr' b d \<and> d < limit)"
  using assms
proof (induction "length st" arbitrary: st stk tr buf dest rule: less_induct)
  case less
  obtain seg rest where sr: "do_eval_symlinks_skip_slash st = (seg, rest)" by fastforce
  note k = skip_slash_segs [OF sr]
  show ?case
  proof (cases "seg = []")
    case True
    with less.prems show ?thesis by (subst do_clean_path.simps) (auto simp: sr k(1))
  next
    case False
    then have st: "st \<noteq> []" and seg: "is_comp seg" using sr k(2)
      by (auto simp: do_eval_symlinks_skip_slash_def)
    note IH = less.hyps [OF skip_slash_shorter(2) [OF sr False]]
    consider "seg = ''.''" | "seg = ''..''" | "seg \<noteq> ''.''" "seg \<noteq> ''..''" by blast
    then show ?thesis
    proof cases
      case 1
      then have "do_clean_path limit st buf dest = do_clean_path limit rest buf dest"
        using st sr by (subst do_clean_path.simps) (simp add: do_clean_path_continue_def dots)
      with IH [OF less.prems] 1 show ?thesis by (simp add: k(1))
    next
      case 2
      obtain d tr' where d: "(if dest \<le> 1 then Some dest else back_to_slash buf (dest - 1)) = Some d"
        "path_at [] (butlast stk) tr' buf d" "d \<le> dest"
        using parent_at [OF less.prems(1)] by auto
      then have "do_clean_path limit st buf dest = do_clean_path limit rest buf d"
        using st sr 2 by (subst do_clean_path.simps) (auto simp: do_clean_path_continue_def dots split: if_splits)
      with IH [OF d(2)] d(3) less.prems 2 show ?thesis by (simp add: k(1))
    next
      case 3
      obtain b d where b: "add_slash buf dest = Some (b, d)" "path_at [] stk True b d" "length b = length buf"
        "d = length (slashes stk) + 1"
        using add_slash_at [OF less.prems(1)] less.prems(2,3) by (auto simp: length_spell)
      show ?thesis
      proof (cases "d + length seg \<ge> limit")
        case True
        moreover have "d \<le> length buf" "Suc 0 < length buf"
          using b(2,3) path_at_pos [OF less.prems(1)] less.prems(2,3) by (auto simp: path_at_def)
        ultimately show ?thesis using st sr 3 b less.prems False
          by (subst do_clean_path.simps) (auto simp: do_clean_path_continue_def dots buf_put_def k(1))
      next
        case fits: False
        then obtain b2 d2 where b2: "add_comp b d seg = Some (b2, d2)" "path_at [] (stk @ [seg]) False b2 d2"
          "length b2 = length b" "d2 = d + length seg"
          using add_comp_at [OF b(2) _ seg] less.prems(3) b(3,4) by (auto simp: length_spell)
        have "do_clean_path limit st buf dest = do_clean_path limit rest b2 d2"
          using st sr 3 b b2 fits False by (subst do_clean_path.simps) (simp add: do_clean_path_continue_def dots)
        with IH [OF b2(2)] fits b b2 less.prems 3 False show ?thesis by (simp add: k(1))
      qed
    qed
  qed
qed

section \<open>The cleaned path\<close>

definition valid_comp :: "string \<Rightarrow> bool" where
  "valid_comp c \<longleftrightarrow> is_comp c \<and> c \<noteq> ''.'' \<and> c \<noteq> ''..'' \<and> no_nul c"

text \<open>The components of the cleaned path, or nothing when the path is refused.\<close>

definition clean_spec :: "string option \<Rightarrow> string \<Rightarrow> string list option" where
  "clean_spec cwd p =
     (if p = [] then None
      else if IS_ABSOLUTE_FILE_NAME p then clean_stack PATH_MAX [] (segs p)
      else case cwd of
        None \<Rightarrow> None
      | Some d \<Rightarrow> if length d \<ge> PATH_MAX \<or> length p \<ge> (PATH_MAX - 1) - length d then None
                 else clean_stack PATH_MAX (segs d) (segs p))"

text \<open>What \<^verbatim>\<open>getcwd\<close> stores: an absolute path in normal form.\<close>

definition cwd_ok :: "string option \<Rightarrow> bool" where
  "cwd_ok cwd = (case cwd of None \<Rightarrow> True | Some d \<Rightarrow> d = render (segs d) \<and> list_all valid_comp (segs d))"

lemma PATH_MAX_pos: "1 < PATH_MAX"
  by (simp add: PATH_MAX_def)

lemma render_not_Nil [simp]: "render cs \<noteq> []"
  by (cases cs) (auto simp: render_def)

lemma render_absolute [simp]: "IS_ABSOLUTE_FILE_NAME (render cs)"
  by (cases cs) (auto simp: render_def IS_ABSOLUTE_FILE_NAME_def ISSLASH_def)

lemma no_nul_render: "\<forall>c \<in> set cs. no_nul c \<Longrightarrow> no_nul (render cs)"
  by (induction cs) (auto simp: render_def no_nul_def slashes_def)

lemma segs_slashes: "\<forall>c \<in> set cs. is_comp c \<Longrightarrow> segs (slashes cs @ (if tr then ''/'' else [])) = cs"
proof (induction cs)
  case Nil
  show ?case by (subst strtok_tokens.simps) simp
next
  case (Cons c cs)
  let ?r = "slashes cs @ (if tr then ''/'' else [])"
  have c: "c \<noteq> []" "\<forall>x \<in> set c. \<not> ISSLASH x" using Cons.prems by (auto simp: is_comp_def ISSLASH_def)
  have r: "?r = [] \<or> ISSLASH (hd ?r)" by (cases cs) (auto simp: ISSLASH_def)
  have d: "dropWhile ISSLASH (CHR ''/'' # c @ ?r) = c @ ?r"
    using c by (cases c) (auto simp: ISSLASH_def)
  have t: "takeWhile (\<lambda>c. \<not> ISSLASH c) (c @ ?r) = c"
    using c(2) r by (cases ?r) (auto simp: takeWhile_append2)
  have w: "dropWhile (\<lambda>c. \<not> ISSLASH c) (c @ ?r) = ?r"
    using c(2) r by (cases ?r) (auto simp: dropWhile_append2)
  have "do_eval_symlinks_skip_slash (CHR ''/'' # c @ ?r) = (c, ?r)"
    unfolding do_eval_symlinks_skip_slash_def Let_def d t w ..
  from skip_slash_segs(1) [OF this] c(1) Cons show ?case by simp
qed

lemma segs_render: "\<forall>c \<in> set cs. is_comp c \<Longrightarrow> segs (render cs) = cs"
  using segs_slashes [of cs False] segs_slashes [of "[]" True] by (auto simp: render_def)

lemma clean_stack_valid:
  assumes "clean_stack limit stk cs = Some r" and "\<forall>c \<in> set stk. valid_comp c"
    and "\<forall>c \<in> set cs. is_comp c \<and> no_nul c"
  shows "\<forall>c \<in> set r. valid_comp c"
  using assms
proof (induction cs arbitrary: stk)
  case (Cons c cs)
  have "\<forall>c \<in> set (butlast stk). valid_comp c" using Cons.prems(2) by (meson in_set_butlastD)
  moreover have "c \<noteq> ''.'' \<Longrightarrow> c \<noteq> ''..'' \<Longrightarrow> \<forall>x \<in> set (stk @ [c]). valid_comp x"
    using Cons.prems(2,3) by (simp add: valid_comp_def)
  moreover have "\<forall>c \<in> set cs. is_comp c \<and> no_nul c" using Cons.prems(3) by simp
  ultimately show ?case
    using Cons.IH [of stk] Cons.IH [of "butlast stk"] Cons.IH [of "stk @ [c]"] Cons.prems(1,2)
    by (simp split: if_split_asm)
qed simp

lemma clean_stack_short:
  "clean_stack limit stk cs = Some r \<Longrightarrow> length (slashes stk) < limit \<Longrightarrow> length (slashes r) < limit"
proof (induction limit stk cs rule: clean_stack.induct)
  case (2 limit stk c cs)
  have "length (slashes (butlast stk)) \<le> length (slashes stk)" by (cases stk rule: rev_cases) auto
  with 2 show ?case by (auto split: if_splits)
qed auto

lemma clean_stack_id:
  "\<forall>c \<in> set cs. valid_comp c \<Longrightarrow> length (slashes (stk @ cs)) < limit \<Longrightarrow> clean_stack limit stk cs = Some (stk @ cs)"
  by (induction cs arbitrary: stk) (auto simp: valid_comp_def)

lemma path_at_string:
  assumes "path_at pre stk tr buf dest" and "dest < length buf" and "no_nul pre" and "\<forall>c \<in> set stk. no_nul c"
  shows "c_string (buf[dest := NUL]) = spell pre stk tr"
proof (rule c_string_prefix)
  have "take dest buf = spell pre stk tr" using assms(1) by (simp add: path_at_def)
  then show "take (length (spell pre stk tr) + 1) (buf[dest := NUL]) = spell pre stk tr @ [NUL]"
    using assms(2) path_at_dest [OF assms(1)] by (simp add: take_Suc_conv_app_nth)
  show "NUL \<notin> set (spell pre stk tr)" using assms(3,4) by (auto simp: spell_def no_nul_def slashes_def)
qed

lemma spell_render:
  assumes "path_at [] stk tr buf dest"
  shows "if dest > 1 \<and> tr then path_at [] stk False buf (dest - 1) \<and> stk \<noteq> [] else spell [] stk tr = render stk"
proof (cases "dest > 1 \<and> tr")
  case True
  have "dest = length (slashes stk) + 1" using path_at_dest [OF assms] True by (simp add: length_spell)
  then have ne: "stk \<noteq> []" using True by auto
  have "take (dest - 1) buf = take (dest - 1) (take dest buf)" by (simp add: min_def)
  also have "\<dots> = slashes stk" using assms True \<open>dest = _\<close> by (simp add: path_at_def spell_def)
  finally show ?thesis using assms True ne by (auto simp: path_at_def spell_def)
next
  case False
  have "spell [] stk tr = render stk"
  proof (cases tr)
    case True
    with False path_at_dest [OF assms] have "slashes stk = []" by (simp add: length_spell)
    then have "stk = []" by (cases stk) auto
    with True show ?thesis by (simp add: spell_def render_def)
  qed (use assms in \<open>auto simp: path_at_def spell_def render_def\<close>)
  with False show ?thesis by auto
qed

lemma clean_finish_exact:
  assumes at: "path_at [] stk tr buf dest" and d: "dest < PATH_MAX" "PATH_MAX \<le> length buf"
    and v: "\<forall>c \<in> set stk. valid_comp c" and st: "no_nul st"
  shows "\<exists>r. clean_finish st buf dest PATH_MAX = Some r \<and>
    map_option c_string r = map_option render (clean_stack PATH_MAX stk (segs st))"
proof -
  obtain b r where b: "do_clean_path PATH_MAX st buf dest = Some (b, r)" "length b = length buf"
    "case clean_stack PATH_MAX stk (segs st) of None \<Rightarrow> r = None
     | Some stk' \<Rightarrow> \<exists>d tr'. r = Some d \<and> path_at [] stk' tr' b d \<and> d < PATH_MAX"
    using clean_loop [OF at d] by blast
  show ?thesis
  proof (cases "clean_stack PATH_MAX stk (segs st)")
    case None
    with b show ?thesis by (simp add: clean_finish_def)
  next
    case (Some stk')
    then obtain e tr' where e: "r = Some e" "path_at [] stk' tr' b e" "e < PATH_MAX" using b(3) by auto
    have "\<forall>c \<in> set stk'. valid_comp c"
      using clean_stack_valid [OF Some v] segs_comps [of _ st] st by (auto simp: no_nul_def)
    then have nn: "\<forall>c \<in> set stk'. no_nul c" by (simp add: valid_comp_def)
    obtain c where c: "buf_prev b e = Some c" "ISSLASH c \<longleftrightarrow> tr'" using path_at_prev [OF e(2)] by blast
    define e' where "e' = (if e > 1 \<and> tr' then e - 1 else e)"
    have fin: "clean_finish st buf dest PATH_MAX = Some (Some (b[e' := NUL]))"
      using b(1,2) c e(1,3) d(2) by (auto simp: clean_finish_def e'_def buf_put_def)
    have lt: "e' < length b" using e(3) d(2) b(2) by (auto simp: e'_def)
    have "c_string (b[e' := NUL]) = render stk'"
    proof (cases "e > 1 \<and> tr'")
      case True
      then have p: "path_at [] stk' False b (e - 1)" "stk' \<noteq> []" using spell_render [OF e(2)] by auto
      have "b[e' := NUL] = b[e - 1 := NUL]" "e - 1 < length b" using True lt by (simp_all add: e'_def)
      then have "c_string (b[e' := NUL]) = spell [] stk' False"
        using path_at_string [OF p(1) _ _ nn] by (simp add: no_nul_def)
      then show ?thesis using p(2) by (simp add: spell_def render_def)
    next
      case False
      then have "b[e' := NUL] = b[e := NUL]" "e < length b" using lt by (auto simp: e'_def)
      then have "c_string (b[e' := NUL]) = spell [] stk' tr'"
        using path_at_string [OF e(2) _ _ nn] by (simp add: no_nul_def)
      with False spell_render [OF e(2)] show ?thesis by auto
    qed
    with fin Some show ?thesis by simp
  qed
qed

lemma relative_start:
  assumes "cwd_ok (Some d)"
  shows "path_at [] (segs d) (segs d = []) (d @ x) (length d)" and "no_nul d"
proof -
  have d: "d = render (segs d)" "\<forall>c \<in> set (segs d). is_comp c" "\<forall>c \<in> set (segs d). no_nul c"
    using assms by (auto simp: cwd_ok_def list_all_iff valid_comp_def)
  then have "spell [] (segs d) (segs d = []) = d" by (simp add: spell_def render_def split: if_splits)
  with d(2) show "path_at [] (segs d) (segs d = []) (d @ x) (length d)" by (simp add: path_at_def)
  show "no_nul d" using no_nul_render [OF d(3)] d(1) by simp
qed

lemma relative_buffers:
  assumes "no_nul d" and "length d < cap" and "length d + length p + 1 < cap" and "cap \<le> length buf"
  shows "\<exists>b x. getcwd_into (Some d) buf cap = Some (Some b) \<and> c_string b = d \<and>
    buf_memcpy b (length d) (p @ [NUL]) = Some (d @ x) \<and> length (d @ x) = length buf"
proof -
  define b where "b = (d @ [NUL]) @ drop (length d + 1) buf"
  have "getcwd_into (Some d) buf cap = Some (Some b)"
    using assms by (simp add: getcwd_into_def buf_memcpy_def b_def)
  moreover have "c_string b = d" using assms(1) by (intro c_string_prefix) (auto simp: b_def no_nul_def)
  moreover have "buf_memcpy b (length d) (p @ [NUL]) = Some (d @ (p @ NUL # drop (length d + length p + 1) b))"
    using assms by (simp add: buf_memcpy_def b_def)
  moreover have "length (d @ p @ NUL # drop (length d + length p + 1) b) = length buf"
    using assms by (simp add: b_def)
  ultimately show ?thesis by blast
qed

lemma util_clean_path_exact:
  assumes p: "no_nul p" and cwd: "cwd_ok cwd" and len: "PATH_MAX \<le> len" "len \<le> length buf"
  shows "\<exists>r. util_clean_path cwd (Some p) (Some buf) len = Some r \<and>
    map_option c_string r = map_option render (clean_spec cwd p)"
proof -
  define rp where "rp = replicate len NUL @ drop len buf"
  have rp: "length rp = length buf" "PATH_MAX \<le> length rp" using len by (simp_all add: rp_def)
  consider "p = []" | "p \<noteq> []" "IS_ABSOLUTE_FILE_NAME p" | "p \<noteq> []" "\<not> IS_ABSOLUTE_FILE_NAME p" by blast
  then show ?thesis
  proof cases
    case 1
    then show ?thesis by (simp add: util_clean_path_def clean_spec_def)
  next
    case 2
    have "path_at [] [] True (rp[0 := CHR ''/'']) 1"
      using rp PATH_MAX_pos by (cases rp) (auto simp: path_at_def spell_def)
    from clean_finish_exact [OF this _ _ _ p] rp PATH_MAX_pos 2 len show ?thesis
      by (auto simp: util_clean_path_def clean_spec_def rp_def [symmetric] buf_put_def)
  next
    case 3
    show ?thesis
    proof (cases cwd)
      case None
      with 3 len show ?thesis by (simp add: util_clean_path_def clean_spec_def getcwd_into_def)
    next
      case (Some d)
      note d = relative_start [OF cwd [unfolded Some]]
      have v: "\<forall>c \<in> set (segs d). valid_comp c" using cwd Some by (auto simp: cwd_ok_def list_all_iff)
      consider "length d \<ge> PATH_MAX" | "length d < PATH_MAX" "length p \<ge> (PATH_MAX - 1) - length d"
        | "length d < PATH_MAX" "length d + length p + 1 < PATH_MAX" by linarith
      then show ?thesis
      proof cases
        case 1
        with 3 Some len show ?thesis by (simp add: util_clean_path_def clean_spec_def getcwd_into_def)
      next
        case long: 2
        then have "getcwd_into (Some d) rp PATH_MAX = Some (Some ((d @ [NUL]) @ drop (length d + 1) rp))"
          using rp by (simp add: getcwd_into_def buf_memcpy_def)
        moreover have "c_string ((d @ [NUL]) @ drop (length d + 1) rp) = d"
          using d(2) by (intro c_string_prefix) (auto simp: no_nul_def)
        ultimately show ?thesis using 3 long Some len
          by (simp add: util_clean_path_def clean_spec_def rp_def [symmetric] Let_def)
      next
        case fits: 3
        then obtain b x where b: "getcwd_into (Some d) rp PATH_MAX = Some (Some b)" "c_string b = d"
          "buf_memcpy b (length d) (p @ [NUL]) = Some (d @ x)" "length (d @ x) = length rp"
          using relative_buffers [OF d(2) fits(1,2), of rp] rp(2) by auto
        have nl: "\<not> length p \<ge> (PATH_MAX - 1) - length d" using fits(2) by linarith
        then have "util_clean_path cwd (Some p) (Some buf) len = clean_finish p (d @ x) (length d) PATH_MAX"
          using 3 Some len b by (simp add: util_clean_path_def rp_def [symmetric] Let_def)
        moreover have "clean_spec cwd p = clean_stack PATH_MAX (segs d) (segs p)"
          using 3 Some fits(1) nl by (simp add: clean_spec_def)
        ultimately show ?thesis
          using clean_finish_exact [OF d(1) fits(1) _ v p, of x] b(4) rp(2) by auto
      qed
    qed
  qed
qed

lemma clean_path_eq:
  assumes "no_nul p" and "cwd_ok cwd"
  shows "clean_path cwd (Some p) = Some (map_option render (clean_spec cwd p))"
  using util_clean_path_exact [OF assms order_refl, of "replicate PATH_MAX NUL"] by (auto simp: clean_path_def)

lemma clean_spec_valid:
  assumes "clean_spec cwd p = Some cs" and "no_nul p" and "cwd_ok cwd"
  shows "\<forall>c \<in> set cs. valid_comp c" and "length (slashes cs) < PATH_MAX"
proof -
  have p: "\<forall>c \<in> set (segs p). is_comp c \<and> no_nul c" using segs_comps [of _ p] assms(2) by (auto simp: no_nul_def)
  obtain stk where stk: "clean_stack PATH_MAX stk (segs p) = Some cs" "\<forall>c \<in> set stk. valid_comp c"
    "length (slashes stk) < PATH_MAX"
  proof (cases "IS_ABSOLUTE_FILE_NAME p")
    case True
    with assms(1) that [of "[]"] PATH_MAX_pos show ?thesis by (auto simp: clean_spec_def split: if_splits)
  next
    case False
    then obtain d where d: "cwd = Some d" "length d < PATH_MAX" "clean_stack PATH_MAX (segs d) (segs p) = Some cs"
      using assms(1) by (auto simp: clean_spec_def split: if_splits option.splits)
    then have "d = render (segs d)" "\<forall>c \<in> set (segs d). valid_comp c"
      using assms(3) by (auto simp: cwd_ok_def list_all_iff)
    moreover from this d(2) have "length (slashes (segs d)) < PATH_MAX"
      by (metis length_greater_0_conv list.size(3) not_less_zero order.strict_trans PATH_MAX_pos render_def slashes_simps(1) zero_less_one)
    ultimately show ?thesis using that d(3) by blast
  qed
  show "\<forall>c \<in> set cs. valid_comp c" by (rule clean_stack_valid [OF stk(1,2) p])
  show "length (slashes cs) < PATH_MAX" by (rule clean_stack_short [OF stk(1,3)])
qed

lemma clean_spec_id:
  assumes "\<forall>c \<in> set cs. valid_comp c" and "length (slashes cs) < PATH_MAX"
  shows "clean_spec cwd (render cs) = Some cs"
proof -
  have "segs (render cs) = cs" using assms(1) by (intro segs_render) (simp add: valid_comp_def)
  with clean_stack_id [OF assms(1), of "[]"] assms(2) show ?thesis by (simp add: clean_spec_def)
qed

section \<open>Resolving links is a walk over components\<close>

text \<open>
  The reference walk below a root \<open>pre\<close>: the stack of components, the rest of the path, the number of
  links followed, whether the buffers were enlarged and allocated, and the round. A link replaces the
  component by its target; an absolute target starts again at the root.
\<close>

function link_walk ::
  "path_env \<Rightarrow> string \<Rightarrow> string list \<Rightarrow> string \<Rightarrow> bool \<Rightarrow> int \<Rightarrow> bool \<Rightarrow> nat \<Rightarrow> nat \<times> string list option" where
  "link_walk env pre stk st grown num extra t =
     (case do_eval_symlinks_skip_slash st of (seg, rest) \<Rightarrow>
        if seg = [] then (t, Some stk)
        else if seg = ''.'' then link_walk env pre stk rest grown num extra (t + 1)
        else if seg = ''..'' then link_walk env pre (butlast stk) rest grown num extra (t + 1)
        else (let name = pre @ slashes (stk @ [seg]); grow = (\<not> grown \<and> length name \<ge> PATH_MAX) in
          if grow \<and> \<not> pe_realloc env t then (t + 1, None)
          else if pe_lstat env t name \<noteq> Some True then
            link_walk env pre (stk @ [seg]) rest (grown \<or> grow) num extra (t + 1)
          else if num < MAXSYMLINKS \<and> pe_buf env t then
            (case pe_readlink env t name of
               None \<Rightarrow> (t + 1, None)
             | Some target \<Rightarrow>
                 let tg = take (PATH_MAX - 1) target in
                 if \<not> extra \<and> \<not> pe_extra env t \<or> length tg + length rest \<ge> PATH_MAX then (t + 1, None)
                 else link_walk env pre (if IS_ABSOLUTE_FILE_NAME tg then [] else stk) (tg @ rest)
                        (grown \<or> grow) (num + 1) True (t + 1))
          else (t + 1, None)))"
  by pat_completeness auto
termination
  by (relation "measures [\<lambda>(env, pre, stk, st, grown, num, extra, t). nat (MAXSYMLINKS - num),
      \<lambda>(env, pre, stk, st, grown, num, extra, t). length st]")
    (auto dest!: skip_slash_shorter(2) [OF sym])

declare link_walk.simps [simp del]

text \<open>The kernel's promises: a name of \<open>PATH_MAX\<close> characters or more is refused, a link target has no NUL.\<close>

definition kernel_ok :: "path_env \<Rightarrow> bool" where
  "kernel_ok env \<longleftrightarrow>
     cwd_ok (pe_cwd env) \<and> (\<forall>t p. PATH_MAX \<le> length p \<longrightarrow> pe_lstat env t p \<noteq> Some True) \<and>
     (\<forall>t p s. pe_readlink env t p = Some s \<longrightarrow> no_nul s)"

lemma walk_step:
  obtains (stop) "link_walk env pre stk st grown num extra t = (t, Some stk)"
  | (fail) "link_walk env pre stk st grown num extra t = (t + 1, None)" "st \<noteq> []"
  | (go) stk' rest grown' where
      "link_walk env pre stk st grown num extra t = link_walk env pre stk' rest grown' num extra (t + 1)"
      "length rest < length st" "set rest \<subseteq> set st"
      "\<forall>c \<in> set stk'. c \<in> set stk \<or> is_comp c \<and> c \<noteq> ''.'' \<and> c \<noteq> ''..'' \<and> set c \<subseteq> set st"
  | (link) stk' st' grown' name target where
      "link_walk env pre stk st grown num extra t = link_walk env pre stk' st' grown' (num + 1) True (t + 1)"
      "num < MAXSYMLINKS" "length st' < PATH_MAX" "st \<noteq> []" "stk' = [] \<or> stk' = stk"
      "pe_readlink env t name = Some target" "set st' \<subseteq> set target \<union> set st"
proof -
  obtain seg rest where sr: "do_eval_symlinks_skip_slash st = (seg, rest)" by fastforce
  note k = skip_slash_segs [OF sr]
  note eq = link_walk.simps [of env pre stk st grown num extra t, unfolded sr prod.case]
  show thesis
  proof (cases "seg = []")
    case True
    with eq stop show thesis by simp
  next
    case False
    note len = skip_slash_shorter [OF sr False]
    then have st: "st \<noteq> []" by auto
    consider "seg = ''.''" | "seg = ''..''" | "seg \<noteq> ''.''" "seg \<noteq> ''..''" by blast
    then show thesis
    proof cases
      case 1
      with eq go [of stk rest grown] len k(4) show thesis by simp
    next
      case 2
      with eq go [of "butlast stk" rest grown] len k(4) show thesis by (simp add: in_set_butlastD)
    next
      case 3
      define name where "name = pre @ slashes (stk @ [seg])"
      define grow where "grow = (\<not> grown \<and> length name \<ge> PATH_MAX)"
      note eq3 = eq [folded name_def, unfolded Let_def, folded grow_def]
      consider "grow \<and> \<not> pe_realloc env t" | "\<not> (grow \<and> \<not> pe_realloc env t)" "pe_lstat env t name \<noteq> Some True"
        | "\<not> (grow \<and> \<not> pe_realloc env t)" "pe_lstat env t name = Some True" by blast
      then show thesis
      proof cases
        case 1
        with eq3 3 False fail st show thesis by simp
      next
        case 2
        with eq3 3 False go [of "stk @ [seg]" rest "grown \<or> grow"] len k show thesis by simp
      next
        case 3
        note lnk = this
        show thesis
        proof (cases "num < MAXSYMLINKS \<and> pe_buf env t")
          case b: True
          show thesis
          proof (cases "pe_readlink env t name")
            case None
            with eq3 \<open>seg \<noteq> ''.''\<close> \<open>seg \<noteq> ''..''\<close> False fail st lnk b show thesis by simp
          next
            case (Some target)
            define tg where "tg = take (PATH_MAX - 1) target"
            define s2 where "s2 = (if IS_ABSOLUTE_FILE_NAME tg then [] else stk)"
            have "set (tg @ rest) \<subseteq> set target \<union> set st"
              using k(4) set_take_subset [of "PATH_MAX - 1" target] by (auto simp: tg_def)
            moreover have "s2 = [] \<or> s2 = stk" by (simp add: s2_def)
            moreover have "link_walk env pre stk st grown num extra t =
              (if \<not> extra \<and> \<not> pe_extra env t \<or> length tg + length rest \<ge> PATH_MAX then (t + 1, None)
               else link_walk env pre s2 (tg @ rest) (grown \<or> grow) (num + 1) True (t + 1))"
              unfolding tg_def s2_def using Some eq3 \<open>seg \<noteq> ''.''\<close> \<open>seg \<noteq> ''..''\<close> False lnk b by simp
            ultimately show thesis using fail st b Some link [of s2 "tg @ rest" "grown \<or> grow" name target]
              by (cases "\<not> extra \<and> \<not> pe_extra env t \<or> length tg + length rest \<ge> PATH_MAX") auto
          qed
        qed (use eq3 \<open>seg \<noteq> ''.''\<close> \<open>seg \<noteq> ''..''\<close> False fail st lnk in auto)
      qed
    qed
  qed
qed

lemma walk_valid:
  assumes "kernel_ok env" and "link_walk env pre stk st grown num extra t = (t', Some stk')"
    and "\<forall>c \<in> set stk. valid_comp c" and "no_nul st"
  shows "\<forall>c \<in> set stk'. valid_comp c"
  using assms(2-)
proof (induction "(nat (MAXSYMLINKS - num), length st)" arbitrary: stk st grown num extra t
    rule: wf_induct_rule [OF wf_lex_prod [OF wf_less_than wf_less_than]])
  case (1 st num stk grown extra t)
  show ?case
  proof (cases rule: walk_step [of env pre stk st grown num extra t])
    case (go s rest g)
    have "\<forall>c \<in> set s. valid_comp c" using go(4) 1(3,4) by (auto simp: valid_comp_def no_nul_def)
    moreover have "no_nul rest" using go(3) 1(4) by (auto simp: no_nul_def)
    ultimately show ?thesis using 1(1) [of num rest] go(1,2) 1(2) by auto
  next
    case (link s st' g name target)
    have "no_nul target" using assms(1) link(6) by (auto simp: kernel_ok_def)
    then have "no_nul st'" using link(7) 1(4) by (auto simp: no_nul_def)
    moreover have "\<forall>c \<in> set s. valid_comp c" using link(5) 1(3) by auto
    ultimately show ?thesis using 1(1) [of "num + 1" st'] link(1,2) 1(2) by auto
  qed (use 1 in auto)
qed

text \<open>Each round takes at least one character, and a followed link leaves less than \<open>PATH_MAX\<close> of them.\<close>

lemma walk_rounds:
  "fst (link_walk env pre stk st grown num extra t) \<le> t + length st + nat (MAXSYMLINKS - num) * PATH_MAX"
proof (induction "(nat (MAXSYMLINKS - num), length st)" arbitrary: stk st grown num extra t
    rule: wf_induct_rule [OF wf_lex_prod [OF wf_less_than wf_less_than]])
  case (1 st num stk grown extra t)
  show ?case
  proof (cases rule: walk_step [of env pre stk st grown num extra t])
    case fail
    then show ?thesis by (cases st) auto
  next
    case (go s rest g)
    then show ?thesis using 1(1) [of num rest s g extra "t + 1"] by auto
  next
    case (link s st' g name target)
    then obtain m where "nat (MAXSYMLINKS - num) = Suc m" by (cases "nat (MAXSYMLINKS - num)") auto
    moreover from this have "nat (MAXSYMLINKS - (num + 1)) = m" by linarith
    ultimately show ?thesis using 1(1) [of "num + 1" st' s g True "t + 1"] link(1,3) by auto
  qed auto
qed

lemma realloc_at:
  assumes at: "path_at pre stk True rpath d" and len: "length rpath = (if grown then 2 * PATH_MAX else PATH_MAX)"
    and n: "n < PATH_MAX" "d + n \<le> 2 * PATH_MAX - 2" and grow: "grow = (\<not> grown \<and> d + n \<ge> PATH_MAX)"
  shows "grow \<and> \<not> ok \<Longrightarrow> do_path_realloc ok n rpath d (length rpath) = Some None"
    and "\<not> (grow \<and> \<not> ok) \<Longrightarrow> \<exists>b. do_path_realloc ok n rpath d (length rpath) = Some (Some (b, length b)) \<and>
      path_at pre stk True b d \<and> length b = (if grown \<or> grow then 2 * PATH_MAX else PATH_MAX) \<and> d + n < length b"
proof -
  have P: "PATH_MAX + PATH_MAX \<le> MAX_MEMORY_SIZE" "0 < PATH_MAX" "\<not> PATH_MAX > SIZE_MAX - (n + 1)"
    using n(1) by (simp_all add: PATH_MAX_def MAX_MEMORY_SIZE_def SIZE_MAX_def)
  have r: "do_path_realloc ok n rpath d (length rpath) =
    (if grow then (if ok then Some (Some (take PATH_MAX rpath @ replicate PATH_MAX NUL, PATH_MAX + PATH_MAX)) else Some None)
     else Some (Some (rpath, length rpath)))"
    using len n grow P
    by (simp add: do_path_realloc_def util_mem_realloc_def Let_def not_less not_le split: if_splits)
  then show "grow \<and> \<not> ok \<Longrightarrow> do_path_realloc ok n rpath d (length rpath) = Some None" by simp
  assume ok: "\<not> (grow \<and> \<not> ok)"
  show "\<exists>b. do_path_realloc ok n rpath d (length rpath) = Some (Some (b, length b)) \<and>
      path_at pre stk True b d \<and> length b = (if grown \<or> grow then 2 * PATH_MAX else PATH_MAX) \<and> d + n < length b"
  proof (cases grow)
    case True
    define b where "b = rpath @ replicate PATH_MAX NUL"
    have g: "\<not> grown" "length rpath = PATH_MAX" "ok" using True grow len ok by auto
    have "path_at pre stk True b d" using at by (auto simp: path_at_def b_def)
    moreover have "length b = 2 * PATH_MAX" using g by (simp add: b_def)
    moreover have "do_path_realloc ok n rpath d (length rpath) = Some (Some (b, length b))"
      using r True g by (simp add: b_def)
    ultimately show ?thesis using True n P(2) by auto
  next
    case False
    moreover have "d + n < length rpath" using False grow len n P(2) by (auto split: if_splits)
    ultimately show ?thesis using r at len by auto
  qed
qed

lemma copy_buf_at:
  assumes at: "path_at pre (stk @ [seg]) False b d" and d: "d < length b" and pre: "take (length pre) prefix = pre"
  shows "\<exists>b' d'. do_get_symlinks_copy_buf tg prefix (length pre) b d = Some (b', d') \<and>
    path_at pre (if IS_ABSOLUTE_FILE_NAME tg then [] else stk) True b' d' \<and> length b' = length b \<and> d' < d"
proof -
  have lt: "length pre + 1 < d" using path_at_dest [OF at] at
    by (cases seg) (auto simp: length_spell path_at_def is_comp_def)
  show ?thesis
  proof (cases "IS_ABSOLUTE_FILE_NAME tg")
    case True
    define b1 where "b1 = pre @ drop (length pre) b"
    have "(if length pre \<noteq> 0 then buf_memcpy b 0 (take (length pre) prefix) else Some b) = Some b1"
      using lt d pre by (simp add: buf_memcpy_def b1_def)
    moreover have l: "length b1 = length b" "length pre < length b1" using lt d by (auto simp: b1_def)
    moreover have "path_at pre [] True (b1[length pre := CHR ''/'']) (length pre + 1)"
      using l by (simp add: path_at_def spell_def take_Suc_conv_app_nth b1_def)
    ultimately show ?thesis using True lt by (simp add: do_get_symlinks_copy_buf_def buf_put_def)
  next
    case False
    obtain e where "back_to_slash b (d - 1) = Some e" "path_at pre stk True b e" "e < d"
      using back_one [OF at] by blast
    with False lt show ?thesis by (simp add: do_get_symlinks_copy_buf_def)
  qed
qed

lemma get_symlinks_at:
  assumes at: "path_at pre (stk @ [seg]) False b d" and d: "d < length b" and pre: "take (length pre) prefix = pre"
    and name: "c_string b = name"
  shows "\<not> (num < MAXSYMLINKS \<and> pe_buf env t) \<or> pe_readlink env t name = None \<Longrightarrow>
      do_get_symlinks env t prefix (length pre) b d rest num extra = Some None"
    and "num < MAXSYMLINKS \<Longrightarrow> pe_buf env t \<Longrightarrow> pe_readlink env t name = Some target \<Longrightarrow>
      tg = take (PATH_MAX - 1) target \<Longrightarrow>
      (if \<not> extra \<and> \<not> pe_extra env t \<or> length tg + length rest \<ge> PATH_MAX
       then do_get_symlinks env t prefix (length pre) b d rest num extra = Some None
       else \<exists>b' d'. do_get_symlinks env t prefix (length pre) b d rest num extra =
              Some (Some (tg @ rest, b', d', num + 1, True)) \<and>
            path_at pre (if IS_ABSOLUTE_FILE_NAME tg then [] else stk) True b' d' \<and> length b' = length b \<and> d' < d)"
proof -
  show "\<not> (num < MAXSYMLINKS \<and> pe_buf env t) \<or> pe_readlink env t name = None \<Longrightarrow>
      do_get_symlinks env t prefix (length pre) b d rest num extra = Some None"
    by (auto simp: do_get_symlinks_def name Let_def)
  assume a: "num < MAXSYMLINKS" "pe_buf env t" "pe_readlink env t name = Some target" "tg = take (PATH_MAX - 1) target"
  have tg: "length tg < PATH_MAX" using PATH_MAX_pos by (simp add: a(4))
  have "do_get_symlinks env t prefix (length pre) b d rest num extra =
    (if \<not> extra \<and> \<not> pe_extra env t \<or> length tg + length rest \<ge> PATH_MAX then Some None
     else do { (rpath, dest) \<leftarrow> do_get_symlinks_copy_buf tg prefix (length pre) b d;
               Some (Some (tg @ rest, rpath, dest, num + 1, True)) })"
    using a(1,2) tg unfolding do_get_symlinks_def Let_def name a(3) option.case a(4) [symmetric] by auto
  with copy_buf_at [OF at d pre, of tg] show "if \<not> extra \<and> \<not> pe_extra env t \<or> length tg + length rest \<ge> PATH_MAX
       then do_get_symlinks env t prefix (length pre) b d rest num extra = Some None
       else \<exists>b' d'. do_get_symlinks env t prefix (length pre) b d rest num extra =
              Some (Some (tg @ rest, b', d', num + 1, True)) \<and>
            path_at pre (if IS_ABSOLUTE_FILE_NAME tg then [] else stk) True b' d' \<and> length b' = length b \<and> d' < d"
    by auto
qed

text \<open>What the loop keeps: the buffer spells the stack, and what is left to read still fits after one enlargement.\<close>

definition walk_inv :: "string \<Rightarrow> string list \<Rightarrow> bool \<Rightarrow> string \<Rightarrow> bool \<Rightarrow> string \<Rightarrow> nat \<Rightarrow> bool" where
  "walk_inv pre stk tr st grown rpath dest \<longleftrightarrow>
     path_at pre stk tr rpath dest \<and> dest < length rpath \<and>
     length rpath = (if grown then 2 * PATH_MAX else PATH_MAX) \<and>
     (\<forall>c \<in> set stk. valid_comp c) \<and> no_nul st \<and> length st < PATH_MAX \<and> dest + length st \<le> 2 * PATH_MAX - 2 \<and>
     (tr \<or> st = [] \<or> ISSLASH (hd st))"

lemma skip_slash_rest:
  assumes "do_eval_symlinks_skip_slash st = (seg, rest)" and "seg \<noteq> []"
  shows "rest = [] \<or> ISSLASH (hd rest)" and "ISSLASH (hd st) \<Longrightarrow> length seg + length rest + 1 \<le> length st"
proof -
  have rest: "rest = dropWhile (\<lambda>c. \<not> ISSLASH c) (dropWhile ISSLASH st)"
    and cat: "seg @ rest = dropWhile ISSLASH st"
    using assms(1) by (auto simp: do_eval_symlinks_skip_slash_def Let_def)
  then show "rest = [] \<or> ISSLASH (hd rest)" using hd_dropWhile by blast
  assume h: "ISSLASH (hd st)"
  then obtain s where st: "st = CHR ''/'' # s" using cat assms(2) by (cases st) (auto simp: ISSLASH_def)
  have "length seg + length rest = length (dropWhile ISSLASH st)" using cat by (metis length_append)
  also have "\<dots> \<le> length s" using st by (simp add: ISSLASH_def length_dropWhile_le)
  finally show "length seg + length rest + 1 \<le> length st" using st by simp
qed

lemma walk_inv_parent:
  assumes "walk_inv pre stk tr st grown rpath dest" and "do_eval_symlinks_skip_slash st = (seg, rest)" "seg \<noteq> []"
  shows "\<exists>d tr'. skip_dest_trailing_slash rpath dest (length pre) = Some d \<and>
    walk_inv pre (butlast stk) tr' rest grown rpath d"
proof -
  obtain d tr' where d: "(if dest \<le> length pre + 1 then Some dest else back_to_slash rpath (dest - 1)) = Some d"
    "path_at pre (butlast stk) tr' rpath d" "d \<le> dest"
    using parent_at assms(1) unfolding walk_inv_def by blast
  have "skip_dest_trailing_slash rpath dest (length pre) = Some d"
    using d(1) by (auto simp: skip_dest_trailing_slash_def split: if_splits)
  moreover have "walk_inv pre (butlast stk) tr' rest grown rpath d"
    using assms d(2,3) skip_slash_rest(1) [OF assms(2,3)] skip_slash_shorter [OF assms(2,3)] skip_slash_segs(4) [OF assms(2)]
    by (auto simp: walk_inv_def no_nul_def dest: in_set_butlastD)
  ultimately show ?thesis by blast
qed

lemma walk_inv_skip:
  assumes "walk_inv pre stk tr st grown rpath dest" and "do_eval_symlinks_skip_slash st = (seg, rest)" "seg \<noteq> []"
  shows "walk_inv pre stk tr rest grown rpath dest"
  using assms(1) skip_slash_rest(1) [OF assms(2,3)] skip_slash_shorter [OF assms(2,3)] skip_slash_segs(4) [OF assms(2)]
  by (auto simp: walk_inv_def no_nul_def)

lemma walk_push:
  assumes inv: "walk_inv pre stk tr st grown rpath dest" and sr: "do_eval_symlinks_skip_slash st = (seg, rest)"
    and seg: "seg \<noteq> []" "seg \<noteq> ''.''" "seg \<noteq> ''..''" and pre: "no_nul pre"
    and name: "name = pre @ slashes (stk @ [seg])" and grow: "grow = (\<not> grown \<and> length name \<ge> PATH_MAX)"
  shows "\<exists>b0 d0. add_slash rpath dest = Some (b0, d0) \<and> length b0 = length rpath \<and>
    (if grow \<and> \<not> ok then do_path_realloc ok (length seg) b0 d0 (length rpath) = Some None
     else \<exists>b1 b d. do_path_realloc ok (length seg) b0 d0 (length rpath) = Some (Some (b1, length b)) \<and>
       add_comp b1 d0 seg = Some (b, d) \<and> c_string b = name \<and> d = length name \<and>
       walk_inv pre (stk @ [seg]) False rest (grown \<or> grow) b d)"
proof -
  have i: "path_at pre stk tr rpath dest" "dest < length rpath" "length rpath = (if grown then 2 * PATH_MAX else PATH_MAX)"
    "\<forall>c \<in> set stk. valid_comp c" "no_nul st" "length st < PATH_MAX" "dest + length st \<le> 2 * PATH_MAX - 2"
    "tr \<or> st = [] \<or> ISSLASH (hd st)" using inv by (simp_all add: walk_inv_def)
  note sh = skip_slash_shorter [OF sr seg(1)] and re = skip_slash_rest [OF sr seg(1)] and k = skip_slash_segs [OF sr]
  obtain b0 d0 where b0: "add_slash rpath dest = Some (b0, d0)" "path_at pre stk True b0 d0" "length b0 = length rpath"
    "d0 = length (spell pre stk True)" using add_slash_at [OF i(1,2)] by blast
  have st: "st \<noteq> []" using sh(2) by auto
  have tot: "d0 + length seg + length rest \<le> 2 * PATH_MAX - 2"
    using i(7,8) path_at_dest [OF i(1)] b0(4) sh(1) re(2) st by (cases tr) (auto simp: length_spell)
  have n: "length seg < PATH_MAX" "d0 + length seg \<le> 2 * PATH_MAX - 2" using sh i(6) tot by auto
  have ln: "length name = d0 + length seg" using b0(4) name by (simp add: length_spell)
  have g: "grow = (\<not> grown \<and> d0 + length seg \<ge> PATH_MAX)" using grow ln by simp
  note r = realloc_at [OF b0(2) _ n g, of ok, unfolded b0(3), OF i(3)]
  have vc: "valid_comp seg" using seg k(2,3) i(5) by (auto simp: valid_comp_def no_nul_def)
  have "\<not> (grow \<and> \<not> ok) \<Longrightarrow> \<exists>b1 b d. do_path_realloc ok (length seg) b0 d0 (length rpath) = Some (Some (b1, length b)) \<and>
       add_comp b1 d0 seg = Some (b, d) \<and> c_string b = name \<and> d = length name \<and>
       walk_inv pre (stk @ [seg]) False rest (grown \<or> grow) b d"
  proof -
    assume "\<not> (grow \<and> \<not> ok)"
    then obtain b1 where b1: "do_path_realloc ok (length seg) b0 d0 (length rpath) = Some (Some (b1, length b1))"
      "path_at pre stk True b1 d0" "length b1 = (if grown \<or> grow then 2 * PATH_MAX else PATH_MAX)" "d0 + length seg < length b1"
      using r(2) by auto
    obtain b d where b: "add_comp b1 d0 seg = Some (b, d)" "path_at pre (stk @ [seg]) False b d" "length b = length b1"
      "d = length (spell pre (stk @ [seg]) False)" "b ! d = NUL"
      using add_comp_at [OF b1(2,4)] vc by (auto simp: valid_comp_def)
    have d: "d = length name" using b(4) name by (simp add: spell_def)
    have "b[d := NUL] = b" using b(5) by (metis list_update_id)
    moreover have "c_string (b[d := NUL]) = spell pre (stk @ [seg]) False"
      using path_at_string [OF b(2) _ pre] b1(4) b(3) d ln i(4) vc by (auto simp: valid_comp_def)
    ultimately have "c_string b = name" using name by (simp add: spell_def)
    moreover have "walk_inv pre (stk @ [seg]) False rest (grown \<or> grow) b d"
      unfolding walk_inv_def using b(2,3) b1(3,4) d ln i(4,5,6) vc sh re(1) tot k(4) by (auto simp: no_nul_def)
    ultimately show ?thesis using b1(1) b(1,3) d by auto
  qed
  with r(1) b0 show ?thesis by auto
qed

definition walk_agrees :: "string \<Rightarrow> nat \<times> string list option \<Rightarrow> (nat \<times> (string \<times> nat) option) option \<Rightarrow> bool" where
  "walk_agrees pre w x \<longleftrightarrow>
     (\<exists>r. x = Some (fst w, r) \<and>
       (case snd w of
          None \<Rightarrow> r = None
        | Some stk' \<Rightarrow> \<exists>b d tr'. r = Some (b, d) \<and> path_at pre stk' tr' b d \<and> d < length b))"

text \<open>The effect of one round that meets a link, on the loop and on the walk.\<close>

lemma link_round:
  assumes inv: "walk_inv pre (stk @ [seg]) False rest grown b d" and name: "c_string b = name" "d < PATH_MAX"
    and pre: "take (length pre) prefix = pre" and k: "kernel_ok env"
  shows "(\<exists>tg b' d'. do_get_symlinks env t prefix (length pre) b d rest num extra =
        Some (Some (tg @ rest, b', d', num + 1, True)) \<and> length b' = length b \<and>
      num < MAXSYMLINKS \<and> pe_buf env t \<and> (\<exists>target. pe_readlink env t name = Some target \<and> tg = take (PATH_MAX - 1) target) \<and>
      \<not> (\<not> extra \<and> \<not> pe_extra env t \<or> length tg + length rest \<ge> PATH_MAX) \<and>
      walk_inv pre (if IS_ABSOLUTE_FILE_NAME tg then [] else stk) True (tg @ rest) grown b' d') \<or>
    (do_get_symlinks env t prefix (length pre) b d rest num extra = Some None \<and>
      (num < MAXSYMLINKS \<longrightarrow> pe_buf env t \<longrightarrow> (\<forall>target. pe_readlink env t name = Some target \<longrightarrow>
        \<not> extra \<and> \<not> pe_extra env t \<or> length (take (PATH_MAX - 1) target) + length rest \<ge> PATH_MAX)))"
proof -
  have i: "path_at pre (stk @ [seg]) False b d" "d < length b" "\<forall>c \<in> set stk. valid_comp c" "no_nul rest"
    "length b = (if grown then 2 * PATH_MAX else PATH_MAX)"
    using inv by (auto simp: walk_inv_def)
  note g = get_symlinks_at [OF i(1,2) pre name(1)]
  show ?thesis
  proof (cases "\<exists>target. num < MAXSYMLINKS \<and> pe_buf env t \<and> pe_readlink env t name = Some target")
    case False
    then show ?thesis using g(1) [of num env t rest extra] by auto
  next
    case True
    then obtain target where r: "num < MAXSYMLINKS" "pe_buf env t" "pe_readlink env t name = Some target" by blast
    define tg where "tg = take (PATH_MAX - 1) target"
    have "no_nul target" using k r(3) unfolding kernel_ok_def by blast
    then have nn: "no_nul tg" by (auto simp: tg_def no_nul_def dest: in_set_takeD)
    show ?thesis
    proof (cases "\<not> extra \<and> \<not> pe_extra env t \<or> length tg + length rest \<ge> PATH_MAX")
      case True
      then show ?thesis using g(2) [OF r tg_def, of extra rest] r(3) by (simp add: tg_def)
    next
      case False
      then obtain b' d' where b': "do_get_symlinks env t prefix (length pre) b d rest num extra =
          Some (Some (tg @ rest, b', d', num + 1, True))"
        "path_at pre (if IS_ABSOLUTE_FILE_NAME tg then [] else stk) True b' d'" "length b' = length b" "d' < d"
        using g(2) [OF r tg_def, of extra rest] unfolding if_not_P [OF False] by blast
      have "walk_inv pre (if IS_ABSOLUTE_FILE_NAME tg then [] else stk) True (tg @ rest) grown b' d'"
        unfolding walk_inv_def
      proof (intro conjI)
        show "\<forall>c \<in> set (if IS_ABSOLUTE_FILE_NAME tg then [] else stk). valid_comp c" using i(3) by simp
        show "no_nul (tg @ rest)" using nn i(4) by (auto simp: no_nul_def)
      qed (use b'(2-4) i(2,5) False name(2) in auto)
      with b'(1,3) r tg_def False show ?thesis
        by (intro disjI1 exI [of _ tg] exI [of _ b'] exI [of _ d'] conjI exI [of _ target])
    qed
  qed
qed

text \<open>One round of the loop and one of the walk agree, or they go on from corresponding states.\<close>

definition advances ::
  "path_env \<Rightarrow> string \<Rightarrow> string \<Rightarrow> string list \<Rightarrow> string \<Rightarrow> bool \<Rightarrow> string \<Rightarrow> nat \<Rightarrow> int \<Rightarrow> bool \<Rightarrow> nat \<Rightarrow> bool" where
  "advances env pre prefix stk st grown rpath dest num extra t \<longleftrightarrow>
     walk_agrees pre (link_walk env pre stk st grown num extra t)
       (do_eval_symlinks_in_scope env prefix (length pre) st rpath dest (length rpath) num extra t) \<or>
     (\<exists>stk' tr' st' grown' b d num' extra'. walk_inv pre stk' tr' st' grown' b d \<and>
        (nat (MAXSYMLINKS - num') < nat (MAXSYMLINKS - num) \<or> num' = num \<and> length st' < length st) \<and>
        link_walk env pre stk st grown num extra t = link_walk env pre stk' st' grown' num' extra' (t + 1) \<and>
        do_eval_symlinks_in_scope env prefix (length pre) st rpath dest (length rpath) num extra t =
          do_eval_symlinks_in_scope env prefix (length pre) st' b d (length b) num' extra' (t + 1))"

lemma advancesI:
  assumes "walk_inv pre stk' tr' st' grown' b d"
    and "nat (MAXSYMLINKS - num') < nat (MAXSYMLINKS - num) \<or> num' = num \<and> length st' < length st"
    and "link_walk env pre stk st grown num extra t = link_walk env pre stk' st' grown' num' extra' (t + 1)"
    and "do_eval_symlinks_in_scope env prefix (length pre) st rpath dest (length rpath) num extra t =
      do_eval_symlinks_in_scope env prefix (length pre) st' b d (length b) num' extra' (t + 1)"
  shows "advances env pre prefix stk st grown rpath dest num extra t"
  using assms unfolding advances_def by blast

text \<open>A component that is a link: \<open>w\<close> and \<open>e\<close> are what is left of the walk and of the loop.\<close>

lemma advance_link:
  assumes k: "kernel_ok env" and pre: "take (length pre) prefix = pre"
    and inv: "walk_inv pre (stk @ [seg]) False rest grown' b d" and name: "c_string b = name" "d < PATH_MAX"
    and w: "link_walk env pre stk st grown num extra t =
      (if num < MAXSYMLINKS \<and> pe_buf env t then
         (case pe_readlink env t name of
            None \<Rightarrow> (t + 1, None)
          | Some target \<Rightarrow>
              if \<not> extra \<and> \<not> pe_extra env t \<or> length (take (PATH_MAX - 1) target) + length rest \<ge> PATH_MAX then (t + 1, None)
              else link_walk env pre (if IS_ABSOLUTE_FILE_NAME (take (PATH_MAX - 1) target) then [] else stk)
                     (take (PATH_MAX - 1) target @ rest) grown' (num + 1) True (t + 1))
       else (t + 1, None))"
    and e: "do_eval_symlinks_in_scope env prefix (length pre) st rpath dest (length rpath) num extra t =
      do { g \<leftarrow> do_get_symlinks env t prefix (length pre) b d rest num extra;
           case g of None \<Rightarrow> Some (Suc t, None)
           | Some (endp, rpath, dest, num_links, extra) \<Rightarrow>
               do_eval_symlinks_in_scope env prefix (length pre) endp rpath dest (length b) num_links extra (Suc t) }"
  shows "advances env pre prefix stk st grown rpath dest num extra t"
  using link_round [OF inv name pre k, of t num extra]
proof (elim disjE exE conjE)
  fix tg b' d' target
  assume f: "do_get_symlinks env t prefix (length pre) b d rest num extra = Some (Some (tg @ rest, b', d', num + 1, True))"
    "length b' = length b" "num < MAXSYMLINKS" "pe_buf env t" "pe_readlink env t name = Some target"
    "tg = take (PATH_MAX - 1) target" "\<not> (\<not> extra \<and> \<not> pe_extra env t \<or> length tg + length rest \<ge> PATH_MAX)"
    "walk_inv pre (if IS_ABSOLUTE_FILE_NAME tg then [] else stk) True (tg @ rest) grown' b' d'"
  have "link_walk env pre stk st grown num extra t =
      link_walk env pre (if IS_ABSOLUTE_FILE_NAME tg then [] else stk) (tg @ rest) grown' (num + 1) True (t + 1)"
    using f(3,4,7) unfolding w f(5) option.case f(6) [symmetric] by auto
  moreover have "do_eval_symlinks_in_scope env prefix (length pre) st rpath dest (length rpath) num extra t =
      do_eval_symlinks_in_scope env prefix (length pre) (tg @ rest) b' d' (length b') (num + 1) True (t + 1)"
    using e f(1,2) by simp
  ultimately show ?thesis using f(3) by (intro advancesI [OF f(8)]) auto
next
  assume f: "do_get_symlinks env t prefix (length pre) b d rest num extra = Some None"
    "num < MAXSYMLINKS \<longrightarrow> pe_buf env t \<longrightarrow> (\<forall>target. pe_readlink env t name = Some target \<longrightarrow>
      \<not> extra \<and> \<not> pe_extra env t \<or> length (take (PATH_MAX - 1) target) + length rest \<ge> PATH_MAX)"
  have "link_walk env pre stk st grown num extra t = (t + 1, None)" using w f(2) by (auto split: option.split)
  with e f(1) show ?thesis by (simp add: advances_def walk_agrees_def)
qed

lemma advance_name:
  assumes k: "kernel_ok env" and pre: "take (length pre) prefix = pre" "no_nul pre"
    and inv: "walk_inv pre stk tr st grown rpath dest" and sr: "do_eval_symlinks_skip_slash st = (seg, rest)"
    and ne: "seg \<noteq> []" "seg \<noteq> ''.''" "seg \<noteq> ''..''"
  shows "advances env pre prefix stk st grown rpath dest num extra t"
proof -
  note sh = skip_slash_shorter [OF sr ne(1)]
  then have st: "st \<noteq> []" by auto
  define name where "name = pre @ slashes (stk @ [seg])"
  define grow where "grow = (\<not> grown \<and> length name \<ge> PATH_MAX)"
  note w = link_walk.simps [of env pre stk st grown num extra t, unfolded sr prod.case, folded name_def, unfolded Let_def, folded grow_def]
    and e = do_eval_symlinks_in_scope.simps [of env prefix "length pre" st rpath dest "length rpath" num extra t, unfolded sr prod.case]
  obtain b0 d0 where b0: "add_slash rpath dest = Some (b0, d0)"
    "if grow \<and> \<not> pe_realloc env t then do_path_realloc (pe_realloc env t) (length seg) b0 d0 (length rpath) = Some None
     else \<exists>b1 b d. do_path_realloc (pe_realloc env t) (length seg) b0 d0 (length rpath) = Some (Some (b1, length b)) \<and>
       add_comp b1 d0 seg = Some (b, d) \<and> c_string b = name \<and> d = length name \<and>
       walk_inv pre (stk @ [seg]) False rest (grown \<or> grow) b d"
    using walk_push [OF inv sr ne pre(2) name_def grow_def] by blast
  show ?thesis
  proof (cases "grow \<and> \<not> pe_realloc env t")
    case True
    with w e ne st b0 show ?thesis by (simp add: dots advances_def walk_agrees_def)
  next
    case False
    then obtain b1 b d where b: "do_path_realloc (pe_realloc env t) (length seg) b0 d0 (length rpath) = Some (Some (b1, length b))"
      "add_comp b1 d0 seg = Some (b, d)" "c_string b = name" "d = length name"
      "walk_inv pre (stk @ [seg]) False rest (grown \<or> grow) b d" using b0(2) by auto
    show ?thesis
    proof (cases "pe_lstat env t name = Some True")
      case nolink: False
      then have "do_eval_symlinks_in_scope_is_symlink env t name"
        by (auto simp: do_eval_symlinks_in_scope_is_symlink_def split: option.split)
      with w e ne st b0(1) b(1-3) False nolink sh show ?thesis by (intro advancesI [OF b(5)]) (simp_all add: dots)
    next
      case lnk: True
      then have s: "\<not> do_eval_symlinks_in_scope_is_symlink env t name" and dm: "d < PATH_MAX"
        using k b(4) by (auto simp: do_eval_symlinks_in_scope_is_symlink_def kernel_ok_def not_le [symmetric])
      show ?thesis
        by (rule advance_link [OF k pre(1) b(5,3) dm]) (use w e ne st False lnk s b0(1) b(1-3) in \<open>simp_all add: dots\<close>)
    qed
  qed
qed

lemma walk_round:
  assumes "kernel_ok env" and pre: "take (length pre) prefix = pre" "no_nul pre" and inv: "walk_inv pre stk tr st grown rpath dest"
  shows "advances env pre prefix stk st grown rpath dest num extra t"
proof -
  obtain seg rest where sr: "do_eval_symlinks_skip_slash st = (seg, rest)" by fastforce
  note w = link_walk.simps [of env pre stk st grown num extra t, unfolded sr prod.case]
    and e = do_eval_symlinks_in_scope.simps [of env prefix "length pre" st rpath dest "length rpath" num extra t, unfolded sr prod.case]
  consider "seg = []" | "seg = ''.''" | "seg = ''..''" | "seg \<noteq> []" "seg \<noteq> ''.''" "seg \<noteq> ''..''" by blast
  then show ?thesis
  proof cases
    case 1
    with inv w e show ?thesis by (auto simp: advances_def walk_agrees_def walk_inv_def)
  next
    case 2
    then have ne: "seg \<noteq> []" by simp
    with 2 w e skip_slash_shorter [OF sr ne] show ?thesis by (intro advancesI [OF walk_inv_skip [OF inv sr ne]]) (auto simp: dots)
  next
    case 3
    then have ne: "seg \<noteq> []" by simp
    obtain d tr' where "skip_dest_trailing_slash rpath dest (length pre) = Some d"
      "walk_inv pre (butlast stk) tr' rest grown rpath d" using walk_inv_parent [OF inv sr ne] by blast
    with 3 w e skip_slash_shorter [OF sr ne] show ?thesis by (intro advancesI) (auto simp: dots)
  next
    case 4
    then show ?thesis by (rule advance_name [OF assms sr])
  qed
qed

lemma walk_refines:
  assumes k: "kernel_ok env" and pre: "take (length pre) prefix = pre" "no_nul pre"
    and "walk_inv pre stk tr st grown rpath dest"
  shows "walk_agrees pre (link_walk env pre stk st grown num extra t)
    (do_eval_symlinks_in_scope env prefix (length pre) st rpath dest (length rpath) num extra t)"
  using assms(4)
proof (induction "(nat (MAXSYMLINKS - num), length st)" arbitrary: stk tr st grown rpath dest num extra t
    rule: wf_induct_rule [OF wf_lex_prod [OF wf_less_than wf_less_than]])
  case (1 st num stk tr grown rpath dest extra t)
  from walk_round [OF k pre 1(2), of num extra t] show ?case unfolding advances_def
  proof (elim disjE exE conjE)
    fix stk' tr' st' grown' b d num' extra'
    assume n: "walk_inv pre stk' tr' st' grown' b d"
      "link_walk env pre stk st grown num extra t = link_walk env pre stk' st' grown' num' extra' (t + 1)"
      "do_eval_symlinks_in_scope env prefix (length pre) st rpath dest (length rpath) num extra t =
        do_eval_symlinks_in_scope env prefix (length pre) st' b d (length b) num' extra' (t + 1)"
    {
      assume "nat (MAXSYMLINKS - num') < nat (MAXSYMLINKS - num)"
      then show ?thesis using 1(1) [OF _ n(1), of num' extra' "t + 1"] n(2,3) by simp
    next
      assume "num' = num" "length st' < length st"
      then show ?thesis using 1(1) [OF _ n(1), of num' extra' "t + 1"] n(2,3) by simp
    }
  qed
qed

section \<open>Paths stay inside the root\<close>

definition follow_spec :: "path_env \<Rightarrow> string \<Rightarrow> string list \<Rightarrow> string option" where
  "follow_spec env fpath rcs =
     (let pre = slashes rcs in
      if fpath = render rcs then Some fpath
      else if strstr fpath (render rcs) = None \<or> \<not> pe_alloc env \<or> length pre \<ge> PATH_MAX - 1 then None
      else map_option (\<lambda>stk. pre @ render stk) (snd (link_walk env pre [] (drop (length pre) fpath) False 0 False 0)))"

lemma is_prefix_length: "is_prefix p s \<Longrightarrow> length p \<le> length s"
  by (induction p s rule: is_prefix.induct) auto

lemma strstr_length: "strstr s sub \<noteq> None \<Longrightarrow> length sub \<le> length s"
  by (induction s) (auto dest: is_prefix_length split: if_splits)

lemma prefix_of_root: "rcs = [] \<or> slashes rcs \<noteq> ''/''" if "\<forall>c \<in> set rcs. valid_comp c"
  using that by (cases rcs) (auto simp: valid_comp_def is_comp_def)

lemma start_buffer:
  assumes "length pre < PATH_MAX - 1"
  shows "\<exists>b. (if length pre \<noteq> 0 then buf_memcpy (replicate PATH_MAX NUL) 0 pre else Some (replicate PATH_MAX NUL))
      = Some b \<and> buf_put b (length pre) CHR ''/'' = Some (b[length pre := CHR ''/'']) \<and> length b = PATH_MAX \<and>
    path_at pre [] True (b[length pre := CHR ''/'']) (length pre + 1)"
proof -
  define b where "b = pre @ replicate (PATH_MAX - length pre) NUL"
  have "(if length pre \<noteq> 0 then buf_memcpy (replicate PATH_MAX NUL) 0 pre else Some (replicate PATH_MAX NUL)) = Some b"
    using assms by (auto simp: buf_memcpy_def b_def)
  moreover have l: "length b = PATH_MAX" "length pre < length b" using assms by (auto simp: b_def)
  moreover have "path_at pre [] True (b[length pre := CHR ''/'']) (length pre + 1)"
    using l by (simp add: path_at_def spell_def take_Suc_conv_app_nth b_def)
  ultimately show ?thesis by (auto simp: buf_put_def)
qed

lemma finish_string:
  assumes at: "path_at pre stk tr b d" and d: "d < length b" and nn: "no_nul pre" "\<forall>c \<in> set stk. no_nul c"
  shows "\<exists>e. (if d > length pre + 1 then do { c \<leftarrow> buf_prev b d; Some (if ISSLASH c then d - 1 else d) } else Some d) = Some e \<and>
    buf_put b e NUL = Some (b[e := NUL]) \<and> c_string (b[e := NUL]) = pre @ render stk"
proof -
  obtain c where c: "buf_prev b d = Some c" "ISSLASH c \<longleftrightarrow> tr" using path_at_prev [OF at] by blast
  have dd: "d = length pre + length (slashes stk) + (if tr then 1 else 0)" using path_at_dest [OF at] by (simp add: length_spell)
  show ?thesis
  proof (cases "tr \<and> stk \<noteq> []")
    case True
    then have gt: "d > length pre + 1" using dd by (cases stk) auto
    have "take (d - 1) b = take (d - 1) (take d b)" by (simp add: min_def)
    also have "\<dots> = pre @ slashes stk" using at True dd by (simp add: path_at_def spell_def)
    finally have "path_at pre stk False b (d - 1)" using at True by (auto simp: path_at_def spell_def)
    then have "c_string (b[d - 1 := NUL]) = spell pre stk False" using path_at_string [OF _ _ nn] d by auto
    with True gt c d show ?thesis by (auto simp: buf_put_def spell_def render_def)
  next
    case False
    have "c_string (b[d := NUL]) = spell pre stk tr" using path_at_string [OF at d nn] .
    moreover have "spell pre stk tr = pre @ render stk" using False at by (auto simp: spell_def render_def path_at_def)
    moreover have "\<not> (d > length pre + 1 \<and> ISSLASH c)" using False dd c(2) by auto
    ultimately show ?thesis using c d by (auto simp: buf_put_def)
  qed
qed

lemma run_from_root:
  assumes k: "kernel_ok env" and pre: "take (length pre) prefix = pre" "no_nul pre" "length pre < PATH_MAX - 1"
    and f: "no_nul fpath" "length fpath < PATH_MAX" "length pre \<le> length fpath"
    and w: "w = link_walk env pre [] (drop (length pre) fpath) False 0 False 0"
  shows "\<exists>b x. (if length pre \<noteq> 0 then buf_memcpy (replicate PATH_MAX NUL) 0 pre else Some (replicate PATH_MAX NUL)) = Some b \<and>
    buf_put b (length pre) CHR ''/'' = Some (b[length pre := CHR ''/'']) \<and>
    do_eval_symlinks_in_scope env prefix (length pre) (drop (length pre) fpath) (b[length pre := CHR ''/'']) (length pre + 1)
          PATH_MAX 0 False 0 = Some (fst w, x) \<and>
    (case snd w of
       None \<Rightarrow> x = None
     | Some stk \<Rightarrow> \<exists>b2 d tr. x = Some (b2, d) \<and> path_at pre stk tr b2 d \<and> d < length b2 \<and> (\<forall>c \<in> set stk. no_nul c))"
proof -
  obtain b where b: "(if length pre \<noteq> 0 then buf_memcpy (replicate PATH_MAX NUL) 0 pre
        else Some (replicate PATH_MAX NUL)) = Some b" "buf_put b (length pre) CHR ''/'' = Some (b[length pre := CHR ''/''])"
      "length b = PATH_MAX" "path_at pre [] True (b[length pre := CHR ''/'']) (length pre + 1)"
    using start_buffer [OF pre(3)] by blast
  have nd: "no_nul (drop (length pre) fpath)" using f(1) by (auto simp: no_nul_def dest: in_set_dropD)
  have "walk_inv pre [] True (drop (length pre) fpath) False (b[length pre := CHR ''/'']) (length pre + 1)"
    unfolding walk_inv_def using b(3,4) pre(3) f(2,3) nd PATH_MAX_pos by auto
  from walk_refines [OF k pre(1,2) this, of 0 False 0] obtain x where
    x: "do_eval_symlinks_in_scope env prefix (length pre) (drop (length pre) fpath) (b[length pre := CHR ''/'']) (length pre + 1)
        PATH_MAX 0 False 0 = Some (fst w, x)"
      "case snd w of None \<Rightarrow> x = None
       | Some stk' \<Rightarrow> \<exists>b d tr'. x = Some (b, d) \<and> path_at pre stk' tr' b d \<and> d < length b"
    unfolding walk_agrees_def w [symmetric] length_list_update b(3) by blast
  have "\<forall>c \<in> set stk. no_nul c" if "snd w = Some stk" for stk
  proof -
    have "link_walk env pre [] (drop (length pre) fpath) False 0 False 0 = (fst w, Some stk)" using that w by (metis prod.collapse)
    from walk_valid [OF k this _ nd] show ?thesis by (simp add: valid_comp_def)
  qed
  with x(2) have "case snd w of
       None \<Rightarrow> x = None
     | Some stk \<Rightarrow> \<exists>b2 d tr. x = Some (b2, d) \<and> path_at pre stk tr b2 d \<and> d < length b2 \<and> (\<forall>c \<in> set stk. no_nul c)"
    by (cases "snd w") auto
  with b(1,2) x(1) show ?thesis by blast
qed

lemma eval_symlinks_exact:
  assumes k: "kernel_ok env" and f: "no_nul fpath" "length fpath < PATH_MAX"
    and r: "\<forall>c \<in> set rcs. valid_comp c" "length (slashes rcs) < PATH_MAX"
  shows "eval_symlinks_in_scope env (Some fpath) (Some (render rcs)) = Some (follow_spec env fpath rcs)"
proof -
  define pre where "pre = slashes rcs"
  have rn: "\<forall>c \<in> set rcs. no_nul c" using r(1) by (simp add: valid_comp_def)
  have cl: "clean_path (pe_cwd env) (Some (render rcs)) = Some (Some (render rcs))"
    using clean_path_eq [OF no_nul_render [OF rn], of "pe_cwd env"] clean_spec_id [OF r] k by (simp add: kernel_ok_def)
  have pl: "(if render rcs = ''/'' then 0 else length (render rcs)) = length pre"
    using prefix_of_root [OF r(1)] by (auto simp: pre_def render_def)
  have nn: "no_nul pre" using rn by (auto simp: pre_def slashes_def no_nul_def)
  have tk: "take (length pre) (render rcs) = pre" by (simp add: render_def pre_def)
  note eq = eval_symlinks_in_scope_def [of env "Some fpath" "Some (render rcs)", unfolded option.case prod.case cl
      Option.bind.simps Let_def, unfolded pl tk]
  show ?thesis
  proof (cases "fpath = render rcs \<or> strstr fpath (render rcs) = None \<or> \<not> pe_alloc env \<or> length pre \<ge> PATH_MAX - 1")
    case True
    then show ?thesis unfolding eq by (auto simp: follow_spec_def pre_def [symmetric] Let_def)
  next
    case False
    then have lf: "length pre \<le> length fpath" using strstr_length [of fpath "render rcs"] by (auto simp: render_def pre_def split: if_splits)
    define w where "w = link_walk env pre [] (drop (length pre) fpath) False 0 False 0"
    have fs: "follow_spec env fpath rcs = map_option (\<lambda>stk. pre @ render stk) (snd w)"
      unfolding w_def using False by (auto simp: follow_spec_def pre_def Let_def)
    have lp: "length pre < PATH_MAX - 1" using False by linarith
    obtain b x where b: "(if length pre \<noteq> 0 then buf_memcpy (replicate PATH_MAX NUL) 0 pre else Some (replicate PATH_MAX NUL)) = Some b"
      "buf_put b (length pre) CHR ''/'' = Some (b[length pre := CHR ''/''])"
      "do_eval_symlinks_in_scope env (render rcs) (length pre) (drop (length pre) fpath) (b[length pre := CHR ''/'']) (length pre + 1)
          PATH_MAX 0 False 0 = Some (fst w, x)"
      and x: "case snd w of None \<Rightarrow> x = None
        | Some stk \<Rightarrow> \<exists>b2 d tr. x = Some (b2, d) \<and> path_at pre stk tr b2 d \<and> d < length b2 \<and> (\<forall>c \<in> set stk. no_nul c)"
      using run_from_root [OF k tk nn lp f lf w_def] by blast
    have c: "\<not> fpath = render rcs" "\<not> strstr fpath (render rcs) = None" "\<not> \<not> pe_alloc env" "\<not> PATH_MAX - 1 \<le> length pre"
      "\<not> length fpath < length pre" using False lf by auto
    show ?thesis
    proof (cases "snd w")
      case None
      with x show ?thesis unfolding eq b Option.bind.simps prod.case fs if_not_P [OF c(1)] if_not_P [OF c(2)] if_not_P [OF c(3)]
          if_not_P [OF c(4)] if_not_P [OF c(5)] by simp
    next
      case (Some stk)
      then obtain b2 d tr where w: "x = Some (b2, d)" "path_at pre stk tr b2 d" "d < length b2" "\<forall>c \<in> set stk. no_nul c"
        using x by auto
      from finish_string [OF w(2,3) nn w(4)] obtain e where
        e: "(if d > length pre + 1 then do { c \<leftarrow> buf_prev b2 d; Some (if ISSLASH c then d - 1 else d) } else Some d) = Some e"
          "buf_put b2 e NUL = Some (b2[e := NUL])" "c_string (b2[e := NUL]) = pre @ render stk" by blast
      show ?thesis unfolding eq b Option.bind.simps prod.case fs w(1) option.case e Some if_not_P [OF c(1)] if_not_P [OF c(2)]
          if_not_P [OF c(3)] if_not_P [OF c(4)] if_not_P [OF c(5)] by simp
    qed
  qed
qed

lemma follow_exact:
  assumes k: "kernel_ok env" and nn: "no_nul fpath" "no_nul rpath"
  shows "util_follow_symlink_in_scope env (Some fpath) (Some rpath) =
    Some (case (clean_spec (pe_cwd env) fpath, clean_spec (pe_cwd env) rpath) of
        (Some fcs, Some rcs) \<Rightarrow> follow_spec env (render fcs) rcs
      | _ \<Rightarrow> None)"
proof -
  have c: "cwd_ok (pe_cwd env)" using k by (simp add: kernel_ok_def)
  show ?thesis
  proof (cases "clean_spec (pe_cwd env) fpath = None \<or> clean_spec (pe_cwd env) rpath = None")
    case True
    with clean_path_eq [OF nn(1) c] clean_path_eq [OF nn(2) c] show ?thesis
      by (auto simp: util_follow_symlink_in_scope_def split: option.splits)
  next
    case False
    then obtain fcs rcs where fr: "clean_spec (pe_cwd env) fpath = Some fcs" "clean_spec (pe_cwd env) rpath = Some rcs" by auto
    note f = clean_spec_valid [OF fr(1) nn(1) c] and r = clean_spec_valid [OF fr(2) nn(2) c]
    have "no_nul (render fcs)" "length (render fcs) < PATH_MAX"
      using f PATH_MAX_pos no_nul_render [of fcs] by (auto simp: valid_comp_def render_def)
    from eval_symlinks_exact [OF k this r] clean_path_eq [OF nn(1) c] clean_path_eq [OF nn(2) c] fr show ?thesis
      by (simp add: util_follow_symlink_in_scope_def)
  qed
qed

lemma follow_spec_scope:
  assumes "kernel_ok env" and "follow_spec env fpath rcs = Some p" and "no_nul fpath"
  shows "p = render rcs \<or> (\<exists>cs. p = slashes rcs @ render cs \<and> list_all valid_comp cs)"
proof (cases "fpath = render rcs")
  case False
  then obtain stk where w: "snd (link_walk env (slashes rcs) [] (drop (length (slashes rcs)) fpath) False 0 False 0) = Some stk"
    "p = slashes rcs @ render stk"
    using assms(2) by (auto simp: follow_spec_def Let_def split: if_splits)
  have "no_nul (drop (length (slashes rcs)) fpath)" using assms(3) by (auto simp: no_nul_def dest: in_set_dropD)
  then have "\<forall>c \<in> set stk. valid_comp c"
    using walk_valid [OF assms(1), of "slashes rcs" "[]" "drop (length (slashes rcs)) fpath" False 0 False 0 _ stk] w(1)
    by (metis prod.collapse empty_iff empty_set)
  with w(2) show ?thesis by (auto simp: list_all_iff)
qed (use assms(2) in \<open>simp add: follow_spec_def Let_def\<close>)

text \<open>A path inside a root: the cleaned root, or the root followed by components none of which leaves it.\<close>

definition inside_root :: "path_env \<Rightarrow> string \<Rightarrow> string \<Rightarrow> bool" where
  "inside_root env rdir p \<longleftrightarrow>
     (\<exists>rcs. clean_spec (pe_cwd env) rdir = Some rcs \<and> list_all valid_comp rcs \<and>
       (p = render rcs \<or> (\<exists>cs. p = slashes rcs @ render cs \<and> list_all valid_comp cs)))"

lemma follow_inside_root:
  assumes "kernel_ok env" and "no_nul fpath" and "no_nul rdir"
  shows "\<exists>r. util_follow_symlink_in_scope env (Some fpath) (Some rdir) = Some r \<and>
    (\<forall>p. r = Some p \<longrightarrow> inside_root env rdir p)"
proof -
  have c: "cwd_ok (pe_cwd env)" using assms(1) by (simp add: kernel_ok_def)
  have "inside_root env rdir p"
    if p: "(case (clean_spec (pe_cwd env) fpath, clean_spec (pe_cwd env) rdir) of
        (Some fcs, Some rcs) \<Rightarrow> follow_spec env (render fcs) rcs | _ \<Rightarrow> None) = Some p" for p
  proof -
    obtain fcs rcs where fr: "clean_spec (pe_cwd env) fpath = Some fcs" "clean_spec (pe_cwd env) rdir = Some rcs"
      "follow_spec env (render fcs) rcs = Some p" using p by (auto split: option.splits)
    have "no_nul (render fcs)"
      using clean_spec_valid(1) [OF fr(1) assms(2) c] by (intro no_nul_render) (simp add: valid_comp_def)
    from follow_spec_scope [OF assms(1) fr(3) this] fr(2) clean_spec_valid(1) [OF fr(2) assms(3) c]
    show ?thesis by (simp add: inside_root_def list_all_iff)
  qed
  with follow_exact [OF assms] show ?thesis by blast
qed

text \<open>
  C11. Cleaning a path (\<^verbatim>\<open>util_clean_path\<close>) always returns, stays inside the caller's buffer and leaves there
  the path that the stack machine on components computes; it answers NULL exactly when the stack machine
  refuses the path. The cleaned path has no empty component, no \<^verbatim>\<open>.\<close> and no \<^verbatim>\<open>..\<close>, is shorter than \<open>PATH_MAX\<close>,
  and cleaning it again does not change it.
\<close>

theorem clean_path_exact:
  assumes "no_nul p" and "cwd_ok cwd" and "PATH_MAX \<le> len" and "len \<le> length buf"
  shows "\<exists>r. util_clean_path cwd (Some p) (Some buf) len = Some r \<and>
      map_option c_string r = map_option render (clean_spec cwd p) \<and>
      (\<forall>cs. clean_spec cwd p = Some cs \<longrightarrow> list_all valid_comp cs \<and> length (render cs) < PATH_MAX \<and>
        clean_path cwd (Some (render cs)) = Some (Some (render cs)))"
proof -
  obtain r where r: "util_clean_path cwd (Some p) (Some buf) len = Some r"
    "map_option c_string r = map_option render (clean_spec cwd p)" using util_clean_path_exact [OF assms] by blast
  have "list_all valid_comp cs \<and> length (render cs) < PATH_MAX \<and> clean_path cwd (Some (render cs)) = Some (Some (render cs))"
    if s: "clean_spec cwd p = Some cs" for cs
  proof -
    note v = clean_spec_valid [OF s assms(1,2)]
    have "no_nul (render cs)" using v(1) by (intro no_nul_render) (simp add: valid_comp_def)
    then show ?thesis using v PATH_MAX_pos clean_path_eq [OF _ assms(2)] clean_spec_id [OF v]
      by (auto simp: list_all_iff render_def)
  qed
  with r show ?thesis by blast
qed

lemma clean_demo: "clean_spec (Some ''/w'') ''/a/./b/../c//d/'' = Some [''a'', ''c'', ''d'']"
  "clean_spec (Some ''/w'') ''../../x'' = Some [''x'']"
  by code_simp+

theorem clean_path_exact_witness:
  "\<exists>r r'. util_clean_path (Some ''/w'') (Some ''/a/./b/../c//d/'') (Some (replicate PATH_MAX NUL)) PATH_MAX = Some r \<and>
    map_option c_string r = Some ''/a/c/d'' \<and>
    util_clean_path (Some ''/w'') (Some ''../../x'') (Some (replicate PATH_MAX NUL)) PATH_MAX = Some r' \<and>
    map_option c_string r' = Some ''/x''"
proof -
  have "cwd_ok (Some ''/w'')" by code_simp
  then show ?thesis
    using clean_path_exact [of "''/a/./b/../c//d/''" "Some ''/w''" PATH_MAX "replicate PATH_MAX NUL"]
      clean_path_exact [of "''../../x''" "Some ''/w''" PATH_MAX "replicate PATH_MAX NUL"]
    by (auto simp: no_nul_def clean_demo render_def)
qed

text \<open>
  C2. Resolving a path below a root (\<^verbatim>\<open>util_follow_symlink_in_scope\<close>) never leaves the root: for every file
  system, even one that changes during the call, the function returns without an access outside its
  buffers, and a path it returns is the cleaned root or that root followed by components none of which is
  \<^verbatim>\<open>..\<close>. Symbolic links met on the way, absolute or with leading \<^verbatim>\<open>..\<close>, are resolved against the root.
\<close>

theorem symlinks_stay_in_scope:
  assumes "kernel_ok env" and "no_nul fpath" and "no_nul rdir"
  shows "\<exists>r. util_follow_symlink_in_scope env (Some fpath) (Some rdir) = Some r \<and>
    (\<forall>p. r = Some p \<longrightarrow> inside_root env rdir p)"
  by (rule follow_inside_root [OF assms])

definition demo_fs :: path_env where
  "demo_fs = \<lparr> pe_cwd = None,
     pe_lstat = (\<lambda>_ p. if p = ''/r/up'' \<or> p = ''/r/abs'' \<or> p = ''/r/loop'' then Some True else None),
     pe_readlink = (\<lambda>_ p. if p = ''/r/up'' then Some ''../../etc'' else if p = ''/r/abs'' then Some ''/etc''
       else if p = ''/r/loop'' then Some ''loop/x'' else None),
     pe_realloc = (\<lambda>_. True), pe_buf = (\<lambda>_. True), pe_extra = (\<lambda>_. True), pe_alloc = True \<rparr>"

lemma demo_fs_ok: "kernel_ok demo_fs"
  by (auto simp: kernel_ok_def demo_fs_def cwd_ok_def no_nul_def PATH_MAX_def split: if_splits)

lemmas walk_eval = follow_spec_def link_walk.simps do_eval_symlinks_skip_slash_def ISSLASH_def PATH_MAX_def MAXSYMLINKS_def
  demo_fs_def IS_ABSOLUTE_FILE_NAME_def render_def Let_def

lemma demo_follow:
  "follow_spec demo_fs ''/r/up/shadow'' [''r''] = Some ''/r/etc/shadow''"
  "follow_spec demo_fs ''/r/abs/shadow'' [''r''] = Some ''/r/etc/shadow''"
  "follow_spec demo_fs ''/r/loop'' [''r''] = None"
  by (simp_all add: walk_eval)

theorem symlinks_stay_in_scope_witness:
  "(\<exists>r. util_follow_symlink_in_scope demo_fs (Some ''/r/up/shadow'') (Some ''/r'') = Some r \<and>
     (\<forall>p. r = Some p \<longrightarrow> inside_root demo_fs ''/r'' p)) \<and>
   util_follow_symlink_in_scope demo_fs (Some ''/r/up/shadow'') (Some ''/r'') = Some (Some ''/r/etc/shadow'')"
proof -
  have c: "clean_spec (pe_cwd demo_fs) ''/r'' = Some [''r'']" "clean_spec (pe_cwd demo_fs) ''/r/up/shadow'' = Some [''r'', ''up'', ''shadow'']"
    by code_simp+
  have n: "no_nul ''/r/up/shadow''" "no_nul ''/r''" by code_simp+
  show ?thesis
    using symlinks_stay_in_scope [OF demo_fs_ok n] follow_exact [OF demo_fs_ok n] c demo_follow(1)
    by (auto simp: render_def)
qed

text \<open>
  C12. The resolution loop ends on every file system, even one with cyclic links: started on a path of
  less than \<open>PATH_MAX\<close> characters it returns after at most \<open>(MAXSYMLINKS + 1) * PATH_MAX\<close> rounds.
\<close>

theorem symlink_loop_ends:
  assumes "kernel_ok env" and "no_nul pre" and "no_nul st" and "length pre < PATH_MAX - 1"
    and "length pre + length st < PATH_MAX"
  shows "\<exists>t r. do_eval_symlinks_in_scope env pre (length pre) st (pre @ ''/'' @ replicate (PATH_MAX - 1 - length pre) NUL)
      (length pre + 1) PATH_MAX 0 False 0 = Some (t, r) \<and> t \<le> (nat MAXSYMLINKS + 1) * PATH_MAX"
proof -
  define b where "b = pre @ ''/'' @ replicate (PATH_MAX - 1 - length pre) NUL"
  have b: "length b = PATH_MAX" "path_at pre [] True b (length pre + 1)"
    using assms(4) by (auto simp: b_def path_at_def spell_def)
  then have "walk_inv pre [] True st False b (length pre + 1)"
    using assms(3-5) PATH_MAX_pos by (auto simp: walk_inv_def)
  from walk_refines [OF assms(1) _ assms(2) this, of pre 0 False 0] b(1)
  obtain r where "do_eval_symlinks_in_scope env pre (length pre) st b (length pre + 1) PATH_MAX 0 False 0 =
      Some (fst (link_walk env pre [] st False 0 False 0), r)" by (auto simp: walk_agrees_def)
  moreover have "fst (link_walk env pre [] st False 0 False 0) \<le> (nat MAXSYMLINKS + 1) * PATH_MAX"
    using walk_rounds [of env pre "[]" st False 0 False 0] assms(5) by simp
  ultimately show ?thesis unfolding b_def [symmetric] by blast
qed

theorem symlink_loop_ends_witness:
  "\<exists>t r. do_eval_symlinks_in_scope demo_fs ''/r'' (length ''/r'') ''/loop'' (''/r'' @ ''/'' @ replicate (PATH_MAX - 1 - length ''/r'') NUL)
      (length ''/r'' + 1) PATH_MAX 0 False 0 = Some (t, r) \<and> t \<le> (nat MAXSYMLINKS + 1) * PATH_MAX"
  by (rule symlink_loop_ends [OF demo_fs_ok]) (simp_all add: no_nul_def PATH_MAX_def)

section \<open>Resolving a path for a copy\<close>

lemma last_slash_split:
  "i \<le> length s \<Longrightarrow> (case last_slash s i of
     None \<Rightarrow> CHR ''/'' \<notin> set (take i s)
   | Some j \<Rightarrow> j < i \<and> s ! j = CHR ''/'' \<and> CHR ''/'' \<notin> set (drop (Suc j) (take i s)))"
proof (induction i)
  case (Suc i)
  then have "take (Suc i) s = take i s @ [s ! i]" by (simp add: take_Suc_conv_app_nth)
  with Suc show ?case by (auto simp: drop_Suc split: option.splits)
qed simp

text \<open>The part after the last slash is empty, a dot or a valid component.\<close>

definition good_end :: "string \<Rightarrow> bool" where
  "good_end a \<longleftrightarrow> (\<exists>u v. a = u @ CHR ''/'' # v \<and> CHR ''/'' \<notin> set v \<and> (v = [] \<or> v = ''.'' \<or> valid_comp v))"

lemma filepath_split_at:
  assumes "CHR ''/'' \<notin> set v"
  shows "util_filepath_split (Some (u @ CHR ''/'' # v)) = (0, Some (u @ ''/'', v))"
proof -
  let ?s = "u @ CHR ''/'' # v"
  have "last_slash ?s (length ?s) = Some (length u)"
  proof (cases "last_slash ?s (length ?s)")
    case None
    with last_slash_split [of "length ?s" ?s] show ?thesis by simp
  next
    case (Some j)
    with last_slash_split [of "length ?s" ?s]
    have j: "j < length ?s" "?s ! j = CHR ''/''" "CHR ''/'' \<notin> set (drop (Suc j) ?s)" by simp_all
    have "\<not> j > length u"
    proof
      assume "j > length u"
      then have "?s ! j = v ! (j - Suc (length u))" "j - Suc (length u) < length v"
        using j(1) by (auto simp: nth_append nth_Cons')
      then have "?s ! j \<in> set v" by simp
      with j(2) assms show False by simp
    qed
    moreover have "\<not> j < length u" using j(3) by auto
    ultimately show ?thesis using Some by simp
  qed
  then show ?thesis by (simp add: util_filepath_split_def)
qed

lemma good_end_slash: "good_end (x @ ''/'')" "good_end (x @ ''/.'')"
  unfolding good_end_def by (rule exI [of _ x], rule exI [of _ "[]"], simp)
    (rule exI [of _ x], rule exI [of _ "''.''"], simp)

lemma good_end_render:
  assumes "\<forall>c \<in> set cs. valid_comp c"
  shows "good_end (render cs)"
proof (cases cs rule: rev_cases)
  case Nil
  then show ?thesis using good_end_slash(1) [of "[]"] by (simp add: render_def)
next
  case (snoc xs c)
  then have "render cs = slashes xs @ CHR ''/'' # c" "valid_comp c" "CHR ''/'' \<notin> set c"
    using assms by (auto simp: render_def valid_comp_def is_comp_def)
  then show ?thesis unfolding good_end_def by blast
qed

lemma trailing_separator: "util_has_trailing_path_separator (Some s) \<longleftrightarrow> (\<exists>w. s = w @ ''/'')"
  by (cases s rule: rev_cases) (auto simp: util_has_trailing_path_separator_def nth_append)

lemma put_end_ok: "length s + 1 < cap \<Longrightarrow> put_end cap s c = Some (s @ [c])"
  by (simp add: put_end_def)

lemma preserve_good:
  assumes "\<forall>c \<in> set cs. valid_comp c" and "length (render cs) < PATH_MAX" and "op \<noteq> []"
  shows "\<exists>a. util_preserve_trailing_dot_or_separator (Some (render cs)) (Some op) = Some (Some a) \<and> good_end a \<and> no_nul a"
proof -
  let ?dot = "\<not> util_specify_current_dir (Some (render cs)) \<and> util_specify_current_dir (Some op)"
  define r where "r = (if ?dot then (if \<not> util_has_trailing_path_separator (Some (render cs)) then render cs @ ''/'' else render cs) @ ''.''
    else render cs)"
  have nn: "no_nul (render cs)" using assms(1) by (intro no_nul_render) (simp add: valid_comp_def)
  have r: "good_end r" "no_nul r" "length r \<le> length (render cs) + 2"
  proof -
    show "good_end r"
      using good_end_render [OF assms(1)] good_end_slash(2)
      by (auto simp: r_def trailing_separator append_assoc [symmetric] simp del: append_assoc) (metis append.assoc append_Cons append_Nil good_end_slash(2))+
    show "no_nul r" "length r \<le> length (render cs) + 2" using nn by (auto simp: r_def no_nul_def)
  qed
  define a where "a = (if \<not> util_has_trailing_path_separator (Some r) \<and> util_has_trailing_path_separator (Some op) then r @ ''/'' else r)"
  have "util_preserve_trailing_dot_or_separator (Some (render cs)) (Some op) = Some (Some a)"
    using assms(2,3) r(3)
    by (auto simp: util_preserve_trailing_dot_or_separator_def snprintf_fits_def put_end_ok r_def a_def)
  moreover have "good_end a" "no_nul a" using r good_end_slash(1) by (auto simp: a_def no_nul_def)
  ultimately show ?thesis by blast
qed

lemma resource_inside_root:
  assumes "kernel_ok env" and "no_nul rdir" and "no_nul p"
  shows "\<exists>r. util_get_resource_path env (Some rdir) p = Some r \<and> (\<forall>q. r = Some q \<longrightarrow> inside_root env rdir q)"
proof (cases "length (''/'' @ rdir @ ''/'' @ p) \<ge> PATH_MAX")
  case True
  then show ?thesis by (simp add: util_get_resource_path_def snprintf_fits_def)
next
  case False
  let ?t = "''/'' @ rdir @ ''/'' @ p"
  have t: "no_nul ?t" "cwd_ok (pe_cwd env)" using assms by (auto simp: no_nul_def kernel_ok_def)
  note c = clean_path_eq [OF t]
  show ?thesis
  proof (cases "clean_spec (pe_cwd env) ?t")
    case None
    with c False show ?thesis by (simp add: util_get_resource_path_def snprintf_fits_def)
  next
    case (Some cs)
    have "no_nul (render cs)"
      using clean_spec_valid(1) [OF Some t] by (intro no_nul_render) (simp add: valid_comp_def)
    with follow_inside_root [OF assms(1) _ assms(2)] c Some False show ?thesis
      by (simp add: util_get_resource_path_def snprintf_fits_def)
  qed
qed

text \<open>
  C28. \<^verbatim>\<open>util_resolve_path\<close>, which \<^verbatim>\<open>isula cp\<close> applies to a path named by its user, returns on every file system.
  When it returns 0 the resolved path is a path inside the root, a slash and a last part that is empty, a
  dot or a valid component: the last part, which is not resolved, cannot be \<^verbatim>\<open>..\<close>.
\<close>

theorem resolve_path_in_scope:
  assumes "kernel_ok env" and "no_nul rdir" and "no_nul p"
  shows "\<exists>ret r. util_resolve_path env alloc (Some rdir) p = Some (ret, r) \<and> (ret = 0 \<longleftrightarrow> r \<noteq> None) \<and>
    (\<forall>resolved absp. r = Some (resolved, absp) \<longrightarrow>
       (\<exists>d base. resolved = d @ ''/'' @ base \<and> inside_root env rdir d \<and> (base = [] \<or> base = ''.'' \<or> valid_comp base)))"
proof (cases "length (''/'' @ p) \<ge> PATH_MAX \<or> clean_spec (pe_cwd env) (''/'' @ p) = None")
  case True
  have t: "no_nul (''/'' @ p)" "cwd_ok (pe_cwd env)" using assms by (auto simp: no_nul_def kernel_ok_def)
  from True clean_path_eq [OF t] show ?thesis by (auto simp: util_resolve_path_def snprintf_fits_def)
next
  case False
  then obtain cs where cs: "clean_spec (pe_cwd env) (''/'' @ p) = Some cs" by auto
  have t: "no_nul (''/'' @ p)" "cwd_ok (pe_cwd env)" using assms by (auto simp: no_nul_def kernel_ok_def)
  note v = clean_spec_valid [OF cs t]
  have "length (render cs) < PATH_MAX" using v(2) PATH_MAX_pos by (simp add: render_def)
  then obtain a where a: "util_preserve_trailing_dot_or_separator (Some (render cs)) (Some (''/'' @ p)) = Some (Some a)"
    "good_end a" "no_nul a" using preserve_good [OF v(1)] by blast
  then obtain u b where b: "a = u @ CHR ''/'' # b" "CHR ''/'' \<notin> set b" "b = [] \<or> b = ''.'' \<or> valid_comp b"
    by (auto simp: good_end_def)
  have sp: "util_filepath_split (Some a) = (0, Some (u @ ''/'', b))" using filepath_split_at [OF b(2)] b(1) by simp
  have "no_nul (u @ ''/'')" using a(3) b(1) by (auto simp: no_nul_def)
  then obtain r where r: "util_get_resource_path env (Some rdir) (u @ ''/'') = Some r" "\<forall>q. r = Some q \<longrightarrow> inside_root env rdir q"
    using resource_inside_root [OF assms(1,2)] by blast
  have e: "util_resolve_path env alloc (Some rdir) p =
    (case r of None \<Rightarrow> Some (-1, None)
     | Some d \<Rightarrow> if length d + 1 + length b + 1 > MAX_MEMORY_SIZE \<or> \<not> alloc then Some (-1, None)
                else Some (0, Some (d @ ''/'' @ b, a)))"
    using False cs clean_path_eq [OF t] a(1) sp r(1)
    by (auto simp: util_resolve_path_def snprintf_fits_def Let_def split: option.split)
  show ?thesis
  proof (cases r)
    case (Some d)
    with e r(2) b(3) show ?thesis by auto
  qed (use e in simp)
qed

theorem resolve_path_in_scope_witness:
  "\<exists>ret r. util_resolve_path demo_fs True (Some ''/r'') ''up/../../x/.'' = Some (ret, r) \<and> (ret = 0 \<longleftrightarrow> r \<noteq> None) \<and>
    (\<forall>resolved absp. r = Some (resolved, absp) \<longrightarrow>
       (\<exists>d base. resolved = d @ ''/'' @ base \<and> inside_root demo_fs ''/r'' d \<and> (base = [] \<or> base = ''.'' \<or> valid_comp base)))"
  by (rule resolve_path_in_scope [OF demo_fs_ok]) (simp_all add: no_nul_def)

section \<open>Following only the last component is not a scope check\<close>

text \<open>
  C24. \<^verbatim>\<open>util_realpath_in_scope\<close> compares names only. When the last component is not a link the cleaned name
  is returned, whatever the directories on the way are, links that lead out of the root included. When it is
  a link with an absolute target, the target is returned as it stands as soon as its text begins with the
  root, even when it goes on with \<^verbatim>\<open>/../\<close> or with the rest of another directory's name.
\<close>

theorem realpath_scope_is_textual:
  assumes "cwd_ok (pe_cwd env)" and "no_nul rdir" and "no_nul p" and "length (rdir @ p) < PATH_MAX"
    and "clean_spec (pe_cwd env) (rdir @ p) = Some cs"
  shows "(pe_lstat env 0 (render cs) \<noteq> Some True \<longrightarrow> is_prefix rdir (render cs) \<longrightarrow>
      util_realpath_in_scope env (Some rdir) (Some p) = Some (0, Some (render cs))) \<and>
    (\<forall>target. pe_lstat env 0 (render cs) = Some True \<longrightarrow> pe_readlink env 0 (render cs) = Some target \<longrightarrow>
      IS_ABSOLUTE_FILE_NAME target \<longrightarrow> length target < PATH_MAX \<longrightarrow> is_prefix rdir target \<longrightarrow>
      pe_lstat env 1 target \<noteq> Some True \<longrightarrow>
      util_realpath_in_scope env (Some rdir) (Some p) = Some (0, Some target))"
proof -
  have "no_nul (rdir @ p)" using assms(2,3) by (auto simp: no_nul_def)
  then have c: "clean_path (pe_cwd env) (Some (rdir @ p)) = Some (Some (render cs))"
    using clean_path_eq [OF _ assms(1)] assms(5) by simp
  have r: "util_realpath_in_scope env (Some rdir) (Some p) =
      (case find_realpath env (render cs) of None \<Rightarrow> None | Some None \<Rightarrow> Some (-1, None)
       | Some (Some t) \<Rightarrow> if \<not> is_prefix rdir t then Some (-1, None) else Some (0, Some t))"
    using assms(4) c by (auto simp: util_realpath_in_scope_def snprintf_fits_def split: option.split)
  have stop: "find_realpath_loop env i x = Some (Some x)" if "pe_lstat env i x \<noteq> Some True" "i \<le> 10" for i x
    using that by (subst find_realpath_loop.simps) simp
  have follow: "find_realpath_loop env 0 (render cs) = find_realpath_loop env 1 target"
    if "pe_lstat env 0 (render cs) = Some True" "pe_readlink env 0 (render cs) = Some target"
      "IS_ABSOLUTE_FILE_NAME target" "length target < PATH_MAX" for target
    using that by (subst find_realpath_loop.simps) (auto simp: IS_ABSOLUTE_FILE_NAME_def ISSLASH_def Let_def)
  show ?thesis using stop [of 0 "render cs"] stop [of 1] follow r by (auto simp: find_realpath_def)
qed

definition trap_fs :: path_env where
  "trap_fs = demo_fs\<lparr>pe_lstat := (\<lambda>_ p. if p = ''/r/etc'' \<or> p = ''/r/l'' then Some True else Some False),
     pe_readlink := (\<lambda>_ p. if p = ''/r/etc'' then Some ''/etc'' else if p = ''/r/l'' then Some ''/r/../etc/shadow'' else None)\<rparr>"

theorem realpath_scope_is_textual_witness:
  "util_realpath_in_scope trap_fs (Some ''/r'') (Some ''/etc/shadow'') = Some (0, Some ''/r/etc/shadow'') \<and>
   util_realpath_in_scope trap_fs (Some ''/r'') (Some ''/l'') = Some (0, Some ''/r/../etc/shadow'')"
proof -
  have c: "clean_spec None ''/r/etc/shadow'' = Some [''r'', ''etc'', ''shadow'']" "clean_spec None ''/r/l'' = Some [''r'', ''l'']"
    by code_simp+
  have "util_realpath_in_scope trap_fs (Some ''/r'') (Some ''/etc/shadow'') = Some (0, Some ''/r/etc/shadow'')"
    using realpath_scope_is_textual [of trap_fs "''/r''" "''/etc/shadow''" "[''r'', ''etc'', ''shadow'']"] c(1)
    by (simp add: trap_fs_def demo_fs_def cwd_ok_def no_nul_def PATH_MAX_def render_def)
  moreover have "util_realpath_in_scope trap_fs (Some ''/r'') (Some ''/l'') = Some (0, Some ''/r/../etc/shadow'')"
    using realpath_scope_is_textual [of trap_fs "''/r''" "''/l''" "[''r'', ''l'']"] c(2)
    by (simp add: trap_fs_def demo_fs_def cwd_ok_def no_nul_def PATH_MAX_def render_def IS_ABSOLUTE_FILE_NAME_def ISSLASH_def)
  ultimately show ?thesis by blast
qed

text \<open>
  \<^verbatim>\<open>eval_symlinks_in_scope\<close> asks whether the root occurs anywhere in the path: a path outside the root that
  has the root in the middle is accepted, and its tail is read as a path below the root.
\<close>

lemma foreign_path_accepted:
  "util_follow_symlink_in_scope demo_fs (Some ''/x/r/secret'') (Some ''/r'') = Some (Some ''/r/r/secret'')"
proof -
  have n: "no_nul ''/x/r/secret''" "no_nul ''/r''" by code_simp+
  have c: "clean_spec (pe_cwd demo_fs) ''/r'' = Some [''r'']" "clean_spec (pe_cwd demo_fs) ''/x/r/secret'' = Some [''x'', ''r'', ''secret'']"
    by code_simp+
  have "follow_spec demo_fs ''/x/r/secret'' [''r''] = Some ''/r/r/secret''" by (simp add: walk_eval)
  with follow_exact [OF demo_fs_ok n] c show ?thesis by (simp add: render_def)
qed

end
