(* ===== verification/Volume_Local.thy ===== *)
theory Volume_Local
  imports Path_Scope Utils_Verify
begin

text \<open>
  The local volume driver, \<^verbatim>\<open>src/daemon/modules/volume/local.c\<close>: a map from volume names to volumes behind one
  mutex, and a directory \<^verbatim>\<open><root>/<name>/_data\<close> for each. \<open>None\<close> is a call that blocks for ever on the mutex or
  leaves a buffer. What the allocator, the map and the file system answer is the \<open>local_env\<close> of the call;
  \<open>vi_disk\<close> lists the data directories that exist.
\<close>

section \<open>State\<close>

record volume =
  v_driver :: "string option"
  v_name :: string
  v_path :: string
  v_mount_point :: "string option"

record volumes_info =
  vi_root :: string
  vi_locked :: bool
  vols_by_name :: "volume smap"
  vi_disk :: "string list"

record local_env =
  le_dup :: "nat \<Rightarrow> bool"
  le_calloc :: bool
  le_array :: bool
  le_itor :: bool
  le_mkdir :: int
  le_conv :: bool
  le_node :: bool
  le_rm_data :: int
  le_rm_dir :: int

definition LOCAL_VOLUME_DRIVER_NAME :: string where
  "LOCAL_VOLUME_DRIVER_NAME = ''local''"

definition LOCAL_VOLUME_ROOT_DIR_NAME :: string where
  "LOCAL_VOLUME_ROOT_DIR_NAME = ''volumes''"

definition LOCAL_VOLUME_DATA_DIR_NAME :: string where
  "LOCAL_VOLUME_DATA_DIR_NAME = ''_data''"

definition VOLUME_ERR_NOT_EXIST :: int where
  "VOLUME_ERR_NOT_EXIST = -2"

section \<open>Looking up\<close>

definition dup_volume :: "bool \<Rightarrow> string \<Rightarrow> string \<Rightarrow> volume option" where
  "dup_volume ok name p =
     (if \<not> ok then None
      else Some \<lparr>v_driver = Some LOCAL_VOLUME_DRIVER_NAME, v_name = name, v_path = p, v_mount_point = Some p\<rparr>)"

definition local_volume_get :: "local_env \<Rightarrow> string \<Rightarrow> volumes_info \<Rightarrow> (volume option \<times> volumes_info) option" where
  "local_volume_get e name g =
     (if \<not> util_valid_volume_name (Some name) then Some (None, g)
      else if vi_locked g then None
      else (case smap_search (vols_by_name g) name of
              None \<Rightarrow> Some (None, g)
            | Some v \<Rightarrow> Some (dup_volume (le_dup e 0) (v_name v) (v_path v), g)))"

section \<open>Creating\<close>

definition create_volume_meminfo :: "local_env \<Rightarrow> string \<Rightarrow> volumes_info \<Rightarrow> int \<times> volume option" where
  "create_volume_meminfo e name g =
     (if \<not> le_calloc e then (-1, None)
      else case snprintf_fits PATH_MAX (vi_root g @ ''/'' @ name @ ''/'' @ LOCAL_VOLUME_DATA_DIR_NAME) of
        None \<Rightarrow> (-1, None)
      | Some p \<Rightarrow> (0, Some \<lparr>v_driver = None, v_name = name, v_path = p, v_mount_point = None\<rparr>))"

text \<open>The result points into the map, or is NULL.\<close>

definition volume_create_nolock :: "local_env \<Rightarrow> string \<Rightarrow> volumes_info \<Rightarrow> volume option \<times> volumes_info" where
  "volume_create_nolock e name g =
     (case smap_search (vols_by_name g) name of
        Some v \<Rightarrow> (Some v, g)
      | None \<Rightarrow> (case create_volume_meminfo e name g of
            (ret, None) \<Rightarrow> (None, g)
          | (ret, Some v) \<Rightarrow>
              if le_mkdir e \<noteq> 0 then (None, g\<lparr>vi_disk := removeAll (v_path v) (vi_disk g)\<rparr>)
              else (let g1 = g\<lparr>vi_disk := List.insert (v_path v) (vi_disk g)\<rparr>;
                        (ok, m) = smap_insert (le_conv e) (le_node e) (vols_by_name g1) (v_name v) v
                    in if \<not> ok then (None, g1\<lparr>vi_disk := removeAll (v_path v) (vi_disk g1)\<rparr>)
                       else (Some v, g1\<lparr>vols_by_name := m\<rparr>))))"

definition local_volume_create :: "local_env \<Rightarrow> string \<Rightarrow> volumes_info \<Rightarrow> (volume option \<times> volumes_info) option" where
  "local_volume_create e name g =
     (if \<not> util_valid_volume_name (Some name) then Some (None, g)
      else if vi_locked g then None
      else (case volume_create_nolock e name g of
              (None, g1) \<Rightarrow> Some (None, g1)
            | (Some v, g1) \<Rightarrow> Some (dup_volume (le_dup e 0) (v_name v) (v_path v), g1)))"

definition local_volume_mount :: "string \<Rightarrow> int" where
  "local_volume_mount name = 0"

definition local_volume_umount :: "string \<Rightarrow> int" where
  "local_volume_umount name = 0"

section \<open>Listing\<close>

definition new_empty_volumes :: "local_env \<Rightarrow> nat \<Rightarrow> volume block option" where
  "new_empty_volumes e n =
     (if \<not> le_calloc e then None
      else if n = 0 then Some []
      else if \<not> le_array e \<or> n > MAX_MEMORY_SIZE div sizeof_ptr then None
      else Some (replicate n None))"

text \<open>The copies written to the array; the inner \<open>None\<close> is a failed copy, the outer a write past the end.\<close>

fun list_volumes_loop :: "(nat \<Rightarrow> bool) \<Rightarrow> nat \<Rightarrow> volume list \<Rightarrow> volume block \<Rightarrow> volume block option option" where
  "list_volumes_loop dup i [] arr = Some (Some arr)"
| "list_volumes_loop dup i (v # vs) arr =
     (case dup_volume (dup i) (v_name v) (v_path v) of
        None \<Rightarrow> Some None
      | Some d \<Rightarrow> do { arr \<leftarrow> write_cell arr i (Some d); list_volumes_loop dup (i + 1) vs arr })"

text \<open>When the result array cannot be allocated the function returns with the mutex held.\<close>

definition local_volume_list :: "local_env \<Rightarrow> volumes_info \<Rightarrow> (volume list option \<times> volumes_info) option" where
  "local_volume_list e g =
     (if vi_locked g then None
      else (case new_empty_volumes e (length (vols_by_name g)) of
              None \<Rightarrow> Some (None, g\<lparr>vi_locked := True\<rparr>)
            | Some arr \<Rightarrow>
                if \<not> le_itor e then Some (None, g)
                else do {
                  r \<leftarrow> list_volumes_loop (le_dup e) 0 (map snd (vols_by_name g)) arr;
                  Some (map_option (\<lambda>a. List.map_filter (\<lambda>x. x) a) r, g)
                }))"

section \<open>Removing\<close>

fun path_dir_loop :: "string \<Rightarrow> nat \<Rightarrow> string" where
  "path_dir_loop d 0 = (if d ! 0 = CHR ''/'' then ''/'' else d)"
| "path_dir_loop d (Suc i) = (if d ! Suc i = CHR ''/'' then take (Suc i) d else path_dir_loop d i)"

definition util_path_dir :: "string \<Rightarrow> string" where
  "util_path_dir p = (if length p = 0 then ''.'' else path_dir_loop p (length p - 1))"

definition remove_volume_dir :: "local_env \<Rightarrow> string \<Rightarrow> volumes_info \<Rightarrow> int \<times> volumes_info" where
  "remove_volume_dir e p g =
     (let vol_dir = util_path_dir p in
      if \<not> util_has_prefix (Some vol_dir) (Some (vi_root g)) \<or> length vol_dir \<le> length (vi_root g) + length ''/'' then (-1, g)
      else if le_rm_data e \<noteq> 0 then (le_rm_data e, g)
      else (let g1 = g\<lparr>vi_disk := removeAll p (vi_disk g)\<rparr>
            in if le_rm_dir e \<noteq> 0 then (le_rm_dir e, g1) else (0, g1)))"

definition volume_remove_nolock :: "local_env \<Rightarrow> string \<Rightarrow> volumes_info \<Rightarrow> int \<times> volumes_info" where
  "volume_remove_nolock e name g =
     (case smap_search (vols_by_name g) name of
        None \<Rightarrow> (VOLUME_ERR_NOT_EXIST, g)
      | Some v \<Rightarrow> (case remove_volume_dir e (v_path v) g of
           (ret, g1) \<Rightarrow>
             if ret \<noteq> 0 then (-1, g1)
             else (let (ok, m) = smap_remove (vols_by_name g1) name
                   in if \<not> ok then (-1, g1) else (0, g1\<lparr>vols_by_name := m\<rparr>))))"

definition local_volume_remove :: "local_env \<Rightarrow> string \<Rightarrow> volumes_info \<Rightarrow> (int \<times> volumes_info) option" where
  "local_volume_remove e name g =
     (if \<not> util_valid_volume_name (Some name) then Some (-1, g)
      else if vi_locked g then None
      else Some (volume_remove_nolock e name g))"

section \<open>Loading the volumes on disk\<close>

text \<open>
  What initialisation meets: the entries of the volume directory (\<open>None\<close> when it cannot be opened), and for
  each entry the file system seen while its links are resolved, whether the resolved directory exists, and
  the allocator. \<open>ie_disk\<close> lists the data directories that exist.
\<close>

record init_env =
  ie_info :: bool
  ie_map :: bool
  ie_mutex :: bool
  ie_mkdir :: int
  ie_entries :: "string list option"
  ie_path :: "string \<Rightarrow> path_env"
  ie_stat :: "string \<Rightarrow> bool"
  ie_local :: "string \<Rightarrow> local_env"
  ie_disk :: "string list"

definition new_empty_volumes_info :: "init_env \<Rightarrow> volumes_info option" where
  "new_empty_volumes_info e =
     (if \<not> ie_info e then None
      else if \<not> ie_map e then None
      else Some \<lparr>vi_root = [], vi_locked = False, vols_by_name = [], vi_disk = ie_disk e\<rparr>)"

definition init_volume_root_dir :: "init_env \<Rightarrow> volumes_info \<Rightarrow> string \<Rightarrow> int \<times> volumes_info" where
  "init_volume_root_dir e g rdir = (if ie_mkdir e \<noteq> 0 then (ie_mkdir e, g) else (0, g\<lparr>vi_root := rdir\<rparr>))"

definition build_and_valid_data_dir :: "init_env \<Rightarrow> string \<Rightarrow> string \<Rightarrow> string option option" where
  "build_and_valid_data_dir e rdir name =
     (if \<not> util_valid_volume_name (Some name) then Some None
      else do {
        vd \<leftarrow> util_path_join (pe_cwd (ie_path e name)) (Some rdir) (Some name);
        (case vd of
           None \<Rightarrow> Some None
         | Some vol_dir \<Rightarrow> do {
             tmp \<leftarrow> util_follow_symlink_in_scope (ie_path e name) (Some vol_dir) (Some rdir);
             if tmp = None then Some None
             else do {
               dd \<leftarrow> util_path_join (pe_cwd (ie_path e name)) (Some vol_dir) (Some LOCAL_VOLUME_DATA_DIR_NAME);
               (case dd of
                  None \<Rightarrow> Some None
                | Some data_dir \<Rightarrow> do {
                    tmp \<leftarrow> util_follow_symlink_in_scope (ie_path e name) (Some data_dir) (Some vol_dir);
                    (case tmp of
                       None \<Rightarrow> Some None
                     | Some tmp_dir \<Rightarrow> if \<not> ie_stat e tmp_dir then Some None else Some (Some data_dir))
                  })
             }
           })
      })"

text \<open>The callback always answers true, so the scan goes on.\<close>

definition load_volume :: "init_env \<Rightarrow> string \<Rightarrow> string \<Rightarrow> volumes_info \<Rightarrow> (bool \<times> volumes_info) option" where
  "load_volume e rdir name g =
     do {
       dd \<leftarrow> build_and_valid_data_dir e rdir name;
       (case dd of
          None \<Rightarrow> Some (True, g)
        | Some data_dir \<Rightarrow>
            if vi_locked g then None
            else (case dup_volume (le_dup (ie_local e name) 0) name data_dir of
                    None \<Rightarrow> Some (True, g)
                  | Some vol \<Rightarrow>
                      (let (ok, m) = smap_insert (le_conv (ie_local e name)) (le_node (ie_local e name)) (vols_by_name g) name vol
                       in if \<not> ok then Some (True, g) else Some (True, g\<lparr>vols_by_name := m\<rparr>))))
     }"

fun scan_subdirs_loop ::
  "(string \<Rightarrow> volumes_info \<Rightarrow> (bool \<times> volumes_info) option) \<Rightarrow> string list \<Rightarrow> volumes_info \<Rightarrow> (int \<times> volumes_info) option" where
  "scan_subdirs_loop cb [] g = Some (0, g)"
| "scan_subdirs_loop cb (d # ds) g =
     (if d = ''.'' \<or> d = ''..'' then scan_subdirs_loop cb ds g
      else do {
        (ok, g1) \<leftarrow> cb d g;
        if \<not> ok then Some (-1, g1) else scan_subdirs_loop cb ds g1
      })"

definition util_scan_subdirs ::
  "string list option \<Rightarrow> (string \<Rightarrow> volumes_info \<Rightarrow> (bool \<times> volumes_info) option) \<Rightarrow> volumes_info \<Rightarrow> (int \<times> volumes_info) option" where
  "util_scan_subdirs ents cb g = (case ents of None \<Rightarrow> Some (-1, g) | Some ds \<Rightarrow> scan_subdirs_loop cb ds g)"

definition load_volumes :: "init_env \<Rightarrow> volumes_info \<Rightarrow> (int \<times> volumes_info) option" where
  "load_volumes e g = util_scan_subdirs (ie_entries e) (load_volume e (vi_root g)) g"

definition local_volume_init :: "init_env \<Rightarrow> string option \<Rightarrow> (int \<times> volumes_info option) option" where
  "local_volume_init e scope =
     (case scope of
        None \<Rightarrow> Some (-1, None)
      | Some rdir \<Rightarrow> (case new_empty_volumes_info e of
           None \<Rightarrow> Some (-1, None)
         | Some g \<Rightarrow>
             if \<not> ie_mutex e then Some (-1, None)
             else (case init_volume_root_dir e g rdir of
                (ret, g1) \<Rightarrow>
                  if ret \<noteq> 0 then Some (ret, None)
                  else do {
                    (ret, g2) \<leftarrow> load_volumes e g1;
                    if ret \<noteq> 0 then Some (ret, None) else Some (0, Some g2)
                  })))"

section \<open>Well-formed volume tables\<close>

text \<open>
  The root is a clean path other than \<^verbatim>\<open>/\<close>; every volume is filed under its own valid name and owns the directory
  made of the root and that name.
\<close>

definition clean_root :: "string \<Rightarrow> bool" where
  "clean_root r \<longleftrightarrow> r = slashes (segs r) \<and> segs r \<noteq> [] \<and> list_all valid_comp (segs r)"

definition data_path :: "string \<Rightarrow> string \<Rightarrow> string" where
  "data_path r name = r @ ''/'' @ name @ ''/'' @ LOCAL_VOLUME_DATA_DIR_NAME"

definition volumes_ok :: "volumes_info \<Rightarrow> bool" where
  "volumes_ok g \<longleftrightarrow>
     clean_root (vi_root g) \<and> smap_ok (vols_by_name g) \<and>
     (\<forall>n v. smap_search (vols_by_name g) n = Some v \<longrightarrow>
        util_valid_volume_name (Some n) \<and> v_name v = n \<and> v_path v = data_path (vi_root g) n)"

abbreviation known :: "volumes_info \<Rightarrow> string \<Rightarrow> bool" where
  "known g n \<equiv> smap_search (vols_by_name g) n \<noteq> None"

lemma volume_name_comp:
  assumes "util_valid_volume_name (Some n)"
  shows "valid_comp n"
proof -
  obtain h t where n: "n = h # t" "alnum_char h" "1 \<le> length t" "\<forall>c \<in> set t. name_char c"
    using assms unfolding valid_volume_iff by (elim exE conjE) (rule that)
  have "\<not> name_char CHR ''/''" "\<not> name_char NUL" by code_simp+
  then have t: "CHR ''/'' \<notin> set t" "NUL \<notin> set t" using n(4) by blast+
  have "\<not> alnum_char CHR ''/''" "\<not> alnum_char NUL" "\<not> alnum_char CHR ''.''" by code_simp+
  then have h: "h \<noteq> CHR ''/''" "h \<noteq> NUL" "h \<noteq> CHR ''.''" using n(2) by blast+
  show ?thesis unfolding n(1) valid_comp_def is_comp_def no_nul_def using t h by auto
qed

lemma data_comp: "valid_comp LOCAL_VOLUME_DATA_DIR_NAME"
  by code_simp

lemma clean_root_slashes:
  assumes "\<forall>c \<in> set cs. valid_comp c" and "cs \<noteq> []"
  shows "clean_root (slashes cs)" "segs (slashes cs) = cs" "no_nul (slashes cs)"
proof -
  have "\<forall>c \<in> set cs. is_comp c" using assms(1) by (simp add: valid_comp_def)
  then show s: "segs (slashes cs) = cs" using segs_slashes [of cs False] by simp
  then show "clean_root (slashes cs)" using assms by (simp add: clean_root_def list_all_iff)
  show "no_nul (slashes cs)" using assms(1) by (auto simp: slashes_def no_nul_def valid_comp_def)
qed

text \<open>Joining a clean root and a valid component neither cleans nor escapes anything.\<close>

lemma path_join_clean:
  assumes "clean_root r" and "valid_comp n" and "cwd_ok cwd"
  shows "util_path_join cwd (Some r) (Some n) =
    Some (if length (r @ ''/'' @ n) \<ge> PATH_MAX then None else Some (r @ ''/'' @ n))"
    and "clean_root (r @ ''/'' @ n)"
proof -
  define cs where "cs = segs r @ [n]"
  have r: "r = slashes (segs r)" "segs r \<noteq> []" "\<forall>c \<in> set (segs r). valid_comp c"
    using assms(1) by (auto simp: clean_root_def list_all_iff)
  have cs: "r @ ''/'' @ n = slashes cs" "\<forall>c \<in> set cs. valid_comp c" "cs \<noteq> []"
    using r assms(2) by (auto simp: cs_def)
  show "clean_root (r @ ''/'' @ n)" using clean_root_slashes(1) [OF cs(2,3)] cs(1) by simp
  have "render cs = slashes cs" using cs(3) by (simp add: render_def)
  then show "util_path_join cwd (Some r) (Some n) =
    Some (if length (r @ ''/'' @ n) \<ge> PATH_MAX then None else Some (r @ ''/'' @ n))"
    unfolding util_path_join_def option.case prod.case snprintf_fits_def cs(1)
    using clean_path_eq [OF _ assms(3), of "render cs"] clean_spec_id [OF cs(2), of cwd] clean_root_slashes(3) [OF cs(2,3)]
    by simp
qed

lemma build_data_dir:
  assumes "clean_root r" and "kernel_ok (ie_path e n)"
  shows "\<exists>d. build_and_valid_data_dir e r n = Some d \<and>
    (\<forall>p. d = Some p \<longrightarrow> util_valid_volume_name (Some n) \<and> p = data_path r n)"
proof (cases "util_valid_volume_name (Some n)")
  case True
  have c: "cwd_ok (pe_cwd (ie_path e n))" using assms(2) by (simp add: kernel_ok_def)
  note v = volume_name_comp [OF True] and j = path_join_clean [OF assms(1) volume_name_comp [OF True] c]
  note j2 = path_join_clean(1) [OF j(2) data_comp c]
  have nn: "no_nul r" "no_nul (r @ ''/'' @ n)" "no_nul ((r @ ''/'' @ n) @ ''/'' @ LOCAL_VOLUME_DATA_DIR_NAME)"
    using clean_root_slashes(3) [of "segs r"] assms(1) v data_comp
    by (auto simp: clean_root_def list_all_iff valid_comp_def no_nul_def)
  obtain t1 where t1: "util_follow_symlink_in_scope (ie_path e n) (Some (r @ ''/'' @ n)) (Some r) = Some t1"
    using follow_inside_root [OF assms(2) nn(2,1)] by blast
  obtain t2 where t2: "util_follow_symlink_in_scope (ie_path e n) (Some ((r @ ''/'' @ n) @ ''/'' @ LOCAL_VOLUME_DATA_DIR_NAME))
      (Some (r @ ''/'' @ n)) = Some t2" using follow_inside_root [OF assms(2) nn(3,2)] by blast
  have "build_and_valid_data_dir e r n =
    Some (if length (r @ ''/'' @ n) \<ge> PATH_MAX \<or> t1 = None \<or>
        length ((r @ ''/'' @ n) @ ''/'' @ LOCAL_VOLUME_DATA_DIR_NAME) \<ge> PATH_MAX \<or> t2 = None \<or> \<not> ie_stat e (the t2)
      then None else Some ((r @ ''/'' @ n) @ ''/'' @ LOCAL_VOLUME_DATA_DIR_NAME))"
    unfolding build_and_valid_data_dir_def using True j(1) j2 t1 t2 by (auto split: option.split)
  then show ?thesis using True by (auto simp: data_path_def)
qed (simp add: build_and_valid_data_dir_def)

lemma volumes_ok_insert:
  assumes "volumes_ok g" and "util_valid_volume_name (Some n)" and "v_name v = n" and "v_path v = data_path (vi_root g) n"
    and "smap_insert c k (vols_by_name g) n v = (ok, m)"
  shows "volumes_ok (g\<lparr>vols_by_name := m\<rparr>)"
proof -
  have "no_nul n" using volume_name_comp [OF assms(2)] by (simp add: valid_comp_def)
  then have "smap_ok m" using smap.insert_ok [of "vols_by_name g" n c k v] assms(1,5) by (simp add: volumes_ok_def)
  moreover have "smap_search m = (if ok then (smap_search (vols_by_name g))(n \<mapsto> v) else smap_search (vols_by_name g))"
    using smap.insert_search [of c k "vols_by_name g" n v] assms(5) by simp
  ultimately show ?thesis using assms(1-4) by (auto simp: volumes_ok_def split: if_splits)
qed

lemma volumes_ok_disk [simp]: "volumes_ok (g\<lparr>vi_disk := d\<rparr>) = volumes_ok g" "volumes_ok (g\<lparr>vi_locked := b\<rparr>) = volumes_ok g"
  by (simp_all add: volumes_ok_def)

section \<open>Every operation keeps the table well formed\<close>

lemma path_dir_at:
  assumes "u \<noteq> []" and "CHR ''/'' \<notin> set v"
  shows "util_path_dir (u @ CHR ''/'' # v) = u"
proof -
  let ?d = "u @ CHR ''/'' # v"
  have "path_dir_loop ?d (length u + k) = u" if "k \<le> length v" for k
    using that
  proof (induction k)
    case 0
    obtain m where "length u = Suc m" using assms(1) by (cases u) auto
    then show ?case by (simp add: nth_append)
  next
    case (Suc k)
    have "?d ! (length u + Suc k) = v ! k" by (simp add: nth_append)
    moreover have "v ! k \<noteq> CHR ''/''" using Suc.prems assms(2) by (metis Suc_le_lessD nth_mem)
    ultimately show ?case using Suc by simp
  qed
  from this [of "length v"] show ?thesis by (simp add: util_path_dir_def)
qed

lemma remove_dir_exact:
  assumes "clean_root (vi_root g)" and "util_valid_volume_name (Some n)"
  shows "remove_volume_dir e (data_path (vi_root g) n) g =
    (if le_rm_data e \<noteq> 0 then (le_rm_data e, g)
     else (le_rm_dir e, g\<lparr>vi_disk := removeAll (data_path (vi_root g) n) (vi_disk g)\<rparr>))"
proof -
  have n: "n \<noteq> []" using volume_name_comp [OF assms(2)] by (simp add: valid_comp_def is_comp_def)
  have "CHR ''/'' \<notin> set LOCAL_VOLUME_DATA_DIR_NAME" by code_simp
  then have "util_path_dir ((vi_root g @ ''/'' @ n) @ CHR ''/'' # LOCAL_VOLUME_DATA_DIR_NAME) = vi_root g @ ''/'' @ n"
    using n by (intro path_dir_at) auto
  then have "util_path_dir (data_path (vi_root g) n) = vi_root g @ ''/'' @ n" by (simp add: data_path_def)
  with n show ?thesis by (simp add: remove_volume_dir_def Let_def util_has_prefix_def)
qed

lemma create_keeps:
  assumes g: "volumes_ok g" and n: "util_valid_volume_name (Some n)" and c: "volume_create_nolock e n g = (r, g')"
  shows "volumes_ok g'" "vi_locked g' = vi_locked g" "vi_root g' = vi_root g"
    "smap_search (vols_by_name g') = (case r of None \<Rightarrow> smap_search (vols_by_name g) | Some v \<Rightarrow> (smap_search (vols_by_name g))(n \<mapsto> v))"
    "r = Some v \<Longrightarrow> v_name v = n \<and> v_path v = data_path (vi_root g) n"
proof -
  have "volumes_ok g' \<and> vi_locked g' = vi_locked g \<and> vi_root g' = vi_root g \<and>
    smap_search (vols_by_name g') = (case r of None \<Rightarrow> smap_search (vols_by_name g) | Some v \<Rightarrow> (smap_search (vols_by_name g))(n \<mapsto> v)) \<and>
    (\<forall>v. r = Some v \<longrightarrow> v_name v = n \<and> v_path v = data_path (vi_root g) n)"
  proof (cases "smap_search (vols_by_name g) n")
    case (Some v)
    moreover from this have "r = Some v" "g' = g" using c by (auto simp: volume_create_nolock_def)
    ultimately show ?thesis using g by (simp add: fun_upd_idem) (simp add: volumes_ok_def)
  next
    case None
    show ?thesis
    proof (cases "create_volume_meminfo e n g")
      case (Pair ret vo)
      show ?thesis
      proof (cases vo)
        case None
        with Pair \<open>smap_search (vols_by_name g) n = None\<close> c g show ?thesis by (auto simp: volume_create_nolock_def)
      next
        case (Some v)
        have v: "v_name v = n" "v_path v = data_path (vi_root g) n"
          using Pair Some by (auto simp: create_volume_meminfo_def snprintf_fits_def data_path_def split: if_splits)
        obtain ok m where m: "smap_insert (le_conv e) (le_node e) (vols_by_name g) n v = (ok, m)" by fastforce
        note i = volumes_ok_insert [OF g n v m]
        have "ok \<Longrightarrow> smap_search m = (smap_search (vols_by_name g))(n \<mapsto> v)"
          using smap.insert_search [of "le_conv e" "le_node e" "vols_by_name g" n v] m by simp
        with Pair Some None c g v m i show ?thesis
          by (auto simp: volume_create_nolock_def Let_def volumes_ok_def split: if_splits)
      qed
    qed
  qed
  then show "volumes_ok g'" "vi_locked g' = vi_locked g" "vi_root g' = vi_root g"
    "smap_search (vols_by_name g') = (case r of None \<Rightarrow> smap_search (vols_by_name g) | Some v \<Rightarrow> (smap_search (vols_by_name g))(n \<mapsto> v))"
    "r = Some v \<Longrightarrow> v_name v = n \<and> v_path v = data_path (vi_root g) n" by auto
qed

lemma remove_keeps:
  assumes g: "volumes_ok g" and n: "util_valid_volume_name (Some n)" and c: "volume_remove_nolock e n g = (r, g')"
  shows "volumes_ok g'" "vi_locked g' = vi_locked g" "vi_root g' = vi_root g"
    "smap_search (vols_by_name g') = (if r = 0 then (smap_search (vols_by_name g))(n := None) else smap_search (vols_by_name g))"
    "r = 0 \<longleftrightarrow> known g n \<and> le_rm_data e = 0 \<and> le_rm_dir e = 0"
proof -
  have "volumes_ok g' \<and> vi_locked g' = vi_locked g \<and> vi_root g' = vi_root g \<and>
    smap_search (vols_by_name g') = (if r = 0 then (smap_search (vols_by_name g))(n := None) else smap_search (vols_by_name g)) \<and>
    (r = 0 \<longleftrightarrow> known g n \<and> le_rm_data e = 0 \<and> le_rm_dir e = 0)"
  proof (cases "smap_search (vols_by_name g) n")
    case None
    with c g show ?thesis by (auto simp: volume_remove_nolock_def VOLUME_ERR_NOT_EXIST_def)
  next
    case (Some v)
    have p: "v_path v = data_path (vi_root g) n" "clean_root (vi_root g)" using g Some by (auto simp: volumes_ok_def)
    obtain ok m where m: "smap_remove (vols_by_name g) n = (ok, m)" by fastforce
    have mm: "ok" "smap_search m = (smap_search (vols_by_name g))(n := None)" "smap_ok m"
      using smap.remove_fails [of "vols_by_name g" n] smap.remove_search [of "vols_by_name g" n] smap.remove_ok [of "vols_by_name g" n] m Some g
      by (auto simp: volumes_ok_def)
    from c g Some m mm show ?thesis
      unfolding volume_remove_nolock_def Some option.case p(1) remove_dir_exact [OF p(2) n]
      by (auto simp: volumes_ok_def split: if_splits)
  qed
  then show "volumes_ok g'" "vi_locked g' = vi_locked g" "vi_root g' = vi_root g"
    "smap_search (vols_by_name g') = (if r = 0 then (smap_search (vols_by_name g))(n := None) else smap_search (vols_by_name g))"
    "r = 0 \<longleftrightarrow> known g n \<and> le_rm_data e = 0 \<and> le_rm_dir e = 0" by blast+
qed

abbreviation volume_copy :: "volume \<Rightarrow> volume" where
  "volume_copy v \<equiv> the (dup_volume True (v_name v) (v_path v))"

lemma list_loop_exact:
  "i = length xs \<Longrightarrow> \<exists>r. list_volumes_loop dup i vs (xs @ replicate (length vs) None) = Some r \<and>
     (\<forall>a. r = Some a \<longrightarrow> a = xs @ map (\<lambda>v. Some (volume_copy v)) vs) \<and> ((\<forall>j. dup j) \<longrightarrow> r \<noteq> None)"
proof (induction vs arbitrary: i xs)
  case (Cons v vs)
  show ?case
  proof (cases "dup i")
    case True
    have w: "write_cell (xs @ replicate (length (v # vs)) None) i (Some (volume_copy v)) =
        Some ((xs @ [Some (volume_copy v)]) @ replicate (length vs) None)"
      using Cons.prems by (simp add: write_cell_def)
    from Cons.IH [of "i + 1" "xs @ [Some (volume_copy v)]"] Cons.prems
    obtain r where "list_volumes_loop dup (i + 1) vs ((xs @ [Some (volume_copy v)]) @ replicate (length vs) None) = Some r"
      "\<forall>a. r = Some a \<longrightarrow> a = (xs @ [Some (volume_copy v)]) @ map (\<lambda>v. Some (volume_copy v)) vs" "(\<forall>j. dup j) \<longrightarrow> r \<noteq> None"
      by auto
    with w True show ?thesis by (simp add: dup_volume_def)
  qed (auto simp: dup_volume_def)
qed simp

lemma list_keeps:
  assumes g: "volumes_ok g" and l: "\<not> vi_locked g"
  shows "\<exists>r b. local_volume_list e g = Some (r, g\<lparr>vi_locked := b\<rparr>) \<and>
    (\<forall>vs. r = Some vs \<longrightarrow> \<not> b \<and> map v_name vs = map fst (vols_by_name g))"
proof (cases "new_empty_volumes e (length (vols_by_name g))")
  case None
  with l show ?thesis by (intro exI [of _ None] exI [of _ True]) (simp add: local_volume_list_def)
next
  case (Some arr)
  then have arr: "arr = [] @ replicate (length (map snd (vols_by_name g))) None"
    by (auto simp: new_empty_volumes_def split: if_splits)
  have same: "g\<lparr>vi_locked := False\<rparr> = g" using l by simp
  obtain r where r: "list_volumes_loop (le_dup e) 0 (map snd (vols_by_name g)) arr = Some r"
    "\<forall>a. r = Some a \<longrightarrow> a = map (\<lambda>v. Some (volume_copy v)) (map snd (vols_by_name g))"
    using list_loop_exact [of 0 "[]" "le_dup e" "map snd (vols_by_name g)"] arr by auto
  have "v_name v = k" if "(k, v) \<in> set (vols_by_name g)" for k v
  proof -
    have "smap_search (vols_by_name g) k = Some v"
      using that g by (simp add: volumes_ok_def smap_search_def smap_ok_distinct)
    then show ?thesis using g by (simp add: volumes_ok_def)
  qed
  then have n1: "map v_name (map snd (vols_by_name g)) = map fst (vols_by_name g)" by auto
  have n2: "List.map_filter (\<lambda>x. x) (map (\<lambda>v. Some (volume_copy v)) vs) = map volume_copy vs" for vs
    by (induction vs) (simp_all add: List.map_filter_simps)
  have n3: "map v_name (map volume_copy vs) = map v_name vs" for vs by (simp add: dup_volume_def)
  have names: "map v_name (List.map_filter (\<lambda>x. x) a) = map fst (vols_by_name g)" if "r = Some a" for a
    unfolding r(2) [rule_format, OF that] n2 n3 n1 ..
  show ?thesis
  proof (cases "le_itor e")
    case True
    then have "local_volume_list e g = Some (map_option (\<lambda>a. List.map_filter (\<lambda>x. x) a) r, g\<lparr>vi_locked := False\<rparr>)"
      using l Some r(1) same by (simp add: local_volume_list_def)
    moreover have "\<forall>vs. map_option (\<lambda>a. List.map_filter (\<lambda>x. x) a) r = Some vs \<longrightarrow> map v_name vs = map fst (vols_by_name g)"
      using names by auto
    ultimately show ?thesis by blast
  next
    case False
    with l Some same show ?thesis by (intro exI [of _ None] exI [of _ False]) (simp add: local_volume_list_def)
  qed
qed

lemma load_keeps:
  assumes "volumes_ok g" and "kernel_ok (ie_path e n)" and "\<not> vi_locked g"
  shows "\<exists>g'. load_volume e (vi_root g) n g = Some (True, g') \<and> volumes_ok g' \<and> \<not> vi_locked g' \<and> vi_root g' = vi_root g"
proof -
  have "clean_root (vi_root g)" using assms(1) by (simp add: volumes_ok_def)
  then obtain d where d: "build_and_valid_data_dir e (vi_root g) n = Some d"
    "\<forall>p. d = Some p \<longrightarrow> util_valid_volume_name (Some n) \<and> p = data_path (vi_root g) n"
    using build_data_dir assms(2) by blast
  show ?thesis
  proof (cases "d = None \<or> \<not> le_dup (ie_local e n) 0")
    case True
    with d assms show ?thesis by (cases d) (auto simp: load_volume_def dup_volume_def)
  next
    case False
    then obtain v where v: "dup_volume (le_dup (ie_local e n) 0) n (data_path (vi_root g) n) = Some v" "v_name v = n"
      "v_path v = data_path (vi_root g) n" by (auto simp: dup_volume_def)
    obtain ok m where m: "smap_insert (le_conv (ie_local e n)) (le_node (ie_local e n)) (vols_by_name g) n v = (ok, m)" by fastforce
    have "util_valid_volume_name (Some n)" using d(2) False by auto
    from volumes_ok_insert [OF assms(1) this v(2,3) m] d False v(1) m assms show ?thesis
      by (cases d) (auto simp: load_volume_def)
  qed
qed

lemma scan_keeps:
  assumes "\<forall>n. kernel_ok (ie_path e n)"
  shows "volumes_ok g \<Longrightarrow> \<not> vi_locked g \<Longrightarrow> vi_root g = r \<Longrightarrow>
    \<exists>g'. scan_subdirs_loop (load_volume e r) ds g = Some (0, g') \<and> volumes_ok g' \<and> \<not> vi_locked g' \<and> vi_root g' = r"
proof (induction ds arbitrary: g)
  case (Cons d ds)
  obtain g1 where "load_volume e r d g = Some (True, g1)" "volumes_ok g1" "\<not> vi_locked g1" "vi_root g1 = r"
    using load_keeps [OF Cons.prems(1) _ Cons.prems(2), of e d] assms Cons.prems(3) by auto
  with Cons show ?case by simp
qed simp

lemma init_keeps:
  assumes "\<forall>n. kernel_ok (ie_path e n)" and "clean_root r"
  shows "\<exists>ret g. local_volume_init e (Some r) = Some (ret, g) \<and> (ret = 0 \<longleftrightarrow> g \<noteq> None) \<and>
    (\<forall>g'. g = Some g' \<longrightarrow> volumes_ok g' \<and> \<not> vi_locked g' \<and> vi_root g' = r)"
proof -
  let ?g = "\<lparr>vi_root = r, vi_locked = False, vols_by_name = [], vi_disk = ie_disk e\<rparr>"
  have "volumes_ok ?g" using assms(2) by (simp add: volumes_ok_def smap_search_def)
  from scan_keeps [OF assms(1) this, of r "the (ie_entries e)"] obtain g' where
    "scan_subdirs_loop (load_volume e r) (the (ie_entries e)) ?g = Some (0, g')" "volumes_ok g'" "\<not> vi_locked g'" "vi_root g' = r"
    by auto
  then show ?thesis
    by (cases "ie_entries e") (auto simp: local_volume_init_def new_empty_volumes_info_def init_volume_root_dir_def
        load_volumes_def util_scan_subdirs_def)
qed

section \<open>Sequences of driver calls\<close>

datatype driver_op =
    DGet local_env string
  | DCreate local_env string
  | DList local_env
  | DRemove local_env string

definition driver_step :: "driver_op \<Rightarrow> volumes_info \<Rightarrow> volumes_info option" where
  "driver_step d g =
     (case d of
        DGet e n \<Rightarrow> map_option snd (local_volume_get e n g)
      | DCreate e n \<Rightarrow> map_option snd (local_volume_create e n g)
      | DList e \<Rightarrow> map_option snd (local_volume_list e g)
      | DRemove e n \<Rightarrow> map_option snd (local_volume_remove e n g))"

fun driver_run :: "driver_op list \<Rightarrow> volumes_info \<Rightarrow> volumes_info option" where
  "driver_run [] g = Some g"
| "driver_run (d # ds) g = do { g1 \<leftarrow> driver_step d g; driver_run ds g1 }"

lemma get_result:
  assumes "local_volume_get e n g = Some (v, g')"
  shows "g' = g" "v \<noteq> None \<Longrightarrow> known g n"
  using assms by (auto simp: local_volume_get_def split: if_splits option.splits)

lemma create_result:
  assumes "local_volume_create e n g = Some (v, g')" and "volumes_ok g"
  shows "volumes_ok g'" "vi_root g' = vi_root g" "v \<noteq> None \<Longrightarrow> known g' n"
    "known g m \<Longrightarrow> known g' m" "m \<noteq> n \<Longrightarrow> known g' m \<longleftrightarrow> known g m"
proof -
  have "volumes_ok g' \<and> vi_root g' = vi_root g \<and> (v \<noteq> None \<longrightarrow> known g' n) \<and> (known g m \<longrightarrow> known g' m) \<and>
    (m \<noteq> n \<longrightarrow> known g' m = known g m)"
  proof (cases "util_valid_volume_name (Some n)")
    case True
    obtain r g1 where c: "volume_create_nolock e n g = (r, g1)" by fastforce
    note k = create_keeps [OF assms(2) True c]
    have "g' = g1" "v \<noteq> None \<longrightarrow> r \<noteq> None"
      using assms(1) True c by (auto simp: local_volume_create_def split: if_splits option.splits)
    with k(1,3,4) show ?thesis by (auto split: option.splits)
  qed (use assms in \<open>auto simp: local_volume_create_def\<close>)
  then show "volumes_ok g'" "vi_root g' = vi_root g" "v \<noteq> None \<Longrightarrow> known g' n"
    "known g m \<Longrightarrow> known g' m" "m \<noteq> n \<Longrightarrow> known g' m \<longleftrightarrow> known g m" by auto
qed

lemma remove_result:
  assumes "local_volume_remove e n g = Some (r, g')" and "volumes_ok g"
  shows "volumes_ok g'" "vi_root g' = vi_root g" "known g' m \<longleftrightarrow> known g m \<and> (m = n \<longrightarrow> r \<noteq> 0)"
proof -
  have "volumes_ok g' \<and> vi_root g' = vi_root g \<and> (known g' m \<longleftrightarrow> known g m \<and> (m = n \<longrightarrow> r \<noteq> 0))"
  proof (cases "util_valid_volume_name (Some n)")
    case True
    have "volume_remove_nolock e n g = (r, g')"
      using assms(1) True by (auto simp: local_volume_remove_def split: if_splits)
    from remove_keeps [OF assms(2) True this] show ?thesis by auto
  next
    case False
    then have "r = -1" "g' = g" using assms(1) by (auto simp: local_volume_remove_def)
    with assms(2) show ?thesis by auto
  qed
  then show "volumes_ok g'" "vi_root g' = vi_root g" "known g' m \<longleftrightarrow> known g m \<and> (m = n \<longrightarrow> r \<noteq> 0)" by auto
qed

lemma list_result:
  assumes "local_volume_list e g = Some (r, g')" and "volumes_ok g"
  shows "volumes_ok g'" "vi_root g' = vi_root g" "known g' = known g" "r = Some vs \<Longrightarrow> v_name ` set vs = {n. known g n}"
proof -
  have l: "\<not> vi_locked g" using assms(1) by (auto simp: local_volume_list_def split: if_splits)
  obtain b where b: "g' = g\<lparr>vi_locked := b\<rparr>" "\<forall>vs. r = Some vs \<longrightarrow> map v_name vs = map fst (vols_by_name g)"
    using list_keeps [OF assms(2) l, of e] assms(1) by auto
  show "volumes_ok g'" "vi_root g' = vi_root g" "known g' = known g" using assms(2) b(1) by simp_all
  assume "r = Some vs"
  then have "set (map v_name vs) = set (map fst (vols_by_name g))" using b(2) by simp
  then show "v_name ` set vs = {n. known g n}" unfolding smap_search_def smap_dom by auto
qed

lemma driver_step_keeps: "driver_step d g = Some g' \<Longrightarrow> volumes_ok g \<Longrightarrow> volumes_ok g' \<and> vi_root g' = vi_root g"
  by (cases d) (auto simp: driver_step_def dest: get_result(1) create_result(1,2) remove_result(1,2) list_result(1,2))

lemma driver_run_keeps: "driver_run ds g = Some g' \<Longrightarrow> volumes_ok g \<Longrightarrow> volumes_ok g' \<and> vi_root g' = vi_root g"
  by (induction ds arbitrary: g) (fastforce simp: bind_eq_Some_conv dest: driver_step_keeps)+

text \<open>
  C17. The volume table stays well formed: after the driver has loaded what it finds on disk, whatever the
  names and links there, and after any sequence of its operations, every volume is filed under its own
  valid name and owns the directory \<^verbatim>\<open><root>/<name>/_data\<close>. Initialisation returns on every file system.
\<close>

theorem volume_table_well_formed:
  assumes "\<forall>n. kernel_ok (ie_path e n)" and "clean_root r"
  shows "\<exists>ret g. local_volume_init e (Some r) = Some (ret, g) \<and> (ret = 0 \<longleftrightarrow> g \<noteq> None) \<and>
    (\<forall>g1 ops g2. g = Some g1 \<longrightarrow> driver_run ops g1 = Some g2 \<longrightarrow> volumes_ok g2 \<and> vi_root g2 = r)"
  using init_keeps [OF assms] driver_run_keeps by blast

definition quiet_local :: local_env where
  "quiet_local = \<lparr>le_dup = (\<lambda>_. True), le_calloc = True, le_array = True, le_itor = True, le_mkdir = 0, le_conv = True,
     le_node = True, le_rm_data = 0, le_rm_dir = 0\<rparr>"

definition demo_init :: init_env where
  "demo_init = \<lparr>ie_info = True, ie_map = True, ie_mutex = True, ie_mkdir = 0, ie_entries = Some [''.'', ''..'', ''old'', ''-x''],
     ie_path = (\<lambda>_. demo_fs), ie_stat = (\<lambda>_. True), ie_local = (\<lambda>_. quiet_local), ie_disk = []\<rparr>"

theorem volume_table_well_formed_witness:
  "clean_root ''/lib/volumes'' \<and>
   (\<exists>ret g. local_volume_init demo_init (Some ''/lib/volumes'') = Some (ret, g) \<and> (ret = 0 \<longleftrightarrow> g \<noteq> None) \<and>
    (\<forall>g1 ops g2. g = Some g1 \<longrightarrow> driver_run ops g1 = Some g2 \<longrightarrow> volumes_ok g2 \<and> vi_root g2 = ''/lib/volumes''))"
proof -
  have "clean_root ''/lib/volumes''" by code_simp
  then show ?thesis using volume_table_well_formed [of demo_init "''/lib/volumes''"] demo_fs_ok by (simp add: demo_init_def)
qed

text \<open>
  The result array of a listing is allocated with the mutex held, and the failure path returns without
  releasing it: from then on every call that needs the table blocks.
\<close>

lemma failed_list_blocks:
  assumes "\<not> vi_locked g" and "\<not> le_calloc e" and "util_valid_volume_name (Some n)"
  shows "\<exists>g'. local_volume_list e g = Some (None, g') \<and> local_volume_list e' g' = None \<and> local_volume_get e' n g' = None \<and>
    local_volume_create e' n g' = None \<and> local_volume_remove e' n g' = None"
  using assms by (auto simp: local_volume_list_def new_empty_volumes_def local_volume_get_def local_volume_create_def
      local_volume_remove_def)

text \<open>
  When the data directory is removed and the directory around it is not, the volume stays in the table
  without its directory, and creating it again reports success without making one.
\<close>

lemma half_removed_volume:
  assumes "volumes_ok g" and "\<not> vi_locked g" and "known g n" and "le_rm_data e = 0" and "le_rm_dir e \<noteq> 0" and "le_dup e' 0"
  shows "\<exists>g' v. local_volume_remove e n g = Some (-1, g') \<and> data_path (vi_root g) n \<notin> set (vi_disk g') \<and>
    local_volume_create e' n g' = Some (Some v, g')"
proof -
  obtain v where v: "smap_search (vols_by_name g) n = Some v" using assms(3) by auto
  have n: "util_valid_volume_name (Some n)" "v_path v = data_path (vi_root g) n" "clean_root (vi_root g)"
    using assms(1) v by (auto simp: volumes_ok_def)
  define g' where "g' = g\<lparr>vi_disk := removeAll (data_path (vi_root g) n) (vi_disk g)\<rparr>"
  have "local_volume_remove e n g = Some (-1, g')"
    unfolding local_volume_remove_def volume_remove_nolock_def v option.case n(2) remove_dir_exact [OF n(3,1)]
    using assms(2,4,5) n(1) by (simp add: g'_def)
  moreover have "local_volume_create e' n g' = Some (dup_volume True (v_name v) (v_path v), g')"
    using assms(2,6) n(1) v by (simp add: local_volume_create_def volume_create_nolock_def g'_def)
  ultimately show ?thesis by (auto simp: g'_def dup_volume_def)
qed

end
