(* ===== verification/Volume_Store.thy ===== *)
theory Volume_Store
  imports Volume_Local
begin

text \<open>
  The volume store, \<^verbatim>\<open>src/daemon/modules/volume/volume.c\<close>: the registered drivers and, for each volume name, the
  set of containers that refer to it, behind one mutex. A driver is a table of functions on a driver state
  of its own; \<open>None\<close> results stand for a call of a NULL function and for a driver call that blocks.
  \<^verbatim>\<open>release_volumes\<close> of the container service is the client that drops a container's references.
\<close>

section \<open>Drivers\<close>

record 's volume_driver =
  drv_create :: "(local_env \<Rightarrow> string \<Rightarrow> 's \<Rightarrow> (volume option \<times> 's) option) option"
  drv_get :: "(local_env \<Rightarrow> string \<Rightarrow> 's \<Rightarrow> (volume option \<times> 's) option) option"
  drv_mount :: "(string \<Rightarrow> int) option"
  drv_umount :: "(string \<Rightarrow> int) option"
  drv_list :: "(local_env \<Rightarrow> 's \<Rightarrow> (volume list option \<times> 's) option) option"
  drv_remove :: "(local_env \<Rightarrow> string \<Rightarrow> 's \<Rightarrow> (int \<times> 's) option) option"

text \<open>\<open>vs_last\<close> is the function's static variable of \<^verbatim>\<open>lookup_driver_by_volume_name\<close>.\<close>

record 's volume_store =
  vs_drivers :: "'s volume_driver smap"
  name_refs :: "bool smap smap"
  vs_last :: "'s volume_driver option"
  vs_state :: 's

text \<open>
  The answers of the allocator, the map and the random generator to one call. \<open>ve_bytes\<close> is the text that the
  first bytes of a map object spell when they are read as a C string.
\<close>

record vol_env =
  ve_local :: local_env
  ve_dup :: bool
  ve_conv :: bool
  ve_node :: bool
  ve_map :: bool
  ve_rconv :: bool
  ve_rnode :: bool
  ve_bytes :: string
  ve_itor :: bool
  ve_names :: bool
  ve_array :: bool
  ve_ritor :: bool
  ve_random :: "string option"
  ve_pruned :: bool

definition valid_driver :: "'s volume_driver \<Rightarrow> int" where
  "valid_driver d =
     (if drv_create d = None \<or> drv_get d = None \<or> drv_mount d = None \<or> drv_umount d = None \<or> drv_list d = None \<or>
         drv_remove d = None then -1 else 0)"

definition lookup_driver :: "string \<Rightarrow> 's volume_store \<Rightarrow> 's volume_driver option" where
  "lookup_driver name s = smap_search (vs_drivers s) name"

text \<open>The loop leaves \<^verbatim>\<open>driver\<close> at the first driver that has the volume, and at the last one when none has it.\<close>

fun lookup_driver_loop ::
  "local_env \<Rightarrow> string \<Rightarrow> (string \<times> 's volume_driver) list \<Rightarrow> 's volume_driver option \<Rightarrow> 's
     \<Rightarrow> ('s volume_driver option \<times> 's) option" where
  "lookup_driver_loop e name [] cur st = Some (cur, st)"
| "lookup_driver_loop e name ((k, d) # ds) cur st =
     do {
       get \<leftarrow> drv_get d;
       (vol, st1) \<leftarrow> get e name st;
       if vol \<noteq> None then Some (Some d, st1) else lookup_driver_loop e name ds (Some d) st1
     }"

definition lookup_driver_by_volume_name ::
  "vol_env \<Rightarrow> string \<Rightarrow> 's volume_store \<Rightarrow> ('s volume_driver option \<times> 's volume_store) option" where
  "lookup_driver_by_volume_name e name s =
     (if \<not> ve_itor e then Some (vs_last s, s)
      else do {
        (d, st) \<leftarrow> lookup_driver_loop (ve_local e) name (vs_drivers s) (vs_last s) (vs_state s);
        Some (d, s\<lparr>vs_last := d, vs_state := st\<rparr>)
      })"

definition insert_driver :: "vol_env \<Rightarrow> string \<Rightarrow> 's volume_driver \<Rightarrow> 's volume_store \<Rightarrow> int \<times> 's volume_store" where
  "insert_driver e name d s =
     (if valid_driver d \<noteq> 0 then (-1, s)
      else if \<not> ve_dup e then (-1, s)
      else (let (ok, m) = smap_insert (ve_conv e) (ve_node e) (vs_drivers s) name d
            in if \<not> ok then (-1, s) else (0, s\<lparr>vs_drivers := m\<rparr>)))"

definition register_driver ::
  "vol_env \<Rightarrow> string option \<Rightarrow> 's volume_driver option \<Rightarrow> 's volume_store \<Rightarrow> int \<times> 's volume_store" where
  "register_driver e namep dp s =
     (case (namep, dp) of
        (Some name, Some d) \<Rightarrow> if lookup_driver name s \<noteq> None then (-1, s) else insert_driver e name d s
      | _ \<Rightarrow> (-1, s))"

section \<open>References\<close>

text \<open>
  The failure path of the second insertion looks the empty set up under the address of the set itself, so
  under the text \<open>ve_bytes\<close>, not under the name.
\<close>

definition add_name_ref :: "vol_env \<Rightarrow> bool smap smap \<Rightarrow> string \<Rightarrow> string \<Rightarrow> int \<times> bool smap smap" where
  "add_name_ref e nr name ref =
     (let (ok, nr1, refs) = (case smap_search nr name of
            Some refs \<Rightarrow> (True, nr, refs)
          | None \<Rightarrow> if \<not> ve_map e then (False, nr, [])
                   else (let (ok, nr1) = smap_insert (ve_conv e) (ve_node e) nr name []
                         in if \<not> ok then (False, nr, []) else (True, nr1, [])))
      in if \<not> ok then (-1, nr1)
         else if smap_search refs ref = None then
           (let (ok, refs1) = smap_insert (ve_rconv e) (ve_rnode e) refs ref True
            in if \<not> ok then (-1, if length refs = 0 then snd (smap_remove nr1 (ve_bytes e)) else nr1)
               else (0, al_update name refs1 nr1))
         else (0, nr1))"

definition empty_volume_names :: "vol_env \<Rightarrow> nat \<Rightarrow> string block option" where
  "empty_volume_names e n =
     (if \<not> ve_names e then None
      else if \<not> ve_array e \<or> n > MAX_MEMORY_SIZE div sizeof_ptr then None
      else Some (replicate n None))"

text \<open>The keys written to the array with their number; an inner \<open>None\<close> is the result NULL.\<close>

fun name_refs_loop :: "string list \<Rightarrow> nat \<Rightarrow> string block \<Rightarrow> (string block \<times> nat) option" where
  "name_refs_loop [] i arr = Some (arr, i)"
| "name_refs_loop (k # ks) i arr = do { arr \<leftarrow> write_cell arr i (Some k); name_refs_loop ks (i + 1) arr }"

definition get_name_refs :: "vol_env \<Rightarrow> bool smap smap \<Rightarrow> string \<Rightarrow> (string block \<times> nat) option option" where
  "get_name_refs e nr name =
     (case smap_search nr name of
        None \<Rightarrow> Some None
      | Some refs \<Rightarrow> (case empty_volume_names e (length refs) of
           None \<Rightarrow> Some None
         | Some arr \<Rightarrow> if \<not> ve_ritor e then Some None
                     else do { r \<leftarrow> name_refs_loop (map fst refs) 0 arr; Some (Some r) }))"

definition del_name_ref :: "bool smap smap \<Rightarrow> string \<Rightarrow> string \<Rightarrow> int \<times> bool smap smap" where
  "del_name_ref nr name ref =
     (case smap_search nr name of
        None \<Rightarrow> (0, nr)
      | Some refs \<Rightarrow>
          let (ok, refs1) = (if length refs \<noteq> 0 then smap_remove refs ref else (True, refs))
          in if \<not> ok then (-1, nr)
             else if length refs1 = 0 then
               (let (ok, nr1) = smap_remove (al_update name refs1 nr) name in if \<not> ok then (-1, nr1) else (0, nr1))
             else (0, al_update name refs1 nr))"

definition volume_add_ref :: "vol_env \<Rightarrow> string option \<Rightarrow> string option \<Rightarrow> 's volume_store \<Rightarrow> int \<times> 's volume_store" where
  "volume_add_ref e namep refp s =
     (case (namep, refp) of
        (Some name, Some ref) \<Rightarrow> (let (ret, nr) = add_name_ref e (name_refs s) name ref in (ret, s\<lparr>name_refs := nr\<rparr>))
      | _ \<Rightarrow> (-1, s))"

definition volume_del_ref :: "string option \<Rightarrow> string option \<Rightarrow> 's volume_store \<Rightarrow> int \<times> 's volume_store" where
  "volume_del_ref namep refp s =
     (case (namep, refp) of
        (Some name, Some ref) \<Rightarrow> (let (ret, nr) = del_name_ref (name_refs s) name ref in (ret, s\<lparr>name_refs := nr\<rparr>))
      | _ \<Rightarrow> (-1, s))"

section \<open>Operations on volumes\<close>

definition volume_create ::
  "vol_env \<Rightarrow> string option \<Rightarrow> string option \<Rightarrow> string option \<Rightarrow> 's volume_store \<Rightarrow> (volume option \<times> 's volume_store) option" where
  "volume_create e driver_name namep refp s =
     (case (driver_name, refp) of
        (Some dn, Some ref) \<Rightarrow>
          (case lookup_driver dn s of
             None \<Rightarrow> Some (None, s)
           | Some d \<Rightarrow>
               (case (case namep of None \<Rightarrow> ve_random e | Some n \<Rightarrow> Some n) of
                  None \<Rightarrow> Some (None, s)
                | Some name \<Rightarrow> do {
                    create \<leftarrow> drv_create d;
                    (vol, st) \<leftarrow> create (ve_local e) name (vs_state s);
                    if vol = None then Some (None, s\<lparr>vs_state := st\<rparr>)
                    else (let (ret, nr) = add_name_ref e (name_refs s) name ref
                          in Some (if ret \<noteq> 0 then None else vol, s\<lparr>vs_state := st, name_refs := nr\<rparr>))
                  }))
      | _ \<Rightarrow> Some (None, s))"

definition volume_mount :: "vol_env \<Rightarrow> string option \<Rightarrow> 's volume_store \<Rightarrow> (int \<times> 's volume_store) option" where
  "volume_mount e namep s =
     (case namep of
        None \<Rightarrow> Some (-1, s)
      | Some name \<Rightarrow> do {
          (d, s1) \<leftarrow> lookup_driver_by_volume_name e name s;
          (case d of None \<Rightarrow> Some (-1, s1) | Some d \<Rightarrow> do { mount \<leftarrow> drv_mount d; Some (mount name, s1) })
        })"

definition volume_umount :: "vol_env \<Rightarrow> string option \<Rightarrow> 's volume_store \<Rightarrow> (int \<times> 's volume_store) option" where
  "volume_umount e namep s =
     (case namep of
        None \<Rightarrow> Some (-1, s)
      | Some name \<Rightarrow> do {
          (d, s1) \<leftarrow> lookup_driver_by_volume_name e name s;
          (case d of None \<Rightarrow> Some (-1, s1) | Some d \<Rightarrow> do { umount \<leftarrow> drv_umount d; Some (umount name, s1) })
        })"

definition list_all_driver_volumes :: "vol_env \<Rightarrow> 's volume_store \<Rightarrow> (volume list option \<times> 's volume_store) option" where
  "list_all_driver_volumes e s =
     (if \<not> ve_itor e then Some (None, s)
      else case vs_drivers s of
        [] \<Rightarrow> Some (None, s)
      | (k, d) # ds \<Rightarrow> do {
          lst \<leftarrow> drv_list d;
          (vols, st) \<leftarrow> lst (ve_local e) (vs_state s);
          Some (vols, s\<lparr>vs_state := st\<rparr>)
        })"

definition volume_list :: "vol_env \<Rightarrow> 's volume_store \<Rightarrow> (volume list option \<times> 's volume_store) option" where
  "volume_list e s = list_all_driver_volumes e s"

definition volume_remove :: "vol_env \<Rightarrow> string option \<Rightarrow> 's volume_store \<Rightarrow> (int \<times> 's volume_store) option" where
  "volume_remove e namep s =
     (case namep of
        None \<Rightarrow> Some (-1, s)
      | Some name \<Rightarrow> do {
          (d, s1) \<leftarrow> lookup_driver_by_volume_name e name s;
          (case d of
             None \<Rightarrow> Some (-1, s1)
           | Some d \<Rightarrow> do {
               vns \<leftarrow> get_name_refs e (name_refs s1) name;
               if (case vns of None \<Rightarrow> False | Some (arr, n) \<Rightarrow> n > 0) then Some (-1, s1)
               else do {
                 rm \<leftarrow> drv_remove d;
                 (ret, st) \<leftarrow> rm (ve_local e) name (vs_state s1);
                 Some (ret, s1\<lparr>vs_state := st\<rparr>)
               }
             })
        })"

text \<open>The removed names; each removal takes the mutex anew, with its own environment.\<close>

fun prune_loop :: "(nat \<Rightarrow> vol_env) \<Rightarrow> nat \<Rightarrow> string list \<Rightarrow> 's volume_store \<Rightarrow> (string list \<times> 's volume_store) option" where
  "prune_loop es i [] s = Some ([], s)"
| "prune_loop es i (n # ns) s =
     do {
       (ret, s1) \<leftarrow> volume_remove (es i) (Some n) s;
       (pruned, s2) \<leftarrow> prune_loop es (i + 1) ns s1;
       Some (if ret \<noteq> 0 then pruned else n # pruned, s2)
     }"

definition volume_prune :: "vol_env \<Rightarrow> (nat \<Rightarrow> vol_env) \<Rightarrow> 's volume_store \<Rightarrow> (int \<times> string list option \<times> 's volume_store) option" where
  "volume_prune e es s =
     (if \<not> ve_pruned e then Some (-1, None, s)
      else do {
        (list, s1) \<leftarrow> volume_list e s;
        (case list of
           None \<Rightarrow> Some (-1, None, s1)
         | Some vols \<Rightarrow>
             if length vols \<noteq> 0 then
               (if \<not> ve_array e \<or> length vols > MAX_MEMORY_SIZE div sizeof_ptr then Some (-1, None, s1)
                else do { (pruned, s2) \<leftarrow> prune_loop es 0 (map v_name vols) s1; Some (0, Some pruned, s2) })
             else Some (0, Some [], s1))
      })"

section \<open>The local driver and initialisation\<close>

definition driver_of ::
  "(local_env \<Rightarrow> string \<Rightarrow> 's \<Rightarrow> (volume option \<times> 's) option) \<Rightarrow> (local_env \<Rightarrow> string \<Rightarrow> 's \<Rightarrow> (volume option \<times> 's) option) \<Rightarrow>
   (string \<Rightarrow> int) \<Rightarrow> (string \<Rightarrow> int) \<Rightarrow> (local_env \<Rightarrow> 's \<Rightarrow> (volume list option \<times> 's) option) \<Rightarrow>
   (local_env \<Rightarrow> string \<Rightarrow> 's \<Rightarrow> (int \<times> 's) option) \<Rightarrow> 's volume_driver" where
  "driver_of create get mnt umnt lst rm =
     \<lparr>drv_create = Some create, drv_get = Some get, drv_mount = Some mnt, drv_umount = Some umnt, drv_list = Some lst,
      drv_remove = Some rm\<rparr>"

definition local_driver :: "volumes_info volume_driver" where
  "local_driver = driver_of local_volume_create local_volume_get local_volume_mount local_volume_umount local_volume_list
     local_volume_remove"

text \<open>The return value, the state of the local driver (\<^verbatim>\<open>g_volumes\<close>) and the store.\<close>

definition register_local_volume ::
  "vol_env \<Rightarrow> init_env \<Rightarrow> string option \<Rightarrow> string option \<Rightarrow> volumes_info volume_store \<Rightarrow> (int \<times> volumes_info volume_store) option" where
  "register_local_volume e ie cwd root_dir s =
     (if root_dir = None then Some (-1, s)
      else do {
        r \<leftarrow> util_path_join cwd root_dir (Some LOCAL_VOLUME_ROOT_DIR_NAME);
        (case r of
           None \<Rightarrow> Some (-1, s)
         | Some rdir \<Rightarrow> do {
             (ret, g) \<leftarrow> local_volume_init ie (Some rdir);
             if ret \<noteq> 0 then Some (-1, s)
             else (case g of
                None \<Rightarrow> Some (-1, s)
              | Some g \<Rightarrow> Some (register_driver e (Some LOCAL_VOLUME_DRIVER_NAME) (Some local_driver) (s\<lparr>vs_state := g\<rparr>)))
           })
      })"

definition volume_init ::
  "vol_env \<Rightarrow> init_env \<Rightarrow> string option \<Rightarrow> string option \<Rightarrow> volumes_info \<Rightarrow> (int \<times> volumes_info volume_store option) option" where
  "volume_init e ie cwd root_dir g0 =
     (if \<not> ve_map e then Some (-1, None)
      else do {
        (ret, s) \<leftarrow> register_local_volume e ie cwd root_dir \<lparr>vs_drivers = [], name_refs = [], vs_last = None, vs_state = g0\<rparr>;
        if ret \<noteq> 0 then Some (ret, None) else Some (0, Some s)
      })"

section \<open>Releasing the volumes of a container\<close>

text \<open>A mount point of a container: the volume name, if it is a volume, and whether the user named it.\<close>

record mount_point =
  mp_name :: "string option"
  mp_named :: bool

fun release_loop ::
  "(nat \<Rightarrow> vol_env) \<Rightarrow> nat \<Rightarrow> mount_point list \<Rightarrow> string \<Rightarrow> bool \<Rightarrow> int \<Rightarrow> 's volume_store \<Rightarrow> (int \<times> 's volume_store) option" where
  "release_loop es i [] cid rm ret s = Some (ret, s)"
| "release_loop es i (m # ms) cid rm ret s =
     (case mp_name m of
        None \<Rightarrow> release_loop es (i + 1) ms cid rm ret s
      | Some name \<Rightarrow>
          (case volume_del_ref (Some name) (Some cid) s of
             (r, s1) \<Rightarrow>
               if r \<noteq> 0 then release_loop es (i + 1) ms cid rm (-1) s1
               else if \<not> mp_named m \<and> rm then do {
                 (ret, s2) \<leftarrow> volume_remove (es i) (Some name) s1;
                 release_loop es (i + 1) ms cid rm (if ret \<noteq> 0 \<and> ret \<noteq> VOLUME_ERR_NOT_EXIST then -1 else ret) s2
               }
               else release_loop es (i + 1) ms cid rm ret s1))"

definition release_volumes ::
  "(nat \<Rightarrow> vol_env) \<Rightarrow> mount_point list option \<Rightarrow> string \<Rightarrow> bool \<Rightarrow> 's volume_store \<Rightarrow> (int \<times> 's volume_store) option" where
  "release_volumes es mount_points cid rm s =
     (case mount_points of None \<Rightarrow> Some (0, s) | Some ms \<Rightarrow> release_loop es 0 ms cid rm 0 s)"

section \<open>References of a volume\<close>

definition refs_of :: "bool smap smap \<Rightarrow> string \<Rightarrow> bool smap" where
  "refs_of nr n = (case smap_search nr n of None \<Rightarrow> [] | Some refs \<Rightarrow> refs)"

definition refers :: "bool smap smap \<Rightarrow> string \<Rightarrow> string \<Rightarrow> bool" where
  "refers nr n c \<longleftrightarrow> smap_search (refs_of nr n) c \<noteq> None"

lemma refs_of_update: "smap_search nr n \<noteq> None \<Longrightarrow> refs_of (al_update n v nr) = (refs_of nr)(n := v)"
  unfolding refs_of_def smap_search_def smap_dom by (rule ext) (simp add: map_of_al_update)

lemma refs_of_remove: "refs_of (snd (smap_remove nr n)) = (refs_of nr)(n := [])"
  by (rule ext) (simp add: refs_of_def smap.remove_search)

lemma refs_of_new:
  assumes "smap_insert c k nr n [] = (True, nr1)"
  shows "refs_of nr1 = refs_of nr" "smap_search nr1 n = Some []" "smap_search nr n = None"
proof -
  have s: "smap_search nr1 = (smap_search nr)(n \<mapsto> [])" using smap.insert_search [of c k nr n "[]"] assms by simp
  show "smap_search nr n = None" using smap.insert_fails [of c k nr n "[]"] assms by simp
  with s show "refs_of nr1 = refs_of nr" "smap_search nr1 n = Some []" by (auto simp: refs_of_def fun_eq_iff)
qed

lemma length_al_insert: "length (al_insert cmp k v xs) = length xs + 1"
  by (induction cmp k v xs rule: al_insert.induct) simp_all

lemma ref_insert:
  assumes "smap_insert c k refs d True = (ok, refs1)"
  shows "ok \<Longrightarrow> smap_search refs1 = (smap_search refs)(d \<mapsto> True)" "length refs1 \<le> length refs + 1"
  using smap.insert_search [of c k refs d True] assms
  by (auto simp: smap_insert_def length_al_insert split: if_splits)

text \<open>Adding a reference: the new set of the volume, or a failure.\<close>

lemma add_ref_cases:
  assumes "add_name_ref e nr n c = (ret, nr')"
  obtains (same) "ret = 0" "refs_of nr' = refs_of nr" "refers nr n c"
  | (added) r where "ret = 0" "refs_of nr' = (refs_of nr)(n := r)" "smap_search r = (smap_search (refs_of nr n))(c \<mapsto> True)"
      "length r \<le> length (refs_of nr n) + 1"
  | (failed) "ret = -1" "refs_of nr' = refs_of nr \<or> refs_of nr' = (refs_of nr)(ve_bytes e := [])"
proof -
  have go: thesis if nr1: "refs_of nr1 = refs_of nr" "smap_search nr1 n = Some refs"
    and eq: "(ret, nr') = (if smap_search refs c = None then
           (let (ok, refs1) = smap_insert (ve_rconv e) (ve_rnode e) refs c True
            in if \<not> ok then (-1, if length refs = 0 then snd (smap_remove nr1 (ve_bytes e)) else nr1)
               else (0, al_update n refs1 nr1))
         else (0, nr1))" for nr1 refs
  proof -
    have r: "refs_of nr n = refs" using nr1 by (metis refs_of_def option.case(2))
    obtain ok refs1 where i: "smap_insert (ve_rconv e) (ve_rnode e) refs c True = (ok, refs1)" by fastforce
    consider "smap_search refs c \<noteq> None" | "smap_search refs c = None" ok | "smap_search refs c = None" "\<not> ok" by blast
    then show thesis
    proof cases
      case 1
      then show thesis using eq r nr1 same by (auto simp: refers_def)
    next
      case 2
      then have "ret = 0" "nr' = al_update n refs1 nr1" using eq i by auto
      then show thesis using added [of refs1] refs_of_update [of nr1 n refs1] nr1 ref_insert [OF i] 2 r by auto
    next
      case 3
      then have "ret = -1" "nr' = nr1 \<or> nr' = snd (smap_remove nr1 (ve_bytes e))" using eq i by (auto split: if_splits)
      then show thesis using failed nr1 refs_of_remove [of nr1 "ve_bytes e"] by auto
    qed
  qed
  show thesis
  proof (cases "smap_search nr n")
    case (Some refs)
    then show thesis using go [OF refl Some] assms by (simp add: add_name_ref_def)
  next
    case None
    obtain ok nr1 where i: "smap_insert (ve_conv e) (ve_node e) nr n [] = (ok, nr1)" by fastforce
    show thesis
    proof (cases "ve_map e \<and> ok")
      case True
      with i refs_of_new [of "ve_conv e" "ve_node e" nr n nr1] go [of nr1 "[]"] assms None show thesis
        by (simp add: add_name_ref_def)
    next
      case False
      then have "add_name_ref e nr n c = (-1, nr)" using i None by (cases "ve_map e") (auto simp: add_name_ref_def)
      then show thesis using assms failed by simp
    qed
  qed
qed

lemma del_ref_exact:
  assumes "del_name_ref nr n c = (ret, nr')"
  shows "refers nr' m d \<longleftrightarrow> refers nr m d \<and> \<not> (ret = 0 \<and> m = n \<and> d = c)" "length (refs_of nr' m) \<le> length (refs_of nr m)"
    "ret = 0 \<longleftrightarrow> refs_of nr n = [] \<or> refers nr n c"
proof -
  have "(refers nr' m d \<longleftrightarrow> refers nr m d \<and> \<not> (ret = 0 \<and> m = n \<and> d = c)) \<and> length (refs_of nr' m) \<le> length (refs_of nr m) \<and>
    (ret = 0 \<longleftrightarrow> refs_of nr n = [] \<or> refers nr n c)"
  proof (cases "smap_search nr n")
    case None
    with assms show ?thesis by (auto simp: del_name_ref_def refers_def refs_of_def smap_search_def)
  next
    case (Some refs)
    have r: "refs_of nr n = refs" using Some by (simp add: refs_of_def)
    obtain ok refs1 where i: "smap_remove refs c = (ok, refs1)" by fastforce
    have s: "smap_search refs1 = (smap_search refs)(c := None)" "ok \<longleftrightarrow> smap_search refs c \<noteq> None" "length refs1 \<le> length refs"
      using smap.remove_search [of refs c] smap.remove_fails [of refs c] i
      by (auto simp: smap_remove_def al_remove_def split: if_splits)
    have u: "smap_search (al_update n x nr) n = Some x" for x
      using Some unfolding smap_search_def by (simp add: map_of_al_update smap_dom [symmetric])
    have e: "refs_of (snd (smap_remove (al_update n x nr) n)) = (refs_of nr)(n := [])" for x
      using Some by (simp add: refs_of_remove refs_of_update)
    have f: "fst (smap_remove (al_update n x nr) n)" for x using u smap.remove_fails [of "al_update n x nr" n] by simp
    consider "refs = []" | "refs \<noteq> []" "\<not> ok" | "refs \<noteq> []" ok by blast
    then show ?thesis
    proof cases
      case 1
      then have "ret = 0" "refs_of nr' = (refs_of nr)(n := [])"
        using assms Some f [of "[]"] e [of "[]"] by (auto simp: del_name_ref_def Let_def split: prod.splits)
      then show ?thesis using r 1 by (auto simp: refers_def smap_search_def)
    next
      case 2
      then have "ret = -1" "nr' = nr" using assms Some i by (auto simp: del_name_ref_def)
      then show ?thesis using r 2 s(2) by (auto simp: refers_def)
    next
      case 3
      then have ret: "ret = 0" "refs_of nr' = (refs_of nr)(n := refs1)"
        using assms Some i f [of refs1] e [of refs1] refs_of_update [of nr n refs1]
        by (auto simp: del_name_ref_def Let_def split: prod.splits if_splits)
      then show ?thesis using r 3 s by (auto simp: refers_def)
    qed
  qed
  then show "refers nr' m d \<longleftrightarrow> refers nr m d \<and> \<not> (ret = 0 \<and> m = n \<and> d = c)" "length (refs_of nr' m) \<le> length (refs_of nr m)"
    "ret = 0 \<longleftrightarrow> refs_of nr n = [] \<or> refers nr n c" by auto
qed

section \<open>Sequences of calls\<close>

datatype vol_op =
    VCreate vol_env "string option" "string option" "string option"
  | VMount vol_env "string option"
  | VUmount vol_env "string option"
  | VList vol_env
  | VAddRef vol_env "string option" "string option"
  | VDelRef "string option" "string option"
  | VRemove vol_env "string option"
  | VPrune vol_env "nat \<Rightarrow> vol_env"
  | VRelease "nat \<Rightarrow> vol_env" "mount_point list option" string bool

definition vol_step :: "vol_op \<Rightarrow> 's volume_store \<Rightarrow> 's volume_store option" where
  "vol_step op s =
     (case op of
        VCreate e dn np rp \<Rightarrow> map_option snd (volume_create e dn np rp s)
      | VMount e np \<Rightarrow> map_option snd (volume_mount e np s)
      | VUmount e np \<Rightarrow> map_option snd (volume_umount e np s)
      | VList e \<Rightarrow> map_option snd (volume_list e s)
      | VAddRef e np rp \<Rightarrow> Some (snd (volume_add_ref e np rp s))
      | VDelRef np rp \<Rightarrow> Some (snd (volume_del_ref np rp s))
      | VRemove e np \<Rightarrow> map_option snd (volume_remove e np s)
      | VPrune e es \<Rightarrow> map_option (\<lambda>r. snd (snd r)) (volume_prune e es s)
      | VRelease es ms cid rm \<Rightarrow> map_option snd (release_volumes es ms cid rm s))"

fun vol_run :: "vol_op list \<Rightarrow> 's volume_store \<Rightarrow> 's volume_store option" where
  "vol_run [] s = Some s"
| "vol_run (op # ops) s = do { s1 \<leftarrow> vol_step op s; vol_run ops s1 }"

text \<open>The list of references can be built, and the bytes of a map object do not spell the volume's name.\<close>

definition env_fine :: "string \<Rightarrow> vol_env \<Rightarrow> bool" where
  "env_fine n e \<longleftrightarrow> ve_names e \<and> ve_array e \<and> ve_ritor e \<and> ve_bytes e \<noteq> n"

text \<open>An operation that does not drop the reference of \<open>c\<close> to the volume \<open>n\<close>.\<close>

definition op_spares :: "string \<Rightarrow> string \<Rightarrow> vol_op \<Rightarrow> bool" where
  "op_spares n c op =
     (case op of
        VCreate e dn np rp \<Rightarrow> env_fine n e
      | VAddRef e np rp \<Rightarrow> env_fine n e
      | VDelRef np rp \<Rightarrow> \<not> (np = Some n \<and> rp = Some c)
      | VRemove e np \<Rightarrow> env_fine n e
      | VPrune e es \<Rightarrow> \<forall>i. env_fine n (es i)
      | VRelease es ms cid rm \<Rightarrow> (\<forall>i. env_fine n (es i)) \<and> (cid = c \<longrightarrow> Some n \<notin> mp_name ` set (case ms of None \<Rightarrow> [] | Some l \<Rightarrow> l))
      | _ \<Rightarrow> True)"

lemma name_refs_loop_exact:
  "i = length xs \<Longrightarrow> name_refs_loop ks i (xs @ replicate (length ks) None) = Some (xs @ map Some ks, i + length ks)"
proof (induction ks arbitrary: i xs)
  case (Cons k ks)
  have "write_cell (xs @ replicate (length (k # ks)) None) i (Some k) = Some ((xs @ [Some k]) @ replicate (length ks) None)"
    using Cons.prems by (simp add: write_cell_def)
  with Cons.IH [of "i + 1" "xs @ [Some k]"] Cons.prems show ?case by simp
qed simp

lemma name_refs_listed:
  assumes "refers nr n c" and "env_fine n e" and "length (refs_of nr n) \<le> MAX_MEMORY_SIZE div sizeof_ptr"
  shows "\<exists>arr k. get_name_refs e nr n = Some (Some (arr, Suc k))"
proof -
  have "refs_of nr n \<noteq> []" using assms(1) by (auto simp: refers_def smap_search_def)
  then obtain refs where r: "smap_search nr n = Some refs" "refs \<noteq> []" "refs_of nr n = refs"
    by (auto simp: refs_of_def split: option.splits)
  then have "get_name_refs e nr n = Some (Some (map Some (map fst refs), length refs))"
    using assms(2,3) name_refs_loop_exact [of 0 "[]" "map fst refs"]
    by (simp add: get_name_refs_def empty_volume_names_def env_fine_def)
  with r(2) show ?thesis by (cases refs) auto
qed

section \<open>The contract of a driver\<close>

text \<open>
  What the store relies on: which volumes a driver knows changes only for the volume an operation names, a
  volume is forgotten only by a removal that answers 0, and the operations keep the driver's invariant.
\<close>

locale volume_provider =
  fixes create :: "local_env \<Rightarrow> string \<Rightarrow> 's \<Rightarrow> (volume option \<times> 's) option"
    and get :: "local_env \<Rightarrow> string \<Rightarrow> 's \<Rightarrow> (volume option \<times> 's) option"
    and mnt :: "string \<Rightarrow> int" and umnt :: "string \<Rightarrow> int"
    and lst :: "local_env \<Rightarrow> 's \<Rightarrow> (volume list option \<times> 's) option"
    and rm :: "local_env \<Rightarrow> string \<Rightarrow> 's \<Rightarrow> (int \<times> 's) option"
    and has :: "'s \<Rightarrow> string \<Rightarrow> bool" and ok :: "'s \<Rightarrow> bool"
  assumes get_same: "get e n s = Some (v, s') \<Longrightarrow> s' = s"
    and create_ok: "create e n s = Some (v, s') \<Longrightarrow> ok s \<Longrightarrow> ok s'"
    and create_has: "create e n s = Some (v, s') \<Longrightarrow> ok s \<Longrightarrow> has s m \<Longrightarrow> has s' m"
    and list_ok: "lst e s = Some (vs, s') \<Longrightarrow> ok s \<Longrightarrow> ok s'"
    and list_has: "lst e s = Some (vs, s') \<Longrightarrow> ok s \<Longrightarrow> has s' = has s"
    and rm_ok: "rm e n s = Some (r, s') \<Longrightarrow> ok s \<Longrightarrow> ok s'"
    and rm_has: "rm e n s = Some (r, s') \<Longrightarrow> ok s \<Longrightarrow> m \<noteq> n \<or> r \<noteq> 0 \<Longrightarrow> has s m \<Longrightarrow> has s' m"
begin

abbreviation drv :: "'s volume_driver" where
  "drv \<equiv> driver_of create get mnt umnt lst rm"

abbreviation store_ok :: "'s volume_store \<Rightarrow> bool" where
  "store_ok s \<equiv> (\<forall>d \<in> snd ` set (vs_drivers s). d = drv) \<and> (vs_last s = None \<or> vs_last s = Some drv) \<and> ok (vs_state s)"

text \<open>A reference that keeps a volume: the volume is known and \<open>c\<close> refers to it.\<close>

abbreviation keeps :: "'s volume_store \<Rightarrow> string \<Rightarrow> string \<Rightarrow> bool" where
  "keeps s n c \<equiv> store_ok s \<and> has (vs_state s) n \<and> refers (name_refs s) n c"

lemma lookup_loop_drv:
  assumes "lookup_driver_loop e n ds cur st = Some (d, st')" and "\<forall>x \<in> snd ` set ds. x = drv" and "cur = None \<or> cur = Some drv"
  shows "st' = st \<and> (d = None \<or> d = Some drv)"
  using assms
proof (induction e n ds cur st rule: lookup_driver_loop.induct)
  case (2 e n k x ds cur st)
  then obtain v st1 where g: "get e n st = Some (v, st1)"
    "(if v \<noteq> None then Some (Some x, st1) else lookup_driver_loop e n ds (Some x) st1) = Some (d, st')" "x = drv"
    by (auto simp: driver_of_def bind_eq_Some_conv)
  then have "st1 = st" using get_same by blast
  with 2 g show ?case by (auto simp: driver_of_def split: if_splits)
qed auto

lemma lookup_keeps:
  assumes "lookup_driver_by_volume_name e n s = Some (d, s')" and "store_ok s"
  shows "store_ok s' \<and> vs_state s' = vs_state s \<and> name_refs s' = name_refs s \<and> (d = None \<or> d = Some drv)"
  using assms lookup_loop_drv [of "ve_local e" n "vs_drivers s" "vs_last s" "vs_state s"]
  by (auto simp: lookup_driver_by_volume_name_def bind_eq_Some_conv split: if_splits)

lemma remove_cases:
  assumes "volume_remove e (Some m) s = Some (ret, s')" and "store_ok s"
  obtains (refused) "ret = -1" "store_ok s'" "vs_state s' = vs_state s" "name_refs s' = name_refs s"
  | (removed) st where "rm (ve_local e) m (vs_state s) = Some (ret, st)" "vs_state s' = st" "name_refs s' = name_refs s"
      "vs_drivers s' = vs_drivers s" "vs_last s' = None \<or> vs_last s' = Some drv"
      "\<forall>arr k. get_name_refs e (name_refs s) m \<noteq> Some (Some (arr, Suc k))"
proof -
  obtain d s1 where l: "lookup_driver_by_volume_name e m s = Some (d, s1)"
    using assms(1) by (auto simp: volume_remove_def bind_eq_Some_conv)
  have k: "store_ok s1" "vs_state s1 = vs_state s" "name_refs s1 = name_refs s" "d = None \<or> d = Some drv"
    using lookup_keeps [OF l assms(2)] by blast+
  have dr: "vs_drivers s1 = vs_drivers s"
    using l by (auto simp: lookup_driver_by_volume_name_def bind_eq_Some_conv split: if_splits)
  note eq = assms(1) [unfolded volume_remove_def option.case l Option.bind.simps prod.case k(3)]
  show thesis
  proof (cases d)
    case None
    with eq k refused show thesis by simp
  next
    case (Some d')
    then have d: "d = Some drv" using k(4) by simp
    obtain vns where v: "get_name_refs e (name_refs s) m = Some vns" using eq d by (auto simp: bind_eq_Some_conv)
    show thesis
    proof (cases "case vns of None \<Rightarrow> False | Some (arr, n) \<Rightarrow> n > 0")
      case True
      with eq d v k refused show thesis by simp
    next
      case False
      then have "\<forall>arr k. get_name_refs e (name_refs s) m \<noteq> Some (Some (arr, Suc k))" using v by auto
      moreover obtain st where "rm (ve_local e) m (vs_state s) = Some (ret, st)" "s' = s1\<lparr>vs_state := st\<rparr>"
        using eq d v False k(2) by (auto simp: bind_eq_Some_conv driver_of_def)
      ultimately show thesis using removed [of st] k dr by simp
    qed
  qed
qed

lemma remove_other_or_refused:
  assumes "volume_remove e np s = Some (ret, s')" and "keeps s n c"
    and "np = Some n \<Longrightarrow> \<exists>arr k. get_name_refs e (name_refs s) n = Some (Some (arr, Suc k))"
  shows "keeps s' n c \<and> name_refs s' = name_refs s \<and> (np = Some n \<longrightarrow> ret = -1)"
proof (cases np)
  case (Some m)
  have s: "store_ok s" "has (vs_state s) n" "refers (name_refs s) n c" using assms(2) by blast+
  show ?thesis
  proof (cases rule: remove_cases [OF assms(1) [unfolded Some] s(1)])
    case 1
    with s show ?thesis by simp
  next
    case (2 st)
    then have "m \<noteq> n" using assms(3) Some by auto
    with 2 s rm_ok [OF 2(1)] rm_has [OF 2(1)] Some show ?thesis by simp
  qed
qed (use assms in \<open>auto simp: volume_remove_def\<close>)

text \<open>Each operation that does not drop the reference keeps the volume and the reference.\<close>

abbreviation refs_len :: "'s volume_store \<Rightarrow> string \<Rightarrow> nat" where
  "refs_len s n \<equiv> length (refs_of (name_refs s) n)"

lemma add_ref_keeps:
  assumes "add_name_ref e (name_refs s) m d = (ret, nr)" and "refers (name_refs s) n c" and "ve_bytes e \<noteq> n"
  shows "refers nr n c" "length (refs_of nr n) \<le> refs_len s n + 1"
proof -
  have "refers nr n c \<and> length (refs_of nr n) \<le> refs_len s n + 1"
    by (cases rule: add_ref_cases [OF assms(1)]) (use assms(2,3) in \<open>auto simp: refers_def\<close>)
  then show "refers nr n c" "length (refs_of nr n) \<le> refs_len s n + 1" by auto
qed

lemma create_keeps_ref:
  assumes "volume_create e dn np rp s = Some (v, s')" and "keeps s n c" and "ve_bytes e \<noteq> n"
  shows "keeps s' n c \<and> refs_len s' n \<le> refs_len s n + 1"
proof -
  have s: "store_ok s" "has (vs_state s) n" "refers (name_refs s) n c" using assms(2) by blast+
  show ?thesis
  proof (cases "s' = s")
    case False
    then obtain d name st vol where c: "lookup_driver (the dn) s = Some d" "create (ve_local e) name (vs_state s) = Some (vol, st)"
      "s' = s\<lparr>vs_state := st\<rparr> \<or> (\<exists>ret nr. add_name_ref e (name_refs s) name (the rp) = (ret, nr) \<and> s' = s\<lparr>vs_state := st, name_refs := nr\<rparr>)"
      using assms(1) s(1)
      by (auto simp: volume_create_def bind_eq_Some_conv lookup_driver_def smap_search_def driver_of_def
          split: option.splits if_splits prod.splits dest!: map_of_SomeD)
    have st: "ok st" "has st n" using create_ok [OF c(2)] create_has [OF c(2)] s by auto
    from c(3) show ?thesis
    proof
      assume "s' = s\<lparr>vs_state := st\<rparr>"
      with s st show ?thesis by simp
    next
      assume "\<exists>ret nr. add_name_ref e (name_refs s) name (the rp) = (ret, nr) \<and> s' = s\<lparr>vs_state := st, name_refs := nr\<rparr>"
      then obtain ret nr where "add_name_ref e (name_refs s) name (the rp) = (ret, nr)" "s' = s\<lparr>vs_state := st, name_refs := nr\<rparr>"
        by blast
      with add_ref_keeps [OF _ s(3) assms(3)] s st show ?thesis by simp
    qed
  qed (use s in simp)
qed

lemma prune_loop_keeps:
  assumes "prune_loop es i ns s = Some (p, s')" and "keeps s n c" and "\<forall>i. env_fine n (es i)"
    and "refs_len s n \<le> MAX_MEMORY_SIZE div sizeof_ptr"
  shows "keeps s' n c \<and> name_refs s' = name_refs s \<and> n \<notin> set p"
  using assms
proof (induction ns arbitrary: i s p)
  case (Cons m ns)
  obtain ret s1 p1 where r: "volume_remove (es i) (Some m) s = Some (ret, s1)" "prune_loop es (i + 1) ns s1 = Some (p1, s')"
    "p = (if ret \<noteq> 0 then p1 else m # p1)" using Cons.prems(1) by (auto simp: bind_eq_Some_conv)
  have "refers (name_refs s) n c" using Cons.prems(2) by blast
  then have "\<exists>arr k. get_name_refs (es i) (name_refs s) n = Some (Some (arr, Suc k))"
    using name_refs_listed Cons.prems(3,4) by blast
  then have k: "keeps s1 n c" "name_refs s1 = name_refs s" "m = n \<longrightarrow> ret = -1"
    using remove_other_or_refused [OF r(1) Cons.prems(2)] by blast+
  from Cons.IH [OF r(2) k(1) Cons.prems(3)] Cons.prems(4) k(2,3) r(3) show ?case by auto
qed auto

lemma del_ref_keeps:
  assumes "volume_del_ref np rp s = (ret, s')" and "keeps s n c" and "\<not> (np = Some n \<and> rp = Some c)"
  shows "keeps s' n c \<and> refs_len s' n \<le> refs_len s n"
proof (cases "np = None \<or> rp = None")
  case False
  then obtain m d nr where d: "np = Some m" "rp = Some d" "del_name_ref (name_refs s) m d = (ret, nr)" "s' = s\<lparr>name_refs := nr\<rparr>"
    using assms(1) by (auto simp: volume_del_ref_def split: prod.splits)
  have s: "store_ok s" "has (vs_state s) n" "refers (name_refs s) n c" using assms(2) by blast+
  then show ?thesis using del_ref_exact(1) [OF d(3), of n c] del_ref_exact(2) [OF d(3), of n] d assms(3) by auto
qed (use assms in \<open>auto simp: volume_del_ref_def split: option.splits\<close>)

lemma release_loop_keeps:
  assumes "release_loop es i ms cid rmv ret s = Some (ret', s')" and "keeps s n c" and "\<forall>i. env_fine n (es i)"
    and "refs_len s n \<le> MAX_MEMORY_SIZE div sizeof_ptr" and "cid = c \<longrightarrow> Some n \<notin> mp_name ` set ms"
  shows "keeps s' n c \<and> refs_len s' n \<le> refs_len s n"
  using assms
proof (induction ms arbitrary: i ret s)
  case (Cons m ms)
  note IH = Cons.IH [OF _ _ Cons.prems(3)]
  have cm: "cid = c \<longrightarrow> Some n \<notin> mp_name ` set ms" using Cons.prems(5) by auto
  show ?case
  proof (cases "mp_name m")
    case None
    with IH [OF _ Cons.prems(2,4) cm] Cons.prems(1) show ?thesis by simp
  next
    case (Some name)
    obtain r s1 where d: "volume_del_ref (Some name) (Some cid) s = (r, s1)" by fastforce
    have k: "keeps s1 n c" "refs_len s1 n \<le> refs_len s n"
      using del_ref_keeps [OF d Cons.prems(2)] Cons.prems(5) Some by force+
    have l: "refs_len s1 n \<le> MAX_MEMORY_SIZE div sizeof_ptr" using k(2) Cons.prems(4) by simp
    show ?thesis
    proof (cases "r = 0 \<and> \<not> mp_named m \<and> rmv")
      case False
      then obtain ret1 where "release_loop es (i + 1) ms cid rmv ret1 s1 = Some (ret', s')"
        using Cons.prems(1) Some d by (auto split: if_splits)
      with IH [OF _ k(1) l cm] k(2) show ?thesis by fastforce
    next
      case True
      then obtain r2 s2 ret1 where r: "volume_remove (es i) (Some name) s1 = Some (r2, s2)"
        "release_loop es (i + 1) ms cid rmv ret1 s2 = Some (ret', s')"
        using Cons.prems(1) Some d by (auto simp: bind_eq_Some_conv)
      have "refers (name_refs s1) n c" using k(1) by blast
      then have "\<exists>arr k. get_name_refs (es i) (name_refs s1) n = Some (Some (arr, Suc k))"
        using name_refs_listed Cons.prems(3) l by blast
      then have k2: "keeps s2 n c" "name_refs s2 = name_refs s1"
        using remove_other_or_refused [OF r(1) k(1)] by blast+
      with IH [OF r(2) k2(1) _ cm] l k(2) show ?thesis by fastforce
    qed
  qed
qed auto

lemma lookup_op_keeps:
  assumes "volume_mount e np s = Some (ret, s') \<or> volume_umount e np s = Some (ret, s')" and "keeps s n c"
  shows "keeps s' n c \<and> name_refs s' = name_refs s"
proof (cases "s' = s")
  case False
  then obtain m d where "lookup_driver_by_volume_name e m s = Some (d, s')"
    using assms(1) by (auto simp: volume_mount_def volume_umount_def bind_eq_Some_conv split: option.splits)
  from lookup_keeps [OF this] assms(2) show ?thesis by auto
qed (use assms(2) in simp)

lemma list_op_keeps:
  assumes "volume_list e s = Some (l, s')" and "keeps s n c"
  shows "keeps s' n c \<and> name_refs s' = name_refs s"
proof -
  have s: "store_ok s" "has (vs_state s) n" "refers (name_refs s) n c" using assms(2) by blast+
  have "s' = s \<or> (\<exists>st vs. lst (ve_local e) (vs_state s) = Some (vs, st) \<and> s' = s\<lparr>vs_state := st\<rparr>)"
    using assms(1) s(1) by (auto simp: volume_list_def list_all_driver_volumes_def bind_eq_Some_conv driver_of_def
        split: if_splits list.splits)
  then show ?thesis using s list_ok list_has by auto
qed

lemma prune_keeps:
  assumes "volume_prune e es s = Some (ret, p, s')" and "keeps s n c" and "\<forall>i. env_fine n (es i)"
    and "refs_len s n \<le> MAX_MEMORY_SIZE div sizeof_ptr"
  shows "keeps s' n c \<and> name_refs s' = name_refs s"
proof (cases "ve_pruned e")
  case True
  then obtain l s1 where l: "volume_list e s = Some (l, s1)"
    using assms(1) by (auto simp: volume_prune_def bind_eq_Some_conv)
  have k: "keeps s1 n c" "name_refs s1 = name_refs s" using list_op_keeps [OF l assms(2)] by blast+
  note eq = assms(1) [unfolded volume_prune_def l Option.bind.simps prod.case]
  show ?thesis
  proof (cases "s' = s1")
    case False
    then obtain vols :: "volume list" and pr where "prune_loop es 0 (map v_name vols) s1 = Some (pr, s')"
      using eq True by (cases l) (auto simp: bind_eq_Some_conv split: if_splits)
    from prune_loop_keeps [OF this k(1) assms(3)] k(2) assms(4) show ?thesis by auto
  qed (use k in simp)
qed (use assms(1,2) in \<open>simp add: volume_prune_def\<close>)

lemma step_keeps:
  assumes "vol_step op s = Some s'" and "keeps s n c" and "op_spares n c op" and "refs_len s n \<le> MAX_MEMORY_SIZE div sizeof_ptr"
  shows "keeps s' n c \<and> refs_len s' n \<le> refs_len s n + 1"
proof (cases op)
  case (VCreate e dn np rp)
  then obtain v where "volume_create e dn np rp s = Some (v, s')" using assms(1) by (auto simp: vol_step_def)
  from create_keeps_ref [OF this assms(2)] VCreate assms(3) show ?thesis by (simp add: op_spares_def env_fine_def)
next
  case (VMount e np)
  then obtain ret where "volume_mount e np s = Some (ret, s')" using assms(1) by (auto simp: vol_step_def)
  from lookup_op_keeps [OF disjI1 [OF this] assms(2)] show ?thesis by auto
next
  case (VUmount e np)
  then obtain ret where "volume_umount e np s = Some (ret, s')" using assms(1) by (auto simp: vol_step_def)
  from lookup_op_keeps [OF disjI2 [OF this] assms(2)] show ?thesis by auto
next
  case (VList e)
  then obtain l where "volume_list e s = Some (l, s')" using assms(1) by (auto simp: vol_step_def)
  from list_op_keeps [OF this assms(2)] show ?thesis by auto
next
  case (VAddRef e np rp)
  have s: "store_ok s" "has (vs_state s) n" "refers (name_refs s) n c" using assms(2) by blast+
  have b: "ve_bytes e \<noteq> n" using assms(3) VAddRef by (simp add: op_spares_def env_fine_def)
  show ?thesis
  proof (cases "np = None \<or> rp = None")
    case False
    then obtain m d ret nr where "add_name_ref e (name_refs s) m d = (ret, nr)" "s' = s\<lparr>name_refs := nr\<rparr>"
      using assms(1) VAddRef by (auto simp: vol_step_def volume_add_ref_def split: prod.splits)
    with add_ref_keeps [OF _ s(3) b] s show ?thesis by simp
  qed (use assms(1,2) VAddRef in \<open>auto simp: vol_step_def volume_add_ref_def split: option.splits\<close>)
next
  case (VDelRef np rp)
  obtain ret s1 where d: "volume_del_ref np rp s = (ret, s1)" by fastforce
  with assms(1) VDelRef have "s' = s1" by (simp add: vol_step_def)
  with del_ref_keeps [OF d assms(2)] assms(3) VDelRef show ?thesis by (auto simp: op_spares_def)
next
  case (VRemove e np)
  then obtain ret where r: "volume_remove e np s = Some (ret, s')" using assms(1) by (auto simp: vol_step_def)
  have "refers (name_refs s) n c" using assms(2) by blast
  then have "\<exists>arr k. get_name_refs e (name_refs s) n = Some (Some (arr, Suc k))"
    using name_refs_listed assms(3,4) VRemove by (auto simp: op_spares_def)
  from remove_other_or_refused [OF r assms(2) this] show ?thesis by auto
next
  case (VPrune e es)
  then obtain ret p where "volume_prune e es s = Some (ret, p, s')" using assms(1) by (auto simp: vol_step_def)
  from prune_keeps [OF this assms(2) _ assms(4)] VPrune assms(3) show ?thesis by (auto simp: op_spares_def)
next
  case (VRelease es ms cid rmv)
  show ?thesis
  proof (cases ms)
    case (Some l)
    then obtain ret where "release_loop es 0 l cid rmv 0 s = Some (ret, s')"
      using assms(1) VRelease by (auto simp: vol_step_def release_volumes_def)
    from release_loop_keeps [OF this assms(2) _ assms(4)] VRelease Some assms(3) show ?thesis by (simp add: op_spares_def)
  qed (use assms(1,2) VRelease in \<open>simp add: vol_step_def release_volumes_def\<close>)
qed

lemma run_keeps:
  assumes "vol_run ops s = Some s'" and "keeps s n c" and "list_all (op_spares n c) ops"
    and "refs_len s n + length ops \<le> MAX_MEMORY_SIZE div sizeof_ptr"
  shows "keeps s' n c"
  using assms
proof (induction ops arbitrary: s)
  case (Cons op ops)
  then obtain s1 where s1: "vol_step op s = Some s1" "vol_run ops s1 = Some s'" by (auto simp: bind_eq_Some_conv)
  have k: "keeps s1 n c" "refs_len s1 n \<le> refs_len s n + 1"
    using step_keeps [OF s1(1) Cons.prems(2)] Cons.prems(3,4) by auto
  from Cons.IH [OF s1(2) k(1)] k(2) Cons.prems(3,4) show ?case by simp
qed simp

end

interpretation local_vol: volume_provider local_volume_create local_volume_get local_volume_mount local_volume_umount
  local_volume_list local_volume_remove "\<lambda>g n. known g n" volumes_ok
proof
  show "local_volume_get e n s = Some (v, s') \<Longrightarrow> s' = s" for e n s v s' by (rule get_result(1))
qed (auto dest: create_result list_result remove_result)

section \<open>Properties\<close>

text \<open>
  C5. A volume in use is never removed. In a store whose drivers are the local driver, a volume that some
  container refers to stays known, and the reference stays, through every sequence of creations, mounts,
  listings, added and dropped references, removals, prunings and releases by other containers; only
  dropping that very reference can change this. The lists of references must be allocatable.
\<close>

theorem used_volume_survives:
  assumes "\<forall>d \<in> snd ` set (vs_drivers s). d = local_driver" and "vs_last s = None \<or> vs_last s = Some local_driver"
    and "volumes_ok (vs_state s)" and "known (vs_state s) n" and "refers (name_refs s) n c"
    and "list_all (op_spares n c) ops" and "length (refs_of (name_refs s) n) + length ops \<le> MAX_MEMORY_SIZE div sizeof_ptr"
    and "vol_run ops s = Some s'"
  shows "known (vs_state s') n \<and> refers (name_refs s') n c \<and> volumes_ok (vs_state s')"
  using local_vol.run_keeps [of ops s s' n c] assms unfolding local_driver_def by blast

definition quiet_vol :: vol_env where
  "quiet_vol = \<lparr>ve_local = quiet_local, ve_dup = True, ve_conv = True, ve_node = True, ve_map = True, ve_rconv = True,
     ve_rnode = True, ve_bytes = [], ve_itor = True, ve_names = True, ve_array = True, ve_ritor = True, ve_random = Some ''r1'',
     ve_pruned = True\<rparr>"

definition demo_volumes :: "volumes_info" where
  "demo_volumes = \<lparr>vi_root = ''/v'', vi_locked = False,
     vols_by_name = [(''db'', \<lparr>v_driver = None, v_name = ''db'', v_path = data_path ''/v'' ''db'', v_mount_point = None\<rparr>)],
     vi_disk = [data_path ''/v'' ''db'']\<rparr>"

definition demo_vstore :: "volumes_info volume_store" where
  "demo_vstore = \<lparr>vs_drivers = [(''local'', local_driver)], name_refs = [(''db'', [(''c1'', True)])], vs_last = None,
     vs_state = demo_volumes\<rparr>"

lemma db_name: "util_valid_volume_name (Some ''db'')"
  unfolding valid_volume_iff by (intro exI [of _ "CHR ''d''"] exI [of _ "''b''"]) (simp add: between_def, code_simp)

lemma demo_volumes_ok: "volumes_ok demo_volumes"
proof -
  have "clean_root ''/v''" by code_simp
  then show ?thesis using db_name
    by (auto simp: volumes_ok_def demo_volumes_def smap_search_def smap_ok_def no_nul_def split: if_splits)
qed

theorem used_volume_survives_witness:
  "\<exists>s'. vol_run [VAddRef quiet_vol (Some ''db'') (Some ''c2''), VRemove quiet_vol (Some ''db''), VDelRef (Some ''db'') (Some ''c2'')]
      demo_vstore = Some s' \<and> known (vs_state s') ''db'' \<and> refers (name_refs s') ''db'' ''c1''"
proof -
  let ?ops = "[VAddRef quiet_vol (Some ''db'') (Some ''c2''), VRemove quiet_vol (Some ''db''), VDelRef (Some ''db'') (Some ''c2'')]"
  have r: "\<exists>s'. vol_run ?ops demo_vstore = Some s'"
    using db_name
    by (simp add: vol_step_def volume_add_ref_def add_name_ref_def demo_vstore_def smap_search_def smap_insert_def quiet_vol_def
        al_update_def char_signed_def volume_remove_def lookup_driver_by_volume_name_def local_driver_def driver_of_def
        local_volume_get_def demo_volumes_def dup_volume_def quiet_local_def get_name_refs_def empty_volume_names_def
        MAX_MEMORY_SIZE_def sizeof_ptr_def write_cell_def)
  then obtain s' where s': "vol_run ?ops demo_vstore = Some s'" by blast
  have "refers (name_refs demo_vstore) ''db'' ''c1''" "known (vs_state demo_vstore) ''db''"
    by (simp_all add: demo_vstore_def refers_def refs_of_def smap_search_def demo_volumes_def)
  moreover have "list_all (op_spares ''db'' ''c1'') ?ops" by (simp add: op_spares_def env_fine_def quiet_vol_def)
  moreover have "volumes_ok (vs_state demo_vstore)" using demo_volumes_ok by (simp add: demo_vstore_def)
  ultimately show ?thesis using used_volume_survives [of demo_vstore "''db''" "''c1''" ?ops s'] s'
    by (auto simp: demo_vstore_def refs_of_def smap_search_def MAX_MEMORY_SIZE_def sizeof_ptr_def)
qed

text \<open>
  Without that hypothesis the check is lost: when the list of references cannot be allocated
  \<^verbatim>\<open>volume_remove\<close> takes the volume for unused and removes it.
\<close>

lemma removed_while_used:
  assumes "\<not> ve_names e" and "ve_itor e" and "le_rm_data (ve_local e) = 0" and "le_rm_dir (ve_local e) = 0"
  shows "\<exists>s'. volume_remove e (Some ''db'') demo_vstore = Some (0, s') \<and> \<not> known (vs_state s') ''db'' \<and>
    refers (name_refs s') ''db'' ''c1''"
proof -
  obtain r g' where rm: "volume_remove_nolock (ve_local e) ''db'' demo_volumes = (r, g')" by fastforce
  note k = remove_keeps [OF demo_volumes_ok db_name rm]
  have "known demo_volumes ''db''" by (simp add: demo_volumes_def smap_search_def)
  then have r0: "r = 0" using k(5) assms by simp
  have "local_volume_remove (ve_local e) ''db'' demo_volumes = Some (0, g')"
    using db_name rm r0 by (simp add: local_volume_remove_def demo_volumes_def)
  moreover have "smap_search (vols_by_name g') ''db'' = None" using k(4) r0 by simp
  then have "map_of (vols_by_name g') ''db'' = None" by (simp add: smap_search_def)
  ultimately show ?thesis using assms db_name
    by (auto simp: volume_remove_def lookup_driver_by_volume_name_def demo_vstore_def local_driver_def driver_of_def
        get_name_refs_def empty_volume_names_def refers_def refs_of_def smap_search_def bind_eq_Some_conv local_volume_get_def
        demo_volumes_def dup_volume_def)
qed

text \<open>Initialisation gives a store that satisfies the hypotheses above.\<close>

lemma volume_init_store:
  assumes "volume_init e ie cwd (Some rdir) g0 = Some (0, Some s)" and "\<forall>n. kernel_ok (ie_path ie n)" and "clean_root rdir" and "cwd_ok cwd"
  shows "vs_drivers s = [(LOCAL_VOLUME_DRIVER_NAME, local_driver)]" "vs_last s = None" "volumes_ok (vs_state s)" "name_refs s = []"
proof -
  have v: "valid_comp LOCAL_VOLUME_ROOT_DIR_NAME" by code_simp
  note j = path_join_clean [OF assms(3) v assms(4)]
  let ?s0 = "\<lparr>vs_drivers = [], name_refs = [], vs_last = None, vs_state = g0\<rparr>"
  obtain ret g where i: "local_volume_init ie (Some (rdir @ ''/'' @ LOCAL_VOLUME_ROOT_DIR_NAME)) = Some (ret, g)"
    "ret = 0 \<longleftrightarrow> g \<noteq> None" "\<forall>g'. g = Some g' \<longrightarrow> volumes_ok g'" using init_keeps [OF assms(2) j(2)] by blast
  obtain g' where g': "g = Some g'" "(0, s) = register_driver e (Some LOCAL_VOLUME_DRIVER_NAME) (Some local_driver) (?s0\<lparr>vs_state := g'\<rparr>)"
    using assms(1) j(1) i(1,2)
    by (auto simp: volume_init_def register_local_volume_def bind_eq_Some_conv split: if_splits option.splits)
  then have "vs_drivers s = [(LOCAL_VOLUME_DRIVER_NAME, local_driver)] \<and> vs_last s = None \<and> vs_state s = g' \<and> name_refs s = []"
    by (auto simp: register_driver_def lookup_driver_def insert_driver_def smap_insert_def smap_search_def
        split: if_splits)
  with i(3) g'(1) show "vs_drivers s = [(LOCAL_VOLUME_DRIVER_NAME, local_driver)]" "vs_last s = None" "volumes_ok (vs_state s)"
    "name_refs s = []" by auto
qed

text \<open>A removal never touches the references.\<close>

lemma remove_refs:
  assumes "volume_remove e np s = Some (ret, s')"
  shows "name_refs s' = name_refs s"
proof (cases np)
  case (Some m)
  obtain d s1 where l: "lookup_driver_by_volume_name e m s = Some (d, s1)"
    using assms Some by (auto simp: volume_remove_def bind_eq_Some_conv)
  have "name_refs s1 = name_refs s"
    using l by (auto simp: lookup_driver_by_volume_name_def bind_eq_Some_conv split: if_splits)
  moreover have "\<exists>st. s' = s1 \<or> s' = s1\<lparr>vs_state := st\<rparr>"
    using assms unfolding volume_remove_def Some option.case l Option.bind.simps prod.case
    by (cases d) (auto simp: bind_eq_Some_conv split: if_split_asm)
  ultimately show ?thesis by auto
qed (use assms in \<open>simp add: volume_remove_def\<close>)

text \<open>After a release the container refers to none of its volumes, whatever the steps answered.\<close>

lemma release_loop_drops:
  assumes "release_loop es i ms cid rmv ret s = Some (ret', s')"
  shows "refers (name_refs s') n d \<longleftrightarrow> refers (name_refs s) n d \<and> \<not> (d = cid \<and> Some n \<in> mp_name ` set ms)"
  using assms
proof (induction ms arbitrary: i ret s)
  case (Cons m ms)
  show ?case
  proof (cases "mp_name m")
    case None
    with Cons show ?thesis by auto
  next
    case (Some name)
    obtain r nr where dn: "del_name_ref (name_refs s) name cid = (r, nr)" by fastforce
    define s1 where "s1 = s\<lparr>name_refs := nr\<rparr>"
    have d: "volume_del_ref (Some name) (Some cid) s = (r, s1)" using dn by (simp add: volume_del_ref_def s1_def)
    have r1: "refers nr n d \<longleftrightarrow> refers (name_refs s) n d \<and> \<not> (n = name \<and> d = cid)"
      using del_ref_exact(1) [OF dn, of n d] del_ref_exact(3) [OF dn] by (auto simp: refers_def smap_search_def)
    obtain ret1 s2 j where n2: "release_loop es j ms cid rmv ret1 s2 = Some (ret', s')" "name_refs s2 = nr"
      using Cons.prems Some d
      by (auto simp: bind_eq_Some_conv s1_def dest: remove_refs split: if_splits)
    from Cons.IH [OF n2(1)] n2(2) r1 Some show ?thesis by auto
  qed
qed simp

end
