(* ===== verification/Layer_Store.thy ===== *)
theory Layer_Store
  imports Utils_Path Util_Atomic
begin

text \<open>
  The store of image and container layers: \<^verbatim>\<open>src/daemon/modules/image/oci/storage/layer_store/layer_store.c\<close> and
  \<^verbatim>\<open>layer.c\<close>. A layer is an object on the heap \<open>layers\<close> with a reference count; the store keeps a list of them
  and four maps, by id, by name and by both digests. An access to an address outside the heap is a use
  after free, and \<open>None\<close> of the option monad.

  What the code asks of the world is the \<open>layer_env\<close> of each call: \<open>lv_mem\<close> says which allocations, locks and
  clock readings succeed, \<open>lv_ret\<close> the result of each call that leaves a trace outside (the graph driver, the
  file system). Such calls are recorded with their result in \<open>effects\<close>, in the order they are made. The
  model is the default build, without \<^verbatim>\<open>ENABLE_REMOTE_LAYER_STORE\<close>.
\<close>

section \<open>Data\<close>

record storage_layer =
  sl_id :: string
  sl_parent :: "string option"
  sl_writable :: bool
  sl_mountlabel :: "string option"
  sl_created :: "string option"
  sl_names :: "string list"
  sl_diff_digest :: "string option"
  sl_compressed_diff_digest :: "string option"
  sl_diff_size :: int
  sl_compressed_size :: int
  sl_incompelte :: bool

record storage_mount_point =
  mp_path :: "string option"
  mp_count :: int

record layer_t =
  layer_json_path :: "string option"
  slayer :: "storage_layer option"
  mount_point_json_path :: "string option"
  smount_point :: "storage_mount_point option"
  hold_refs_num :: int
  l_refcnt :: nat

record digest_layer_t =
  layer_list :: "string list"
  layer_list_len :: nat

record layer_store_mount_opts =
  lo_mount_label :: "string option"
  lo_mount_opts :: "(string \<times> string) list option"

record layer_opts =
  lo_parent :: "string option"
  lo_names :: "string list"
  lo_writable :: bool
  lo_uncompressed_digest :: "string option"
  lo_compressed_digest :: "string option"
  lo_opts :: "layer_store_mount_opts option"

text \<open>What leaves a trace outside the process.\<close>

datatype layer_effect =
    Drv_Create string "string option" bool
  | Drv_Rm string
  | Drv_Apply string
  | Drv_Mount string
  | Drv_Umount string
  | Drv_Repair string "string option"
  | Mk_Dir string
  | Rm_Dir string
  | Rm_File string
  | Touch string
  | Split string
  | Gzip string string
  | Save_Layer string storage_layer
  | Save_Mount string storage_mount_point

text \<open>The allocations and other internal calls that can fail; a digest site says whether it is the map of compressed digests.\<close>

datatype mem_site =
    M_Lock
  | M_Path string
  | M_Storage_Opt
  | M_Storage_Entry nat
  | M_Layer
  | M_Mutex
  | M_Slayer
  | M_Clock
  | M_Names
  | M_Item
  | M_Map_Id
  | M_Map_Name nat
  | M_Digest_Item bool
  | M_Digest_List bool
  | M_Map_Digest bool
  | M_Json
  | M_Mount_Json
  | M_Mount_Point
  | M_Metadata
  | M_Mount_Opts
  | M_Array
  | M_Array_Item nat

record layer_env =
  lv_mem :: "mem_site \<Rightarrow> bool"
  lv_ret :: "layer_effect \<Rightarrow> int"
  lv_exists :: "string \<Rightarrow> bool"
  lv_in_driver :: "string \<Rightarrow> bool"
  lv_addr :: addr
  lv_now :: string
  lv_size :: int
  lv_merged :: "string option option"
  lv_mount :: string

record layer_store_metadata =
  layers :: "addr \<rightharpoonup> layer_t"
  by_id :: "addr smap"
  by_name :: "addr smap"
  by_compress_digest :: "digest_layer_t smap"
  by_uncompress_digest :: "digest_layer_t smap"
  layers_list :: "addr list"
  layers_list_len :: nat
  g_root_dir :: string
  g_run_dir :: string
  effects :: "(layer_effect \<times> int) list"

type_synonym lstore = layer_store_metadata

definition put_layer :: "addr \<Rightarrow> layer_t \<Rightarrow> lstore \<Rightarrow> lstore" where
  "put_layer a l st = st\<lparr>layers := (layers st)(a \<mapsto> l)\<rparr>"

definition ext :: "layer_env \<Rightarrow> layer_effect \<Rightarrow> lstore \<Rightarrow> int \<times> lstore" where
  "ext e c st = (lv_ret e c, st\<lparr>effects := effects st @ [(c, lv_ret e c)]\<rparr>)"

text \<open>\<^verbatim>\<open>size_t\<close> decrement.\<close>

definition size_dec :: "nat \<Rightarrow> nat" where
  "size_dec n = (if n = 0 then SIZE_MAX else n - 1)"

text \<open>\<^verbatim>\<open>asprintf\<close> of a path, refused when it is longer than \<open>PATH_MAX\<close>.\<close>

definition asprintf_path :: "layer_env \<Rightarrow> string \<Rightarrow> string option" where
  "asprintf_path e s = (if \<not> lv_mem e (M_Path s) \<or> length s > PATH_MAX then None else Some s)"

definition tar_split_tmp_path :: "layer_env \<Rightarrow> string \<Rightarrow> lstore \<Rightarrow> string option" where
  "tar_split_tmp_path e lid st = asprintf_path e (g_root_dir st @ ''/'' @ lid @ ''/'' @ lid @ ''.tar-split'')"

definition tar_split_path :: "layer_env \<Rightarrow> string \<Rightarrow> lstore \<Rightarrow> string option" where
  "tar_split_path e lid st = asprintf_path e (g_root_dir st @ ''/'' @ lid @ ''/'' @ lid @ ''.tar-split.gz'')"

definition layer_json_path_of :: "layer_env \<Rightarrow> string \<Rightarrow> lstore \<Rightarrow> string option" where
  "layer_json_path_of e lid st = asprintf_path e (g_root_dir st @ ''/'' @ lid @ ''/layer.json'')"

definition mountpoint_json_path :: "layer_env \<Rightarrow> string \<Rightarrow> lstore \<Rightarrow> string option" where
  "mountpoint_json_path e lid st = asprintf_path e (g_run_dir st @ ''/'' @ lid @ ''.json'')"

section \<open>Layer objects\<close>

definition empty_layer :: layer_t where
  "empty_layer = \<lparr>layer_json_path = None, slayer = None, mount_point_json_path = None, smount_point = None,
     hold_refs_num = 0, l_refcnt = 1\<rparr>"

text \<open>When the mutex cannot be initialised the object is freed again.\<close>

definition create_empty_layer :: "layer_env \<Rightarrow> lstore \<Rightarrow> addr option \<times> lstore" where
  "create_empty_layer e st =
     (if \<not> lv_mem e M_Layer then (None, st)
      else if \<not> lv_mem e M_Mutex then (None, st)
      else (Some (lv_addr e), put_layer (lv_addr e) empty_layer st))"

definition layer_ref_inc :: "addr option \<Rightarrow> lstore \<Rightarrow> lstore option" where
  "layer_ref_inc p st =
     (case p of
        None \<Rightarrow> Some st
      | Some a \<Rightarrow> do {
          l \<leftarrow> layers st a;
          Some (put_layer a (l\<lparr>l_refcnt := snd (atomic_int_inc (l_refcnt l))\<rparr>) st)
        })"

text \<open>\<^verbatim>\<open>free_layer_t\<close> runs on the last reference: the address leaves the heap.\<close>

definition layer_ref_dec :: "addr option \<Rightarrow> lstore \<Rightarrow> lstore option" where
  "layer_ref_dec p st =
     (case p of
        None \<Rightarrow> Some st
      | Some a \<Rightarrow> do {
          l \<leftarrow> layers st a;
          let (is_zero, n) = atomic_int_dec_test (l_refcnt l);
          Some (if is_zero then st\<lparr>layers := (layers st)(a := None)\<rparr> else put_layer a (l\<lparr>l_refcnt := n\<rparr>) st)
        })"

definition save_layer :: "layer_env \<Rightarrow> addr \<Rightarrow> lstore \<Rightarrow> (int \<times> lstore) option" where
  "save_layer e a st = do {
     l \<leftarrow> layers st a;
     Some (case (layer_json_path l, slayer l) of
             (Some p, Some s) \<Rightarrow> if \<not> lv_mem e M_Json then (-1, st) else ext e (Save_Layer p s) st
           | _ \<Rightarrow> (-1, st))
   }"

definition save_mount_point :: "layer_env \<Rightarrow> addr \<Rightarrow> lstore \<Rightarrow> (int \<times> lstore) option" where
  "save_mount_point e a st = do {
     l \<leftarrow> layers st a;
     Some (case (mount_point_json_path l, smount_point l) of
             (Some p, Some m) \<Rightarrow> if \<not> lv_mem e M_Mount_Json then (-1, st) else ext e (Save_Mount p m) st
           | _ \<Rightarrow> (-1, st))
   }"

section \<open>The list and the maps\<close>

definition insert_g_layer_list_item :: "addr \<Rightarrow> lstore \<Rightarrow> lstore" where
  "insert_g_layer_list_item a st = st\<lparr>layers_list := layers_list st @ [a], layers_list_len := layers_list_len st + 1\<rparr>"

definition append_layer_into_list :: "layer_env \<Rightarrow> addr \<Rightarrow> lstore \<Rightarrow> bool \<times> lstore" where
  "append_layer_into_list e a st =
     (if \<not> lv_mem e M_Item then (False, st) else (True, insert_g_layer_list_item a st))"

text \<open>The item at position \<open>i\<close>; \<open>rm_val\<close> drops the reference the list holds.\<close>

definition delete_g_layer_list_item :: "nat \<Rightarrow> bool \<Rightarrow> lstore \<Rightarrow> lstore option" where
  "delete_g_layer_list_item i rm_val st =
     (let a = layers_list st ! i;
          st1 = st\<lparr>layers_list := take i (layers_list st) @ drop (Suc i) (layers_list st)\<rparr>
      in do {
        st2 \<leftarrow> (if rm_val then layer_ref_dec (Some a) st1 else Some st1);
        Some (st2\<lparr>layers_list_len := size_dec (layers_list_len st2)\<rparr>)
      })"

definition remove_layer_list_tail :: "lstore \<Rightarrow> lstore option" where
  "remove_layer_list_tail st =
     (if layers_list st = [] then Some st
      else delete_g_layer_list_item (length (layers_list st) - 1) False st)"

definition delete_digest_from_map ::
  "digest_layer_t smap \<Rightarrow> string option \<Rightarrow> string \<Rightarrow> int \<times> digest_layer_t smap" where
  "delete_digest_from_map m digest lid =
     (case digest of
        None \<Rightarrow> (0, m)
      | Some d \<Rightarrow>
          (case smap_search m d of
             None \<Rightarrow> (0, m)
           | Some old \<Rightarrow>
               (let old' = (if lid \<in> set (layer_list old)
                            then \<lparr>layer_list = remove1 lid (layer_list old), layer_list_len = size_dec (layer_list_len old)\<rparr>
                            else old);
                    m1 = al_update d old' m
                in (0, if layer_list_len old' = 0 then snd (smap_remove m1 d) else m1))))"

definition insert_new_digest_list ::
  "layer_env \<Rightarrow> bool \<Rightarrow> digest_layer_t smap \<Rightarrow> string \<Rightarrow> string \<Rightarrow> int \<times> digest_layer_t smap" where
  "insert_new_digest_list e k m d lid =
     (if \<not> lv_mem e (M_Digest_List k) then (-1, m)
      else (let (ok, m') = smap_insert (lv_mem e (M_Map_Digest k)) True m d \<lparr>layer_list = [lid], layer_list_len = 1\<rparr>
            in if \<not> ok then (-1, m') else (0, m')))"

definition insert_digest_into_map ::
  "layer_env \<Rightarrow> bool \<Rightarrow> digest_layer_t smap \<Rightarrow> string option \<Rightarrow> string \<Rightarrow> int \<times> digest_layer_t smap" where
  "insert_digest_into_map e k m digest lid =
     (case digest of
        None \<Rightarrow> (0, m)
      | Some d \<Rightarrow>
          if \<not> lv_mem e (M_Digest_Item k) then (-1, m)
          else (case smap_search m d of
                  None \<Rightarrow> insert_new_digest_list e k m d lid
                | Some old \<Rightarrow>
                    (0, al_update d \<lparr>layer_list = layer_list old @ [lid], layer_list_len = layer_list_len old + 1\<rparr> m)))"

text \<open>A layer by its id or, failing that, by one of its names; the caller gets a reference.\<close>

definition find_addr :: "string option \<Rightarrow> lstore \<Rightarrow> addr option" where
  "find_addr p st =
     (case p of
        None \<Rightarrow> None
      | Some x \<Rightarrow> (case smap_search (by_id st) x of None \<Rightarrow> smap_search (by_name st) x | Some a \<Rightarrow> Some a))"

definition lookup :: "string option \<Rightarrow> lstore \<Rightarrow> (addr option \<times> lstore) option" where
  "lookup p st = do { st1 \<leftarrow> layer_ref_inc (find_addr p st) st; Some (find_addr p st, st1) }"

definition lookup_with_lock :: "layer_env \<Rightarrow> string option \<Rightarrow> lstore \<Rightarrow> (addr option \<times> lstore) option" where
  "lookup_with_lock e p st = (if \<not> lv_mem e M_Lock then Some (None, st) else lookup p st)"

fun remove_names :: "string list \<Rightarrow> addr smap \<Rightarrow> addr smap" where
  "remove_names [] m = m"
| "remove_names (n # ns) m = remove_names ns (snd (smap_remove m n))"

text \<open>The position of the first listed layer with an id; \<open>None\<close> inside is a layer without data.\<close>

fun list_position :: "(addr \<rightharpoonup> layer_t) \<Rightarrow> string \<Rightarrow> addr list \<Rightarrow> nat \<Rightarrow> nat option option" where
  "list_position h lid [] i = Some None"
| "list_position h lid (a # as) i = do {
     l \<leftarrow> h a;
     s \<leftarrow> slayer l;
     if sl_id s \<noteq> lid then list_position h lid as (Suc i) else Some (Some i)
   }"

definition remove_memory_stores :: "string option \<Rightarrow> lstore \<Rightarrow> (int \<times> lstore) option" where
  "remove_memory_stores p st = do {
     (la, st1) \<leftarrow> lookup p st;
     (case la of
        None \<Rightarrow> Some (-1, st1)
      | Some a \<Rightarrow> do {
          l \<leftarrow> layers st1 a;
          s \<leftarrow> slayer l;
          let (r1, c) = delete_digest_from_map (by_compress_digest st1) (sl_compressed_diff_digest s) (sl_id s);
          let st2 = st1\<lparr>by_compress_digest := c\<rparr>;
          if r1 \<noteq> 0 then do { st3 \<leftarrow> layer_ref_dec (Some a) st2; Some (-1, st3) }
          else do {
            let st3 = st2\<lparr>by_uncompress_digest :=
                  snd (delete_digest_from_map (by_uncompress_digest st2) (sl_diff_digest s) (sl_id s)),
                by_id := snd (smap_remove (by_id st2) (sl_id s)),
                by_name := remove_names (sl_names s) (by_name st2)\<rparr>;
            pos \<leftarrow> list_position (layers st3) (the p) (layers_list st3) 0;
            st4 \<leftarrow> (case pos of None \<Rightarrow> Some st3 | Some i \<Rightarrow> delete_g_layer_list_item i True st3);
            st5 \<leftarrow> layer_ref_dec (Some a) st4;
            Some (0, st5)
          }
        })
   }"

text \<open>Whether all names went in, how many did, and the map.\<close>

fun insert_names :: "layer_env \<Rightarrow> addr \<Rightarrow> nat \<Rightarrow> string list \<Rightarrow> addr smap \<Rightarrow> bool \<times> nat \<times> addr smap" where
  "insert_names e a i [] m = (True, i, m)"
| "insert_names e a i (n # ns) m =
     (let (ok, m') = smap_insert (lv_mem e (M_Map_Name i)) True m n a
      in if \<not> ok then (False, i, m') else insert_names e a (Suc i) ns m')"

text \<open>The labels \<^verbatim>\<open>clear_by_name\<close> and \<^verbatim>\<open>clear_list\<close>: the first \<open>i\<close> names are taken back, last one first.\<close>

definition clear_by_name :: "nat \<Rightarrow> string list \<Rightarrow> string \<Rightarrow> lstore \<Rightarrow> lstore option" where
  "clear_by_name i names lid st =
     remove_layer_list_tail (st\<lparr>by_name := remove_names (rev (take i names)) (by_name st),
       by_id := snd (smap_remove (by_id st) lid)\<rparr>)"

text \<open>The last steps of the insertion, after \<open>i\<close> names.\<close>

definition insert_digests :: "layer_env \<Rightarrow> string \<Rightarrow> layer_opts \<Rightarrow> addr \<Rightarrow> nat \<Rightarrow> lstore \<Rightarrow> (int \<times> lstore) option" where
  "insert_digests e lid opts a i st = do {
     l \<leftarrow> layers st a;
     s \<leftarrow> slayer l;
     let (r, c) = insert_digest_into_map e True (by_compress_digest st) (sl_compressed_diff_digest s) lid;
     let st1 = st\<lparr>by_compress_digest := c\<rparr>;
     if r \<noteq> 0 then do { st2 \<leftarrow> clear_by_name i (lo_names opts) lid st1; Some (r, st2) }
     else do {
       let (r, u) = insert_digest_into_map e False (by_uncompress_digest st1) (sl_diff_digest s) lid;
       let st2 = st1\<lparr>by_uncompress_digest := u\<rparr>;
       if r \<noteq> 0 then do {
         let st3 = st2\<lparr>by_compress_digest :=
           snd (delete_digest_from_map (by_compress_digest st2) (sl_compressed_diff_digest s) lid)\<rparr>;
         st4 \<leftarrow> clear_by_name i (lo_names opts) lid st3;
         Some (r, st4)
       }
       else Some (0, st2)
     }
   }"

definition insert_memory_stores ::
  "layer_env \<Rightarrow> string \<Rightarrow> layer_opts \<Rightarrow> addr \<Rightarrow> lstore \<Rightarrow> (int \<times> lstore) option" where
  "insert_memory_stores e lid opts a st =
     (let (ok, st1) = append_layer_into_list e a st
      in if \<not> ok then Some (-1, st1)
         else
           let (ok, m) = smap_insert (lv_mem e M_Map_Id) True (by_id st1) lid a; st2 = st1\<lparr>by_id := m\<rparr>
           in if \<not> ok then do { st3 \<leftarrow> remove_layer_list_tail st2; Some (-1, st3) }
              else
                let (ok, i, m) = insert_names e a 0 (lo_names opts) (by_name st2); st3 = st2\<lparr>by_name := m\<rparr>
                in if \<not> ok then do { st4 \<leftarrow> clear_by_name i (lo_names opts) lid st3; Some (-1, st4) }
                   else insert_digests e lid opts a i st3)"

section \<open>Creating a layer\<close>

definition driver_create_layer ::
  "layer_env \<Rightarrow> string option \<Rightarrow> string option \<Rightarrow> bool \<Rightarrow> layer_store_mount_opts option \<Rightarrow> lstore \<Rightarrow> int \<times> lstore" where
  "driver_create_layer e p par writable opt st =
     (let storage_ok = (case opt of
             Some o1 \<Rightarrow> (case lo_mount_opts o1 of
                 Some kv \<Rightarrow> lv_mem e M_Storage_Opt \<and> list_all (\<lambda>i. lv_mem e (M_Storage_Entry i)) [0..<length kv]
               | None \<Rightarrow> True)
           | None \<Rightarrow> True)
      in if \<not> storage_ok then (-1, st)
         else (case p of None \<Rightarrow> (-1, st) | Some lid \<Rightarrow> ext e (Drv_Create lid par writable) st))"

definition update_layer_datas :: "layer_env \<Rightarrow> string \<Rightarrow> layer_opts \<Rightarrow> addr \<Rightarrow> lstore \<Rightarrow> (int \<times> lstore) option" where
  "update_layer_datas e lid opts a st =
     (if \<not> lv_mem e M_Slayer then Some (-1, st)
      else if \<not> lv_mem e M_Clock then Some (-1, st)
      else if lo_names opts \<noteq> [] \<and> (\<not> lv_mem e M_Names \<or> length (lo_names opts) > MAX_MEMORY_SIZE div sizeof_ptr)
      then Some (-1, st)
      else do {
        l \<leftarrow> layers st a;
        let s = \<lparr>sl_id = lid, sl_parent = lo_parent opts, sl_writable = lo_writable opts,
          sl_mountlabel = (case lo_opts opts of None \<Rightarrow> None | Some o1 \<Rightarrow> lo_mount_label o1), sl_created = Some (lv_now e),
          sl_names = lo_names opts, sl_diff_digest = lo_uncompressed_digest opts,
          sl_compressed_diff_digest = lo_compressed_digest opts, sl_diff_size = 0, sl_compressed_size = 0,
          sl_incompelte = False\<rparr>;
        (case layer_json_path_of e lid st of
           None \<Rightarrow> Some (-1, put_layer a (l\<lparr>layer_json_path := None\<rparr>) st)
         | Some p \<Rightarrow> Some (0, put_layer a (l\<lparr>layer_json_path := Some p, slayer := Some s\<rparr>) st))
      })"

definition build_layer_dir :: "layer_env \<Rightarrow> string \<Rightarrow> lstore \<Rightarrow> bool \<times> lstore" where
  "build_layer_dir e lid st =
     (case asprintf_path e (g_root_dir st @ ''/'' @ lid) of
        None \<Rightarrow> (False, st)
      | Some p \<Rightarrow> let (r, st1) = ext e (Mk_Dir p) st in (r = 0, st1))"

definition new_layer_by_opts :: "layer_env \<Rightarrow> string \<Rightarrow> layer_opts \<Rightarrow> lstore \<Rightarrow> (int \<times> lstore) option" where
  "new_layer_by_opts e lid opts st =
     (case create_empty_layer e st of
        (None, st1) \<Rightarrow> Some (-1, st1)
      | (Some a, st1) \<Rightarrow>
          (let (ok, st2) = build_layer_dir e lid st1
           in if \<not> ok then do { st3 \<leftarrow> layer_ref_dec (Some a) st2; Some (-1, st3) }
              else do {
                (r, st3) \<leftarrow> update_layer_datas e lid opts a st2;
                if r \<noteq> 0 then do { st4 \<leftarrow> layer_ref_dec (Some a) st3; Some (r, st4) }
                else do {
                  (r, st4) \<leftarrow> insert_memory_stores e lid opts a st3;
                  if r \<noteq> 0 then do { st5 \<leftarrow> layer_ref_dec (Some a) st4; Some (r, st5) }
                  else Some (0, st4)
                }
              }))"

definition make_tar_split_file :: "layer_env \<Rightarrow> string \<Rightarrow> lstore \<Rightarrow> int \<times> lstore" where
  "make_tar_split_file e lid st =
     (case (tar_split_tmp_path e lid st, tar_split_path e lid st) of
        (Some f, Some gz) \<Rightarrow>
          (let (t, st1) = ext e (Touch f) st
           in if t \<noteq> 0 then (-1, st1)
              else
                let (r, st2) = ext e (Split f) st1
                in if r \<noteq> 0 then (r, st2)
                   else if \<not> lv_exists e f then (r, st2)
                   else
                     let (r, st3) = ext e (Gzip f gz) st2; (_, st4) = ext e (Rm_File f) st3
                     in (r, st4))
      | _ \<Rightarrow> (-1, st))"

text \<open>\<open>diff\<close> says that there is content to unpack.\<close>

definition apply_diff :: "layer_env \<Rightarrow> addr \<Rightarrow> bool \<Rightarrow> lstore \<Rightarrow> (int \<times> lstore) option" where
  "apply_diff e a diff st =
     (if \<not> diff then Some (0, st)
      else do {
        l \<leftarrow> layers st a;
        s \<leftarrow> slayer l;
        let (r, st1) = ext e (Drv_Apply (sl_id s)) st;
        if r \<noteq> 0 then Some (r, st1)
        else
          let (r, st2) = make_tar_split_file e (sl_id s) st1
          in Some (r, put_layer a (l\<lparr>slayer := Some (s\<lparr>sl_diff_size := lv_size e\<rparr>)\<rparr>) st2)
      })"

text \<open>\<open>lv_merged\<close> is what the driver's metadata say: \<open>None\<close> without data, else the merged directory.\<close>

definition update_mount_point :: "layer_env \<Rightarrow> addr \<Rightarrow> lstore \<Rightarrow> (int \<times> lstore) option" where
  "update_mount_point e a st = do {
     l \<leftarrow> layers st a;
     if smount_point l = None \<and> \<not> lv_mem e M_Mount_Point then Some (-1, st)
     else do {
       let m = (case smount_point l of None \<Rightarrow> \<lparr>mp_path = None, mp_count = 0\<rparr> | Some m \<Rightarrow> m);
       let l1 = l\<lparr>smount_point := Some m\<rparr>;
       s \<leftarrow> slayer l;
       if \<not> lv_mem e M_Metadata then Some (-1, put_layer a l1 st)
       else
         let l2 = (case lv_merged e of None \<Rightarrow> l1 | Some d \<Rightarrow> l1\<lparr>smount_point := Some (m\<lparr>mp_path := d\<rparr>)\<rparr>)
         in (case mount_point_json_path l2 of
               Some _ \<Rightarrow> Some (0, put_layer a l2 st)
             | None \<Rightarrow>
                 (case mountpoint_json_path e (sl_id s) st of
                    None \<Rightarrow> Some (-1, put_layer a l2 st)
                  | Some p \<Rightarrow> Some (0, put_layer a (l2\<lparr>mount_point_json_path := Some p\<rparr>) st)))
     }
   }"

definition layer_store_remove_layer :: "layer_env \<Rightarrow> string option \<Rightarrow> lstore \<Rightarrow> int \<times> lstore" where
  "layer_store_remove_layer e p st =
     (case p of
        None \<Rightarrow> (0, st)
      | Some lid \<Rightarrow>
          (case asprintf_path e (g_root_dir st @ ''/'' @ lid) of
             None \<Rightarrow> (-1, st)
           | Some d \<Rightarrow> ext e (Rm_Dir d) st))"

definition hold_more :: "addr \<Rightarrow> int \<Rightarrow> lstore \<Rightarrow> lstore option" where
  "hold_more a d st = do { l \<leftarrow> layers st a; Some (put_layer a (l\<lparr>hold_refs_num := wrap32 (hold_refs_num l + d)\<rparr>) st) }"

definition set_incompelte :: "addr \<Rightarrow> bool \<Rightarrow> lstore \<Rightarrow> lstore option" where
  "set_incompelte a b st = do {
     l \<leftarrow> layers st a;
     s \<leftarrow> slayer l;
     Some (put_layer a (l\<lparr>slayer := Some (s\<lparr>sl_incompelte := b\<rparr>)\<rparr>) st)
   }"

text \<open>The label \<^verbatim>\<open>driver_remove\<close>, reached with an error only.\<close>

definition driver_remove :: "layer_env \<Rightarrow> string \<Rightarrow> lstore \<Rightarrow> lstore" where
  "driver_remove e lid st = snd (layer_store_remove_layer e (Some lid) (snd (ext e (Drv_Rm lid) st)))"

text \<open>The steps between the registration of the new layer and the final save, up to the first that fails.\<close>

definition fill_layer :: "layer_env \<Rightarrow> bool \<Rightarrow> addr \<Rightarrow> lstore \<Rightarrow> (int \<times> lstore) option" where
  "fill_layer e diff a st = do {
     st1 \<leftarrow> set_incompelte a True st;
     (r, st2) \<leftarrow> save_layer e a st1;
     if r \<noteq> 0 then Some (-1, st2)
     else do {
       (r, st3) \<leftarrow> apply_diff e a diff st2;
       if r \<noteq> 0 then Some (r, st3)
       else do {
         (r, st4) \<leftarrow> update_mount_point e a st3;
         if r \<noteq> 0 then Some (r, st4)
         else do {
           st5 \<leftarrow> set_incompelte a False st4;
           save_layer e a st5
         }
       }
     }
   }"

text \<open>
  The part of \<^verbatim>\<open>layer_store_create\<close> under the store's lock: the return code, the id stored through \<^verbatim>\<open>new_id\<close> and
  the reference that is dropped after the lock.
\<close>

definition create_section ::
  "layer_env \<Rightarrow> string option \<Rightarrow> layer_opts \<Rightarrow> bool \<Rightarrow> lstore \<Rightarrow> (int \<times> string option \<times> addr option \<times> lstore) option" where
  "create_section e p opts diff st = do {
     (la, st1) \<leftarrow> lookup p st;
     (case la of
        Some a \<Rightarrow> do { st2 \<leftarrow> hold_more a 1 st1; Some (0, None, Some a, st2) }
      | None \<Rightarrow>
          (case driver_create_layer e p (lo_parent opts) (lo_writable opts) (lo_opts opts) st1 of
             (r, st2) \<Rightarrow>
               if r \<noteq> 0 then Some (r, None, None, st2)
               else do {
                 lid \<leftarrow> p;
                 (r, st3) \<leftarrow> new_layer_by_opts e lid opts st2;
                 if r \<noteq> 0 then Some (r, None, None, driver_remove e lid st3)
                 else do {
                   (la, st4) \<leftarrow> lookup p st3;
                   (case la of
                      None \<Rightarrow> do { (_, st5) \<leftarrow> remove_memory_stores p st4; Some (-1, None, None, driver_remove e lid st5) }
                    | Some a \<Rightarrow> do {
                        (r, st5) \<leftarrow> fill_layer e diff a st4;
                        if r = 0 then do { st6 \<leftarrow> hold_more a 1 st5; Some (0, Some lid, Some a, st6) }
                        else do {
                          (_, st6) \<leftarrow> remove_memory_stores p st5;
                          Some (r, None, Some a, driver_remove e lid st6)
                        }
                      })
                 }
               }))
   }"

definition layer_store_create ::
  "layer_env \<Rightarrow> string option \<Rightarrow> layer_opts option \<Rightarrow> bool \<Rightarrow> lstore \<Rightarrow> (int \<times> string option \<times> lstore) option" where
  "layer_store_create e p optsp diff st =
     (case optsp of
        None \<Rightarrow> Some (-1, None, st)
      | Some opts \<Rightarrow>
          if \<not> lv_mem e M_Lock then Some (-1, None, st)
          else do {
            (r, new_id, la, st1) \<leftarrow> create_section e p opts diff st;
            st2 \<leftarrow> layer_ref_dec la st1;
            Some (r, new_id, st2)
          })"

section \<open>Mounting and deleting\<close>

definition mount_helper :: "layer_env \<Rightarrow> addr \<Rightarrow> lstore \<Rightarrow> (string option \<times> lstore) option" where
  "mount_helper e a st = do {
     (r, st1) \<leftarrow> update_mount_point e a st;
     if r \<noteq> 0 then Some (None, st1)
     else do {
       l \<leftarrow> layers st1 a;
       m \<leftarrow> smount_point l;
       s \<leftarrow> slayer l;
       let l' = l\<lparr>smount_point := Some (m\<lparr>mp_count := wrap32 (mp_count m + 1)\<rparr>)\<rparr>;
       if mp_count m > 0 then do {
         (_, st2) \<leftarrow> save_mount_point e a (put_layer a l' st1);
         Some (mp_path m, st2)
       }
       else if \<not> lv_mem e M_Mount_Opts then Some (None, st1)
       else
         let (r, st2) = ext e (Drv_Mount (sl_id s)) st1
         in if r \<noteq> 0 then Some (None, st2)
            else do { (_, st3) \<leftarrow> save_mount_point e a (put_layer a l' st2); Some (Some (lv_mount e), st3) }
     }
   }"

definition umount_helper :: "layer_env \<Rightarrow> addr \<Rightarrow> bool \<Rightarrow> lstore \<Rightarrow> (int \<times> lstore) option" where
  "umount_helper e a force st = do {
     l \<leftarrow> layers st a;
     (case smount_point l of
        None \<Rightarrow> Some (0, st)
      | Some m \<Rightarrow>
          if \<not> force \<and> mp_count m > 1 then do {
            (_, st1) \<leftarrow> save_mount_point e a (put_layer a (l\<lparr>smount_point := Some (m\<lparr>mp_count := mp_count m - 1\<rparr>)\<rparr>) st);
            Some (0, st1)
          }
          else do {
            s \<leftarrow> slayer l;
            let (r, st1) = ext e (Drv_Umount (sl_id s)) st;
            if r \<noteq> 0 then Some (-1, st1)
            else do {
              (_, st2) \<leftarrow> save_mount_point e a (put_layer a (l\<lparr>smount_point := Some (m\<lparr>mp_count := 0\<rparr>)\<rparr>) st1);
              Some (0, st2)
            }
          })
   }"

definition layer_store_mount :: "layer_env \<Rightarrow> string option \<Rightarrow> lstore \<Rightarrow> (string option \<times> lstore) option" where
  "layer_store_mount e p st =
     (if p = None then Some (None, st)
      else do {
        (la, st1) \<leftarrow> lookup_with_lock e p st;
        (case la of
           None \<Rightarrow> Some (None, st1)
         | Some a \<Rightarrow> do {
             (r, st2) \<leftarrow> mount_helper e a st1;
             st3 \<leftarrow> layer_ref_dec (Some a) st2;
             Some (r, st3)
           })
      })"

definition layer_store_umount :: "layer_env \<Rightarrow> string option \<Rightarrow> bool \<Rightarrow> lstore \<Rightarrow> (int \<times> lstore) option" where
  "layer_store_umount e p force st =
     (if p = None then Some (0, st)
      else do {
        (la, st1) \<leftarrow> lookup_with_lock e p st;
        (case la of
           None \<Rightarrow> Some (0, st1)
         | Some a \<Rightarrow> do {
             (r, st2) \<leftarrow> umount_helper e a force st1;
             st3 \<leftarrow> layer_ref_dec (Some a) st2;
             Some (r, st3)
           })
      })"

text \<open>Removing the files of a layer; failures are ignored.\<close>

definition remove_layer_files :: "layer_env \<Rightarrow> addr \<Rightarrow> lstore \<Rightarrow> lstore option" where
  "remove_layer_files e a st = do {
     l \<leftarrow> layers st a;
     s \<leftarrow> slayer l;
     let st1 = (case mount_point_json_path l of None \<Rightarrow> st | Some f \<Rightarrow> snd (ext e (Rm_File f) st));
     Some (case tar_split_path e (sl_id s) st1 of None \<Rightarrow> st1 | Some f \<Rightarrow> snd (ext e (Rm_File f) st1))
   }"

definition do_delete_layer :: "layer_env \<Rightarrow> string option \<Rightarrow> lstore \<Rightarrow> (int \<times> lstore) option" where
  "do_delete_layer e p st = do {
     (la, st1) \<leftarrow> lookup p st;
     (case la of
        None \<Rightarrow> Some (0, st1)
      | Some a \<Rightarrow> do {
          (r, st2) \<leftarrow> umount_helper e a True st1;
          (r, st3) \<leftarrow> (if r \<noteq> 0 then Some (-1, st2)
            else do {
              st3 \<leftarrow> remove_layer_files e a st2;
              l \<leftarrow> layers st3 a;
              s \<leftarrow> slayer l;
              (r, st4) \<leftarrow> remove_memory_stores (Some (sl_id s)) st3;
              if r \<noteq> 0 then Some (r, st4)
              else
                let (r, st5) = ext e (Drv_Rm (sl_id s)) st4
                in if r \<noteq> 0 then Some (r, st5) else Some (layer_store_remove_layer e (Some (sl_id s)) st5)
            });
          st4 \<leftarrow> layer_ref_dec (Some a) st3;
          Some (r, st4)
        })
   }"

definition layer_store_delete :: "layer_env \<Rightarrow> string option \<Rightarrow> lstore \<Rightarrow> (int \<times> lstore) option" where
  "layer_store_delete e p st =
     (if p = None then Some (-1, st)
      else if \<not> lv_mem e M_Lock then Some (-1, st)
      else do { (r, st1) \<leftarrow> do_delete_layer e p st; Some (if r \<noteq> 0 then (-1, st1) else (0, st1)) })"

section \<open>Holds and queries\<close>

definition layer_set_hold_refs :: "layer_env \<Rightarrow> string option \<Rightarrow> bool \<Rightarrow> lstore \<Rightarrow> (int \<times> lstore) option" where
  "layer_set_hold_refs e p increase st =
     (case p of
        None \<Rightarrow> Some (-1, st)
      | Some lid \<Rightarrow>
          if \<not> lv_mem e M_Lock then Some (-1, st)
          else (case smap_search (by_id st) lid of
                  None \<Rightarrow> Some (-1, st)
                | Some a \<Rightarrow> do { st1 \<leftarrow> hold_more a (if increase then 1 else -1) st; Some (0, st1) }))"

definition layer_inc_hold_refs :: "layer_env \<Rightarrow> string option \<Rightarrow> lstore \<Rightarrow> (int \<times> lstore) option" where
  "layer_inc_hold_refs e p st = layer_set_hold_refs e p True st"

definition layer_dec_hold_refs :: "layer_env \<Rightarrow> string option \<Rightarrow> lstore \<Rightarrow> (int \<times> lstore) option" where
  "layer_dec_hold_refs e p st = layer_set_hold_refs e p False st"

text \<open>The return code and what is stored through \<^verbatim>\<open>refs_num\<close>.\<close>

definition layer_get_hold_refs :: "layer_env \<Rightarrow> string option \<Rightarrow> lstore \<Rightarrow> (int \<times> int option) option" where
  "layer_get_hold_refs e p st =
     (case p of
        None \<Rightarrow> Some (-1, None)
      | Some lid \<Rightarrow>
          if \<not> lv_mem e M_Lock then Some (-1, None)
          else (case smap_search (by_id st) lid of
                  None \<Rightarrow> Some (-1, None)
                | Some a \<Rightarrow> do { l \<leftarrow> layers st a; Some (0, Some (hold_refs_num l)) }))"

record layer =
  li_id :: "string option"
  li_parent :: "string option"
  li_mount_point :: "string option"
  li_mount_count :: int
  li_compressed_digest :: "string option"
  li_compress_size :: int
  li_uncompressed_digest :: "string option"
  li_uncompress_size :: int
  li_writable :: bool

definition zero_layer :: layer where
  "zero_layer = \<lparr>li_id = None, li_parent = None, li_mount_point = None, li_mount_count = 0, li_compressed_digest = None,
     li_compress_size = 0, li_uncompressed_digest = None, li_uncompress_size = 0, li_writable = False\<rparr>"

definition copy_json_to_layer :: "layer_t \<Rightarrow> layer" where
  "copy_json_to_layer jl =
     (case slayer jl of
        None \<Rightarrow> zero_layer
      | Some s \<Rightarrow> \<lparr>li_id = Some (sl_id s), li_parent = sl_parent s,
          li_mount_point = (case smount_point jl of None \<Rightarrow> None | Some m \<Rightarrow> mp_path m),
          li_mount_count = (case smount_point jl of None \<Rightarrow> 0 | Some m \<Rightarrow> mp_count m),
          li_compressed_digest = sl_compressed_diff_digest s, li_compress_size = sl_compressed_size s,
          li_uncompressed_digest = sl_diff_digest s, li_uncompress_size = sl_diff_size s,
          li_writable = sl_writable s\<rparr>)"

fun list_layers :: "layer_env \<Rightarrow> nat \<Rightarrow> addr list \<Rightarrow> lstore \<Rightarrow> (int \<times> layer list) option" where
  "list_layers e i [] st = Some (0, [])"
| "list_layers e i (a # as) st = do {
     l \<leftarrow> layers st a;
     if \<not> lv_mem e (M_Array_Item i) then Some (-1, [])
     else do { (r, ls) \<leftarrow> list_layers e (Suc i) as st; Some (r, copy_json_to_layer l # ls) }
   }"

text \<open>The return code and the filled part of the response.\<close>

definition layer_store_list :: "layer_env \<Rightarrow> lstore \<Rightarrow> (int \<times> layer list) option" where
  "layer_store_list e st =
     (if \<not> lv_mem e M_Lock then Some (-1, [])
      else if \<not> lv_mem e M_Array \<or> layers_list_len st > MAX_MEMORY_SIZE div sizeof_ptr then Some (-1, [])
      else if length (layers_list st) > layers_list_len st then None
      else list_layers e 0 (layers_list st) st)"

fun digest_layers :: "layer_env \<Rightarrow> nat \<Rightarrow> string list \<Rightarrow> lstore \<Rightarrow> (int \<times> layer list \<times> lstore) option" where
  "digest_layers e i [] st = Some (0, [], st)"
| "digest_layers e i (x # xs) st =
     (if \<not> lv_mem e (M_Array_Item i) then Some (-1, [], st)
      else do {
        (la, st1) \<leftarrow> lookup (Some x) st;
        (case la of
           None \<Rightarrow> Some (-1, [], st1)
         | Some a \<Rightarrow> do {
             l \<leftarrow> layers st1 a;
             st2 \<leftarrow> layer_ref_dec (Some a) st1;
             (r, ls, st3) \<leftarrow> digest_layers e (Suc i) xs st2;
             Some (r, copy_json_to_layer l # ls, st3)
           })
      })"

definition layers_by_digest_map ::
  "layer_env \<Rightarrow> digest_layer_t smap \<Rightarrow> string \<Rightarrow> lstore \<Rightarrow> (int \<times> layer list \<times> lstore) option" where
  "layers_by_digest_map e m d st =
     (case smap_search m d of
        None \<Rightarrow> Some (-1, [], st)
      | Some dl \<Rightarrow>
          if layer_list_len dl = 0 then Some (0, [], st)
          else if \<not> lv_mem e M_Array \<or> layer_list_len dl > MAX_MEMORY_SIZE div sizeof_ptr then Some (-1, [], st)
          else if length (layer_list dl) > layer_list_len dl then None
          else digest_layers e 0 (layer_list dl) st)"

definition layer_store_by_compress_digest ::
  "layer_env \<Rightarrow> string option \<Rightarrow> lstore \<Rightarrow> (int \<times> layer list \<times> lstore) option" where
  "layer_store_by_compress_digest e p st =
     (case p of
        None \<Rightarrow> Some (-1, [], st)
      | Some d \<Rightarrow>
          if \<not> lv_mem e M_Lock then Some (-1, [], st) else layers_by_digest_map e (by_compress_digest st) d st)"

definition layer_store_lookup :: "layer_env \<Rightarrow> string option \<Rightarrow> lstore \<Rightarrow> (layer option \<times> lstore) option" where
  "layer_store_lookup e p st =
     (if p = None then Some (None, st)
      else do {
        (la, st1) \<leftarrow> lookup_with_lock e p st;
        (case la of
           None \<Rightarrow> Some (None, st1)
         | Some a \<Rightarrow> do {
             l \<leftarrow> layers st1 a;
             st2 \<leftarrow> layer_ref_dec (Some a) st1;
             Some (if \<not> lv_mem e (M_Array_Item 0) then None else Some (copy_json_to_layer l), st2)
           })
      })"

definition layer_store_try_repair_lowers :: "layer_env \<Rightarrow> string option \<Rightarrow> lstore \<Rightarrow> (int \<times> lstore) option" where
  "layer_store_try_repair_lowers e p st =
     (case p of
        None \<Rightarrow> Some (-1, st)
      | Some lid \<Rightarrow> do {
          (la, st1) \<leftarrow> lookup_with_lock e p st;
          (case la of
             None \<Rightarrow> Some (-1, st1)
           | Some a \<Rightarrow> do {
               l \<leftarrow> layers st1 a;
               s \<leftarrow> slayer l;
               let (r, st2) = ext e (Drv_Repair lid (sl_parent s)) st1;
               st3 \<leftarrow> layer_ref_dec (Some a) st2;
               Some (r, st3)
             })
        })"

section \<open>Loading\<close>

text \<open>
  What the scan of the root directory finds: the name of an entry, whether it is a directory, the parsed
  layer (\<open>None\<close>: the parser refuses the file) and the mount point file, which may be absent.
\<close>

record disk_layer =
  dl_name :: string
  dl_is_dir :: bool
  dl_layer :: "storage_layer option"
  dl_mount :: "storage_mount_point option option"

definition load_layer :: "layer_env \<Rightarrow> string \<Rightarrow> string \<Rightarrow> disk_layer \<Rightarrow> lstore \<Rightarrow> addr option \<times> lstore" where
  "load_layer e fname mfname d st =
     (case dl_layer d of
        None \<Rightarrow> (None, st)
      | Some s \<Rightarrow>
          if dl_mount d = Some None then (None, st)
          else (case create_empty_layer e st of
                  (None, st1) \<Rightarrow> (None, st1)
                | (Some a, st1) \<Rightarrow>
                    (Some a, put_layer a (empty_layer\<lparr>layer_json_path := Some fname, mount_point_json_path := Some mfname,
                      slayer := Some s, smount_point := Option.bind (dl_mount d) (\<lambda>m. m)\<rparr>) st1)))"

definition do_validate_image_layer :: "layer_env \<Rightarrow> addr \<Rightarrow> lstore \<Rightarrow> int option" where
  "do_validate_image_layer e a st = do {
     l \<leftarrow> layers st a;
     s \<leftarrow> slayer l;
     Some (if sl_diff_digest s = None then 0
           else (case tar_split_path e (sl_id s) st of
                   None \<Rightarrow> -1
                 | Some f \<Rightarrow> if \<not> lv_exists e f \<or> \<not> lv_in_driver e (sl_id s) then -1 else 0))
   }"

definition do_validate_rootfs_layer :: "layer_env \<Rightarrow> addr \<Rightarrow> lstore \<Rightarrow> (int \<times> lstore) option" where
  "do_validate_rootfs_layer e a st = do {
     l \<leftarrow> layers st a;
     s \<leftarrow> slayer l;
     if sl_diff_digest s \<noteq> None then Some (0, st)
     else do {
       (r, st1) \<leftarrow> update_mount_point e a st;
       if r \<noteq> 0 then Some (-1, st1)
       else do {
         l1 \<leftarrow> layers st1 a;
         m \<leftarrow> smount_point l1;
         if mp_count m > 0 then do {
           (p, st2) \<leftarrow> mount_helper e a (put_layer a (l1\<lparr>smount_point := Some (m\<lparr>mp_count := 0\<rparr>)\<rparr>) st1);
           Some (if p = None then (-1, st2) else (0, st2))
         }
         else Some (0, st1)
       }
     }
   }"

definition remove_invalid_dir :: "layer_env \<Rightarrow> string \<Rightarrow> string \<Rightarrow> lstore \<Rightarrow> lstore" where
  "remove_invalid_dir e name tmpdir st =
     (let (r, st1) = ext e (Drv_Rm name) (snd (ext e (Drv_Umount name) st))
      in if r \<noteq> 0 then st1 else snd (ext e (Rm_Dir tmpdir) st1))"

definition LAYER_NAME_LEN :: nat where
  "LAYER_NAME_LEN = 64"

text \<open>An invalid layer is freed without regard to its count: nobody else has it yet.\<close>

definition load_layer_json_cb :: "layer_env \<Rightarrow> disk_layer \<Rightarrow> lstore \<Rightarrow> lstore option" where
  "load_layer_json_cb e d st =
     (let tmpdir = g_root_dir st @ ''/'' @ dl_name d; invalid = remove_invalid_dir e (dl_name d) tmpdir
      in if length tmpdir \<ge> PATH_MAX then Some st
         else if \<not> dl_is_dir d then Some st
         else (case mountpoint_json_path e (dl_name d) st of
             None \<Rightarrow> Some st
           | Some mfname \<Rightarrow>
               if length (dl_name d) \<noteq> LAYER_NAME_LEN then Some (invalid st)
               else (case layer_json_path_of e (dl_name d) st of
                   None \<Rightarrow> Some (invalid st)
                 | Some fname \<Rightarrow>
                     (case load_layer e fname mfname d st of
                        (None, st1) \<Rightarrow> Some (invalid st1)
                      | (Some a, st1) \<Rightarrow> do {
                          v \<leftarrow> do_validate_image_layer e a st1;
                          (r, st2) \<leftarrow> (if v \<noteq> 0 then Some (-1, st1) else do_validate_rootfs_layer e a st1);
                          let (ok, st3) = (if r \<noteq> 0 then (False, st2) else append_layer_into_list e a st2);
                          Some (if ok then st3
                                else let st4 = invalid st3 in st4\<lparr>layers := (layers st4)(a := None)\<rparr>)
                        }))))"

fun scan_layers :: "(string \<Rightarrow> layer_env) \<Rightarrow> disk_layer list \<Rightarrow> lstore \<Rightarrow> lstore option" where
  "scan_layers e [] st = Some st"
| "scan_layers e (d # ds) st = do { st1 \<leftarrow> load_layer_json_cb (e (dl_name d)) d st; scan_layers e ds st1 }"

text \<open>The name is taken from whichever layer the map gives it to.\<close>

definition remove_name :: "string \<Rightarrow> lstore \<Rightarrow> (bool \<times> lstore) option" where
  "remove_name n st =
     (case smap_search (by_name st) n of
        None \<Rightarrow> Some (False, st)
      | Some b \<Rightarrow> do {
          l \<leftarrow> layers st b;
          s \<leftarrow> slayer l;
          Some (n \<in> set (sl_names s), put_layer b (l\<lparr>slayer := Some (s\<lparr>sl_names := filter (\<lambda>x. x \<noteq> n) (sl_names s)\<rparr>)\<rparr>) st)
        })"

text \<open>
  The names of the layer \<open>a\<close>, the \<open>i\<close>-th first. When a name occurs twice in one layer \<^verbatim>\<open>remove_name\<close> frees the
  very string it compares with: unless it is the last one the comparison goes on with freed memory, and
  for the last one the slot that is inserted next is NULL, which the map refuses.
\<close>

fun load_names ::
  "layer_env \<Rightarrow> addr \<Rightarrow> nat \<Rightarrow> string list \<Rightarrow> bool \<Rightarrow> lstore \<Rightarrow> (int \<times> bool \<times> lstore) option" where
  "load_names e a i [] saved st = Some (0, saved, st)"
| "load_names e a i (n # ns) saved st =
     (if smap_search (by_name st) n = Some a
      then (if ns = [] then do { (_, st1) \<leftarrow> remove_name n st; Some (-1, True, st1) } else None)
      else do {
        (rm, st1) \<leftarrow> remove_name n st;
        let (ok, m) = smap_insert (lv_mem e (M_Map_Name i)) True (by_name st1) n a;
        let st2 = st1\<lparr>by_name := m\<rparr>;
        if \<not> ok then Some (-1, saved \<or> rm, st2) else load_names e a (Suc i) ns (saved \<or> rm) st2
      })"

text \<open>The loop over the list that the scan has built; \<open>saved\<close> is \<^verbatim>\<open>should_save\<close>, which is never reset.\<close>

fun load_loop :: "(string \<Rightarrow> layer_env) \<Rightarrow> addr list \<Rightarrow> bool \<Rightarrow> lstore \<Rightarrow> (int \<times> lstore) option" where
  "load_loop e [] saved st = Some (0, st)"
| "load_loop e (a # as) saved st = do {
     l \<leftarrow> layers st a;
     s \<leftarrow> slayer l;
     let (ok, m) = smap_insert (lv_mem (e (sl_id s)) M_Map_Id) True (by_id st) (sl_id s) a;
     let st1 = st\<lparr>by_id := m\<rparr>;
     if \<not> ok then Some (-1, st1)
     else do {
       (r, saved, st2) \<leftarrow> load_names (e (sl_id s)) a 0 (sl_names s) saved st1;
       if r \<noteq> 0 then Some (r, st2)
       else do {
         let (r, c) = insert_digest_into_map (e (sl_id s)) True (by_compress_digest st2) (sl_compressed_diff_digest s) (sl_id s);
         let st3 = st2\<lparr>by_compress_digest := c\<rparr>;
         if r \<noteq> 0 then Some (r, st3)
         else do {
           let (r, u) = insert_digest_into_map (e (sl_id s)) False (by_uncompress_digest st3) (sl_diff_digest s) (sl_id s);
           let st4 = st3\<lparr>by_uncompress_digest := u\<rparr>;
           if r \<noteq> 0 then Some (r, st4)
           else if sl_incompelte s then do {
             (r, st5) \<leftarrow> do_delete_layer (e (sl_id s)) (Some (sl_id s)) st4;
             if r \<noteq> 0 then Some (-1, st5) else load_loop e as saved st5
           }
           else if saved then do {
             (r, st5) \<leftarrow> save_layer (e (sl_id s)) a st4;
             if r \<noteq> 0 then Some (-1, st5) else load_loop e as saved st5
           }
           else load_loop e as saved st4
         }
       }
     }
   }"

text \<open>\<open>lock\<close>: the store's lock is taken; \<open>scan\<close>: the result of reading the directory.\<close>

definition load_layers_from_json_files ::
  "bool \<Rightarrow> int \<Rightarrow> (string \<Rightarrow> layer_env) \<Rightarrow> disk_layer list \<Rightarrow> lstore \<Rightarrow> (int \<times> lstore) option" where
  "load_layers_from_json_files lock scan e ds st =
     (if \<not> lock then Some (-1, st)
      else do {
        st1 \<leftarrow> scan_layers e ds st;
        if scan \<noteq> 0 then Some (scan, st1) else load_loop e (layers_list st1) False st1
      })"

fun drop_list :: "addr list \<Rightarrow> lstore \<Rightarrow> lstore option" where
  "drop_list [] st = Some st"
| "drop_list (a # as) st = do { st1 \<leftarrow> layer_ref_dec (Some a) st; drop_list as st1 }"

text \<open>The maps are NULL afterwards, which answers every search as an empty map does.\<close>

definition layer_store_cleanup :: "lstore \<Rightarrow> lstore option" where
  "layer_store_cleanup st = do {
     st1 \<leftarrow> drop_list (layers_list st) st;
     Some (st1\<lparr>by_id := [], by_name := [], by_compress_digest := [], by_uncompress_digest := [], layers_list := [],
       layers_list_len := 0, g_root_dir := [], g_run_dir := []\<rparr>)
   }"

record layer_conf =
  cf_storage_root :: "string option"
  cf_storage_run_root :: "string option"
  cf_driver_name :: "string option"

text \<open>The run and the root directory; \<open>driver\<close> is the result of initialising the graph driver.\<close>

definition init_from_conf :: "layer_env \<Rightarrow> int \<Rightarrow> layer_conf option \<Rightarrow> (string \<times> string) option" where
  "init_from_conf e driver conf = do {
     c \<leftarrow> conf;
     base \<leftarrow> cf_storage_root c;
     run \<leftarrow> cf_storage_run_root c;
     name \<leftarrow> cf_driver_name c;
     run_dir \<leftarrow> asprintf_path e (run @ ''/'' @ name @ ''-layers'');
     root_dir \<leftarrow> asprintf_path e (base @ ''/'' @ name @ ''-layers'');
     if driver \<noteq> 0 then None else Some (run_dir, root_dir)
   }"

definition new_store :: "string \<Rightarrow> string \<Rightarrow> lstore" where
  "new_store run rdir = \<lparr>layers = (\<lambda>_. None), by_id = [], by_name = [], by_compress_digest = [], by_uncompress_digest = [],
     layers_list = [], layers_list_len = 0, g_root_dir = rdir, g_run_dir = run, effects = []\<rparr>"

text \<open>\<open>set_up\<close>: the lock and the four maps can be made.\<close>

definition layer_store_init ::
  "layer_env \<Rightarrow> int \<Rightarrow> bool \<Rightarrow> bool \<Rightarrow> int \<Rightarrow> (string \<Rightarrow> layer_env) \<Rightarrow> disk_layer list \<Rightarrow> layer_conf option
     \<Rightarrow> (int \<times> lstore option) option" where
  "layer_store_init e driver set_up lock scan es ds conf =
     (case init_from_conf e driver conf of
        None \<Rightarrow> Some (-1, None)
      | Some (run, rdir) \<Rightarrow>
          (let st = new_store run rdir;
               failed = (\<lambda>st. do { st1 \<leftarrow> layer_store_cleanup st; Some (-1, Some st1) })
           in if \<not> set_up then failed st
              else
                let (r1, st1) = ext e (Mk_Dir rdir) st
                in if r1 \<noteq> 0 then failed st1
                   else
                     let (r2, st2) = ext e (Mk_Dir run) st1
                     in if r2 \<noteq> 0 then failed st2
                        else do {
                          (r3, st3) \<leftarrow> load_layers_from_json_files lock scan es ds st2;
                          if r3 \<noteq> 0 then failed st3 else Some (0, Some st3)
                        }))"

section \<open>Checking the files of a layer\<close>

record storage_entry =
  en_type :: int
  en_name :: string
  en_payload :: "string option"

text \<open>
  The unpacked tar split file, line by line (\<open>None\<close>: a line that is no entry), whether reading it ends with an
  error, and what the file system and the decoder say.
\<close>

record check_env =
  ck_split :: bool
  ck_lines :: "storage_entry option list"
  ck_read_err :: bool
  ck_lstat :: "string \<Rightarrow> bool"
  ck_crc :: "string \<Rightarrow> nat option"
  ck_decode :: "string \<Rightarrow> nat list option"

definition PAYLOAD_CRC_LEN :: nat where
  "PAYLOAD_CRC_LEN = 12"

fun crc_of_bytes :: "nat list \<Rightarrow> nat \<Rightarrow> nat" where
  "crc_of_bytes [] crc = crc"
| "crc_of_bytes (b # bs) crc =
     (let crc = Bit_Operations.or crc b in if bs = [] then crc else crc_of_bytes bs (crc * 2 ^ 8 mod 2 ^ 64))"

definition payload_to_crc :: "check_env \<Rightarrow> string \<Rightarrow> nat" where
  "payload_to_crc c payload = (case ck_decode c payload of None \<Rightarrow> 2 ^ 64 - 1 | Some bs \<Rightarrow> crc_of_bytes bs 0)"

definition util_path_base :: "string option \<Rightarrow> string option" where
  "util_path_base sp =
     (case sp of
        None \<Rightarrow> None
      | Some s \<Rightarrow>
          if s = [] then Some ''.''
          else
            let dir = rev (dropWhile (\<lambda>ch. ch = CHR ''/'') (rev s))
            in if dir = [] then Some ''/'' else Some (rev (takeWhile (\<lambda>ch. ch \<noteq> CHR ''/'') (rev dir))))"

definition valid_crc64 :: "check_env \<Rightarrow> storage_entry \<Rightarrow> string \<Rightarrow> int" where
  "valid_crc64 c en rootfs =
     (let file = rootfs @ ''/'' @ en_name en
      in if length file \<ge> PATH_MAX then -1
         else (case en_payload en of
             None \<Rightarrow>
               if ck_lstat c file then 0
               else if (case util_path_base (Some file) of Some b \<Rightarrow> util_has_prefix (Some b) (Some ''.wh.'') | None \<Rightarrow> False) then 0
               else -1
           | Some payload \<Rightarrow>
               if length payload \<noteq> PAYLOAD_CRC_LEN then -1
               else (case ck_crc c file of
                   None \<Rightarrow> -1
                 | Some crc \<Rightarrow> if crc \<noteq> payload_to_crc c payload then 1 else 0)))"

fun check_entries :: "check_env \<Rightarrow> string \<Rightarrow> storage_entry option list \<Rightarrow> int" where
  "check_entries c rootfs [] = (if ck_read_err c then -1 else 0)"
| "check_entries c rootfs (None # ens) = -1"
| "check_entries c rootfs (Some en # ens) =
     (if en_type en = 1 \<and> valid_crc64 c en rootfs \<noteq> 0 then valid_crc64 c en rootfs else check_entries c rootfs ens)"

definition do_integration_check :: "layer_env \<Rightarrow> check_env \<Rightarrow> addr \<Rightarrow> string \<Rightarrow> lstore \<Rightarrow> int option" where
  "do_integration_check e c a rootfs st = do {
     l \<leftarrow> layers st a;
     s \<leftarrow> slayer l;
     Some (case tar_split_path e (sl_id s) st of
             None \<Rightarrow> -1
           | Some f \<Rightarrow> if \<not> lv_exists e f then -1 else if \<not> ck_split c then -1 else check_entries c rootfs (ck_lines c))
   }"

text \<open>The layer is unmounted on every path from the look-up on, also where it was not mounted.\<close>

definition layer_store_check :: "layer_env \<Rightarrow> check_env \<Rightarrow> string option \<Rightarrow> lstore \<Rightarrow> (int \<times> lstore) option" where
  "layer_store_check e c p st =
     (if p = None then Some (-1, st)
      else do {
        (la, st1) \<leftarrow> lookup_with_lock e p st;
        (case la of
           None \<Rightarrow> Some (-1, st1)
         | Some a \<Rightarrow> do {
             l \<leftarrow> layers st1 a;
             (case slayer l of
                None \<Rightarrow> Some (-1, st1)
              | Some s \<Rightarrow> do {
                  (r, st2) \<leftarrow> (if sl_diff_digest s = None then Some (0, st1)
                    else do {
                      (rootfs, st2) \<leftarrow> layer_store_mount e p st1;
                      (case rootfs of
                         None \<Rightarrow> Some (-1, st2)
                       | Some d \<Rightarrow> do { r \<leftarrow> do_integration_check e c a d st2; Some (r, st2) })
                    });
                  (_, st3) \<leftarrow> layer_store_umount e p False st2;
                  st4 \<leftarrow> layer_ref_dec (Some a) st3;
                  Some (r, st4)
                })
           })
      })"

end
