(* ===== verification/Layer_Refine.thy ===== *)
theory Layer_Refine
  imports Layer_Store
begin

text \<open>
  What the layer store promises. Its four maps are indexes of one list of layers (\<open>indexed\<close>), and every
  reference count is the number of the references there are (\<open>refs_ok\<close>). Each operation keeps both whatever
  fails, and seen from outside it is an operation on the list, as \<open>Layer_Spec\<close> spells out.
\<close>

section \<open>Indexes of a list of layers\<close>

type_synonym entry_list = "(addr \<times> storage_layer) list"

definition id_index :: "entry_list \<Rightarrow> string \<rightharpoonup> addr" where
  "id_index al = map_of (map (\<lambda>x. (sl_id (snd x), fst x)) al)"

definition name_pairs :: "entry_list \<Rightarrow> (string \<times> addr) list" where
  "name_pairs al = concat (map (\<lambda>x. map (\<lambda>n. (n, fst x)) (sl_names (snd x))) al)"

definition name_index :: "entry_list \<Rightarrow> string \<rightharpoonup> addr" where
  "name_index al = map_of (name_pairs al)"

definition ids_with :: "(storage_layer \<Rightarrow> string option) \<Rightarrow> string \<Rightarrow> entry_list \<Rightarrow> string list" where
  "ids_with f d al = map (\<lambda>x. sl_id (snd x)) (filter (\<lambda>x. f (snd x) = Some d) al)"

definition digest_of :: "string list \<Rightarrow> digest_layer_t option" where
  "digest_of ids = (if ids = [] then None else Some \<lparr>layer_list = ids, layer_list_len = length ids\<rparr>)"

definition digest_index :: "(storage_layer \<Rightarrow> string option) \<Rightarrow> entry_list \<Rightarrow> string \<rightharpoonup> digest_layer_t" where
  "digest_index f al = (\<lambda>d. digest_of (ids_with f d al))"

definition without :: "addr \<Rightarrow> entry_list \<Rightarrow> entry_list" where
  "without a al = filter (\<lambda>x. fst x \<noteq> a) al"

definition entries_ok :: "entry_list \<Rightarrow> bool" where
  "entries_ok al \<longleftrightarrow> distinct (map fst al) \<and> distinct (map (\<lambda>x. sl_id (snd x)) al) \<and> distinct (map fst (name_pairs al))"

lemma name_pairs_simps [simp]:
  "name_pairs [] = []" "name_pairs (x # al) = map (\<lambda>n. (n, fst x)) (sl_names (snd x)) @ name_pairs al"
  "name_pairs (al @ bl) = name_pairs al @ name_pairs bl"
  by (simp_all add: name_pairs_def case_prod_unfold)

lemma ids_with_simps [simp]:
  "ids_with f d [] = []"
  "ids_with f d (x # al) = (if f (snd x) = Some d then [sl_id (snd x)] else []) @ ids_with f d al"
  "ids_with f d (al @ bl) = ids_with f d al @ ids_with f d bl"
  by (simp_all add: ids_with_def case_prod_unfold)

lemma ids_with_sub: "set (ids_with f d al) \<subseteq> (\<lambda>x. sl_id (snd x)) ` set al"
  by (auto simp: ids_with_def)

lemma without_notin [simp]: "a \<notin> fst ` set al \<Longrightarrow> without a al = al"
  by (auto simp: without_def filter_id_conv)

lemma without_append [simp]: "without a (al @ bl) = without a al @ without a bl"
  by (simp add: without_def)

lemma without_simps [simp]:
  "without a [] = []" "without a (x # al) = (if fst x = a then without a al else x # without a al)"
  by (simp_all add: without_def)

lemma name_pairs_set: "(n, a) \<in> set (name_pairs al) \<longleftrightarrow> (\<exists>s. (a, s) \<in> set al \<and> n \<in> set (sl_names s))"
  by (induction al) auto

lemma name_dom: "n \<in> fst ` set (name_pairs al) \<longleftrightarrow> (\<exists>x \<in> set al. n \<in> set (sl_names (snd x)))"
  by (force simp: image_iff Bex_def name_pairs_set)

lemma entries_split:
  assumes "entries_ok al" and "(a, s) \<in> set al"
  obtains bl cl where "al = bl @ (a, s) # cl" "a \<notin> fst ` set bl" "a \<notin> fst ` set cl" "without a al = bl @ cl"
proof -
  obtain bl cl where al: "al = bl @ (a, s) # cl" using assms(2) by (meson split_list)
  then have "a \<notin> fst ` set bl" "a \<notin> fst ` set cl" using assms(1) by (auto simp: entries_ok_def)
  with al show ?thesis by (intro that [of bl cl]) auto
qed

lemma entries_without: "entries_ok al \<Longrightarrow> entries_ok (without a al)"
proof -
  have "distinct (map fst (name_pairs al)) \<Longrightarrow> distinct (map fst (name_pairs (without a al)))" for al
  proof (induction al)
    case (Cons x al)
    have "fst ` set (name_pairs (without a al)) \<subseteq> fst ` set (name_pairs al)"
      unfolding subset_iff name_dom without_def set_filter by blast
    with Cons show ?case by (auto simp: Int_commute)
  qed simp
  then show "entries_ok al \<Longrightarrow> entries_ok (without a al)"
    by (auto simp: entries_ok_def without_def distinct_map_filter)
qed

lemma entries_append:
  "entries_ok (al @ [(a, s)]) \<longleftrightarrow> entries_ok al \<and> a \<notin> fst ` set al \<and> id_index al (sl_id s) = None \<and>
     distinct (sl_names s) \<and> (\<forall>n \<in> set (sl_names s). name_index al n = None)"
  by (auto simp: entries_ok_def id_index_def name_index_def map_of_eq_None_iff distinct_map inj_on_def image_iff case_prod_unfold)

lemma id_index_append: "id_index al (sl_id s) = None \<Longrightarrow> id_index (al @ [(a, s)]) = (id_index al)(sl_id s \<mapsto> a)"
  by (auto simp: id_index_def fun_eq_iff map_add_def split: option.splits)

lemma name_index_append:
  "\<forall>n \<in> set (sl_names s). name_index al n = None \<Longrightarrow>
     name_index (al @ [(a, s)]) = (\<lambda>n. if n \<in> set (sl_names s) then Some a else name_index al n)"
  by (auto simp: name_index_def fun_eq_iff map_add_def map_of_map_restrict split: option.splits)

lemma id_index_without:
  assumes "entries_ok al" and "(a, s) \<in> set al"
  shows "id_index (without a al) = (id_index al)(sl_id s := None)"
proof -
  obtain bl cl where al: "al = bl @ (a, s) # cl" "without a al = bl @ cl" using entries_split [OF assms] by metis
  have "sl_id s \<notin> (\<lambda>x. sl_id (snd x)) ` set (bl @ cl)" using assms(1) by (auto simp: al(1) entries_ok_def)
  then have "map_of (map (\<lambda>x. (sl_id (snd x), fst x)) bl) (sl_id s) = None" "map_of (map (\<lambda>x. (sl_id (snd x), fst x)) cl) (sl_id s) = None"
    by (auto simp: map_of_eq_None_iff image_iff)
  then show ?thesis unfolding al(2) by (auto simp: al(1) id_index_def fun_eq_iff map_add_def split: option.splits)
qed

lemma name_index_without:
  assumes "entries_ok al" and "(a, s) \<in> set al"
  shows "name_index (without a al) = (\<lambda>n. if n \<in> set (sl_names s) then None else name_index al n)"
proof -
  obtain bl cl where al: "al = bl @ (a, s) # cl" "without a al = bl @ cl" using entries_split [OF assms] by metis
  have d: "n \<notin> fst ` set (name_pairs bl)" "n \<notin> fst ` set (name_pairs cl)" if "n \<in> set (sl_names s)" for n
    using assms(1) that by (auto simp: al(1) entries_ok_def image_iff)
  have "map_of (name_pairs bl) n = None" "map_of (name_pairs cl) n = None" if "n \<in> set (sl_names s)" for n
    using d that by (simp_all add: map_of_eq_None_iff)
  then show ?thesis unfolding al(2)
    by (auto simp: al(1) name_index_def fun_eq_iff map_add_def map_of_map_restrict split: option.splits)
qed

lemma ids_with_without:
  assumes "entries_ok al" and "(a, s) \<in> set al"
  shows "ids_with f d (without a al) = (if f s = Some d then remove1 (sl_id s) (ids_with f d al) else ids_with f d al)"
proof -
  obtain bl cl where al: "al = bl @ (a, s) # cl" "without a al = bl @ cl" using entries_split [OF assms] by metis
  have "sl_id s \<notin> (\<lambda>x. sl_id (snd x)) ` set bl" using assms(1) by (auto simp: al(1) entries_ok_def)
  then have "sl_id s \<notin> set (ids_with f d bl)" using ids_with_sub [of f d bl] by blast
  then show ?thesis unfolding al(2) by (simp add: al(1) remove1_append)
qed

lemma id_index_Some: "entries_ok al \<Longrightarrow> id_index al x = Some a \<longleftrightarrow> (\<exists>s. (a, s) \<in> set al \<and> sl_id s = x)"
  by (auto simp: id_index_def entries_ok_def o_def image_iff intro!: map_of_is_SomeI dest!: map_of_SomeD)
    (metis fst_conv snd_conv)

lemma name_index_Some: "entries_ok al \<Longrightarrow> name_index al x = Some a \<longleftrightarrow> (\<exists>s. (a, s) \<in> set al \<and> x \<in> set (sl_names s))"
  by (auto simp: name_index_def entries_ok_def name_pairs_set intro!: map_of_is_SomeI dest!: map_of_SomeD)

section \<open>Operations on the indexes\<close>

lemma size_dec_Suc [simp]: "0 < n \<Longrightarrow> size_dec n = n - 1"
  by (simp add: size_dec_def)

lemma search_al_update: "smap_search m k \<noteq> None \<Longrightarrow> smap_search (al_update k v m) = (smap_search m)(k \<mapsto> v)"
  using map_of_al_update [of k m v] smap_dom [of m k] by (auto simp: smap_search_def fun_eq_iff)

lemma digest_of_simps [simp]: "digest_of [] = None" "digest_of (x # xs) = Some \<lparr>layer_list = x # xs, layer_list_len = Suc (length xs)\<rparr>"
  by (simp_all add: digest_of_def)

lemma digest_of_None [simp]: "digest_of ids = None \<longleftrightarrow> ids = []"
  by (simp add: digest_of_def)

lemma insert_digest_failed: "fst (insert_digest_into_map e k m d lid) \<noteq> 0 \<Longrightarrow> snd (insert_digest_into_map e k m d lid) = m"
proof (cases d)
  case (Some x)
  have "snd (insert_new_digest_list e k m x lid) = m" if "fst (insert_new_digest_list e k m x lid) \<noteq> 0"
    using that smap.failed_insert [of "lv_mem e (M_Map_Digest k)" True m x "\<lparr>layer_list = [lid], layer_list_len = 1\<rparr>"]
    by (auto simp: insert_new_digest_list_def split: prod.splits if_splits)
  with Some show "fst (insert_digest_into_map e k m d lid) \<noteq> 0 \<Longrightarrow> ?thesis"
    by (auto simp: insert_digest_into_map_def split: option.splits if_splits)
qed (simp add: insert_digest_into_map_def)

lemma insert_digest_search:
  assumes "smap_search m = digest_index f al" and "fst (insert_digest_into_map e k m (f s) (sl_id s)) = 0"
  shows "smap_search (snd (insert_digest_into_map e k m (f s) (sl_id s))) = digest_index f (al @ [(a, s)])"
proof (cases "f s")
  case None
  then show ?thesis using assms by (simp add: insert_digest_into_map_def digest_index_def)
next
  case (Some d)
  have idx: "digest_index f (al @ [(a, s)]) = (digest_index f al)(d := digest_of (ids_with f d al @ [sl_id s]))"
    using Some by (auto simp: digest_index_def fun_eq_iff)
  show ?thesis
  proof (cases "ids_with f d al")
    case Nil
    let ?v = "\<lparr>layer_list = [sl_id s], layer_list_len = 1\<rparr>"
    have "smap_search m d = None" using Nil assms(1) by (simp add: digest_index_def)
    then have "insert_digest_into_map e k m (f s) (sl_id s) = (0, snd (smap_insert (lv_mem e (M_Map_Digest k)) True m d ?v))"
        "fst (smap_insert (lv_mem e (M_Map_Digest k)) True m d ?v)"
      using assms(2) Some
      by (auto simp: insert_digest_into_map_def insert_new_digest_list_def split: prod.splits if_splits)
    then show ?thesis using idx Nil assms(1) by (simp add: smap.insert_search)
  next
    case (Cons x xs)
    then have "smap_search m d = Some \<lparr>layer_list = x # xs, layer_list_len = Suc (length xs)\<rparr>"
      using assms(1) by (simp add: digest_index_def)
    then show ?thesis using idx Cons assms Some
      by (simp add: insert_digest_into_map_def search_al_update split: if_splits)
  qed
qed

lemma delete_digest_zero: "fst (delete_digest_from_map m d lid) = 0"
  by (simp add: delete_digest_from_map_def Let_def split: option.splits)

lemma delete_digest_search:
  assumes "smap_search m = digest_index f al" and "entries_ok al" and "(a, s) \<in> set al"
  shows "smap_search (snd (delete_digest_from_map m (f s) (sl_id s))) = digest_index f (without a al)"
proof (cases "f s")
  case None
  then show ?thesis using assms ids_with_without [OF assms(2,3), of f]
    by (simp add: delete_digest_from_map_def digest_index_def)
next
  case (Some d)
  have mem: "sl_id s \<in> set (ids_with f d al)" using assms(3) Some by (force simp: ids_with_def)
  then have ne: "ids_with f d al \<noteq> []" by auto
  then have sr: "smap_search m d = Some \<lparr>layer_list = ids_with f d al, layer_list_len = length (ids_with f d al)\<rparr>"
    using assms(1) by (simp add: digest_index_def digest_of_def)
  have idx: "digest_index f (without a al) = (digest_index f al)(d := digest_of (remove1 (sl_id s) (ids_with f d al)))"
    using Some ids_with_without [OF assms(2,3), of f] by (auto simp: digest_index_def fun_eq_iff)
  have "length (ids_with f d al) - 1 = 0 \<longleftrightarrow> remove1 (sl_id s) (ids_with f d al) = []"
    using mem by (metis length_0_conv length_remove1)
  moreover have "size_dec (length (ids_with f d al)) = length (ids_with f d al) - 1" using ne by simp
  ultimately show ?thesis unfolding delete_digest_from_map_def Some option.case sr Let_def idx
    using mem assms(1) sr by (simp add: search_al_update smap.remove_search digest_of_def length_remove1)
qed

lemma remove_names_search: "smap_search (remove_names ns m) = (\<lambda>n. if n \<in> set ns then None else smap_search m n)"
  by (induction ns arbitrary: m) (auto simp: smap.remove_search)

text \<open>The names that went in are new and distinct; all of them when nothing failed.\<close>

lemma insert_names_cases:
  assumes "insert_names e a i ns m = (ok, j, m')"
  shows "i \<le> j \<and> (ok \<longrightarrow> j = i + length ns) \<and> distinct (take (j - i) ns) \<and>
    (\<forall>n \<in> set (take (j - i) ns). smap_search m n = None) \<and>
    smap_search m' = (\<lambda>n. if n \<in> set (take (j - i) ns) then Some a else smap_search m n)"
  using assms
proof (induction ns arbitrary: i m)
  case (Cons n ns)
  obtain ok1 m1 where m1: "smap_insert (lv_mem e (M_Map_Name i)) True m n a = (ok1, m1)" by fastforce
  show ?case
  proof (cases ok1)
    case False
    then have "m1 = m" using smap.failed_insert [of "lv_mem e (M_Map_Name i)" True m n a] m1 by simp
    then show ?thesis using Cons.prems m1 False by auto
  next
    case True
    then have n: "smap_search m n = None" "smap_search m1 = (smap_search m)(n \<mapsto> a)"
      using smap.insert_fails [of "lv_mem e (M_Map_Name i)" True m n a]
        smap.insert_search [of "lv_mem e (M_Map_Name i)" True m n a] m1 by simp_all
    have "insert_names e a (Suc i) ns m1 = (ok, j, m')" using Cons.prems m1 True by simp
    note IH = Cons.IH [OF this]
    then have "Suc i \<le> j" by blast
    then have "j - i = Suc (j - Suc i)" by simp
    then have t: "take (j - i) (n # ns) = n # take (j - Suc i) ns" by simp
    show ?thesis unfolding t using IH n by (auto split: if_splits)
  qed
qed auto

section \<open>The invariant\<close>

text \<open>The size and the completion mark of a layer are in no index.\<close>

definition norm :: "storage_layer \<Rightarrow> storage_layer" where
  "norm s = s\<lparr>sl_diff_size := 0, sl_incompelte := False\<rparr>"

lemma norm_simps [simp]:
  "sl_id (norm s) = sl_id s" "sl_names (norm s) = sl_names s" "sl_diff_digest (norm s) = sl_diff_digest s"
  "sl_compressed_diff_digest (norm s) = sl_compressed_diff_digest s"
  "norm (s\<lparr>sl_diff_size := n\<rparr>) = norm s" "norm (s\<lparr>sl_incompelte := b\<rparr>) = norm s"
  by (simp_all add: norm_def)

lemma digest_norm [simp]:
  "sl_diff_digest \<circ> norm = sl_diff_digest" "sl_compressed_diff_digest \<circ> norm = sl_compressed_diff_digest"
  by (simp_all add: fun_eq_iff)

definition slayer_at :: "(addr \<rightharpoonup> layer_t) \<Rightarrow> addr \<Rightarrow> storage_layer" where
  "slayer_at h a = norm (the (slayer (the (h a))))"

definition entries_of :: "lstore \<Rightarrow> entry_list" where
  "entries_of st = map (\<lambda>a. (a, slayer_at (layers st) a)) (layers_list st)"

definition indexes :: "entry_list \<Rightarrow> lstore \<Rightarrow> bool" where
  "indexes al st \<longleftrightarrow> smap_search (by_id st) = id_index al \<and> smap_search (by_name st) = name_index al \<and>
     smap_search (by_compress_digest st) = digest_index sl_compressed_diff_digest al \<and>
     smap_search (by_uncompress_digest st) = digest_index sl_diff_digest al"

definition indexed :: "lstore \<Rightarrow> bool" where
  "indexed st \<longleftrightarrow> entries_ok (entries_of st) \<and> layers_list_len st = length (layers_list st) \<and> indexes (entries_of st) st"

text \<open>\<open>held a\<close> counts the references to \<open>a\<close> besides the one of the list.\<close>

definition listed :: "lstore \<Rightarrow> addr \<Rightarrow> nat" where
  "listed st a = (if a \<in> set (layers_list st) then 1 else 0)"

definition ref_at :: "layer_t option \<Rightarrow> nat \<Rightarrow> bool" where
  "ref_at p n \<longleftrightarrow> (case p of None \<Rightarrow> n = 0 | Some l \<Rightarrow> slayer l \<noteq> None \<and> l_refcnt l = n \<and> 0 < n)"

definition refs_ok :: "lstore \<Rightarrow> (addr \<Rightarrow> nat) \<Rightarrow> bool" where
  "refs_ok st held \<longleftrightarrow> (\<forall>a. ref_at (layers st a) (held a + listed st a))"

definition store_ok :: "lstore \<Rightarrow> (addr \<Rightarrow> nat) \<Rightarrow> bool" where
  "store_ok st held \<longleftrightarrow> indexed st \<and> refs_ok st held"

definition bounded :: "(addr \<Rightarrow> nat) \<Rightarrow> nat \<Rightarrow> bool" where
  "bounded held n \<longleftrightarrow> (\<forall>a. held a + n < 2 ^ 64)"

text \<open>What a client can see: the layers in the order of the list, without their counts.\<close>

definition content :: "layer_t \<Rightarrow> layer_t" where
  "content l = l\<lparr>l_refcnt := 0\<rparr>"

definition view :: "lstore \<Rightarrow> layer_t list" where
  "view st = map (\<lambda>a. content (the (layers st a))) (layers_list st)"

lemma ref_at_simps [simp]:
  "ref_at None n \<longleftrightarrow> n = 0" "ref_at (Some l) n \<longleftrightarrow> slayer l \<noteq> None \<and> l_refcnt l = n \<and> 0 < n"
  by (simp_all add: ref_at_def)

lemma ref_at_Some: "ref_at p n \<Longrightarrow> 0 < n \<Longrightarrow> \<exists>l s. p = Some l \<and> slayer l = Some s \<and> l_refcnt l = n"
  by (cases p) auto

lemma refs_okD:
  assumes "refs_ok st held" and "0 < held a + listed st a"
  obtains l s where "layers st a = Some l" "slayer l = Some s" "l_refcnt l = held a + listed st a"
proof -
  have "ref_at (layers st a) (held a + listed st a)" using assms(1) by (simp add: refs_ok_def)
  from ref_at_Some [OF this assms(2)] show ?thesis using that by blast
qed

lemma listed_pos [simp]: "a \<in> set (layers_list st) \<Longrightarrow> listed st a = 1"
  by (simp add: listed_def)

lemma in_entries: "(a, s) \<in> set (entries_of st) \<longleftrightarrow> a \<in> set (layers_list st) \<and> s = slayer_at (layers st) a"
  by (auto simp: entries_of_def)

lemma entries_addrs [simp]: "map fst (entries_of st) = layers_list st" "fst ` set (entries_of st) = set (layers_list st)"
  by (simp_all add: entries_of_def comp_def image_image)

lemma list_distinct: "indexed st \<Longrightarrow> distinct (layers_list st)"
  using entries_addrs(1) [of st] by (metis indexed_def entries_ok_def)

text \<open>What is recorded outside does not matter.\<close>

lemma effects_frame [simp]:
  "store_ok (st\<lparr>effects := x\<rparr>) held = store_ok st held" "view (st\<lparr>effects := x\<rparr>) = view st"
  "find_addr p (st\<lparr>effects := x\<rparr>) = find_addr p st"
  by (simp_all add: store_ok_def indexed_def indexes_def refs_ok_def entries_of_def view_def listed_def find_addr_def
      cong: option.case_cong)

lemma ext_frame [simp]:
  "store_ok (snd (ext e c st)) held = store_ok st held" "view (snd (ext e c st)) = view st"
  "layers (snd (ext e c st)) = layers st" "layers_list (snd (ext e c st)) = layers_list st"
  "by_id (snd (ext e c st)) = by_id st" "by_name (snd (ext e c st)) = by_name st"
  "g_root_dir (snd (ext e c st)) = g_root_dir st" "g_run_dir (snd (ext e c st)) = g_run_dir st"
  "find_addr p (snd (ext e c st)) = find_addr p st"
  by (simp_all add: ext_def)

lemma ext_fst [simp]: "fst (ext e c st) = lv_ret e c"
  by (simp add: ext_def)

text \<open>An update of one layer that changes neither its keys nor its count.\<close>

lemma put_layer_simps [simp]:
  "layers (put_layer a l st) = (layers st)(a \<mapsto> l)" "layers_list (put_layer a l st) = layers_list st"
  "by_id (put_layer a l st) = by_id st" "by_name (put_layer a l st) = by_name st"
  "by_compress_digest (put_layer a l st) = by_compress_digest st"
  "by_uncompress_digest (put_layer a l st) = by_uncompress_digest st"
  "layers_list_len (put_layer a l st) = layers_list_len st" "g_root_dir (put_layer a l st) = g_root_dir st"
  "g_run_dir (put_layer a l st) = g_run_dir st" "effects (put_layer a l st) = effects st"
  "find_addr p (put_layer a l st) = find_addr p st" "listed (put_layer a l st) = listed st"
  by (simp_all add: put_layer_def find_addr_def listed_def fun_eq_iff cong: option.case_cong)

lemma put_indexed:
  assumes "indexed st" and "layers st a = Some l" and "norm (the (slayer l')) = norm (the (slayer l))"
  shows "indexed (put_layer a l' st)"
proof -
  have "slayer_at ((layers st)(a \<mapsto> l')) = slayer_at (layers st)" using assms(2,3) by (auto simp: slayer_at_def fun_eq_iff)
  then have "entries_of (put_layer a l' st) = entries_of st" by (simp add: entries_of_def)
  with assms(1) show ?thesis by (simp add: indexed_def indexes_def)
qed

lemma put_ok:
  assumes "store_ok st held" and "layers st a = Some l" and "slayer l' \<noteq> None" and "slayer l \<noteq> None \<Longrightarrow> norm (the (slayer l')) = norm (the (slayer l))"
    and "l_refcnt l' = l_refcnt l"
  shows "store_ok (put_layer a l' st) held"
proof -
  have at: "ref_at (layers st b) (held b + listed st b)" for b using assms(1) by (simp add: store_ok_def refs_ok_def)
  have l: "slayer l \<noteq> None" "l_refcnt l = held a + listed st a" "0 < held a + listed st a"
    using at [of a] assms(2) by simp_all
  then have "indexed (put_layer a l' st)" using assms put_indexed by (simp add: store_ok_def)
  moreover have "refs_ok (put_layer a l' st) held" using at l assms(3,5) by (simp add: refs_ok_def)
  ultimately show ?thesis by (simp add: store_ok_def)
qed

lemma view_put: "view (put_layer a l st) = map (\<lambda>b. content (if b = a then l else the (layers st b))) (layers_list st)"
  by (auto simp: view_def)

lemma view_same: "layers st a = Some l \<Longrightarrow> content l' = content l \<Longrightarrow> view (put_layer a l' st) = view st"
  by (auto simp: view_def)

section \<open>References\<close>

lemma ref_inc_eq:
  "layers st a = Some l \<Longrightarrow> l_refcnt l + 1 < 2 ^ 64 \<Longrightarrow>
     layer_ref_inc (Some a) st = Some (put_layer a (l\<lparr>l_refcnt := l_refcnt l + 1\<rparr>) st)"
  by (simp add: layer_ref_inc_def atomic_inc)

lemma ref_dec_eq:
  assumes "layers st a = Some l" and "0 < l_refcnt l" and "l_refcnt l < 2 ^ 64"
  shows "layer_ref_dec (Some a) st =
    Some (if l_refcnt l = 1 then st\<lparr>layers := (layers st)(a := None)\<rparr> else put_layer a (l\<lparr>l_refcnt := l_refcnt l - 1\<rparr>) st)"
  using assms by (simp add: layer_ref_dec_def atomic_dec)

lemma ref_inc_None [simp]: "layer_ref_inc None st = Some st" "layer_ref_dec None st = Some st"
  by (simp_all add: layer_ref_inc_def layer_ref_dec_def)

text \<open>Only the heap differs.\<close>

definition heap_only :: "lstore \<Rightarrow> lstore \<Rightarrow> bool" where
  "heap_only st st' \<longleftrightarrow> st' = st\<lparr>layers := layers st'\<rparr>"

lemma heap_only_simps:
  assumes "heap_only st st'"
  shows "layers_list st' = layers_list st" "by_id st' = by_id st" "by_name st' = by_name st"
    "by_compress_digest st' = by_compress_digest st" "by_uncompress_digest st' = by_uncompress_digest st"
    "layers_list_len st' = layers_list_len st" "g_root_dir st' = g_root_dir st" "g_run_dir st' = g_run_dir st"
    "effects st' = effects st" "listed st' = listed st" "find_addr p st' = find_addr p st"
proof -
  have "st' = st\<lparr>layers := layers st'\<rparr>" using assms by (simp add: heap_only_def)
  then obtain h where h: "st' = st\<lparr>layers := h\<rparr>" by blast
  show "layers_list st' = layers_list st" "by_id st' = by_id st" "by_name st' = by_name st"
    "by_compress_digest st' = by_compress_digest st" "by_uncompress_digest st' = by_uncompress_digest st"
    "layers_list_len st' = layers_list_len st" "g_root_dir st' = g_root_dir st" "g_run_dir st' = g_run_dir st"
    "effects st' = effects st" by (simp_all add: h)
  show "listed st' = listed st" "find_addr p st' = find_addr p st"
    by (simp_all add: h listed_def fun_eq_iff find_addr_def cong: option.case_cong)
qed

lemma heap_only_put [simp]: "heap_only st (put_layer a l st)"
  by (simp add: heap_only_def put_layer_def)

lemma heap_only_upd [simp]: "heap_only st (st\<lparr>layers := h\<rparr>)"
  by (simp add: heap_only_def)

lemma heap_only_indexed:
  assumes "indexed st" and "heap_only st st'"
    and "\<And>b. b \<in> set (layers_list st) \<Longrightarrow> slayer_at (layers st') b = slayer_at (layers st) b"
  shows "indexed st'"
proof -
  have "entries_of st' = entries_of st" using assms(2,3) by (simp add: entries_of_def heap_only_simps)
  with assms(1,2) show ?thesis by (simp add: indexed_def indexes_def heap_only_simps)
qed

lemma inc_ok:
  assumes "store_ok st held" and "0 < held a + listed st a" and "bounded held 2"
  obtains l where "layers st a = Some l" "layer_ref_inc (Some a) st = Some (put_layer a (l\<lparr>l_refcnt := l_refcnt l + 1\<rparr>) st)"
    "store_ok (put_layer a (l\<lparr>l_refcnt := l_refcnt l + 1\<rparr>) st) (held(a := held a + 1))"
    "view (put_layer a (l\<lparr>l_refcnt := l_refcnt l + 1\<rparr>) st) = view st"
proof -
  let ?l = "\<lambda>l. l\<lparr>l_refcnt := l_refcnt l + 1\<rparr> :: layer_t"
  obtain l s where l: "layers st a = Some l" "slayer l = Some s" "l_refcnt l = held a + listed st a"
    using refs_okD assms unfolding store_ok_def by metis
  moreover have "held a + 2 < 2 ^ 64" using assms(3) by (simp add: bounded_def)
  ultimately have "layer_ref_inc (Some a) st = Some (put_layer a (?l l) st)"
    by (intro ref_inc_eq) (auto simp: listed_def)
  moreover have "indexed (put_layer a (?l l) st)" using assms(1) l put_indexed [of st a l "?l l"] by (simp add: store_ok_def)
  moreover have "refs_ok (put_layer a (?l l) st) (held(a := held a + 1))" using assms(1) l by (simp add: store_ok_def refs_ok_def)
  moreover have "view (put_layer a (?l l) st) = view st" using l by (simp add: view_same content_def)
  ultimately show ?thesis using that [OF l(1)] unfolding store_ok_def by blast
qed

lemma dec_ok:
  assumes "store_ok st held" and "0 < held a" and "bounded held 1"
  shows "\<exists>st'. layer_ref_dec (Some a) st = Some st' \<and> store_ok st' (held(a := held a - 1)) \<and> view st' = view st \<and>
    heap_only st st' \<and> (\<forall>b. b \<noteq> a \<longrightarrow> layers st' b = layers st b)"
proof -
  obtain l s where l: "layers st a = Some l" "slayer l = Some s" "l_refcnt l = held a + listed st a"
    using refs_okD [of st held a] assms unfolding store_ok_def by auto
  have "held a + 1 < 2 ^ 64" using assms(3) by (simp add: bounded_def)
  moreover have "0 < l_refcnt l" using l(3) assms(2) by simp
  ultimately have eq: "layer_ref_dec (Some a) st = Some (if l_refcnt l = 1 then st\<lparr>layers := (layers st)(a := None)\<rparr>
      else put_layer a (l\<lparr>l_refcnt := l_refcnt l - 1\<rparr>) st)" (is "_ = Some ?st'")
    using l by (intro ref_dec_eq) (auto simp: listed_def)
  have al: "a \<notin> set (layers_list st)" if "l_refcnt l = 1" using that l(3) assms(2) by (simp add: listed_def split: if_splits)
  have ho: "heap_only st ?st'" by simp
  have oth: "layers ?st' b = layers st b" if "b \<noteq> a" for b using that by simp
  have keep: "layers ?st' a = Some (l\<lparr>l_refcnt := l_refcnt l - 1\<rparr>)" if "l_refcnt l \<noteq> 1" using that by simp
  have "slayer_at (layers ?st') b = slayer_at (layers st) b" if "b \<in> set (layers_list st)" for b
    using that al l oth by (cases "b = a") (auto simp: slayer_at_def)
  then have "indexed ?st'" using assms(1) ho heap_only_indexed unfolding store_ok_def by blast
  moreover have "refs_ok ?st' (held(a := held a - 1))"
    unfolding refs_ok_def heap_only_simps [OF ho]
  proof
    fix b
    show "ref_at (layers ?st' b) ((held(a := held a - 1)) b + listed st b)"
    proof (cases "b = a")
      case False
      then show ?thesis using oth assms(1) by (simp add: store_ok_def refs_ok_def)
    next
      case True
      show ?thesis
      proof (cases "l_refcnt l = 1")
        case True
        with \<open>b = a\<close> l(3) assms(2) show ?thesis by (auto simp: listed_def split: if_splits)
      qed (use \<open>b = a\<close> keep l assms(2) in auto)
    qed
  qed
  moreover have "view ?st' = view st" using al l oth keep heap_only_simps(1) [OF ho] by (auto simp: view_def content_def)
  ultimately show ?thesis using eq ho oth unfolding store_ok_def by blast
qed

lemma find_listed:
  assumes "indexed st" and "find_addr p st = Some a"
  shows "a \<in> set (layers_list st)"
proof -
  have ok: "entries_ok (entries_of st)" "smap_search (by_id st) = id_index (entries_of st)"
    "smap_search (by_name st) = name_index (entries_of st)" using assms(1) by (auto simp: indexed_def indexes_def)
  show ?thesis using assms(2) id_index_Some [OF ok(1)] name_index_Some [OF ok(1)]
    by (auto simp: find_addr_def ok(2,3) in_entries split: option.splits)
qed

lemma lookup_ok:
  assumes "store_ok st held" and "bounded held 2"
  shows "case find_addr p st of
      None \<Rightarrow> lookup p st = Some (None, st)
    | Some a \<Rightarrow> \<exists>l. layers st a = Some l \<and> a \<in> set (layers_list st) \<and>
        lookup p st = Some (Some a, put_layer a (l\<lparr>l_refcnt := l_refcnt l + 1\<rparr>) st) \<and>
        store_ok (put_layer a (l\<lparr>l_refcnt := l_refcnt l + 1\<rparr>) st) (held(a := held a + 1)) \<and>
        view (put_layer a (l\<lparr>l_refcnt := l_refcnt l + 1\<rparr>) st) = view st"
proof (cases "find_addr p st")
  case (Some a)
  have a: "a \<in> set (layers_list st)" using find_listed Some assms(1) unfolding store_ok_def by blast
  then have "0 < held a + listed st a" by simp
  from inc_ok [OF assms(1) this assms(2)] obtain l where l: "layers st a = Some l"
    "layer_ref_inc (Some a) st = Some (put_layer a (l\<lparr>l_refcnt := l_refcnt l + 1\<rparr>) st)"
    "store_ok (put_layer a (l\<lparr>l_refcnt := l_refcnt l + 1\<rparr>) st) (held(a := held a + 1))"
    "view (put_layer a (l\<lparr>l_refcnt := l_refcnt l + 1\<rparr>) st) = view st" .
  have "lookup p st = Some (Some a, put_layer a (l\<lparr>l_refcnt := l_refcnt l + 1\<rparr>) st)"
    unfolding lookup_def Some l(2) by simp
  with l a show ?thesis unfolding Some option.case by blast
qed (simp add: lookup_def)

section \<open>Taking a layer out\<close>

lemma list_position_eq:
  assumes "\<forall>b \<in> set (bs @ [a]). \<exists>l s. h b = Some l \<and> slayer l = Some s"
    and "\<forall>b \<in> set bs. sl_id (slayer_at h b) \<noteq> x" and "sl_id (slayer_at h a) = x"
  shows "list_position h x (bs @ a # cs) i = Some (Some (i + length bs))"
  using assms by (induction bs arbitrary: i) (auto simp: slayer_at_def)

lemma alive:
  assumes "refs_ok st held" and "b \<in> set (layers_list st)"
  shows "\<exists>l s. layers st b = Some l \<and> slayer l = Some s"
  using refs_okD [OF assms(1), of b] assms(2) by (metis add_gr_0 less_numeral_extra(1) listed_pos)

lemma by_id_entry:
  assumes "indexed st"
  shows "smap_search (by_id st) x = Some a \<longleftrightarrow> a \<in> set (layers_list st) \<and> sl_id (slayer_at (layers st) a) = x"
proof -
  have "entries_ok (entries_of st)" "smap_search (by_id st) = id_index (entries_of st)"
    using assms by (auto simp: indexed_def indexes_def)
  then show ?thesis using id_index_Some [of "entries_of st" x a] by (auto simp: in_entries)
qed

text \<open>The state without the layer \<open>a\<close>, whose references shrink to \<open>n\<close>.\<close>

definition heap_without :: "addr \<Rightarrow> nat \<Rightarrow> (addr \<rightharpoonup> layer_t) \<Rightarrow> addr \<rightharpoonup> layer_t" where
  "heap_without a n h = h(a := (if n = 0 then None else map_option (\<lambda>l. l\<lparr>l_refcnt := n\<rparr>) (h a)))"

lemma unindex:
  assumes "indexes al st" and "entries_ok al" and "(a, s) \<in> set al"
  shows "indexes (without a al) (st\<lparr>
    by_compress_digest := snd (delete_digest_from_map (by_compress_digest st) (sl_compressed_diff_digest s) (sl_id s)),
    by_uncompress_digest := snd (delete_digest_from_map (by_uncompress_digest st) (sl_diff_digest s) (sl_id s)),
    by_id := snd (smap_remove (by_id st) (sl_id s)), by_name := remove_names (sl_names s) (by_name st)\<rparr>)"
proof -
  have ix: "smap_search (by_id st) = id_index al" "smap_search (by_name st) = name_index al"
    "smap_search (by_compress_digest st) = digest_index sl_compressed_diff_digest al"
    "smap_search (by_uncompress_digest st) = digest_index sl_diff_digest al" using assms(1) by (simp_all add: indexes_def)
  show ?thesis
    using delete_digest_search [OF ix(3) assms(2,3)] delete_digest_search [OF ix(4) assms(2,3)]
      id_index_without [OF assms(2,3)] name_index_without [OF assms(2,3)]
    by (simp add: indexes_def smap.remove_search remove_names_search ix(1,2) cong: if_cong)
qed

lemma position_of:
  assumes "store_ok st held" and "smap_search (by_id st) x = Some a" and bs: "layers_list st = bs @ a # cs"
    and at: "slayer_at h = slayer_at (layers st)" and "\<forall>b \<in> set (bs @ [a]). \<exists>l s. h b = Some l \<and> slayer l = Some s"
  shows "list_position h x (bs @ a # cs) 0 = Some (Some (length bs))"
proof -
  have ix: "indexed st" using assms(1) by (simp add: store_ok_def)
  have "a \<notin> set bs" using list_distinct [OF ix] by (simp add: bs)
  then have "\<forall>b \<in> set bs. sl_id (slayer_at h b) \<noteq> x"
    unfolding at using by_id_entry [OF ix, of x] assms(2) bs by (metis UnI1 option.inject set_append)
  moreover have "sl_id (slayer_at h a) = x" unfolding at using by_id_entry [OF ix, of x a] assms(2) by blast
  ultimately show ?thesis using list_position_eq [of bs a h x cs 0] assms(5) by simp
qed

lemma remove_stores_run:
  assumes "store_ok st held" and "bounded held 3" and "smap_search (by_id st) x = Some a"
  shows "\<exists>st'. remove_memory_stores (Some x) st = Some (0, st') \<and> layers st' = heap_without a (held a) (layers st) \<and>
    layers_list st' = remove1 a (layers_list st) \<and> layers_list_len st' = layers_list_len st - 1 \<and>
    indexes (without a (entries_of st)) st' \<and> effects st' = effects st \<and> g_root_dir st' = g_root_dir st \<and>
    g_run_dir st' = g_run_dir st"
proof -
  have ix: "indexed st" and ro: "refs_ok st held" using assms(1) by (auto simp: store_ok_def)
  have a: "a \<in> set (layers_list st)" "sl_id (slayer_at (layers st) a) = x"
    using assms(3) by_id_entry [OF ix] by auto
  obtain bs cs where bs: "layers_list st = bs @ a # cs" using a(1) by (meson split_list)
  have d: "a \<notin> set bs" using list_distinct [OF ix] by (simp add: bs)
  obtain l s where l: "layers st a = Some l" "slayer l = Some s" "l_refcnt l = held a + 1"
    using refs_okD [OF ro, of a] a(1) by auto
  have s: "sl_id s = x" "slayer_at (layers st) a = norm s" using a(2) l by (simp_all add: slayer_at_def)
  have bnd: "held a + 3 < 2 ^ 64" using assms(2) by (simp add: bounded_def)
  define l1 where "l1 = l\<lparr>l_refcnt := held a + 2\<rparr>"
  define st1 where "st1 = put_layer a l1 st"
  have f: "find_addr (Some x) st = Some a" using assms(3) by (simp add: find_addr_def)
  have lk: "lookup (Some x) st = Some (Some a, st1)"
    unfolding lookup_def f using ref_inc_eq [OF l(1)] bnd by (simp add: l(3) st1_def l1_def)
  have st1: "layers st1 a = Some l1" "slayer l1 = Some s" using l by (simp_all add: st1_def l1_def)
  define st3 where "st3 = st1\<lparr>by_compress_digest := snd (delete_digest_from_map (by_compress_digest st1) (sl_compressed_diff_digest s) (sl_id s)),
    by_uncompress_digest := snd (delete_digest_from_map (by_uncompress_digest st1) (sl_diff_digest s) (sl_id s)),
    by_id := snd (smap_remove (by_id st1) (sl_id s)), by_name := remove_names (sl_names s) (by_name st1)\<rparr>"
  have st3: "layers st3 = (layers st)(a \<mapsto> l1)" "layers_list st3 = bs @ a # cs" by (simp_all add: st3_def st1_def bs)
  have at: "slayer_at (layers st3) = slayer_at (layers st)" using l by (auto simp: slayer_at_def fun_eq_iff st3 l1_def)
  have pos: "list_position (layers st3) x (layers_list st3) 0 = Some (Some (length bs))"
    unfolding st3(2) by (rule position_of [OF assms(1,3) bs at]) (use alive [OF ro] st1(2) in \<open>auto simp: bs st3\<close>)
  define st4 where "st4 = (put_layer a (l\<lparr>l_refcnt := held a + 1\<rparr>) st3)\<lparr>layers_list := bs @ cs,
    layers_list_len := layers_list_len st - 1\<rparr>"
  have len: "0 < layers_list_len st" using ix by (simp add: indexed_def bs)
  have del: "delete_g_layer_list_item (length bs) True st3 = Some st4"
  proof -
    have "layer_ref_dec (Some a) (st3\<lparr>layers_list := bs @ cs\<rparr>) =
        Some (put_layer a (l1\<lparr>l_refcnt := l_refcnt l1 - 1\<rparr>) (st3\<lparr>layers_list := bs @ cs\<rparr>))"
      using ref_dec_eq [of "st3\<lparr>layers_list := bs @ cs\<rparr>" a l1] bnd by (simp add: st3 l1_def)
    moreover have "layers_list_len st3 = layers_list_len st" by (simp add: st3_def st1_def)
    ultimately show ?thesis using len by (simp add: delete_g_layer_list_item_def Let_def st3(2) st4_def l1_def put_layer_def)
  qed
  have l4: "layers st4 a = Some (l\<lparr>l_refcnt := held a + 1\<rparr>)" by (simp add: st4_def)
  have "\<exists>st5. layer_ref_dec (Some a) st4 = Some st5 \<and> heap_only st4 st5 \<and> layers st5 = heap_without a (held a) (layers st)"
    using ref_dec_eq [OF l4] bnd l(1) by (auto simp: heap_without_def st4_def st3 fun_eq_iff)
  then obtain st5 where st5: "layer_ref_dec (Some a) st4 = Some st5" "heap_only st4 st5"
    "layers st5 = heap_without a (held a) (layers st)" by blast
  have run: "remove_memory_stores (Some x) st = Some (0, st5)"
    unfolding remove_memory_stores_def lk
    using delete_digest_zero [of "by_compress_digest st1" "sl_compressed_diff_digest s" "sl_id s"] pos del st5(1) st1
    by (simp add: case_prod_unfold st3_def Let_def)
  have "(a, norm s) \<in> set (entries_of st)" using a(1) s(2) by (simp add: in_entries)
  then have "indexes (without a (entries_of st)) st3"
    using unindex [of "entries_of st" st1 a "norm s"] ix by (simp add: indexed_def indexes_def st1_def st3_def)
  then have "indexes (without a (entries_of st)) st5"
    using heap_only_simps [OF st5(2)] by (simp add: indexes_def st4_def)
  moreover have "remove1 a (layers_list st) = bs @ cs" using d by (simp add: bs remove1_append)
  ultimately show ?thesis using run st5(3) heap_only_simps [OF st5(2)] by (simp add: st4_def st3_def st1_def)
qed

lemma without_entries:
  assumes "distinct (layers_list st)" and "layers_list st' = remove1 a (layers_list st)"
    and "\<And>b. b \<noteq> a \<Longrightarrow> slayer_at (layers st') b = slayer_at (layers st) b"
  shows "entries_of st' = without a (entries_of st)"
  using assms by (auto simp: entries_of_def without_def distinct_remove1_removeAll removeAll_filter_not_eq filter_map o_def neq_commute
      intro!: map_cong)

lemma remove_stores_ok:
  assumes "store_ok st held" and "bounded held 3" and "smap_search (by_id st) x = Some a"
  shows "\<exists>st'. remove_memory_stores (Some x) st = Some (0, st') \<and> store_ok st' held \<and>
    layers st' = heap_without a (held a) (layers st) \<and> layers_list st' = remove1 a (layers_list st) \<and>
    effects st' = effects st \<and> g_root_dir st' = g_root_dir st \<and> g_run_dir st' = g_run_dir st"
proof -
  from remove_stores_run [OF assms] obtain st' where st':
    "remove_memory_stores (Some x) st = Some (0, st')" "layers st' = heap_without a (held a) (layers st)"
    "layers_list st' = remove1 a (layers_list st)" "layers_list_len st' = layers_list_len st - 1"
    "indexes (without a (entries_of st)) st'"
    "effects st' = effects st" "g_root_dir st' = g_root_dir st" "g_run_dir st' = g_run_dir st" by blast
  have ix: "indexed st" and ro: "refs_ok st held" using assms(1) by (auto simp: store_ok_def)
  have a: "a \<in> set (layers_list st)" using assms(3) by_id_entry [OF ix] by auto
  have es: "entries_of st' = without a (entries_of st)"
    using without_entries [OF list_distinct [OF ix] st'(3)] st'(2) by (simp add: heap_without_def slayer_at_def)
  have "indexed st'" using ix st'(3-5) a es entries_without by (simp add: indexed_def length_remove1)
  moreover have "refs_ok st' held" unfolding refs_ok_def
  proof
    fix b
    have at: "ref_at (layers st b) (held b + listed st b)" using ro by (simp add: refs_ok_def)
    show "ref_at (layers st' b) (held b + listed st' b)"
    proof (cases "b = a")
      case True
      obtain l s where "layers st a = Some l" "slayer l = Some s" using alive [OF ro a] by blast
      moreover have "listed st' a = 0" using list_distinct [OF ix] st'(3) by (simp add: listed_def)
      ultimately show ?thesis using True by (simp add: st'(2) heap_without_def)
    next
      case False
      then show ?thesis using at by (simp add: st'(2,3) heap_without_def listed_def)
    qed
  qed
  ultimately show ?thesis using st' unfolding store_ok_def by blast
qed

section \<open>Putting a layer in\<close>

lemma tail_removed:
  "layers_list st = L @ [a] \<Longrightarrow> layers_list_len st = Suc n \<Longrightarrow>
     remove_layer_list_tail st = Some (st\<lparr>layers_list := L, layers_list_len := n\<rparr>)"
  by (simp add: remove_layer_list_tail_def delete_g_layer_list_item_def Let_def)

lemma clear_run:
  "layers_list st = L @ [a] \<Longrightarrow> layers_list_len st = Suc n \<Longrightarrow>
     clear_by_name i names lid st = Some (st\<lparr>by_name := remove_names (rev (take i names)) (by_name st),
       by_id := snd (smap_remove (by_id st) lid), layers_list := L, layers_list_len := n\<rparr>)"
  unfolding clear_by_name_def by (subst tail_removed [of _ L a n]) simp_all

text \<open>
  The outcome of an insertion from \<open>st\<close>: the layer \<open>a\<close> with the data \<open>s\<close> is in every index, or the indexes are
  what they were.
\<close>

definition inserted :: "lstore \<Rightarrow> addr \<Rightarrow> storage_layer \<Rightarrow> int \<Rightarrow> lstore \<Rightarrow> bool" where
  "inserted st a s r st' \<longleftrightarrow> layers st' = layers st \<and> effects st' = effects st \<and> g_root_dir st' = g_root_dir st \<and>
     g_run_dir st' = g_run_dir st \<and>
     (if r = 0
      then layers_list st' = layers_list st @ [a] \<and> layers_list_len st' = Suc (layers_list_len st) \<and>
        entries_ok (entries_of st @ [(a, norm s)]) \<and> indexes (entries_of st @ [(a, norm s)]) st'
      else layers_list st' = layers_list st \<and> layers_list_len st' = layers_list_len st \<and> indexes (entries_of st) st')"

lemma undo_names:
  assumes "smap_search m = g" and "insert_names e a 0 ns m = (ok, i, m')"
  shows "smap_search (remove_names (rev (take i ns)) m') = g"
  using insert_names_cases [OF assms(2)] assms(1) by (auto simp: remove_names_search fun_eq_iff)

lemma insert_names_all:
  assumes "smap_search m = name_index al" and "insert_names e a 0 (sl_names s) m = (True, i, m')"
  shows "distinct (sl_names s)" "\<forall>n \<in> set (sl_names s). name_index al n = None"
    "smap_search m' = name_index (al @ [(a, s)])"
proof -
  have i: "i = length (sl_names s)" using insert_names_cases [OF assms(2)] by simp
  have c: "distinct (sl_names s)" "\<forall>n \<in> set (sl_names s). name_index al n = None"
    "smap_search m' = (\<lambda>n. if n \<in> set (sl_names s) then Some a else name_index al n)"
    using insert_names_cases [OF assms(2)] assms(1) i by (simp_all cong: if_cong)
  then show "distinct (sl_names s)" "\<forall>n \<in> set (sl_names s). name_index al n = None" by simp_all
  with c show "smap_search m' = name_index (al @ [(a, s)])" by (simp add: name_index_append)
qed

lemma insert_digests_run:
  assumes "layers_list st = L @ [a]" and "layers_list_len st = Suc n" and "layers st a = Some l" and "slayer l = Some s"
    and "sl_id s = lid" and "entries_ok (al @ [(a, norm s)])"
    and "smap_search (by_compress_digest st) = digest_index sl_compressed_diff_digest al"
    and "smap_search (by_uncompress_digest st) = digest_index sl_diff_digest al"
  shows "\<exists>r c u. insert_digests e lid opts a i st = Some (r, (if r = 0 then st
      else st\<lparr>by_name := remove_names (rev (take i (lo_names opts))) (by_name st),
        by_id := snd (smap_remove (by_id st) lid), layers_list := L, layers_list_len := n\<rparr>)
        \<lparr>by_compress_digest := c, by_uncompress_digest := u\<rparr>) \<and>
    smap_search c = digest_index sl_compressed_diff_digest (if r = 0 then al @ [(a, norm s)] else al) \<and>
    smap_search u = digest_index sl_diff_digest (if r = 0 then al @ [(a, norm s)] else al)"
proof -
  let ?c = "insert_digest_into_map e True (by_compress_digest st) (sl_compressed_diff_digest s) lid"
    and ?u = "insert_digest_into_map e False (by_uncompress_digest st) (sl_diff_digest s) lid"
  have cok: "smap_search (snd ?c) = digest_index sl_compressed_diff_digest (al @ [(a, norm s)])" if "fst ?c = 0"
    using insert_digest_search [OF assms(7), of e True "norm s" a] that assms(5) by simp
  have uok: "smap_search (snd ?u) = digest_index sl_diff_digest (al @ [(a, norm s)])" if "fst ?u = 0"
    using insert_digest_search [OF assms(8), of e False "norm s" a] that assms(5) by simp
  have cf: "snd ?c = by_compress_digest st" if "fst ?c \<noteq> 0" using that by (rule insert_digest_failed)
  have uf: "snd ?u = by_uncompress_digest st" if "fst ?u \<noteq> 0" using that by (rule insert_digest_failed)
  have undo: "smap_search (snd (delete_digest_from_map (snd ?c) (sl_compressed_diff_digest s) lid)) =
      digest_index sl_compressed_diff_digest al" if "fst ?c = 0"
    using delete_digest_search [OF cok [OF that] assms(6), of a "norm s"] assms(5,6) by (simp add: entries_append)
  consider (c) "fst ?c \<noteq> 0" | (u) "fst ?c = 0" "fst ?u \<noteq> 0" | (ok) "fst ?c = 0" "fst ?u = 0" by blast
  then show ?thesis
  proof cases
    case c
    have "insert_digests e lid opts a i st = map_option (Pair (fst ?c)) (clear_by_name i (lo_names opts) lid st)"
      using c cf [OF c] assms(3,4) by (simp add: insert_digests_def case_prod_unfold map_option_case split: option.split)
    with c clear_run [OF assms(1,2)] show ?thesis using assms(7,8)
      by (intro exI [of _ "fst ?c"] exI [of _ "by_compress_digest st"] exI [of _ "by_uncompress_digest st"]) simp
  next
    case u
    let ?d = "snd (delete_digest_from_map (snd ?c) (sl_compressed_diff_digest s) lid)"
    have "insert_digests e lid opts a i st = map_option (Pair (fst ?u)) (clear_by_name i (lo_names opts) lid
        (st\<lparr>by_compress_digest := ?d\<rparr>))"
      using u uf [OF u(2)] assms(3,4) by (simp add: insert_digests_def case_prod_unfold map_option_case split: option.split)
    with u undo clear_run [of "st\<lparr>by_compress_digest := ?d\<rparr>" L a n i "lo_names opts" lid] show ?thesis using assms(1,2,8)
      by (intro exI [of _ "fst ?u"] exI [of _ ?d] exI [of _ "by_uncompress_digest st"]) simp
  next
    case ok
    have "insert_digests e lid opts a i st = Some (0, st\<lparr>by_compress_digest := snd ?c, by_uncompress_digest := snd ?u\<rparr>)"
      using ok assms(3,4) by (simp add: insert_digests_def case_prod_unfold)
    with cok [OF ok(1)] uok [OF ok(2)] show ?thesis
      by (intro exI [of _ 0] exI [of _ "snd ?c"] exI [of _ "snd ?u"]) simp
  qed
qed

text \<open>The digests come last; when one of them does not go in, everything is taken back.\<close>

lemma insert_rest:
  assumes "indexed st" and "layers st a = Some l" and "slayer l = Some s" and "a \<notin> set (layers_list st)"
    and "sl_id s = lid" and "sl_names s = lo_names opts"
    and m: "smap_insert (lv_mem e M_Map_Id) True (by_id st) lid a = (True, m)"
    and m2: "insert_names e a 0 (lo_names opts) (by_name st) = (True, i, m2)"
  shows "\<exists>r st'. insert_digests e lid opts a i (st\<lparr>layers_list := layers_list st @ [a],
      layers_list_len := Suc (layers_list_len st), by_id := m, by_name := m2\<rparr>) = Some (r, st') \<and> inserted st a s r st'"
proof -
  let ?al = "entries_of st" and ?ns = "lo_names opts"
  have ix: "smap_search (by_id st) = id_index ?al" "smap_search (by_name st) = name_index ?al"
    "smap_search (by_compress_digest st) = digest_index sl_compressed_diff_digest ?al"
    "smap_search (by_uncompress_digest st) = digest_index sl_diff_digest ?al" "entries_ok ?al"
    using assms(1) by (simp_all add: indexed_def indexes_def)
  have nm: "distinct (sl_names s)" "\<forall>n \<in> set (sl_names s). name_index ?al n = None"
      "smap_search m2 = name_index (?al @ [(a, norm s)])"
    using insert_names_all [OF ix(2), of e a "norm s" i m2] m2 assms(6) by simp_all
  have im: "id_index ?al lid = None" "smap_search m = (id_index ?al)(lid \<mapsto> a)" "smap_search (snd (smap_remove m lid)) = id_index ?al"
    using smap.insert_fails [of "lv_mem e M_Map_Id" True "by_id st" lid a] ix(1) m
      smap.insert_search [of "lv_mem e M_Map_Id" True "by_id st" lid a]
      smap.undo_insert [of "lv_mem e M_Map_Id" True "by_id st" lid a] by simp_all
  have eo: "entries_ok (?al @ [(a, norm s)])" using ix(5) assms(4,5) nm im by (simp add: entries_append)
  have im': "smap_search m = id_index (?al @ [(a, norm s)])" using id_index_append [of ?al "norm s" a] im assms(5) by simp
  define S where "S = st\<lparr>layers_list := layers_list st @ [a], layers_list_len := Suc (layers_list_len st), by_id := m, by_name := m2\<rparr>"
  have "\<exists>r c u. insert_digests e lid opts a i S = Some (r, (if r = 0 then S
      else S\<lparr>by_name := remove_names (rev (take i ?ns)) (by_name S), by_id := snd (smap_remove (by_id S) lid),
        layers_list := layers_list st, layers_list_len := layers_list_len st\<rparr>)
        \<lparr>by_compress_digest := c, by_uncompress_digest := u\<rparr>) \<and>
    smap_search c = digest_index sl_compressed_diff_digest (if r = 0 then ?al @ [(a, norm s)] else ?al) \<and>
    smap_search u = digest_index sl_diff_digest (if r = 0 then ?al @ [(a, norm s)] else ?al)"
    by (rule insert_digests_run) (use assms ix eo in \<open>simp_all add: S_def\<close>)
  then obtain r c u where *: "insert_digests e lid opts a i S = Some (r, (if r = 0 then S
      else S\<lparr>by_name := remove_names (rev (take i ?ns)) (by_name S), by_id := snd (smap_remove (by_id S) lid),
        layers_list := layers_list st, layers_list_len := layers_list_len st\<rparr>)
        \<lparr>by_compress_digest := c, by_uncompress_digest := u\<rparr>)"
    "smap_search c = digest_index sl_compressed_diff_digest (if r = 0 then ?al @ [(a, norm s)] else ?al)"
    "smap_search u = digest_index sl_diff_digest (if r = 0 then ?al @ [(a, norm s)] else ?al)" by blast
  show ?thesis unfolding S_def [symmetric] using * eo im' nm(3) im(3) undo_names [OF ix(2) m2]
    by (cases "r = 0") (auto simp: inserted_def indexes_def S_def)
qed

lemma insert_stores_run:
  assumes "indexed st" and "layers st a = Some l" and "slayer l = Some s" and "a \<notin> set (layers_list st)"
    and "sl_id s = lid" and "sl_names s = lo_names opts"
  shows "\<exists>r st'. insert_memory_stores e lid opts a st = Some (r, st') \<and> inserted st a s r st'"
proof (cases "lv_mem e M_Item")
  case False
  then show ?thesis using assms(1) by (simp add: insert_memory_stores_def append_layer_into_list_def inserted_def indexed_def)
next
  case item: True
  let ?al = "entries_of st" and ?ns = "lo_names opts"
  have ix: "smap_search (by_id st) = id_index ?al" "smap_search (by_name st) = name_index ?al"
    "smap_search (by_compress_digest st) = digest_index sl_compressed_diff_digest ?al"
    "smap_search (by_uncompress_digest st) = digest_index sl_diff_digest ?al" "entries_ok ?al"
    using assms(1) by (simp_all add: indexed_def indexes_def)
  let ?st1 = "st\<lparr>layers_list := layers_list st @ [a], layers_list_len := Suc (layers_list_len st)\<rparr>"
  obtain ok m where m: "smap_insert (lv_mem e M_Map_Id) True (by_id st) lid a = (ok, m)" by fastforce
  obtain ok2 i m2 where m2: "insert_names e a 0 ?ns (by_name st) = (ok2, i, m2)" using prod_cases3 by blast
  have run: "insert_memory_stores e lid opts a st =
     (if \<not> ok then map_option (Pair (-1)) (remove_layer_list_tail (?st1\<lparr>by_id := m\<rparr>))
      else if \<not> ok2 then map_option (Pair (-1)) (clear_by_name i ?ns lid (?st1\<lparr>by_id := m, by_name := m2\<rparr>))
      else insert_digests e lid opts a i (?st1\<lparr>by_id := m, by_name := m2\<rparr>))"
    using item m m2 by (simp add: insert_memory_stores_def append_layer_into_list_def insert_g_layer_list_item_def
        map_option_case split: option.split)
  have undo_id: "smap_search (snd (smap_remove m lid)) = id_index ?al" if ok
    using smap.undo_insert [of "lv_mem e M_Map_Id" True "by_id st" lid a] that m ix(1) by simp
  have undo_nm: "smap_search (remove_names (rev (take i ?ns)) m2) = name_index ?al" using undo_names [OF ix(2) m2] .
  consider (a) "\<not> ok" | (b) ok "\<not> ok2" | (c) ok ok2 by blast
  then show ?thesis
  proof cases
    case a
    then have "m = by_id st" using smap.failed_insert [of "lv_mem e M_Map_Id" True "by_id st" lid a] m by simp
    with a show ?thesis using ix by (simp add: run tail_removed inserted_def indexes_def)
  next
    case b
    then show ?thesis using ix undo_id undo_nm by (simp add: run clear_run inserted_def indexes_def)
  next
    case c
    from insert_rest [OF assms m [unfolded c [THEN eqTrueI]] m2 [unfolded c [THEN eqTrueI]]] show ?thesis using run c by simp
  qed
qed

text \<open>Nothing that a client can see has changed, up to the effects.\<close>

definition unchanged :: "lstore \<Rightarrow> lstore \<Rightarrow> bool" where
  "unchanged st st' \<longleftrightarrow> layers st' = layers st \<and> layers_list st' = layers_list st \<and> layers_list_len st' = layers_list_len st \<and>
     smap_search (by_id st') = smap_search (by_id st) \<and> smap_search (by_name st') = smap_search (by_name st) \<and>
     smap_search (by_compress_digest st') = smap_search (by_compress_digest st) \<and>
     smap_search (by_uncompress_digest st') = smap_search (by_uncompress_digest st) \<and>
     g_root_dir st' = g_root_dir st \<and> g_run_dir st' = g_run_dir st"

lemma unchanged_refl [simp]: "unchanged st st" "unchanged st (st\<lparr>effects := x\<rparr>)" "unchanged st (snd (ext e c st))"
  by (simp_all add: unchanged_def ext_def)

lemma unchanged_trans [trans]: "unchanged st st1 \<Longrightarrow> unchanged st1 st2 \<Longrightarrow> unchanged st st2"
  by (simp add: unchanged_def)

lemma unchanged_ok:
  assumes "unchanged st st'"
  shows "store_ok st' held = store_ok st held" "view st' = view st" "find_addr p st' = find_addr p st"
proof -
  have "entries_of st' = entries_of st" "listed st' = listed st"
    using assms by (auto simp: unchanged_def entries_of_def listed_def)
  with assms show "store_ok st' held = store_ok st held"
    by (simp add: store_ok_def indexed_def indexes_def refs_ok_def unchanged_def)
  show "view st' = view st" "find_addr p st' = find_addr p st"
    using assms by (simp_all add: unchanged_def view_def find_addr_def cong: option.case_cong)
qed

section \<open>A new layer\<close>

definition fresh_slayer :: "layer_env \<Rightarrow> string \<Rightarrow> layer_opts \<Rightarrow> storage_layer" where
  "fresh_slayer e lid opts = \<lparr>sl_id = lid, sl_parent = lo_parent opts, sl_writable = lo_writable opts,
     sl_mountlabel = (case lo_opts opts of None \<Rightarrow> None | Some o1 \<Rightarrow> lo_mount_label o1), sl_created = Some (lv_now e),
     sl_names = lo_names opts, sl_diff_digest = lo_uncompressed_digest opts,
     sl_compressed_diff_digest = lo_compressed_digest opts, sl_diff_size = 0, sl_compressed_size = 0,
     sl_incompelte = False\<rparr>"

definition json_at :: "lstore \<Rightarrow> string \<Rightarrow> string" where
  "json_at st lid = g_root_dir st @ ''/'' @ lid @ ''/layer.json''"

definition fresh_layer :: "layer_env \<Rightarrow> string \<Rightarrow> layer_opts \<Rightarrow> lstore \<Rightarrow> layer_t" where
  "fresh_layer e lid opts st = empty_layer\<lparr>layer_json_path := Some (json_at st lid), slayer := Some (fresh_slayer e lid opts)\<rparr>"

lemma empty_layer_simps [simp]: "l_refcnt empty_layer = 1" "slayer empty_layer = None"
  by (simp_all add: empty_layer_def)

lemma update_datas_cases:
  assumes "layers st a = Some empty_layer"
  shows "update_layer_datas e lid opts a st = Some (0, put_layer a (fresh_layer e lid opts st) st) \<or>
    (\<exists>l. update_layer_datas e lid opts a st = Some (-1, put_layer a l st) \<and> l_refcnt l = 1)"
proof -
  have same: "put_layer a empty_layer st = st" using assms by (simp add: put_layer_def fun_upd_idem)
  define bad where "bad \<longleftrightarrow> \<not> lv_mem e M_Slayer \<or> \<not> lv_mem e M_Clock \<or>
    lo_names opts \<noteq> [] \<and> (\<not> lv_mem e M_Names \<or> length (lo_names opts) > MAX_MEMORY_SIZE div sizeof_ptr)"
  have "update_layer_datas e lid opts a st = (if bad then Some (-1, st) else case layer_json_path_of e lid st of
         None \<Rightarrow> Some (-1, put_layer a (empty_layer\<lparr>layer_json_path := None\<rparr>) st)
       | Some p \<Rightarrow> Some (0, put_layer a (empty_layer\<lparr>layer_json_path := Some p, slayer := Some (fresh_slayer e lid opts)\<rparr>) st))"
    unfolding update_layer_datas_def assms Option.bind.simps Let_def fresh_slayer_def [symmetric] bad_def
    by (cases "lv_mem e M_Slayer"; cases "lv_mem e M_Clock"; simp)
  then show ?thesis
  proof (cases bad)
    case True
    then show ?thesis using \<open>update_layer_datas e lid opts a st = _\<close>
      by (intro disjI2 exI [of _ empty_layer]) (simp add: same)
  qed (auto simp: fresh_layer_def json_at_def layer_json_path_of_def asprintf_path_def split: if_splits)
qed

text \<open>The outcome of \<open>new_layer_by_opts\<close>: the directory may have been made; the layer is in the store or it is freed.\<close>

definition made :: "layer_env \<Rightarrow> string \<Rightarrow> layer_opts \<Rightarrow> lstore \<Rightarrow> int \<Rightarrow> lstore \<Rightarrow> bool" where
  "made e lid opts st r st' \<longleftrightarrow> (effects st' = effects st \<or>
       effects st' = effects st @ [(Mk_Dir (g_root_dir st @ ''/'' @ lid), lv_ret e (Mk_Dir (g_root_dir st @ ''/'' @ lid)))]) \<and>
     (if r = 0
      then inserted (put_layer (lv_addr e) (fresh_layer e lid opts st) (st\<lparr>effects := effects st'\<rparr>)) (lv_addr e) (fresh_slayer e lid opts) 0 st'
      else unchanged st st')"

lemma dec_frees:
  assumes "layers st a = Some l" and "l_refcnt l = 1"
  shows "layer_ref_dec (Some a) st = Some (st\<lparr>layers := (layers st)(a := None)\<rparr>)"
  using ref_dec_eq [OF assms(1)] assms(2) by simp

lemma fresh_inserted:
  assumes "store_ok st held" and "layers st (lv_addr e) = None"
    and st3: "st3 = put_layer (lv_addr e) (fresh_layer e lid opts st) (st\<lparr>effects := x\<rparr>)"
  shows "\<exists>r st'. insert_memory_stores e lid opts (lv_addr e) st3 = Some (r, st') \<and>
    inserted st3 (lv_addr e) (fresh_slayer e lid opts) r st' \<and>
    (r \<noteq> 0 \<longrightarrow> unchanged st (st'\<lparr>layers := (layers st')(lv_addr e := None)\<rparr>))"
proof -
  have na: "lv_addr e \<notin> set (layers_list st)" using alive [of st held "lv_addr e"] assms(1,2) by (auto simp: store_ok_def)
  have en: "entries_of st3 = entries_of st" using na by (auto simp: st3 entries_of_def slayer_at_def)
  have ix: "indexed st3" using assms(1) en by (simp add: st3 store_ok_def indexed_def indexes_def)
  have l3: "layers st3 (lv_addr e) = Some (fresh_layer e lid opts st)" by (simp add: st3)
  from insert_stores_run [OF ix l3, of "fresh_slayer e lid opts" lid opts e] na obtain r st' where
    r: "insert_memory_stores e lid opts (lv_addr e) st3 = Some (r, st')" "inserted st3 (lv_addr e) (fresh_slayer e lid opts) r st'"
    by (auto simp: fresh_layer_def fresh_slayer_def st3)
  moreover have "unchanged st (st'\<lparr>layers := (layers st')(lv_addr e := None)\<rparr>)" if "r \<noteq> 0"
    using r(2) that assms(1,2) en by (auto simp: inserted_def unchanged_def st3 indexes_def store_ok_def indexed_def fun_upd_idem)
  ultimately show ?thesis by blast
qed

lemma new_layer_run:
  assumes "store_ok st held" and "layers st (lv_addr e) = None"
  shows "\<exists>r st'. new_layer_by_opts e lid opts st = Some (r, st') \<and> made e lid opts st r st'"
proof -
  let ?a = "lv_addr e" and ?p = "g_root_dir st @ ''/'' @ lid"
  have undo: "unchanged st (st1\<lparr>layers := (layers st1)(?a := None)\<rparr>)" if "unchanged (put_layer ?a l st) st1" for l st1
    using that assms(2) by (auto simp: unchanged_def fun_upd_idem)
  show ?thesis
  proof (cases "lv_mem e M_Layer \<and> lv_mem e M_Mutex \<and> asprintf_path e ?p \<noteq> None")
    case False
    then show ?thesis using undo [of empty_layer "put_layer ?a empty_layer st"]
      by (cases "lv_mem e M_Layer"; cases "lv_mem e M_Mutex")
        (auto simp: new_layer_by_opts_def create_empty_layer_def build_layer_dir_def made_def dec_frees empty_layer_def)
  next
    case True
    define st2 where "st2 = snd (ext e (Mk_Dir ?p) (put_layer ?a empty_layer st))"
    have st2: "layers st2 ?a = Some empty_layer" "unchanged (put_layer ?a empty_layer st) st2"
      "effects st2 = effects st @ [(Mk_Dir ?p, lv_ret e (Mk_Dir ?p))]" "g_root_dir st2 = g_root_dir st"
      by (simp_all add: st2_def, simp add: ext_def)
    have dir: "build_layer_dir e lid (put_layer ?a empty_layer st) = (lv_ret e (Mk_Dir ?p) = 0, st2)"
      using True by (auto simp: build_layer_dir_def st2_def ext_def asprintf_path_def split: if_splits)
    have new: "new_layer_by_opts e lid opts st = (if lv_ret e (Mk_Dir ?p) \<noteq> 0
        then do { st3 \<leftarrow> layer_ref_dec (Some ?a) st2; Some (-1, st3) }
        else do {
          (r, st3) \<leftarrow> update_layer_datas e lid opts ?a st2;
          if r \<noteq> 0 then do { st4 \<leftarrow> layer_ref_dec (Some ?a) st3; Some (r, st4) }
          else do {
            (r, st4) \<leftarrow> insert_memory_stores e lid opts ?a st3;
            if r \<noteq> 0 then do { st5 \<leftarrow> layer_ref_dec (Some ?a) st4; Some (r, st5) } else Some (0, st4)
          }
        })"
      using True dir by (simp add: new_layer_by_opts_def create_empty_layer_def)
    define st3 where "st3 = put_layer ?a (fresh_layer e lid opts st) st2"
    have st3: "st3 = put_layer ?a (fresh_layer e lid opts st) (st\<lparr>effects := effects st2\<rparr>)"
      by (simp add: st3_def st2_def put_layer_def ext_def)
    have fl: "fresh_layer e lid opts st2 = fresh_layer e lid opts st" by (simp add: fresh_layer_def json_at_def st2(4))
    consider (dir) "lv_ret e (Mk_Dir ?p) \<noteq> 0"
      | (data) l where "lv_ret e (Mk_Dir ?p) = 0" "update_layer_datas e lid opts ?a st2 = Some (-1, put_layer ?a l st2)" "l_refcnt l = 1"
      | (ins) "lv_ret e (Mk_Dir ?p) = 0" "update_layer_datas e lid opts ?a st2 = Some (0, st3)"
      using update_datas_cases [OF st2(1), of e lid opts] unfolding fl st3_def by blast
    then show ?thesis
    proof cases
      case dir
      then show ?thesis using undo [OF st2(2)] st2(1,3) by (simp add: new dec_frees made_def)
    next
      case data
      then have "unchanged st (st2\<lparr>layers := (layers st2)(?a := None)\<rparr>)" using undo [OF st2(2)] by simp
      with data show ?thesis using st2(3) by (simp add: new dec_frees made_def put_layer_def)
    next
      case ins
      from fresh_inserted [OF assms st3] obtain r st' where
        r: "insert_memory_stores e lid opts ?a st3 = Some (r, st')" "inserted st3 ?a (fresh_slayer e lid opts) r st'"
          "r \<noteq> 0 \<longrightarrow> unchanged st (st'\<lparr>layers := (layers st')(?a := None)\<rparr>)" by blast
      show ?thesis
      proof (cases "r = 0")
        case True
        then show ?thesis using r ins st2(3) by (simp add: new made_def inserted_def st3)
      next
        case False
        have "layers st' ?a = Some (fresh_layer e lid opts st)" "l_refcnt (fresh_layer e lid opts st) = 1"
          using r(2) by (simp_all add: inserted_def fresh_layer_def st3)
        then show ?thesis using r ins False st2(3) by (simp add: new dec_frees made_def inserted_def st3)
      qed
    qed
  qed
qed
lemma made_ok:
  assumes "made e lid opts st 0 st'" and "store_ok st held" and "layers st (lv_addr e) = None"
  shows "store_ok st' held" "layers st' = (layers st)(lv_addr e \<mapsto> fresh_layer e lid opts st)"
    "layers_list st' = layers_list st @ [lv_addr e]" "smap_search (by_id st') lid = Some (lv_addr e)"
    "g_root_dir st' = g_root_dir st" "g_run_dir st' = g_run_dir st"
    "view st' = view st @ [content (fresh_layer e lid opts st)]"
    "entries_ok (entries_of st @ [(lv_addr e, norm (fresh_slayer e lid opts))])"
proof -
  let ?a = "lv_addr e" and ?s = "fresh_slayer e lid opts"
  have na: "?a \<notin> set (layers_list st)" using alive [of st held ?a] assms(2,3) by (auto simp: store_ok_def)
  have en: "entries_of (put_layer ?a (fresh_layer e lid opts st) (st\<lparr>effects := effects st'\<rparr>)) = entries_of st"
    using na by (auto simp: entries_of_def slayer_at_def)
  have ins: "layers st' = (layers st)(?a \<mapsto> fresh_layer e lid opts st)" "layers_list st' = layers_list st @ [?a]"
    "layers_list_len st' = Suc (layers_list_len st)" "entries_ok (entries_of st @ [(?a, norm ?s)])"
    "indexes (entries_of st @ [(?a, norm ?s)]) st'" "g_root_dir st' = g_root_dir st" "g_run_dir st' = g_run_dir st"
    using assms(1) by (auto simp: made_def inserted_def en)
  then show "layers st' = (layers st)(?a \<mapsto> fresh_layer e lid opts st)" "layers_list st' = layers_list st @ [?a]"
    "g_root_dir st' = g_root_dir st" "g_run_dir st' = g_run_dir st" "entries_ok (entries_of st @ [(?a, norm ?s)])" by simp_all
  have "entries_of st' = entries_of st @ [(?a, norm ?s)]" using na ins by (auto simp: entries_of_def slayer_at_def fresh_layer_def)
  then have "indexed st'" using ins assms(2) by (simp add: indexed_def store_ok_def)
  moreover have "refs_ok st' held" unfolding refs_ok_def
  proof
    fix b
    have "ref_at (layers st b) (held b + listed st b)" using assms(2) by (simp add: store_ok_def refs_ok_def)
    then show "ref_at (layers st' b) (held b + listed st' b)"
      using ins na assms(3) by (cases "b = ?a") (auto simp: listed_def fresh_layer_def)
  qed
  ultimately show "store_ok st' held" by (simp add: store_ok_def)
  show "smap_search (by_id st') lid = Some ?a"
    using ins by (simp add: indexes_def entries_append id_index_append fresh_slayer_def)
  show "view st' = view st @ [content (fresh_layer e lid opts st)]" using ins na by (auto simp: view_def)
qed

section \<open>Work on one layer\<close>

text \<open>
  \<open>touch a st st'\<close>: only the object \<open>a\<close> differs, with its keys and its count unchanged, and effects were added.
\<close>

definition good :: "addr \<Rightarrow> lstore \<Rightarrow> bool" where
  "good a st \<longleftrightarrow> (\<exists>l s. layers st a = Some l \<and> slayer l = Some s)"

definition same_keys :: "layer_t \<Rightarrow> layer_t \<Rightarrow> bool" where
  "same_keys l l' \<longleftrightarrow> l_refcnt l' = l_refcnt l \<and> slayer l \<noteq> None \<and> slayer l' \<noteq> None \<and>
     norm (the (slayer l')) = norm (the (slayer l))"

definition touch :: "addr \<Rightarrow> lstore \<Rightarrow> lstore \<Rightarrow> bool" where
  "touch a st st' \<longleftrightarrow> (\<exists>l l' x. layers st a = Some l \<and> same_keys l l' \<and>
     st' = st\<lparr>layers := (layers st)(a \<mapsto> l'), effects := effects st @ x\<rparr>)"

lemma touch_good: "touch a st st' \<Longrightarrow> good a st'"
  by (auto simp: touch_def good_def same_keys_def)

lemma touch_trans: "touch a st st1 \<Longrightarrow> touch a st1 st2 \<Longrightarrow> touch a st st2"
  unfolding touch_def same_keys_def by (elim exE conjE, intro exI conjI) auto

lemma touch_ext: "good a st \<Longrightarrow> touch a st (snd (ext e c st))"
  unfolding touch_def good_def same_keys_def ext_def
  by (elim exE conjE, intro exI conjI) (auto simp: fun_upd_idem)

lemma touch_put: "layers st a = Some l \<Longrightarrow> same_keys l l' \<Longrightarrow> touch a st (put_layer a l' st)"
  unfolding touch_def put_layer_def by (intro exI [of _ l] exI [of _ l'] exI [of _ "[]"]) simp

lemma touch_refl: "good a st \<Longrightarrow> touch a st st"
  using touch_put [of st a] by (fastforce simp: good_def same_keys_def put_layer_def fun_upd_idem)

lemma touch_frame:
  assumes "touch a st st'"
  shows "layers_list st' = layers_list st" "by_id st' = by_id st" "by_name st' = by_name st"
    "g_root_dir st' = g_root_dir st" "g_run_dir st' = g_run_dir st" "b \<noteq> a \<Longrightarrow> layers st' b = layers st b"
    "find_addr p st' = find_addr p st"
  using assms by (auto simp: touch_def find_addr_def cong: option.case_cong)

lemma touch_ok:
  assumes "touch a st st'" and "store_ok st held"
  shows "store_ok st' held"
proof -
  obtain l l' x where l: "layers st a = Some l" "same_keys l l'" "st' = (put_layer a l' st)\<lparr>effects := effects st @ x\<rparr>"
    using assms(1) by (auto simp: touch_def put_layer_def)
  have "store_ok (put_layer a l' st) held" using put_ok [OF assms(2) l(1)] l(2) by (auto simp: same_keys_def)
  with l(3) show ?thesis by simp
qed

lemma touch_view:
  assumes "touch a st st'"
  shows "view st' = map (\<lambda>b. content (if b = a then the (layers st' a) else the (layers st b))) (layers_list st)"
  using assms by (auto simp: touch_def view_def)

lemma save_layer_run: "good a st \<Longrightarrow> \<exists>r st'. save_layer e a st = Some (r, st') \<and> touch a st st' \<and> layers st' = layers st"
  unfolding save_layer_def using touch_refl [of a st] touch_ext [of a st e]
  by (auto simp: good_def ext_def split: option.splits)

lemma save_mount_run:
  "good a st \<Longrightarrow> \<exists>r st'. save_mount_point e a st = Some (r, st') \<and> touch a st st' \<and> layers st' = layers st"
  unfolding save_mount_point_def using touch_refl [of a st] touch_ext [of a st e]
  by (auto simp: good_def ext_def split: option.splits)

lemma set_incompelte_run:
  assumes "layers st a = Some l" and "slayer l = Some s"
  shows "set_incompelte a b st = Some (put_layer a (l\<lparr>slayer := Some (s\<lparr>sl_incompelte := b\<rparr>)\<rparr>) st)"
    "touch a st (put_layer a (l\<lparr>slayer := Some (s\<lparr>sl_incompelte := b\<rparr>)\<rparr>) st)"
  using assms by (auto simp: set_incompelte_def same_keys_def intro!: touch_put)

lemma hold_more_run:
  assumes "layers st a = Some l" and "slayer l \<noteq> None"
  shows "hold_more a d st = Some (put_layer a (l\<lparr>hold_refs_num := wrap32 (hold_refs_num l + d)\<rparr>) st)"
    "touch a st (put_layer a (l\<lparr>hold_refs_num := wrap32 (hold_refs_num l + d)\<rparr>) st)"
  using assms by (auto simp: hold_more_def same_keys_def intro!: touch_put)

text \<open>Only effects were added.\<close>

definition logged :: "lstore \<Rightarrow> lstore \<Rightarrow> bool" where
  "logged st st' \<longleftrightarrow> (\<exists>x. st' = st\<lparr>effects := effects st @ x\<rparr>)"

lemma logged_refl [simp]: "logged st st"
  unfolding logged_def by (intro exI [of _ "[]"]) simp

lemma logged_ext: "logged st st1 \<Longrightarrow> logged st (snd (ext e c st1))"
  by (auto simp: logged_def ext_def)

lemma logged_unchanged: "logged st st' \<Longrightarrow> unchanged st st'"
  by (auto simp: logged_def)

lemma logged_touch: "logged st st' \<Longrightarrow> good a st \<Longrightarrow> touch a st st' \<and> layers st' = layers st"
proof -
  assume "logged st st'" and "good a st"
  then obtain x l s where x: "st' = st\<lparr>effects := effects st @ x\<rparr>" "layers st a = Some l" "slayer l = Some s"
    by (auto simp: logged_def good_def)
  then have "touch a st st'" unfolding touch_def same_keys_def
    by (intro exI [of _ l] exI [of _ l] exI [of _ x]) (simp add: fun_upd_idem)
  with x show ?thesis by simp
qed

lemma tar_split_run: "logged st (snd (make_tar_split_file e lid st))"
  by (simp add: make_tar_split_file_def Let_def case_prod_unfold logged_ext split: option.splits)

lemma apply_diff_run:
  assumes "layers st a = Some l" and "slayer l = Some s"
  shows "\<exists>r l' st'. apply_diff e a diff st = Some (r, st') \<and> touch a st st' \<and> layers st' a = Some l' \<and>
    hold_refs_num l' = hold_refs_num l \<and> smount_point l' = smount_point l \<and> mount_point_json_path l' = mount_point_json_path l"
proof (cases "diff \<and> lv_ret e (Drv_Apply (sl_id s)) = 0")
  case True
  let ?st1 = "snd (ext e (Drv_Apply (sl_id s)) st)"
  let ?st2 = "snd (make_tar_split_file e (sl_id s) ?st1)"
  let ?l = "l\<lparr>slayer := Some (s\<lparr>sl_diff_size := lv_size e\<rparr>)\<rparr>"
  have g: "good a st" using assms by (simp add: good_def)
  have "logged st ?st1" by (simp add: logged_ext)
  then have t1: "touch a st ?st1" "layers ?st1 = layers st" using g logged_touch by blast+
  have t2: "touch a ?st1 ?st2" "layers ?st2 = layers st"
    using logged_touch [OF tar_split_run touch_good [OF t1(1)]] t1(2) by simp_all
  have "touch a ?st2 (put_layer a ?l ?st2)" using t2(2) assms by (intro touch_put [of _ _ l]) (simp_all add: same_keys_def)
  then have "touch a st (put_layer a ?l ?st2)" using t1 t2 touch_trans by blast
  moreover have "apply_diff e a diff st = Some (fst (make_tar_split_file e (sl_id s) ?st1), put_layer a ?l ?st2)"
    using True assms by (simp add: apply_diff_def case_prod_unfold Let_def)
  ultimately show ?thesis by auto
next
  case False
  let ?st1 = "if diff then snd (ext e (Drv_Apply (sl_id s)) st) else st"
  have "touch a st ?st1" "layers ?st1 = layers st"
    using assms logged_touch [of st ?st1 a] by (simp_all add: logged_ext good_def)
  moreover have "apply_diff e a diff st = Some (if diff then lv_ret e (Drv_Apply (sl_id s)) else 0, ?st1)"
    using False assms by (simp add: apply_diff_def case_prod_unfold Let_def)
  ultimately show ?thesis using assms(1) by simp
qed

lemma put_layer_inj [simp]: "put_layer a l st = put_layer a l' st \<longleftrightarrow> l = l'"
proof
  assume "put_layer a l st = put_layer a l' st"
  then have "layers (put_layer a l st) a = layers (put_layer a l' st) a" by simp
  then show "l = l'" by simp
qed simp

lemma put_layer_id: "layers st a = Some l \<Longrightarrow> put_layer a l st = st"
  by (simp add: put_layer_def fun_upd_idem)

definition mount_count :: "layer_t \<Rightarrow> int" where
  "mount_count l = (case smount_point l of None \<Rightarrow> 0 | Some m \<Rightarrow> mp_count m)"

text \<open>Apart from the mount point and the path of its file nothing changes.\<close>

definition but_mount :: "layer_t \<Rightarrow> layer_t \<Rightarrow> bool" where
  "but_mount l l' \<longleftrightarrow> (\<exists>m p. l' = l\<lparr>smount_point := m, mount_point_json_path := p\<rparr>)"

lemma but_mount_refl [simp]: "but_mount l l"
  unfolding but_mount_def by (intro exI [of _ "smount_point l"] exI [of _ "mount_point_json_path l"]) simp

lemma but_mount_trans: "but_mount l l1 \<Longrightarrow> but_mount l1 l2 \<Longrightarrow> but_mount l l2"
  unfolding but_mount_def by (elim exE, simp) blast

lemma but_mount_upd [simp]:
  "but_mount l (l\<lparr>smount_point := m\<rparr>)" "but_mount l (l\<lparr>smount_point := m, mount_point_json_path := p\<rparr>)"
  "but_mount l (l\<lparr>mount_point_json_path := p\<rparr>)"
  unfolding but_mount_def
  by (rule exI [of _ m], rule exI [of _ "mount_point_json_path l"], simp, blast,
      rule exI [of _ "smount_point l"], rule exI [of _ p], simp)

lemma but_mount_touch:
  assumes "layers st a = Some l" and "slayer l \<noteq> None" and "but_mount l l'"
  shows "touch a st (put_layer a l' st)"
  using assms by (intro touch_put [of st a l]) (auto simp: but_mount_def same_keys_def)

lemma update_mount_run:
  assumes "layers st a = Some l" and "slayer l = Some s"
  shows "\<exists>r l'. update_mount_point e a st = Some (r, put_layer a l' st) \<and> but_mount l l' \<and> mount_count l' = mount_count l \<and>
    (r = 0 \<longrightarrow> smount_point l' \<noteq> None)"
proof -
  have same: "Some (r, st) = Some (r, put_layer a l st)" for r :: int using put_layer_id [OF assms(1)] by simp
  show ?thesis
  proof (cases "smount_point l")
    case None
    then show ?thesis using assms same [of "-1"]
      by (auto simp: update_mount_point_def mount_count_def Let_def split: option.splits)
  next
    case (Some m)
    then show ?thesis using assms
      by (auto simp: update_mount_point_def mount_count_def Let_def split: option.splits)
  qed
qed
lemma fill_layer_run:
  assumes "layers st a = Some l" and "slayer l = Some s"
  shows "\<exists>r l' st'. fill_layer e diff a st = Some (r, st') \<and> touch a st st' \<and> layers st' a = Some l' \<and>
    hold_refs_num l' = hold_refs_num l \<and> (r = 0 \<longrightarrow> \<not> sl_incompelte (the (slayer l')))"
proof -
  define l1 where "l1 = l\<lparr>slayer := Some (s\<lparr>sl_incompelte := True\<rparr>)\<rparr>"
  define st1 where "st1 = put_layer a l1 st"
  have s1: "set_incompelte a True st = Some st1" "touch a st st1"
    using set_incompelte_run [OF assms, of True] by (simp_all add: st1_def l1_def)
  obtain r2 st2 where s2: "save_layer e a st1 = Some (r2, st2)" "touch a st1 st2" "layers st2 = layers st1"
    using save_layer_run [OF touch_good [OF s1(2)]] by blast
  have l2: "layers st2 a = Some l1" "slayer l1 = Some (s\<lparr>sl_incompelte := True\<rparr>)" by (simp_all add: s2(3) st1_def l1_def)
  obtain r3 l3 st3 where s3: "apply_diff e a diff st2 = Some (r3, st3)" "touch a st2 st3" "layers st3 a = Some l3"
    "hold_refs_num l3 = hold_refs_num l1" using apply_diff_run [OF l2] by blast
  obtain s3' where l3: "slayer l3 = Some s3'" using touch_good [OF s3(2)] s3(3) by (auto simp: good_def)
  obtain r4 l4 where s4: "update_mount_point e a st3 = Some (r4, put_layer a l4 st3)" "but_mount l3 l4"
    using update_mount_run [OF s3(3) l3] by blast
  have t4: "touch a st3 (put_layer a l4 st3)" using but_mount_touch s3(3) l3 s4(2) by simp
  have l4: "layers (put_layer a l4 st3) a = Some l4" "slayer l4 = Some s3'" using s4(2) l3 by (auto simp: but_mount_def)
  note s5 = set_incompelte_run [OF l4, of False]
  define l5 where "l5 = l4\<lparr>slayer := Some (s3'\<lparr>sl_incompelte := False\<rparr>)\<rparr>"
  define st5 where "st5 = put_layer a l5 (put_layer a l4 st3)"
  have s5: "set_incompelte a False (put_layer a l4 st3) = Some st5" "touch a (put_layer a l4 st3) st5"
    using s5 by (simp_all add: st5_def l5_def)
  obtain r6 st6 where s6: "save_layer e a st5 = Some (r6, st6)" "touch a st5 st6" "layers st6 = layers st5"
    using save_layer_run [OF touch_good [OF s5(2)]] by blast
  have t: "touch a st st2" "touch a st st3" "touch a st (put_layer a l4 st3)" "touch a st st6"
    using s1(2) s2(2) s3(2) t4 s5(2) s6(2) touch_trans by blast+
  have h: "hold_refs_num l1 = hold_refs_num l" "hold_refs_num l4 = hold_refs_num l3" "hold_refs_num l5 = hold_refs_num l4"
    using s4(2) by (auto simp: l1_def l5_def but_mount_def)
  have l6: "layers st6 a = Some l5" "\<not> sl_incompelte (the (slayer l5))" by (simp_all add: s6(3) st5_def l5_def)
  have "fill_layer e diff a st = (if r2 \<noteq> 0 then Some (-1, st2) else if r3 \<noteq> 0 then Some (r3, st3)
      else if r4 \<noteq> 0 then Some (r4, put_layer a l4 st3) else Some (r6, st6))"
    by (simp add: fill_layer_def s1 s2 s3 s4 s5 s6)
  then show ?thesis using t l2 s3(3,4) l4 l6 h by auto
qed

text \<open>Saving a mount point that has changed, after calls that are only logged.\<close>

lemma save_after_log:
  assumes "touch a st (put_layer a l1 st)" and "slayer l1 = Some s" and "but_mount l1 l2" and "logged (put_layer a l1 st) st2"
  shows "\<exists>r st'. save_mount_point e a (put_layer a l2 st2) = Some (r, st') \<and> touch a st st' \<and> layers st' a = Some l2"
proof -
  have t2: "touch a (put_layer a l1 st) st2" "layers st2 a = Some l1"
    using logged_touch [OF assms(4) touch_good [OF assms(1)]] by simp_all
  have t3: "touch a st2 (put_layer a l2 st2)" using but_mount_touch [of st2 a l1 l2] t2(2) assms(2,3) by simp
  from save_mount_run [OF touch_good [OF t3], of e] obtain r st' where
    r: "save_mount_point e a (put_layer a l2 st2) = Some (r, st')" "touch a (put_layer a l2 st2) st'"
    "layers st' = layers (put_layer a l2 st2)" by blast
  have "touch a st st'" using touch_trans [OF touch_trans [OF touch_trans [OF assms(1) t2(1)] t3] r(2)] .
  with r show ?thesis by simp
qed

lemma mount_helper_run:
  assumes "layers st a = Some l" and "slayer l = Some s"
  shows "\<exists>r l' st'. mount_helper e a st = Some (r, st') \<and> touch a st st' \<and> layers st' a = Some l' \<and> but_mount l l' \<and>
    (mount_count l' = wrap32 (mount_count l + 1) \<or> r = None \<and> mount_count l' = mount_count l)"
proof -
  obtain r1 l1 where s1: "update_mount_point e a st = Some (r1, put_layer a l1 st)" "but_mount l l1" "mount_count l1 = mount_count l"
    "r1 = 0 \<longrightarrow> smount_point l1 \<noteq> None" using update_mount_run [OF assms] by blast
  have t1: "touch a st (put_layer a l1 st)" using but_mount_touch assms s1(2) by simp
  have sl: "slayer l1 = Some s" using s1(2) assms(2) by (auto simp: but_mount_def)
  show ?thesis
  proof (cases "r1 = 0")
    case False
    then show ?thesis using s1 t1 by (simp add: mount_helper_def)
  next
    case True
    then obtain m where m: "smount_point l1 = Some m" using s1(4) by auto
    define l2 where "l2 = l1\<lparr>smount_point := Some (m\<lparr>mp_count := wrap32 (mp_count m + 1)\<rparr>)\<rparr>"
    have b2: "but_mount l l2" using but_mount_trans [OF s1(2)] by (simp add: l2_def)
    have c2: "mount_count l2 = wrap32 (mount_count l + 1)" using s1(3) m by (simp add: mount_count_def l2_def)
    have saved: "\<exists>r st'. save_mount_point e a (put_layer a l2 st2) = Some (r, st') \<and> touch a st st' \<and> layers st' a = Some l2"
      if "logged (put_layer a l1 st) st2" for st2 by (rule save_after_log [OF t1 sl _ that]) (simp add: l2_def)
    let ?st2 = "snd (ext e (Drv_Mount (sl_id s)) (put_layer a l1 st))"
    have lg: "logged (put_layer a l1 st) ?st2" by (simp add: logged_ext)
    have t2: "touch a st ?st2" "layers ?st2 a = Some l1"
      using logged_touch [OF lg touch_good [OF t1]] touch_trans [OF t1] by auto
    consider (again) "mp_count m > 0" | (opts) "\<not> mp_count m > 0" "\<not> lv_mem e M_Mount_Opts"
      | (drv) "\<not> mp_count m > 0" "lv_mem e M_Mount_Opts" by blast
    then show ?thesis
    proof cases
      case again
      obtain r3 st3 where s3: "save_mount_point e a (put_layer a l2 (put_layer a l1 st)) = Some (r3, st3)" "touch a st st3"
        "layers st3 a = Some l2" using saved [of "put_layer a l1 st"] by auto
      have "mount_helper e a st = Some (mp_path m, st3)"
        using again True s1(1) m sl s3(1) by (simp add: mount_helper_def l2_def)
      then show ?thesis using b2 c2 s3(2,3) by simp
    next
      case opts
      then show ?thesis using True s1 t1 m sl by (simp add: mount_helper_def Let_def)
    next
      case drv
      obtain r3 st3 where s3: "save_mount_point e a (put_layer a l2 ?st2) = Some (r3, st3)" "touch a st st3" "layers st3 a = Some l2"
        using saved [OF lg] by blast
      have "mount_helper e a st = (if lv_ret e (Drv_Mount (sl_id s)) \<noteq> 0 then Some (None, ?st2) else Some (Some (lv_mount e), st3))"
        using drv True s1(1) m sl s3(1) by (simp add: mount_helper_def Let_def l2_def case_prod_unfold)
      then show ?thesis using t2 s1(2,3) s3(2,3) b2 c2 by simp
    qed
  qed
qed

lemma umount_helper_run:
  assumes "layers st a = Some l" and "slayer l = Some s"
  shows "\<exists>r l' st'. umount_helper e a force st = Some (r, st') \<and> touch a st st' \<and> layers st' a = Some l' \<and> but_mount l l' \<and>
    (if r = 0 then mount_count l' = (if \<not> force \<and> mount_count l > 1 then mount_count l - 1 else 0) else r = -1 \<and> l' = l)"
proof (cases "smount_point l")
  case None
  then show ?thesis using assms touch_refl [of a st] by (simp add: umount_helper_def mount_count_def good_def)
next
  case (Some m)
  let ?l = "\<lambda>n. l\<lparr>smount_point := Some (m\<lparr>mp_count := n\<rparr>)\<rparr>"
  have g: "good a st" using assms by (simp add: good_def)
  have saved: "\<exists>r st'. save_mount_point e a (put_layer a (?l n) st2) = Some (r, st') \<and> touch a st st' \<and> layers st' a = Some (?l n)"
    if lg: "logged st st2" for st2 n
  proof -
    have t2: "touch a st st2" "layers st2 a = Some l" using logged_touch [OF lg g] assms(1) by simp_all
    have t3: "touch a st2 (put_layer a (?l n) st2)" using but_mount_touch [of st2 a l "?l n"] t2(2) assms(2) by simp
    from save_mount_run [OF touch_good [OF t3], of e] obtain r st' where
      r: "save_mount_point e a (put_layer a (?l n) st2) = Some (r, st')" "touch a (put_layer a (?l n) st2) st'"
      "layers st' = layers (put_layer a (?l n) st2)" by blast
    have "touch a st st'" using touch_trans [OF touch_trans [OF t2(1) t3] r(2)] .
    with r show ?thesis by simp
  qed
  let ?st1 = "snd (ext e (Drv_Umount (sl_id s)) st)"
  have lg: "logged st ?st1" by (simp add: logged_ext)
  obtain r1 st1 where s1: "save_mount_point e a (put_layer a (?l (mp_count m - 1)) st) = Some (r1, st1)" "touch a st st1"
    "layers st1 a = Some (?l (mp_count m - 1))" using saved [OF logged_refl, of "mp_count m - 1"] by blast
  obtain r2 st2 where s2: "save_mount_point e a (put_layer a (?l 0) ?st1) = Some (r2, st2)" "touch a st st2"
    "layers st2 a = Some (?l 0)" using saved [OF lg] by blast
  have "umount_helper e a force st = (if \<not> force \<and> mp_count m > 1 then Some (0, st1)
      else if lv_ret e (Drv_Umount (sl_id s)) \<noteq> 0 then Some (-1, ?st1) else Some (0, st2))"
    using assms Some s1(1) s2(1) by (simp add: umount_helper_def case_prod_unfold)
  then show ?thesis using s1(2,3) s2(2,3) logged_touch [OF lg g] assms(1) Some by (simp add: mount_count_def)
qed

lemma remove_files_run:
  assumes "layers st a = Some l" and "slayer l = Some s"
  shows "\<exists>st'. remove_layer_files e a st = Some st' \<and> logged st st'"
  using assms by (auto simp: remove_layer_files_def logged_ext Let_def split: option.split)

section \<open>The view\<close>

definition v_id :: "layer_t \<Rightarrow> string" where
  "v_id l = sl_id (the (slayer l))"

definition v_names :: "layer_t \<Rightarrow> string list" where
  "v_names l = sl_names (the (slayer l))"

definition v_find :: "string option \<Rightarrow> layer_t list \<Rightarrow> layer_t option" where
  "v_find p vs = (case p of
       None \<Rightarrow> None
     | Some x \<Rightarrow> (case find (\<lambda>l. v_id l = x) vs of Some l \<Rightarrow> Some l | None \<Rightarrow> find (\<lambda>l. x \<in> set (v_names l)) vs))"

text \<open>The layer with the id of \<open>l\<close> replaced by \<open>l\<close>, and taken out.\<close>

definition v_set :: "layer_t \<Rightarrow> layer_t list \<Rightarrow> layer_t list" where
  "v_set l vs = map (\<lambda>k. if v_id k = v_id l then l else k) vs"

definition v_del :: "layer_t \<Rightarrow> layer_t list \<Rightarrow> layer_t list" where
  "v_del l vs = filter (\<lambda>k. v_id k \<noteq> v_id l) vs"

lemma content_simps [simp]:
  "slayer (content l) = slayer l" "v_id (content l) = v_id l" "v_names (content l) = v_names l"
  "smount_point (content l) = smount_point l" "hold_refs_num (content l) = hold_refs_num l"
  "mount_count (content l) = mount_count l" "copy_json_to_layer (content l) = copy_json_to_layer l"
  "content (l\<lparr>l_refcnt := n\<rparr>) = content l" "content (content l) = content l"
  by (simp_all add: content_def v_id_def v_names_def mount_count_def copy_json_to_layer_def cong: option.case_cong)

lemma slayer_at_v: "sl_id (slayer_at h a) = v_id (the (h a))" "sl_names (slayer_at h a) = v_names (the (h a))"
  by (simp_all add: slayer_at_def v_id_def v_names_def)

lemma find_map_list: "find P (map f xs) = map_option f (find (P \<circ> f) xs)"
  by (induction xs) auto

lemma find_distinct:
  assumes "\<And>b. b \<in> set xs \<Longrightarrow> P b \<longleftrightarrow> b = a" and "a \<in> set xs"
  shows "find P xs = Some a"
  using assms by (induction xs) auto

lemma find_index:
  assumes "\<And>a. g = Some a \<longleftrightarrow> a \<in> set xs \<and> P a"
  shows "find P xs = g"
proof (cases g)
  case None
  then have "\<forall>b \<in> set xs. \<not> P b" using assms by auto
  then show ?thesis using None by (simp add: find_None_iff)
next
  case (Some a)
  then have "\<And>b. b \<in> set xs \<Longrightarrow> P b \<longleftrightarrow> b = a" "a \<in> set xs" using assms by (metis option.inject)+
  with Some show ?thesis by (simp add: find_distinct)
qed

lemma by_name_entry:
  assumes "indexed st"
  shows "smap_search (by_name st) x = Some a \<longleftrightarrow> a \<in> set (layers_list st) \<and> x \<in> set (v_names (the (layers st a)))"
proof -
  have "entries_ok (entries_of st)" "smap_search (by_name st) = name_index (entries_of st)"
    using assms by (auto simp: indexed_def indexes_def)
  then show ?thesis using name_index_Some [of "entries_of st" x a] by (auto simp: in_entries slayer_at_v)
qed

lemma view_find:
  assumes "indexed st"
  shows "v_find p (view st) = map_option (\<lambda>a. content (the (layers st a))) (find_addr p st)"
proof (cases p)
  case (Some x)
  have i: "find ((\<lambda>l. v_id l = x) \<circ> (\<lambda>a. content (the (layers st a)))) (layers_list st) = smap_search (by_id st) x"
    by (rule find_index) (simp add: by_id_entry [OF assms] slayer_at_v)
  have n: "find ((\<lambda>l. x \<in> set (v_names l)) \<circ> (\<lambda>a. content (the (layers st a)))) (layers_list st) = smap_search (by_name st) x"
    by (rule find_index) (simp add: by_name_entry [OF assms])
  show ?thesis unfolding v_find_def find_addr_def view_def Some option.case find_map_list i n
    by (auto split: option.splits)
qed (simp add: v_find_def find_addr_def)

lemma view_ids: "indexed st \<Longrightarrow> a \<in> set (layers_list st) \<Longrightarrow> b \<in> set (layers_list st) \<Longrightarrow>
    v_id (the (layers st a)) = v_id (the (layers st b)) \<Longrightarrow> a = b"
  using by_id_entry [of st "v_id (the (layers st a))"] by (simp add: slayer_at_v) (metis option.inject)

lemma view_touch:
  assumes "indexed st" and "a \<in> set (layers_list st)" and "touch a st st'"
  shows "view st' = v_set (content (the (layers st' a))) (view st)"
proof -
  have i: "v_id (the (layers st' a)) = v_id (the (layers st a))"
    using assms(3) by (auto simp: touch_def same_keys_def v_id_def) (metis norm_simps(1))
  have "view st' = map (\<lambda>b. content (if b = a then the (layers st' a) else the (layers st b))) (layers_list st)"
    by (rule touch_view [OF assms(3)])
  also have "\<dots> = v_set (content (the (layers st' a))) (view st)"
    using view_ids [OF assms(1) _ assms(2)] i by (auto simp: v_set_def view_def)
  finally show ?thesis .
qed

lemma view_remove:
  assumes "indexed st" and "a \<in> set (layers_list st)" and "layers_list st' = remove1 a (layers_list st)"
    and "\<And>b. b \<noteq> a \<Longrightarrow> layers st' b = layers st b"
  shows "view st' = v_del (content (the (layers st a))) (view st)"
proof -
  have "view st' = map (\<lambda>b. content (the (layers st b))) (filter (\<lambda>b. b \<noteq> a) (layers_list st))"
    using assms(3,4) list_distinct [OF assms(1)]
    by (auto simp: view_def distinct_remove1_removeAll removeAll_filter_not_eq neq_commute intro!: map_cong)
  moreover have "filter (\<lambda>b. b \<noteq> a) (layers_list st) = filter (\<lambda>b. v_id (the (layers st b)) \<noteq> v_id (the (layers st a))) (layers_list st)"
    using view_ids [OF assms(1) _ assms(2)] by (intro filter_cong) auto
  ultimately show ?thesis by (simp add: v_del_def view_def filter_map o_def)
qed

end
