(* ===== verification/Layer_Spec.thy ===== *)
theory Layer_Spec
  imports Layer_Refine
begin

text \<open>
  The layer store refines a list of layers: every call of its interface, whatever fails inside, relates the
  visible lists before and after and the result as \<open>spec\<close> says, uses no freed layer and keeps the invariant.
  A failed creation moreover leaves no trace in the driver and on disk.
\<close>

section \<open>The interface and its specification\<close>

datatype layer_op =
    LCreate layer_env "string option" "layer_opts option" bool
  | LDelete layer_env "string option"
  | LHold layer_env "string option" bool
  | LGetHold layer_env "string option"
  | LMount layer_env "string option"
  | LUmount layer_env "string option" bool
  | LLookup layer_env "string option"
  | LList layer_env
  | LByDigest layer_env "string option"

datatype layer_res =
    RCreate int "string option"
  | RInt int
  | RHold int "int option"
  | RMount "string option"
  | RLayer "layer option"
  | RLayers int "layer list"

fun layer_step :: "layer_op \<Rightarrow> lstore \<Rightarrow> (layer_res \<times> lstore) option" where
  "layer_step (LCreate e p opts diff) st = do { (r, i, st1) \<leftarrow> layer_store_create e p opts diff st; Some (RCreate r i, st1) }"
| "layer_step (LDelete e p) st = do { (r, st1) \<leftarrow> layer_store_delete e p st; Some (RInt r, st1) }"
| "layer_step (LHold e p inc) st =
     do { (r, st1) \<leftarrow> (if inc then layer_inc_hold_refs e p st else layer_dec_hold_refs e p st); Some (RInt r, st1) }"
| "layer_step (LGetHold e p) st = do { (r, n) \<leftarrow> layer_get_hold_refs e p st; Some (RHold r n, st) }"
| "layer_step (LMount e p) st = do { (r, st1) \<leftarrow> layer_store_mount e p st; Some (RMount r, st1) }"
| "layer_step (LUmount e p force) st = do { (r, st1) \<leftarrow> layer_store_umount e p force st; Some (RInt r, st1) }"
| "layer_step (LLookup e p) st = do { (r, st1) \<leftarrow> layer_store_lookup e p st; Some (RLayer r, st1) }"
| "layer_step (LList e) st = do { (r, ls) \<leftarrow> layer_store_list e st; Some (RLayers r ls, st) }"
| "layer_step (LByDigest e p) st = do { (r, ls, st1) \<leftarrow> layer_store_by_compress_digest e p st; Some (RLayers r ls, st1) }"

fun layer_run :: "layer_op list \<Rightarrow> lstore \<Rightarrow> (layer_res list \<times> lstore) option" where
  "layer_run [] st = Some ([], st)"
| "layer_run (op # ops) st = do {
     (r, st1) \<leftarrow> layer_step op st;
     (rs, st2) \<leftarrow> layer_run ops st1;
     Some (r # rs, st2)
   }"

text \<open>A created layer: complete, held once, with the data of the request.\<close>

definition is_new :: "layer_env \<Rightarrow> string \<Rightarrow> layer_opts \<Rightarrow> layer_t \<Rightarrow> bool" where
  "is_new e x opts l \<longleftrightarrow> hold_refs_num l = 1 \<and>
     (\<exists>s. slayer l = Some s \<and> norm s = norm (fresh_slayer e x opts) \<and> \<not> sl_incompelte s)"

definition create_spec ::
  "layer_env \<Rightarrow> string option \<Rightarrow> layer_opts option \<Rightarrow> layer_t list \<Rightarrow> int \<Rightarrow> string option \<Rightarrow> layer_t list \<Rightarrow> bool" where
  "create_spec e p optsp vs r i vs' \<longleftrightarrow>
     (case optsp of
        None \<Rightarrow> r = -1 \<and> i = None \<and> vs' = vs
      | Some opts \<Rightarrow>
          if \<not> lv_mem e M_Lock then r = -1 \<and> i = None \<and> vs' = vs
          else (case v_find p vs of
              Some l \<Rightarrow> r = 0 \<and> i = None \<and> vs' = v_set (l\<lparr>hold_refs_num := wrap32 (hold_refs_num l + 1)\<rparr>) vs
            | None \<Rightarrow>
                if r \<noteq> 0 then i = None \<and> vs' = vs
                else \<exists>x l. p = Some x \<and> i = Some x \<and> vs' = vs @ [l] \<and> is_new e x opts l \<and> distinct (lo_names opts) \<and>
                  (\<forall>n \<in> set (lo_names opts). \<forall>k \<in> set vs. n \<notin> set (v_names k))))"

definition delete_spec :: "layer_env \<Rightarrow> string option \<Rightarrow> layer_t list \<Rightarrow> int \<Rightarrow> layer_t list \<Rightarrow> bool" where
  "delete_spec e p vs r vs' \<longleftrightarrow>
     (if p = None \<or> \<not> lv_mem e M_Lock then r = -1 \<and> vs' = vs
      else (case v_find p vs of
          None \<Rightarrow> r = 0 \<and> vs' = vs
        | Some l \<Rightarrow>
            if smount_point l \<noteq> None \<and> lv_ret e (Drv_Umount (v_id l)) \<noteq> 0 then r = -1 \<and> vs' = vs
            else (r = 0 \<or> r = -1) \<and> vs' = v_del l vs))"

definition hold_spec :: "layer_env \<Rightarrow> string option \<Rightarrow> bool \<Rightarrow> layer_t list \<Rightarrow> int \<Rightarrow> layer_t list \<Rightarrow> bool" where
  "hold_spec e p inc vs r vs' \<longleftrightarrow>
     (case (if p = None \<or> \<not> lv_mem e M_Lock then None else find (\<lambda>l. v_id l = the p) vs) of
        None \<Rightarrow> r = -1 \<and> vs' = vs
      | Some l \<Rightarrow> r = 0 \<and> vs' = v_set (l\<lparr>hold_refs_num := wrap32 (hold_refs_num l + (if inc then 1 else -1))\<rparr>) vs)"

definition get_hold_spec :: "layer_env \<Rightarrow> string option \<Rightarrow> layer_t list \<Rightarrow> int \<Rightarrow> int option \<Rightarrow> bool" where
  "get_hold_spec e p vs r n \<longleftrightarrow>
     (case (if p = None \<or> \<not> lv_mem e M_Lock then None else find (\<lambda>l. v_id l = the p) vs) of
        None \<Rightarrow> r = -1 \<and> n = None
      | Some l \<Rightarrow> r = 0 \<and> n = Some (hold_refs_num l))"

definition mount_spec :: "layer_env \<Rightarrow> string option \<Rightarrow> layer_t list \<Rightarrow> string option \<Rightarrow> layer_t list \<Rightarrow> bool" where
  "mount_spec e p vs r vs' \<longleftrightarrow>
     (case (if lv_mem e M_Lock then v_find p vs else None) of
        None \<Rightarrow> r = None \<and> vs' = vs
      | Some l \<Rightarrow> \<exists>l'. vs' = v_set l' vs \<and> but_mount l l' \<and>
          (mount_count l' = wrap32 (mount_count l + 1) \<or> r = None \<and> mount_count l' = mount_count l))"

definition umount_spec :: "layer_env \<Rightarrow> string option \<Rightarrow> bool \<Rightarrow> layer_t list \<Rightarrow> int \<Rightarrow> layer_t list \<Rightarrow> bool" where
  "umount_spec e p force vs r vs' \<longleftrightarrow>
     (case (if lv_mem e M_Lock then v_find p vs else None) of
        None \<Rightarrow> r = 0 \<and> vs' = vs
      | Some l \<Rightarrow> \<exists>l'. vs' = v_set l' vs \<and> but_mount l l' \<and>
          (if r = 0 then mount_count l' = (if \<not> force \<and> mount_count l > 1 then mount_count l - 1 else 0)
           else r = -1 \<and> l' = l))"

definition lookup_spec :: "layer_env \<Rightarrow> string option \<Rightarrow> layer_t list \<Rightarrow> layer option \<Rightarrow> bool" where
  "lookup_spec e p vs r \<longleftrightarrow>
     r = (if lv_mem e M_Lock \<and> lv_mem e (M_Array_Item 0) then map_option copy_json_to_layer (v_find p vs) else None)"

text \<open>A complete answer, or what was filled in before memory ran out.\<close>

definition list_spec :: "layer_t list \<Rightarrow> int \<Rightarrow> layer list \<Rightarrow> bool" where
  "list_spec vs r ls \<longleftrightarrow> (r = 0 \<or> r = -1) \<and> ls = take (length ls) (map copy_json_to_layer vs) \<and> (r = 0 \<longrightarrow> length ls = length vs)"

definition digest_spec :: "string option \<Rightarrow> layer_t list \<Rightarrow> int \<Rightarrow> layer list \<Rightarrow> bool" where
  "digest_spec p vs r ls \<longleftrightarrow>
     list_spec (filter (\<lambda>l. p \<noteq> None \<and> sl_compressed_diff_digest (the (slayer l)) = p) vs) r ls \<and> (r = 0 \<longrightarrow> ls \<noteq> [])"

fun spec :: "layer_op \<Rightarrow> layer_t list \<Rightarrow> layer_res \<Rightarrow> layer_t list \<Rightarrow> bool" where
  "spec (LCreate e p opts diff) vs (RCreate r i) vs' = create_spec e p opts vs r i vs'"
| "spec (LDelete e p) vs (RInt r) vs' = delete_spec e p vs r vs'"
| "spec (LHold e p inc) vs (RInt r) vs' = hold_spec e p inc vs r vs'"
| "spec (LGetHold e p) vs (RHold r n) vs' = (get_hold_spec e p vs r n \<and> vs' = vs)"
| "spec (LMount e p) vs (RMount r) vs' = mount_spec e p vs r vs'"
| "spec (LUmount e p force) vs (RInt r) vs' = umount_spec e p force vs r vs'"
| "spec (LLookup e p) vs (RLayer r) vs' = (lookup_spec e p vs r \<and> vs' = vs)"
| "spec (LList e) vs (RLayers r ls) vs' = (list_spec vs r ls \<and> vs' = vs)"
| "spec (LByDigest e p) vs (RLayers r ls) vs' = (digest_spec p vs r ls \<and> vs' = vs)"
| "spec _ vs _ vs' = False"

fun spec_run :: "layer_op list \<Rightarrow> layer_t list \<Rightarrow> layer_res list \<Rightarrow> layer_t list \<Rightarrow> bool" where
  "spec_run [] vs [] vs' \<longleftrightarrow> vs' = vs"
| "spec_run (op # ops) vs (r # rs) vs' \<longleftrightarrow> (\<exists>vs1. spec op vs r vs1 \<and> spec_run ops vs1 rs vs')"
| "spec_run _ vs _ vs' \<longleftrightarrow> False"

text \<open>The allocator hands out free memory.\<close>

fun op_fresh :: "layer_op \<Rightarrow> lstore \<Rightarrow> bool" where
  "op_fresh (LCreate e p opts diff) st \<longleftrightarrow> layers st (lv_addr e) = None"
| "op_fresh _ st \<longleftrightarrow> True"

fun allocs_fresh :: "layer_op list \<Rightarrow> lstore \<Rightarrow> bool" where
  "allocs_fresh [] st \<longleftrightarrow> True"
| "allocs_fresh (op # ops) st \<longleftrightarrow>
     op_fresh op st \<and> (case layer_step op st of None \<Rightarrow> True | Some (r, st1) \<Rightarrow> allocs_fresh ops st1)"

section \<open>Calls that work on one layer\<close>

lemma bounded_upd: "bounded held (Suc n) \<Longrightarrow> bounded (held(a := held a + 1)) n"
  unfolding bounded_def by (metis add.assoc add.commute add_lessD1 fun_upd_apply plus_1_eq_Suc)

lemma bounded_le: "bounded held n \<Longrightarrow> m \<le> n \<Longrightarrow> bounded held m"
  unfolding bounded_def by (meson add_left_mono le_less_trans)

lemma held_back [simp]: "(held(a := held a + 1))(a := (held(a := held a + 1)) a - 1) = (held :: addr \<Rightarrow> nat)"
  by simp

text \<open>Look up, work, drop the reference: \<open>R\<close> relates the layer before, the result and the layer after.\<close>

lemma with_ref:
  assumes "store_ok st held" and "bounded held 2" and "find_addr p st = Some a"
    and work: "\<And>st1 l s. layers st1 a = Some l \<Longrightarrow> slayer l = Some s \<Longrightarrow>
      \<exists>r l' st2. f st1 = Some (r, st2) \<and> touch a st1 st2 \<and> layers st2 a = Some l' \<and> R (content l) r (content l')"
  shows "\<exists>l st1 r st2 l' st3. v_find p (view st) = Some l \<and> lookup p st = Some (Some a, st1) \<and> f st1 = Some (r, st2) \<and>
    layer_ref_dec (Some a) st2 = Some st3 \<and> store_ok st3 held \<and> R l r l' \<and> view st3 = v_set l' (view st)"
proof -
  from lookup_ok [OF assms(1,2), of p] obtain l where l: "layers st a = Some l" "a \<in> set (layers_list st)"
    "lookup p st = Some (Some a, put_layer a (l\<lparr>l_refcnt := l_refcnt l + 1\<rparr>) st)"
    "store_ok (put_layer a (l\<lparr>l_refcnt := l_refcnt l + 1\<rparr>) st) (held(a := held a + 1))"
    "view (put_layer a (l\<lparr>l_refcnt := l_refcnt l + 1\<rparr>) st) = view st" using assms(3) by auto
  define st1 where "st1 = put_layer a (l\<lparr>l_refcnt := l_refcnt l + 1\<rparr>) st"
  have ok1: "store_ok st1 (held(a := held a + 1))" using l(4) by (simp add: st1_def)
  obtain s where s: "slayer l = Some s" using alive [of st held a] assms(1) l(1,2) by (auto simp: store_ok_def)
  obtain r l' st2 where w: "f st1 = Some (r, st2)" "touch a st1 st2" "layers st2 a = Some l'" "R (content l) r (content l')"
    using work [of st1 "l\<lparr>l_refcnt := l_refcnt l + 1\<rparr>" s] s by (auto simp: st1_def)
  have ok2: "store_ok st2 (held(a := held a + 1))" using touch_ok [OF w(2) ok1] .
  have "bounded (held(a := held a + 1)) 1" using assms(2) bounded_upd [of held 1] by (simp add: numeral_2_eq_2)
  from dec_ok [OF ok2 _ this, of a] obtain st3 where st3: "layer_ref_dec (Some a) st2 = Some st3" "store_ok st3 held"
    "view st3 = view st2" unfolding held_back by auto
  have "view st2 = v_set (content l') (view st1)"
    using view_touch [of st1 a st2] ok1 w(2,3) l(2) by (simp add: store_ok_def st1_def)
  then have "view st3 = v_set (content l') (view st)" using st3(3) l(5) by (simp add: st1_def)
  moreover have "v_find p (view st) = Some (content l)"
    using view_find [of st p] assms(1,3) l(1) by (simp add: store_ok_def)
  ultimately show ?thesis using l(3) w st3 by (auto simp: st1_def)
qed

lemma but_mount_content: "but_mount l l' \<Longrightarrow> but_mount (content l) (content l')"
proof -
  assume "but_mount l l'"
  then obtain m p where "l' = l\<lparr>smount_point := m, mount_point_json_path := p\<rparr>" by (auto simp: but_mount_def)
  then have "content l' = (content l)\<lparr>smount_point := m, mount_point_json_path := p\<rparr>" by (simp add: content_def)
  then show ?thesis unfolding but_mount_def by blast
qed

lemma no_layer:
  assumes "store_ok st held" and "bounded held 2" and "find_addr p st = None"
  shows "v_find p (view st) = None" "lookup p st = Some (None, st)"
  using lookup_ok [OF assms(1,2), of p] view_find [of st p] assms(1,3) by (simp_all add: store_ok_def)

lemma find_None [simp]: "find_addr None st = None" "v_find None vs = None"
  by (simp_all add: find_addr_def v_find_def)

lemma mount_step:
  assumes "store_ok st held" and "bounded held 2"
  shows "\<exists>r st'. layer_store_mount e p st = Some (r, st') \<and> store_ok st' held \<and> mount_spec e p (view st) r (view st')"
proof (cases "lv_mem e M_Lock \<and> find_addr p st \<noteq> None")
  case True
  then obtain a where a: "find_addr p st = Some a" by auto
  then obtain x where p: "p = Some x" by (cases p) simp_all
  let ?R = "\<lambda>l r l'. but_mount l l' \<and> (mount_count l' = wrap32 (mount_count l + 1) \<or> r = None \<and> mount_count l' = mount_count l)"
  have "\<exists>l st1 r st2 l' st3. v_find p (view st) = Some l \<and> lookup p st = Some (Some a, st1) \<and> mount_helper e a st1 = Some (r, st2) \<and>
    layer_ref_dec (Some a) st2 = Some st3 \<and> store_ok st3 held \<and> ?R l r l' \<and> view st3 = v_set l' (view st)"
  proof (rule with_ref [OF assms a])
    fix st1 :: lstore and l :: layer_t and s
    assume l: "layers st1 a = Some l" "slayer l = Some s"
    from mount_helper_run [OF l, of e] obtain r l' st2 where
      "mount_helper e a st1 = Some (r, st2)" "touch a st1 st2" "layers st2 a = Some l'" "?R l r l'" by blast
    then show "\<exists>r l' st2. mount_helper e a st1 = Some (r, st2) \<and> touch a st1 st2 \<and> layers st2 a = Some l' \<and> ?R (content l) r (content l')"
      using but_mount_content by simp
  qed
  then obtain l st1 r st2 l' st3 where w: "v_find p (view st) = Some l" "lookup p st = Some (Some a, st1)"
    "mount_helper e a st1 = Some (r, st2)" "layer_ref_dec (Some a) st2 = Some st3" "store_ok st3 held" "?R l r l'"
    "view st3 = v_set l' (view st)" by blast
  have "layer_store_mount e p st = Some (r, st3)" using True p w(2-4) by (simp add: layer_store_mount_def lookup_with_lock_def)
  moreover have "mount_spec e p (view st) r (view st3)" using True w(1,6,7) by (auto simp: mount_spec_def)
  ultimately show ?thesis using w(5) by blast
next
  case False
  then show ?thesis using assms no_layer [OF assms, of p]
    by (auto simp: layer_store_mount_def lookup_with_lock_def mount_spec_def)
qed

lemma umount_step:
  assumes "store_ok st held" and "bounded held 2"
  shows "\<exists>r st'. layer_store_umount e p force st = Some (r, st') \<and> store_ok st' held \<and> umount_spec e p force (view st) r (view st')"
proof (cases "lv_mem e M_Lock \<and> find_addr p st \<noteq> None")
  case True
  then obtain a where a: "find_addr p st = Some a" by auto
  then obtain x where p: "p = Some x" by (cases p) simp_all
  let ?R = "\<lambda>l r l'. but_mount l l' \<and>
    (if r = 0 then mount_count l' = (if \<not> force \<and> mount_count l > 1 then mount_count l - 1 else 0) else r = -1 \<and> l' = l)"
  have "\<exists>l st1 r st2 l' st3. v_find p (view st) = Some l \<and> lookup p st = Some (Some a, st1) \<and>
    umount_helper e a force st1 = Some (r, st2) \<and>
    layer_ref_dec (Some a) st2 = Some st3 \<and> store_ok st3 held \<and> ?R l r l' \<and> view st3 = v_set l' (view st)"
  proof (rule with_ref [OF assms a])
    fix st1 :: lstore and l :: layer_t and s
    assume l: "layers st1 a = Some l" "slayer l = Some s"
    from umount_helper_run [OF l, of e force] obtain r l' st2 where
      u: "umount_helper e a force st1 = Some (r, st2)" "touch a st1 st2" "layers st2 a = Some l'" "?R l r l'" by blast
    from u(4) but_mount_content have "?R (content l) r (content l')" by (cases "r = 0") simp_all
    with u(1-3) show "\<exists>r l' st2. umount_helper e a force st1 = Some (r, st2) \<and> touch a st1 st2 \<and>
        layers st2 a = Some l' \<and> ?R (content l) r (content l')" by blast
  qed
  then obtain l st1 r st2 l' st3 where w: "v_find p (view st) = Some l" "lookup p st = Some (Some a, st1)"
    "umount_helper e a force st1 = Some (r, st2)" "layer_ref_dec (Some a) st2 = Some st3" "store_ok st3 held" "?R l r l'"
    "view st3 = v_set l' (view st)" by blast
  have "layer_store_umount e p force st = Some (r, st3)" using True p w(2-4) by (simp add: layer_store_umount_def lookup_with_lock_def)
  moreover have "umount_spec e p force (view st) r (view st3)" using True w(1,6,7) unfolding umount_spec_def by auto
  ultimately show ?thesis using w(5) by blast
next
  case False
  then show ?thesis using assms no_layer [OF assms, of p]
    by (auto simp: layer_store_umount_def lookup_with_lock_def umount_spec_def)
qed

section \<open>Holds and queries\<close>

lemma view_by_id:
  assumes "indexed st"
  shows "find (\<lambda>l. v_id l = x) (view st) = map_option (\<lambda>a. content (the (layers st a))) (smap_search (by_id st) x)"
proof -
  have "find ((\<lambda>l. v_id l = x) \<circ> (\<lambda>a. content (the (layers st a)))) (layers_list st) = smap_search (by_id st) x"
    by (rule find_index) (simp add: by_id_entry [OF assms] slayer_at_v)
  then show ?thesis by (simp add: view_def find_map_list)
qed

lemma by_id_layer:
  assumes "store_ok st held" and "smap_search (by_id st) x = Some a"
  obtains l s where "a \<in> set (layers_list st)" "layers st a = Some l" "slayer l = Some s"
    "find (\<lambda>l. v_id l = x) (view st) = Some (content l)"
proof -
  have ix: "indexed st" "refs_ok st held" using assms(1) by (simp_all add: store_ok_def)
  have a: "a \<in> set (layers_list st)" using by_id_entry [OF ix(1)] assms(2) by blast
  then obtain l s where "layers st a = Some l" "slayer l = Some s" using alive [OF ix(2)] by blast
  with a show ?thesis using that view_by_id [OF ix(1), of x] assms(2) by simp
qed

lemma hold_step:
  assumes "store_ok st held"
  shows "\<exists>r st'. layer_set_hold_refs e p inc st = Some (r, st') \<and> store_ok st' held \<and> hold_spec e p inc (view st) r (view st')"
proof (cases "p = None \<or> \<not> lv_mem e M_Lock \<or> smap_search (by_id st) (the p) = None")
  case True
  then show ?thesis using assms view_by_id [of st "the p"]
    by (auto simp: layer_set_hold_refs_def hold_spec_def store_ok_def split: option.splits)
next
  case False
  then obtain x a where x: "p = Some x" "smap_search (by_id st) x = Some a" and lk: "lv_mem e M_Lock" by auto
  obtain l s where l: "a \<in> set (layers_list st)" "layers st a = Some l" "slayer l = Some s"
    "find (\<lambda>l. v_id l = x) (view st) = Some (content l)" using by_id_layer [OF assms x(2)] .
  let ?d = "if inc then 1 else -1 :: int"
  let ?l = "l\<lparr>hold_refs_num := wrap32 (hold_refs_num l + ?d)\<rparr>"
  have h: "hold_more a ?d st = Some (put_layer a ?l st)" "touch a st (put_layer a ?l st)"
    using hold_more_run [of st a l ?d] l by simp_all
  have "layer_set_hold_refs e p inc st = Some (0, put_layer a ?l st)" using x lk h(1) by (simp add: layer_set_hold_refs_def)
  moreover have "view (put_layer a ?l st) = v_set (content ?l) (view st)"
    using view_touch [OF _ l(1) h(2)] assms by (simp add: store_ok_def)
  moreover have "content ?l = (content l)\<lparr>hold_refs_num := wrap32 (hold_refs_num (content l) + ?d)\<rparr>"
    unfolding content_def by simp
  ultimately show ?thesis using touch_ok [OF h(2) assms] l(4) x lk by (auto simp: hold_spec_def)
qed

lemma get_hold_step:
  assumes "store_ok st held"
  shows "\<exists>r n. layer_get_hold_refs e p st = Some (r, n) \<and> get_hold_spec e p (view st) r n"
proof (cases "p = None \<or> \<not> lv_mem e M_Lock \<or> smap_search (by_id st) (the p) = None")
  case True
  then show ?thesis using assms view_by_id [of st "the p"]
    by (auto simp: layer_get_hold_refs_def get_hold_spec_def store_ok_def split: option.splits)
next
  case False
  then obtain x a where x: "p = Some x" "smap_search (by_id st) x = Some a" and lk: "lv_mem e M_Lock" by auto
  obtain l s where "a \<in> set (layers_list st)" "layers st a = Some l" "slayer l = Some s"
    "find (\<lambda>l. v_id l = x) (view st) = Some (content l)" using by_id_layer [OF assms x(2)] .
  with x lk show ?thesis by (simp add: layer_get_hold_refs_def get_hold_spec_def)
qed

text \<open>A look-up whose reference is dropped at once leaves the store as it was.\<close>

lemma lookup_and_drop:
  assumes "store_ok st held" and "bounded held 2" and "find_addr p st = Some a"
  obtains l where "layers st a = Some l" "v_find p (view st) = Some (content l)"
    "lookup p st = Some (Some a, put_layer a (l\<lparr>l_refcnt := l_refcnt l + 1\<rparr>) st)"
    "layer_ref_dec (Some a) (put_layer a (l\<lparr>l_refcnt := l_refcnt l + 1\<rparr>) st) = Some st"
proof -
  from lookup_ok [OF assms(1,2), of p] obtain l where l: "layers st a = Some l" "a \<in> set (layers_list st)"
    "lookup p st = Some (Some a, put_layer a (l\<lparr>l_refcnt := l_refcnt l + 1\<rparr>) st)" using assms(3) by auto
  have "l_refcnt l = held a + 1" using refs_okD [of st held a] assms(1) l(1,2) by (auto simp: store_ok_def)
  moreover have "held a + 2 < 2 ^ 64" using assms(2) by (simp add: bounded_def)
  moreover have "put_layer a (l\<lparr>l_refcnt := l_refcnt l\<rparr>) st = st" using put_layer_id [OF l(1)] by simp
  ultimately have "layer_ref_dec (Some a) (put_layer a (l\<lparr>l_refcnt := l_refcnt l + 1\<rparr>) st) = Some st"
    using ref_dec_eq [of "put_layer a (l\<lparr>l_refcnt := l_refcnt l + 1\<rparr>) st" a "l\<lparr>l_refcnt := l_refcnt l + 1\<rparr>"]
    by (simp add: put_layer_def)
  then show ?thesis using that l view_find [of st p] assms(1,3) by (simp add: store_ok_def)
qed

lemma lookup_step:
  assumes "store_ok st held" and "bounded held 2"
  shows "\<exists>r. layer_store_lookup e p st = Some (r, st) \<and> lookup_spec e p (view st) r"
proof (cases "lv_mem e M_Lock \<and> find_addr p st \<noteq> None")
  case True
  then obtain a where a: "find_addr p st = Some a" by auto
  then obtain x where p: "p = Some x" by (cases p) simp_all
  obtain l where l: "layers st a = Some l" "v_find p (view st) = Some (content l)"
    "lookup p st = Some (Some a, put_layer a (l\<lparr>l_refcnt := l_refcnt l + 1\<rparr>) st)"
    "layer_ref_dec (Some a) (put_layer a (l\<lparr>l_refcnt := l_refcnt l + 1\<rparr>) st) = Some st"
    using lookup_and_drop [OF assms a] .
  have "copy_json_to_layer (l\<lparr>l_refcnt := n\<rparr>) = copy_json_to_layer l" for n
    by (simp add: copy_json_to_layer_def cong: option.case_cong)
  then show ?thesis using True l p by (simp add: layer_store_lookup_def lookup_with_lock_def lookup_spec_def)
next
  case False
  then show ?thesis using no_layer [OF assms, of p]
    by (auto simp: layer_store_lookup_def lookup_with_lock_def lookup_spec_def)
qed

definition views :: "lstore \<Rightarrow> addr list \<Rightarrow> layer_t list" where
  "views st as = map (\<lambda>a. content (the (layers st a))) as"

lemma list_spec_Nil: "list_spec vs (-1) []"
  by (simp add: list_spec_def)

lemma list_spec_Cons: "list_spec vs r ls \<Longrightarrow> list_spec (v # vs) r (copy_json_to_layer v # ls)"
  by (auto simp: list_spec_def)

lemma list_layers_run:
  assumes "\<And>a. a \<in> set as \<Longrightarrow> layers st a \<noteq> None"
  shows "\<exists>r ls. list_layers e i as st = Some (r, ls) \<and> list_spec (views st as) r ls"
  using assms
proof (induction as arbitrary: i)
  case Nil
  then show ?case by (simp add: list_spec_def views_def)
next
  case (Cons a as)
  obtain l where l: "layers st a = Some l" using Cons.prems [of a] by auto
  obtain r ls where r: "list_layers e (Suc i) as st = Some (r, ls)" "list_spec (views st as) r ls"
    using Cons.IH [of "Suc i"] Cons.prems by auto
  have "list_spec (views st (a # as)) r (copy_json_to_layer l # ls)"
    using list_spec_Cons [OF r(2), of "content l"] l by (simp add: views_def)
  then show ?case using l r(1) list_spec_Nil by (cases "lv_mem e (M_Array_Item i)") auto
qed

lemma list_step:
  assumes "store_ok st held"
  shows "\<exists>r ls. layer_store_list e st = Some (r, ls) \<and> list_spec (view st) r ls"
proof -
  have len: "layers_list_len st = length (layers_list st)" using assms by (simp add: store_ok_def indexed_def)
  have "\<And>a. a \<in> set (layers_list st) \<Longrightarrow> layers st a \<noteq> None"
    using alive [of st held] assms unfolding store_ok_def by fastforce
  from list_layers_run [OF this, of "layers_list st" e 0] show ?thesis
    using list_spec_Nil by (auto simp: layer_store_list_def len view_def views_def)
qed

lemma digest_layers_run:
  assumes "store_ok st held" and "bounded held 2" and "set as \<subseteq> set (layers_list st)"
  shows "\<exists>r ls. digest_layers e i (map (\<lambda>a. v_id (the (layers st a))) as) st = Some (r, ls, st) \<and> list_spec (views st as) r ls"
  using assms(3)
proof (induction as arbitrary: i)
  case Nil
  then show ?case by (simp add: list_spec_def views_def)
next
  case (Cons a as)
  let ?x = "v_id (the (layers st a))"
  have "smap_search (by_id st) ?x = Some a"
    using by_id_entry [of st ?x a] assms(1) Cons.prems by (simp add: store_ok_def slayer_at_v)
  then have f: "find_addr (Some ?x) st = Some a" by (simp add: find_addr_def)
  obtain l where l: "layers st a = Some l"
    "lookup (Some ?x) st = Some (Some a, put_layer a (l\<lparr>l_refcnt := l_refcnt l + 1\<rparr>) st)"
    "layer_ref_dec (Some a) (put_layer a (l\<lparr>l_refcnt := l_refcnt l + 1\<rparr>) st) = Some st"
    using lookup_and_drop [OF assms(1,2) f] .
  obtain r ls where r: "digest_layers e (Suc i) (map (\<lambda>a. v_id (the (layers st a))) as) st = Some (r, ls, st)"
    "list_spec (views st as) r ls" using Cons.IH [of "Suc i"] Cons.prems by auto
  have c: "copy_json_to_layer (l\<lparr>l_refcnt := n\<rparr>) = copy_json_to_layer l" for n
    by (simp add: copy_json_to_layer_def cong: option.case_cong)
  have "list_spec (views st (a # as)) r (copy_json_to_layer l # ls)"
    using list_spec_Cons [OF r(2), of "content l"] l by (simp add: views_def)
  then show ?case using l r(1) c list_spec_Nil by (cases "lv_mem e (M_Array_Item i)") auto
qed

lemma digest_step:
  assumes "store_ok st held" and "bounded held 2"
  shows "\<exists>r ls. layer_store_by_compress_digest e p st = Some (r, ls, st) \<and> digest_spec p (view st) r ls"
proof (cases "p = None \<or> \<not> lv_mem e M_Lock")
  case True
  then show ?thesis by (auto simp: layer_store_by_compress_digest_def digest_spec_def list_spec_def split: option.splits)
next
  case False
  then obtain d where p: "p = Some d" and lk: "lv_mem e M_Lock" by auto
  define as where "as = filter (\<lambda>a. sl_compressed_diff_digest (the (slayer (the (layers st a)))) = Some d) (layers_list st)"
  let ?ids = "map (\<lambda>a. v_id (the (layers st a))) as"
  have vs: "filter (\<lambda>l. p \<noteq> None \<and> sl_compressed_diff_digest (the (slayer l)) = p) (view st) = views st as"
    by (simp add: view_def views_def as_def filter_map o_def p)
  have "ids_with sl_compressed_diff_digest d (entries_of st) = ?ids"
    by (simp add: ids_with_def entries_of_def filter_map o_def as_def slayer_at_v) (simp add: slayer_at_def)
  then have sr: "smap_search (by_compress_digest st) d = digest_of ?ids"
    using assms(1) by (simp add: store_ok_def indexed_def indexes_def digest_index_def)
  obtain r ls where r: "digest_layers e 0 ?ids st = Some (r, ls, st)" "list_spec (views st as) r ls"
    using digest_layers_run [OF assms, of as e 0] by (auto simp: as_def)
  show ?thesis
  proof (cases "as = []")
    case True
    then show ?thesis using sr p lk vs
      by (simp add: layer_store_by_compress_digest_def layers_by_digest_map_def digest_spec_def list_spec_Nil)
  next
    case False
    have "r = 0 \<longrightarrow> ls \<noteq> []" using r(2) False by (auto simp: list_spec_def views_def)
    then show ?thesis using False sr p lk vs r list_spec_Nil
      by (simp add: layer_store_by_compress_digest_def layers_by_digest_map_def digest_spec_def digest_of_def)
  qed
qed

section \<open>Deletion\<close>

lemma unindexed:
  assumes "store_ok st held" and "bounded held 3" and "a \<in> set (layers_list st)" and "layers st a = Some l"
  shows "\<exists>st'. remove_memory_stores (Some (v_id l)) st = Some (0, st') \<and> store_ok st' held \<and>
    view st' = v_del (content l) (view st) \<and> layers_list st' = remove1 a (layers_list st) \<and>
    effects st' = effects st \<and> g_root_dir st' = g_root_dir st \<and> g_run_dir st' = g_run_dir st"
proof -
  have ix: "indexed st" using assms(1) by (simp add: store_ok_def)
  have "smap_search (by_id st) (v_id l) = Some a" using by_id_entry [OF ix, of "v_id l" a] assms(3,4) by (simp add: slayer_at_v)
  from remove_stores_ok [OF assms(1,2) this] obtain st' where st': "remove_memory_stores (Some (v_id l)) st = Some (0, st')"
    "store_ok st' held" "layers st' = heap_without a (held a) (layers st)" "layers_list st' = remove1 a (layers_list st)"
    "effects st' = effects st" "g_root_dir st' = g_root_dir st" "g_run_dir st' = g_run_dir st" by blast
  have "view st' = v_del (content (the (layers st a))) (view st)"
    by (rule view_remove [OF ix assms(3) st'(4)]) (simp add: st'(3) heap_without_def)
  then show ?thesis using st' assms(4) by auto
qed

lemma logged_ok: "logged st st' \<Longrightarrow> store_ok st' held = store_ok st held" "logged st st' \<Longrightarrow> view st' = view st"
  using logged_unchanged unchanged_ok by blast+

lemma remove_layer_logged: "logged st st1 \<Longrightarrow> logged st (snd (layer_store_remove_layer e p st1))"
  by (auto simp: layer_store_remove_layer_def logged_ext split: option.splits)

lemma driver_remove_logged: "logged st (driver_remove e lid st)"
  by (simp add: driver_remove_def remove_layer_logged logged_ext)

lemma umount_forced:
  assumes "layers st a = Some l" and "slayer l = Some s" and "umount_helper e a True st = Some (r, st')"
  shows "r = (if smount_point l \<noteq> None \<and> lv_ret e (Drv_Umount (sl_id s)) \<noteq> 0 then -1 else 0)"
  using assms by (auto simp: umount_helper_def ext_def case_prod_unfold split: option.splits if_splits bind_splits)

text \<open>What a deletion does between taking and dropping its reference.\<close>

definition delete_body :: "layer_env \<Rightarrow> addr \<Rightarrow> lstore \<Rightarrow> (int \<times> lstore) option" where
  "delete_body e a st = do {
     (r, st2) \<leftarrow> umount_helper e a True st;
     if r \<noteq> 0 then Some (-1, st2)
     else do {
       st3 \<leftarrow> remove_layer_files e a st2;
       l \<leftarrow> layers st3 a;
       s \<leftarrow> slayer l;
       (r, st4) \<leftarrow> remove_memory_stores (Some (sl_id s)) st3;
       if r \<noteq> 0 then Some (r, st4)
       else
         let (r, st5) = ext e (Drv_Rm (sl_id s)) st4
         in if r \<noteq> 0 then Some (r, st5) else Some (layer_store_remove_layer e (Some (sl_id s)) st5)
     }
   }"

lemma delete_body_run:
  assumes "store_ok st held" and "bounded held 3" and "a \<in> set (layers_list st)" and l: "layers st a = Some l" "slayer l = Some s"
  shows "\<exists>r st'. delete_body e a st = Some (r, st') \<and> store_ok st' held \<and>
    (if smount_point l \<noteq> None \<and> lv_ret e (Drv_Umount (sl_id s)) \<noteq> 0 then r = -1 \<and> view st' = view st
     else view st' = v_del (content l) (view st))"
proof -
  from umount_helper_run [OF l, of e True] obtain r l2 st2 where u: "umount_helper e a True st = Some (r, st2)"
    "touch a st st2" "layers st2 a = Some l2" "but_mount l l2"
    "if r = 0 then mount_count l2 = (if \<not> True \<and> mount_count l > 1 then mount_count l - 1 else 0) else r = -1 \<and> l2 = l" by blast
  note ok2 = touch_ok [OF u(2) assms(1)] and r = umount_forced [OF l u(1)]
  have v2: "view st2 = v_set (content l2) (view st)"
    using view_touch [of st a st2] assms(1,3) u(2,3) by (simp add: store_ok_def)
  have s2: "slayer l2 = Some s" using u(4) l by (auto simp: but_mount_def)
  have set_same: "v_set (content l) (view st) = view st"
    using view_touch [OF _ assms(3), of st] touch_refl [of a st] assms(1) l by (simp add: store_ok_def good_def)
  have del: "v_del (content l2) (v_set (content l2) vs) = v_del (content l) vs" for vs
    using s2 l by (induction vs) (auto simp: v_del_def v_set_def v_id_def)
  show ?thesis
  proof (cases "r = 0")
    case False
    then have "delete_body e a st = Some (-1, st2)" "view st2 = view st" using u(1,5) v2 set_same by (simp_all add: delete_body_def)
    moreover have "smount_point l \<noteq> None \<and> lv_ret e (Drv_Umount (sl_id s)) \<noteq> 0" using False r by presburger
    ultimately show ?thesis using ok2 by simp
  next
    case True
    from remove_files_run [OF u(3) s2, of e] obtain st3 where st3: "remove_layer_files e a st2 = Some st3" "logged st2 st3" by blast
    then have l3: "layers st3 a = Some l2" "a \<in> set (layers_list st3)" "store_ok st3 held" "view st3 = view st2"
      using u(2,3) assms(3) ok2 logged_ok [OF st3(2)] by (auto simp: logged_def touch_frame)
    have vid: "v_id l2 = sl_id s" using s2 by (simp add: v_id_def)
    from unindexed [OF l3(3) assms(2) l3(2,1)] obtain st4 where st4: "remove_memory_stores (Some (sl_id s)) st3 = Some (0, st4)"
      "store_ok st4 held" "view st4 = v_del (content l2) (view st3)" unfolding vid by blast
    define q where "q = (if lv_ret e (Drv_Rm (sl_id s)) \<noteq> 0 then (lv_ret e (Drv_Rm (sl_id s)), snd (ext e (Drv_Rm (sl_id s)) st4))
      else layer_store_remove_layer e (Some (sl_id s)) (snd (ext e (Drv_Rm (sl_id s)) st4)))"
    have "delete_body e a st = Some q"
      using u(1) True st3(1) l3(1) s2 st4(1) by (simp add: delete_body_def q_def case_prod_unfold Let_def)
    moreover have "logged st4 (snd q)" by (simp add: q_def logged_ext remove_layer_logged)
    ultimately obtain r5 st5 where st5: "delete_body e a st = Some (r5, st5)" "logged st4 st5" by (cases q) simp
    then have "store_ok st5 held" "view st5 = v_del (content l) (view st)" using logged_ok [OF st5(2)] st4 l3(4) v2 del by simp_all
    moreover have "\<not> (smount_point l \<noteq> None \<and> lv_ret e (Drv_Umount (sl_id s)) \<noteq> 0)" using True r by presburger
    ultimately show ?thesis using st5(1) by auto
  qed
qed

lemma do_delete_eq: "do_delete_layer e p st = do {
     (la, st1) \<leftarrow> lookup p st;
     (case la of
        None \<Rightarrow> Some (0, st1)
      | Some a \<Rightarrow> do { (r, st3) \<leftarrow> delete_body e a st1; st4 \<leftarrow> layer_ref_dec (Some a) st3; Some (r, st4) })
   }"
  unfolding do_delete_layer_def delete_body_def by (simp add: case_prod_unfold Let_def cong: option.case_cong)

lemma delete_step:
  assumes "store_ok st held" and "bounded held 4"
  shows "\<exists>r st'. layer_store_delete e p st = Some (r, st') \<and> store_ok st' held \<and> delete_spec e p (view st) r (view st')"
proof (cases "p = None \<or> \<not> lv_mem e M_Lock \<or> find_addr p st = None")
  case True
  have "bounded held 2" by (rule bounded_le [OF assms(2)]) simp
  from no_layer [OF assms(1) this, of p] True show ?thesis using assms(1)
    by (auto simp: layer_store_delete_def do_delete_eq delete_spec_def)
next
  case False
  then obtain x a where p: "p = Some x" and lk: "lv_mem e M_Lock" and a: "find_addr p st = Some a" by auto
  have b2: "bounded held 2" and b: "bounded (held(a := held a + 1)) 3"
    using bounded_le [OF assms(2), of 2] bounded_upd [of held 3 a] assms(2) by (simp_all add: numeral_eq_Suc)
  from lookup_ok [OF assms(1) b2, of p] obtain l where l: "layers st a = Some l" "a \<in> set (layers_list st)"
    "lookup p st = Some (Some a, put_layer a (l\<lparr>l_refcnt := l_refcnt l + 1\<rparr>) st)"
    "store_ok (put_layer a (l\<lparr>l_refcnt := l_refcnt l + 1\<rparr>) st) (held(a := held a + 1))"
    "view (put_layer a (l\<lparr>l_refcnt := l_refcnt l + 1\<rparr>) st) = view st" using a by auto
  define l1 where "l1 = l\<lparr>l_refcnt := l_refcnt l + 1\<rparr>"
  obtain s where s: "slayer l = Some s" using alive [of st held a] assms(1) l(1,2) by (auto simp: store_ok_def)
  have vf: "v_find p (view st) = Some (content l)" using view_find [of st p] assms(1) a l(1) by (simp add: store_ok_def)
  have l1: "a \<in> set (layers_list (put_layer a l1 st))" "layers (put_layer a l1 st) a = Some l1" "slayer l1 = Some s"
    "content l1 = content l" "smount_point l1 = smount_point l" using l(2) s by (simp_all add: l1_def content_def)
  from delete_body_run [OF l(4) [folded l1_def] b l1(1,2,3), of e] obtain r st3 where
    d: "delete_body e a (put_layer a l1 st) = Some (r, st3)" "store_ok st3 (held(a := held a + 1))"
      "if smount_point l \<noteq> None \<and> lv_ret e (Drv_Umount (sl_id s)) \<noteq> 0 then r = -1 \<and> view st3 = view st
       else view st3 = v_del (content l) (view st)" unfolding l1(4,5) l(5) [folded l1_def] by blast
  from dec_ok [OF d(2) _ bounded_le [OF b], of a] obtain st4 where st4: "layer_ref_dec (Some a) st3 = Some st4" "store_ok st4 held"
    "view st4 = view st3" unfolding held_back by auto
  have "layer_store_delete e p st = Some (if r \<noteq> 0 then -1 else 0, st4)"
    using p lk l(3) [folded l1_def] d(1) st4(1) by (simp add: layer_store_delete_def do_delete_eq)
  moreover have "delete_spec e p (view st) (if r \<noteq> 0 then -1 else 0) (view st4)"
    using p lk vf d(3) st4(3) s by (auto simp: delete_spec_def v_id_def split: if_splits)
  ultimately show ?thesis using st4(2) by blast
qed

section \<open>Creation\<close>

lemma v_set_new: "\<forall>k \<in> set vs. v_id k \<noteq> v_id l \<Longrightarrow> v_id f = v_id l \<Longrightarrow> v_set l (vs @ [f]) = vs @ [l]"
  unfolding v_set_def by (induction vs) auto

lemma v_del_new: "\<forall>k \<in> set vs. v_id k \<noteq> v_id f \<Longrightarrow> v_del f (vs @ [f]) = vs"
  unfolding v_del_def by (induction vs) auto

lemma v_del_id: "v_id l = v_id f \<Longrightarrow> v_del l vs = v_del f vs"
  by (simp add: v_del_def)

lemma v_set_del: "v_del l (v_set l vs) = v_del l vs"
  unfolding v_set_def v_del_def by (induction vs) auto

lemma not_found_id: "v_find (Some x) vs = None \<Longrightarrow> k \<in> set vs \<Longrightarrow> v_id k \<noteq> x"
  by (auto simp: v_find_def find_None_iff split: option.splits)

text \<open>The log of calls only grows; undoing a creation ends it with the removal by driver and of the directory.\<close>

definition grows :: "lstore \<Rightarrow> lstore \<Rightarrow> bool" where
  "grows st st' \<longleftrightarrow> (\<exists>x. effects st' = effects st @ x)"

lemma grows_refl [simp]: "grows st st"
  by (simp add: grows_def)

lemma grows_trans: "grows st st1 \<Longrightarrow> grows st1 st2 \<Longrightarrow> grows st st2"
  by (auto simp: grows_def)

lemma grows_same: "effects st1 = effects st2 \<Longrightarrow> grows st st1 \<Longrightarrow> grows st st2"
  by (simp add: grows_def)

lemma grows_touch: "touch a st st' \<Longrightarrow> grows st st'"
  by (auto simp: grows_def touch_def)

lemma grows_made: "made e lid opts st r st' \<Longrightarrow> grows st st'"
  unfolding made_def grows_def by (metis append_Nil2)

definition undo_effects :: "layer_env \<Rightarrow> string \<Rightarrow> lstore \<Rightarrow> (layer_effect \<times> int) list" where
  "undo_effects e lid st = (Drv_Rm lid, lv_ret e (Drv_Rm lid)) #
     (case asprintf_path e (g_root_dir st @ ''/'' @ lid) of None \<Rightarrow> [] | Some d \<Rightarrow> [(Rm_Dir d, lv_ret e (Rm_Dir d))])"

lemma driver_remove_effects: "effects (driver_remove e lid st) = effects st @ undo_effects e lid st"
  by (simp add: driver_remove_def layer_store_remove_layer_def ext_def undo_effects_def split: option.splits)

definition rolled_back :: "layer_env \<Rightarrow> string option \<Rightarrow> layer_opts \<Rightarrow> lstore \<Rightarrow> lstore \<Rightarrow> bool" where
  "rolled_back e p opts st st' \<longleftrightarrow> effects st' = effects st \<or>
     (\<exists>lid x. p = Some lid \<and> effects st' = effects st @ (let c = Drv_Create lid (lo_parent opts) (lo_writable opts) in
        if lv_ret e c \<noteq> 0 then [(c, lv_ret e c)] else (c, 0) # x @ undo_effects e lid st))"

lemma filled_run:
  assumes "store_ok st held" and "bounded held 2" and nf: "v_find (Some x) (view st) = None"
    and "layers st (lv_addr e) = None" and m: "made e x opts st 0 st3"
  shows "\<exists>st4 r l st5. lookup (Some x) st3 = Some (Some (lv_addr e), st4) \<and> fill_layer e diff (lv_addr e) st4 = Some (r, st5) \<and>
    store_ok st5 (held(lv_addr e := held (lv_addr e) + 1)) \<and> lv_addr e \<in> set (layers_list st5) \<and>
    layers st5 (lv_addr e) = Some l \<and> view st5 = view st @ [content l] \<and> hold_refs_num l = 0 \<and>
    slayer l \<noteq> None \<and> norm (the (slayer l)) = norm (fresh_slayer e x opts) \<and> (r = 0 \<longrightarrow> \<not> sl_incompelte (the (slayer l))) \<and>
    grows st3 st5 \<and> g_root_dir st5 = g_root_dir st"
proof -
  let ?a = "lv_addr e"
  let ?f = "fresh_layer e x opts st"
  note mk = made_ok [OF m assms(1,4)]
  have fa: "find_addr (Some x) st3 = Some ?a" using mk(4) by (simp add: find_addr_def)
  have l3: "layers st3 ?a = Some ?f" using mk(2) by simp
  from lookup_ok [OF mk(1) assms(2), of "Some x"] l3 fa have lk:
    "lookup (Some x) st3 = Some (Some ?a, put_layer ?a (?f\<lparr>l_refcnt := l_refcnt ?f + 1\<rparr>) st3)"
    "store_ok (put_layer ?a (?f\<lparr>l_refcnt := l_refcnt ?f + 1\<rparr>) st3) (held(?a := held ?a + 1))"
    "view (put_layer ?a (?f\<lparr>l_refcnt := l_refcnt ?f + 1\<rparr>) st3) = view st3" by auto
  define st4 where "st4 = put_layer ?a (?f\<lparr>l_refcnt := l_refcnt ?f + 1\<rparr>) st3"
  have l4: "layers st4 ?a = Some (?f\<lparr>l_refcnt := l_refcnt ?f + 1\<rparr>)" "slayer (?f\<lparr>l_refcnt := l_refcnt ?f + 1\<rparr>) = Some (fresh_slayer e x opts)"
    by (simp_all add: st4_def fresh_layer_def)
  from fill_layer_run [OF l4, of e diff] obtain r l st5 where f: "fill_layer e diff ?a st4 = Some (r, st5)" "touch ?a st4 st5"
    "layers st5 ?a = Some l" "hold_refs_num l = hold_refs_num (?f\<lparr>l_refcnt := l_refcnt ?f + 1\<rparr>)"
    "r = 0 \<longrightarrow> \<not> sl_incompelte (the (slayer l))" by blast
  have lst: "?a \<in> set (layers_list st4)" using mk(3) by (simp add: st4_def)
  have keys: "slayer l \<noteq> None" "norm (the (slayer l)) = norm (fresh_slayer e x opts)"
    using f(2,3) l4 by (auto simp: touch_def same_keys_def)
  have vid: "v_id l = x" using arg_cong [OF keys(2), of sl_id] by (simp add: v_id_def norm_def fresh_slayer_def)
  have "view st5 = v_set (content l) (view st @ [content ?f])"
    using view_touch [of st4 ?a st5] lk(2,3) lst f(2,3) mk(7) by (simp add: store_ok_def st4_def)
  also have "\<dots> = view st @ [content l]"
    using not_found_id [OF nf] vid by (intro v_set_new) (auto simp: v_id_def fresh_layer_def fresh_slayer_def)
  finally have v: "view st5 = view st @ [content l]" .
  have "store_ok st5 (held(?a := held ?a + 1))" using touch_ok [OF f(2)] lk(2) by (simp add: st4_def)
  moreover have "?a \<in> set (layers_list st5)" "g_root_dir st5 = g_root_dir st"
    using touch_frame [OF f(2)] lst mk(5) by (simp_all add: st4_def)
  moreover have "grows st3 st5" using grows_touch [OF f(2)] by (simp add: grows_def st4_def)
  moreover have "hold_refs_num l = 0" using f(4) by (simp add: fresh_layer_def empty_layer_def)
  ultimately show ?thesis using lk(1) f(1,3,5) v keys st4_def by blast
qed

text \<open>The section of a creation whose layer is not there yet: the reference it returns is still held.\<close>

definition holding :: "addr option \<Rightarrow> (addr \<Rightarrow> nat) \<Rightarrow> addr \<Rightarrow> nat" where
  "holding p held = (case p of None \<Rightarrow> held | Some a \<Rightarrow> held(a := held a + 1))"

definition names_free :: "layer_opts \<Rightarrow> layer_t list \<Rightarrow> bool" where
  "names_free opts vs \<longleftrightarrow> distinct (lo_names opts) \<and> (\<forall>n \<in> set (lo_names opts). \<forall>k \<in> set vs. n \<notin> set (v_names k))"

definition created ::
  "layer_env \<Rightarrow> string option \<Rightarrow> layer_opts \<Rightarrow> lstore \<Rightarrow> int \<Rightarrow> string option \<Rightarrow> lstore \<Rightarrow> bool" where
  "created e p opts st r i st' \<longleftrightarrow>
     (if r = 0
      then \<exists>x l. p = Some x \<and> i = Some x \<and> view st' = view st @ [l] \<and> is_new e x opts l \<and> names_free opts (view st)
      else i = None \<and> view st' = view st \<and> rolled_back e p opts st st')"

lemma names_free_made:
  assumes "entries_ok (entries_of st @ [(a, norm (fresh_slayer e x opts))])"
  shows "names_free opts (view st)"
proof -
  have "distinct (map fst (name_pairs (entries_of st)) @ lo_names opts)"
    using assms by (simp add: entries_ok_def norm_def fresh_slayer_def o_def)
  then have d: "distinct (lo_names opts)" "set (map fst (name_pairs (entries_of st))) \<inter> set (lo_names opts) = {}" by simp_all
  have "set (v_names (content (the (layers st b)))) \<subseteq> set (map fst (name_pairs (entries_of st)))" if "b \<in> set (layers_list st)" for b
    using that by (fastforce simp: name_pairs_def entries_of_def image_iff slayer_at_v)
  with d show ?thesis by (fastforce simp: names_free_def view_def)
qed

lemma undone:
  assumes "logged st st1" and "effects st1 = effects st @ [(Drv_Create x (lo_parent opts) (lo_writable opts), 0)]"
    and "lv_ret e (Drv_Create x (lo_parent opts) (lo_writable opts)) = 0" and "grows st1 st2" and "g_root_dir st2 = g_root_dir st"
  shows "rolled_back e (Some x) opts st (driver_remove e x st2)"
  using assms by (auto simp: rolled_back_def grows_def driver_remove_effects undo_effects_def)

lemma driver_create_cases:
  "driver_create_layer e p par w opt st = (-1, st) \<or>
   (\<exists>x. p = Some x \<and> driver_create_layer e p par w opt st = ext e (Drv_Create x par w) st)"
  unfolding driver_create_layer_def Let_def by (cases p) (simp_all only: option.case option.inject if_cancel if_splits(1), auto)

text \<open>After the driver created the layer and its entry is made.\<close>

definition finish_create :: "layer_env \<Rightarrow> string \<Rightarrow> bool \<Rightarrow> lstore \<Rightarrow> (int \<times> string option \<times> addr option \<times> lstore) option" where
  "finish_create e lid diff st3 = do {
     (la, st4) \<leftarrow> lookup (Some lid) st3;
     (case la of
        None \<Rightarrow> do { (_, st5) \<leftarrow> remove_memory_stores (Some lid) st4; Some (-1, None, None, driver_remove e lid st5) }
      | Some a \<Rightarrow> do {
          (r, st5) \<leftarrow> fill_layer e diff a st4;
          if r = 0 then do { st6 \<leftarrow> hold_more a 1 st5; Some (0, Some lid, Some a, st6) }
          else do { (_, st6) \<leftarrow> remove_memory_stores (Some lid) st5; Some (r, None, Some a, driver_remove e lid st6) }
        })
   }"

lemma finish_create_run:
  assumes "store_ok st held" and "bounded held 4" and nf: "v_find (Some x) (view st) = None"
    and "layers st (lv_addr e) = None" and m: "made e x opts st 0 st3"
  shows "\<exists>r i st'. finish_create e x diff st3 = Some (r, i, Some (lv_addr e), st') \<and>
    store_ok st' (holding (Some (lv_addr e)) held) \<and>
    (if r = 0 then i = Some x \<and> (\<exists>l. view st' = view st @ [l] \<and> is_new e x opts l)
     else i = None \<and> view st' = view st \<and> (\<exists>st6. grows st3 st6 \<and> g_root_dir st6 = g_root_dir st \<and> st' = driver_remove e x st6))"
proof -
  let ?a = "lv_addr e" and ?held = "held(lv_addr e := held (lv_addr e) + 1)"
  have b: "bounded held 2" "bounded ?held 3"
    using bounded_le [OF assms(2), of 2] bounded_upd [of held 3 ?a] assms(2) by (simp_all add: numeral_eq_Suc)
  from filled_run [OF assms(1) b(1) nf assms(4) m, of diff] obtain st4 r l st5 where f:
    "lookup (Some x) st3 = Some (Some ?a, st4)" "fill_layer e diff ?a st4 = Some (r, st5)" "store_ok st5 ?held"
    "?a \<in> set (layers_list st5)" "layers st5 ?a = Some l" "view st5 = view st @ [content l]" "hold_refs_num l = 0"
    "slayer l \<noteq> None" "norm (the (slayer l)) = norm (fresh_slayer e x opts)" "r = 0 \<longrightarrow> \<not> sl_incompelte (the (slayer l))"
    "grows st3 st5" "g_root_dir st5 = g_root_dir st" by blast
  have vid: "v_id l = x" using arg_cong [OF f(9), of sl_id] by (simp add: v_id_def norm_def fresh_slayer_def)
  have fresh: "\<forall>k \<in> set (view st). v_id k \<noteq> v_id (content l)" using not_found_id [OF nf] vid by auto
  show ?thesis
  proof (cases "r = 0")
    case True
    let ?l = "l\<lparr>hold_refs_num := wrap32 (hold_refs_num l + 1)\<rparr>"
    note h = hold_more_run [OF f(5,8), of 1]
    have "view (put_layer ?a ?l st5) = v_set (content ?l) (view st @ [content l])"
      using view_touch [OF _ f(4) h(2)] f(3,6) by (simp add: store_ok_def)
    also have "\<dots> = view st @ [content ?l]" using fresh by (intro v_set_new) (auto simp: v_id_def)
    finally have "view (put_layer ?a ?l st5) = view st @ [content ?l]" .
    moreover have "is_new e x opts (content ?l)" using True f(7-10) by (auto simp: is_new_def wrap32_def)
    ultimately show ?thesis using True f(1,2) h(1) touch_ok [OF h(2) f(3)] by (auto simp: finish_create_def holding_def)
  next
    case False
    from unindexed [OF f(3) b(2) f(4,5)] obtain st6 where u: "remove_memory_stores (Some x) st5 = Some (0, st6)" "store_ok st6 ?held"
      "view st6 = v_del (content l) (view st5)" "effects st6 = effects st5" "g_root_dir st6 = g_root_dir st5" unfolding vid by blast
    have "finish_create e x diff st3 = Some (r, None, Some ?a, driver_remove e x st6)"
      using False f(1,2) u(1) by (simp add: finish_create_def)
    moreover have "view st6 = view st" using u(3) f(6) v_del_new [OF fresh] by simp
    moreover have "grows st3 st6" using grows_same [OF _ f(11)] u(4) by simp
    ultimately show ?thesis using False u(2,5) f(12) logged_ok [OF driver_remove_logged] by (auto simp: holding_def)
  qed
qed

lemma create_made:
  assumes ok: "store_ok st2 held" "bounded held 4" "v_find (Some x) (view st) = None" "layers st2 (lv_addr e) = None"
    and d: "logged st st2" "effects st2 = effects st @ [(Drv_Create x (lo_parent opts) (lo_writable opts), 0)]"
      "lv_ret e (Drv_Create x (lo_parent opts) (lo_writable opts)) = 0"
    and n: "made e x opts st2 0 st3"
  shows "\<exists>r i st'. finish_create e x diff st3 = Some (r, i, Some (lv_addr e), st') \<and>
    store_ok st' (holding (Some (lv_addr e)) held) \<and> created e (Some x) opts st r i st'"
proof -
  have v: "view st2 = view st" "g_root_dir st2 = g_root_dir st" using logged_ok [OF d(1)] d(1) by (auto simp: logged_def)
  from finish_create_run [OF ok(1,2) _ ok(4) n, of diff] ok(3) obtain r i st' where
    f: "finish_create e x diff st3 = Some (r, i, Some (lv_addr e), st')" "store_ok st' (holding (Some (lv_addr e)) held)"
      "if r = 0 then i = Some x \<and> (\<exists>l. view st' = view st @ [l] \<and> is_new e x opts l)
       else i = None \<and> view st' = view st \<and> (\<exists>st6. grows st3 st6 \<and> g_root_dir st6 = g_root_dir st \<and> st' = driver_remove e x st6)"
    unfolding v by blast
  have nm: "names_free opts (view st)" using names_free_made [OF made_ok(8) [OF n ok(1,4)]] v(1) by simp
  have "created e (Some x) opts st r i st'"
  proof (cases "r = 0")
    case True
    then show ?thesis using f(3) nm by (auto simp: created_def)
  next
    case False
    then obtain st6 where g: "grows st3 st6" "g_root_dir st6 = g_root_dir st" "st' = driver_remove e x st6" using f(3) by auto
    have "rolled_back e (Some x) opts st st'"
      unfolding g(3) by (rule undone [OF d(1,2,3) grows_trans [OF grows_made [OF n] g(1)] g(2)])
    then show ?thesis using False f(3) by (simp add: created_def)
  qed
  then show ?thesis using f(1,2) by blast
qed

lemma create_new:
  assumes "store_ok st held" and "bounded held 4" and "find_addr p st = None" and "layers st (lv_addr e) = None"
  shows "\<exists>r i la st'. create_section e p opts diff st = Some (r, i, la, st') \<and> store_ok st' (holding la held) \<and>
    created e p opts st r i st'"
proof -
  have b: "bounded held 2" using bounded_le [OF assms(2), of 2] by simp
  note nl = no_layer [OF assms(1) b assms(3)]
  let ?dc = "driver_create_layer e p (lo_parent opts) (lo_writable opts) (lo_opts opts) st"
  from driver_create_cases [of e p "lo_parent opts" "lo_writable opts" "lo_opts opts" st] show ?thesis
  proof
    assume "?dc = (-1, st)"
    then have "create_section e p opts diff st = Some (-1, None, None, st)" using nl(2) by (simp add: create_section_def)
    then show ?thesis using assms(1) by (auto simp: holding_def created_def rolled_back_def)
  next
    assume "\<exists>x. p = Some x \<and> ?dc = ext e (Drv_Create x (lo_parent opts) (lo_writable opts)) st"
    then obtain x where p: "p = Some x" and dc: "?dc = ext e (Drv_Create x (lo_parent opts) (lo_writable opts)) st" by blast
    define c where "c = Drv_Create x (lo_parent opts) (lo_writable opts)"
    define st2 where "st2 = snd (ext e c st)"
    have d: "?dc = (lv_ret e c, st2)" "effects st2 = effects st @ [(c, lv_ret e c)]" "logged st st2"
      using logged_ext [OF logged_refl, of st e c] by (simp_all add: dc c_def st2_def ext_def)
    have st2: "store_ok st2 held" "layers st2 (lv_addr e) = None" "view st2 = view st" "g_root_dir st2 = g_root_dir st"
      using logged_ok [OF d(3)] assms(1,4) by (simp_all add: st2_def ext_def)
    have cs: "create_section e p opts diff st = (if lv_ret e c \<noteq> 0 then Some (lv_ret e c, None, None, st2)
       else do {
         (r, st3) \<leftarrow> new_layer_by_opts e x opts st2;
         if r \<noteq> 0 then Some (r, None, None, driver_remove e x st3) else finish_create e x diff st3
       })" using nl(2) p d(1) by (simp add: create_section_def finish_create_def cong: if_cong)
    from new_layer_run [OF st2(1,2), of x opts] obtain r3 st3 where n: "new_layer_by_opts e x opts st2 = Some (r3, st3)"
      "made e x opts st2 r3 st3" by blast
    consider "lv_ret e c \<noteq> 0" | "lv_ret e c = 0" "r3 \<noteq> 0" | "lv_ret e c = 0" "r3 = 0" by blast
    then show ?thesis
    proof cases
      case 1
      then show ?thesis using cs p st2(1,3) d(2) by (auto simp: holding_def created_def rolled_back_def c_def Let_def)
    next
      case 2
      then have un: "unchanged st2 st3" using n(2) by (simp add: made_def)
      have "rolled_back e (Some x) opts st (driver_remove e x st3)"
        using undone [OF d(3), of x opts e st3] d(2) 2 grows_made [OF n(2)] un st2(4) by (simp add: c_def unchanged_def)
      then show ?thesis using cs 2 p n(1) st2(1,3) unchanged_ok [OF un] logged_ok [OF driver_remove_logged]
        by (auto simp: holding_def created_def)
    next
      case 3
      then show ?thesis using create_made [OF st2(1) assms(2) _ st2(2) d(3), of x opts st3 diff] cs n p nl(1) d(2) by (auto simp: c_def)
    qed
  qed
qed

lemma create_old:
  assumes "store_ok st held" and "bounded held 2" and "find_addr p st = Some a" and "lv_mem e M_Lock"
  shows "\<exists>st'. layer_store_create e p (Some opts) diff st = Some (0, None, st') \<and> store_ok st' held \<and>
    create_spec e p (Some opts) (view st) 0 None (view st')"
proof -
  let ?f = "\<lambda>st. do { st2 \<leftarrow> hold_more a 1 st; Some ((), st2) }"
  let ?R = "\<lambda>l (_ :: unit) l'. l' = l\<lparr>hold_refs_num := wrap32 (hold_refs_num l + 1)\<rparr>"
  have "\<exists>l st1 r st2 l' st3. v_find p (view st) = Some l \<and> lookup p st = Some (Some a, st1) \<and> ?f st1 = Some (r, st2) \<and>
    layer_ref_dec (Some a) st2 = Some st3 \<and> store_ok st3 held \<and> ?R l r l' \<and> view st3 = v_set l' (view st)"
  proof (rule with_ref [OF assms(1-3)])
    fix st1 :: lstore and l :: layer_t and s
    assume l: "layers st1 a = Some l" "slayer l = Some s"
    then show "\<exists>r l' st2. ?f st1 = Some (r, st2) \<and> touch a st1 st2 \<and> layers st2 a = Some l' \<and> ?R (content l) r (content l')"
      using hold_more_run [OF l(1), of 1] by (simp add: content_def)
  qed
  then obtain l st1 st2 st3 where w: "v_find p (view st) = Some l" "lookup p st = Some (Some a, st1)" "hold_more a 1 st1 = Some st2"
    "layer_ref_dec (Some a) st2 = Some st3" "store_ok st3 held"
    "view st3 = v_set (l\<lparr>hold_refs_num := wrap32 (hold_refs_num l + 1)\<rparr>) (view st)" by (auto simp: bind_eq_Some_conv)
  have "layer_store_create e p (Some opts) diff st = Some (0, None, st3)"
    using assms(4) w(2-4) by (simp add: layer_store_create_def create_section_def)
  then show ?thesis using assms(4) w(1,5,6) by (simp add: create_spec_def)
qed

lemma drop_holding:
  assumes "store_ok st (holding la held)" and "bounded held 2"
  shows "\<exists>st'. layer_ref_dec la st = Some st' \<and> store_ok st' held \<and> view st' = view st \<and> effects st' = effects st"
proof (cases la)
  case None
  then show ?thesis using assms(1) by (simp add: layer_ref_dec_def holding_def)
next
  case (Some a)
  then have ok: "store_ok st (held(a := held a + 1))" using assms(1) by (simp add: holding_def)
  have "bounded (held(a := held a + 1)) 1" using assms(2) bounded_upd [of held 1] by (simp add: numeral_2_eq_2)
  from dec_ok [OF ok _ this, of a] obtain st' where "layer_ref_dec (Some a) st = Some st'" "store_ok st' held" "view st' = view st"
    "heap_only st st'" unfolding held_back by auto
  moreover from this(4) have "effects st' = effects st" unfolding heap_only_def by (metis layer_store_metadata.ext_inject layer_store_metadata.surjective layer_store_metadata.update_convs(1))
  ultimately show ?thesis using Some by blast
qed

lemma create_absent:
  assumes "store_ok st held" and "bounded held 4" and "find_addr p st = None" and "layers st (lv_addr e) = None" and "lv_mem e M_Lock"
  shows "\<exists>r i st'. layer_store_create e p (Some opts) diff st = Some (r, i, st') \<and> store_ok st' held \<and> created e p opts st r i st'"
proof -
  from create_new [OF assms(1-4), of opts diff] obtain r i la st1 where c: "create_section e p opts diff st = Some (r, i, la, st1)"
    "store_ok st1 (holding la held)" "created e p opts st r i st1" by blast
  from drop_holding [OF c(2)] bounded_le [OF assms(2), of 2] obtain st2 where d: "layer_ref_dec la st1 = Some st2"
    "store_ok st2 held" "view st2 = view st1" "effects st2 = effects st1" by auto
  have "rolled_back e p opts st st2 = rolled_back e p opts st st1" using d(4) by (simp add: rolled_back_def)
  then have "created e p opts st r i st2" using c(3) d(3) unfolding created_def by presburger
  then show ?thesis using assms(5) c(1) d(1,2) by (simp add: layer_store_create_def)
qed

lemma create_step:
  assumes "store_ok st held" and "bounded held 4" and "layers st (lv_addr e) = None"
  shows "\<exists>r i st'. layer_store_create e p opts diff st = Some (r, i, st') \<and> store_ok st' held \<and>
    create_spec e p opts (view st) r i (view st')"
proof (cases "opts = None \<or> \<not> lv_mem e M_Lock")
  case True
  then show ?thesis using assms(1) by (auto simp: layer_store_create_def create_spec_def split: option.splits)
next
  case False
  then obtain o1 where o: "opts = Some o1" and lk: "lv_mem e M_Lock" by auto
  have b: "bounded held 2" using bounded_le [OF assms(2), of 2] by simp
  show ?thesis
  proof (cases "find_addr p st")
    case None
    from create_absent [OF assms(1,2) None assms(3) lk, of o1 diff] obtain r i st' where
      "layer_store_create e p (Some o1) diff st = Some (r, i, st')" "store_ok st' held" "created e p o1 st r i st'" by blast
    then show ?thesis using o lk no_layer(1) [OF assms(1) b None] by (auto simp: create_spec_def created_def names_free_def split: if_splits)
  next
    case (Some a)
    then show ?thesis using create_old [OF assms(1) b Some lk, of o1 diff] o by blast
  qed
qed

section \<open>Every sequence of calls\<close>

lemma layer_step_ok:
  assumes "store_ok st held" and "bounded held 4" and "op_fresh op st"
  shows "\<exists>r st'. layer_step op st = Some (r, st') \<and> store_ok st' held \<and> spec op (view st) r (view st')"
proof -
  have b: "bounded held 2" using bounded_le [OF assms(2), of 2] by simp
  show ?thesis
  proof (cases op)
    case (LCreate e p opts diff)
    then show ?thesis using assms(3) create_step [OF assms(1,2), of e p opts diff] by auto
  next
    case (LDelete e p)
    then show ?thesis using delete_step [OF assms(1,2), of e p] by auto
  next
    case (LHold e p inc)
    then show ?thesis using hold_step [OF assms(1), of e p inc]
      by (auto simp: layer_inc_hold_refs_def layer_dec_hold_refs_def split: if_splits)
  next
    case (LGetHold e p)
    then show ?thesis using assms(1) get_hold_step [OF assms(1), of e p] by auto
  next
    case (LMount e p)
    then show ?thesis using mount_step [OF assms(1) b, of e p] by auto
  next
    case (LUmount e p force)
    then show ?thesis using umount_step [OF assms(1) b, of e p force] by auto
  next
    case (LLookup e p)
    then show ?thesis using assms(1) lookup_step [OF assms(1) b, of e p] by auto
  next
    case (LList e)
    then show ?thesis using assms(1) list_step [OF assms(1), of e] by auto
  next
    case (LByDigest e p)
    then show ?thesis using assms(1) digest_step [OF assms(1) b, of e p] by auto
  qed
qed

lemma new_store_ok: "store_ok (new_store run rdir) (\<lambda>_. 0)" "bounded (\<lambda>_. 0) 4"
  by (simp_all add: store_ok_def indexed_def refs_ok_def new_store_def entries_of_def entries_ok_def indexes_def listed_def
      ref_at_def bounded_def id_index_def name_index_def digest_index_def digest_of_def ids_with_def smap_search_def fun_eq_iff)

text \<open>C7. Any sequence of calls of the layer store, each with its own failures of memory, lock, driver and file
  system, runs to its end on a store that satisfies the invariant with the references \<open>held\<close> by clients: no call
  uses a freed layer.  The results and the visible list of layers are related as the specification of
  each call says (a failed creation leaves the list as it was; a repeated one only counts; a deletion removes
  exactly the layer found; mounts count up and down), and the invariant holds again with the same references held.
  The addresses the allocator hands to creations are free, and the counters have room for four more references.\<close>

theorem layer_store_refines:
  assumes "store_ok st held" and "bounded held 4" and "allocs_fresh ops st"
  shows "\<exists>rs st'. layer_run ops st = Some (rs, st') \<and> store_ok st' held \<and> spec_run ops (view st) rs (view st')"
  using assms(1,3)
proof (induction ops arbitrary: st)
  case Nil
  then show ?case by simp
next
  case (Cons op ops)
  obtain r st1 where r: "layer_step op st = Some (r, st1)" "store_ok st1 held" "spec op (view st) r (view st1)"
    using layer_step_ok [OF Cons.prems(1) assms(2), of op] Cons.prems(2) by auto
  then obtain rs st2 where "layer_run ops st1 = Some (rs, st2)" "store_ok st2 held" "spec_run ops (view st1) rs (view st2)"
    using Cons.IH [of st1] Cons.prems(2) by auto
  then show ?case using r by auto
qed

definition calm_env :: "layer_env" where
  "calm_env = \<lparr>lv_mem = (\<lambda>_. True), lv_ret = (\<lambda>_. 0), lv_exists = (\<lambda>_. True), lv_in_driver = (\<lambda>_. True), lv_addr = 7,
     lv_now = ''now'', lv_size = 10, lv_merged = None, lv_mount = ''/merged''\<rparr>"

definition plain_opts :: "layer_opts" where
  "plain_opts = \<lparr>lo_parent = None, lo_names = [''base''], lo_writable = True, lo_uncompressed_digest = None,
     lo_compressed_digest = Some ''d1'', lo_opts = None\<rparr>"

theorem layer_store_refines_witness:
  "let ops = [LCreate calm_env (Some ''l1'') (Some plain_opts) True, LMount calm_env (Some ''base''), LDelete calm_env (Some ''l1'')];
       st = new_store ''/run'' ''/root''
   in store_ok st (\<lambda>_. 0) \<and> bounded (\<lambda>_. 0) 4 \<and> allocs_fresh ops st \<and>
      (\<exists>rs st'. layer_run ops st = Some (rs, st') \<and> store_ok st' (\<lambda>_. 0) \<and> spec_run ops (view st) rs (view st'))"
proof -
  let ?st = "new_store ''/run'' ''/root''"
  have "allocs_fresh [LCreate calm_env (Some ''l1'') (Some plain_opts) True, LMount calm_env (Some ''base''), LDelete calm_env (Some ''l1'')] ?st"
    by (simp add: new_store_def split: option.splits)
  with layer_store_refines [OF new_store_ok this] new_store_ok show ?thesis unfolding Let_def by blast
qed



end
