(* ===== verification/Layer_Threads.thy ===== *)
theory Layer_Threads
  imports Layer_Spec
begin

text \<open>
  The layer store used by many threads at once. Creation, deletion, holds and listings run under the store's lock, each
  as one step; \<^verbatim>\<open>layer_store_mount\<close>, \<^verbatim>\<open>layer_store_umount\<close> and \<^verbatim>\<open>layer_store_lookup\<close> take a reference under the lock, work on the
  layer without it (under the layer's own lock, or only reading) and drop the reference at the end, and a
  creation drops its reference after it has released the lock. In between other threads may do
  anything, delete the very layer included. A state is the store with the list of the references that are in
  the hands of threads.
\<close>

section \<open>Interleaved sections\<close>

type_synonym shared = "lstore \<times> addr list"

text \<open>There are fewer than \<open>2 ^ 64 - 8\<close> references in flight: each belongs to a thread.\<close>

definition room :: "addr list \<Rightarrow> bool" where
  "room hs \<longleftrightarrow> length hs + 8 < 2 ^ 64"

inductive lstep :: "shared \<Rightarrow> shared \<Rightarrow> bool" where
  ls_take: "room hs \<Longrightarrow> lookup_with_lock e p st = Some (la, st') \<Longrightarrow>
     lstep (st, hs) (st', case la of None \<Rightarrow> hs | Some a \<Rightarrow> a # hs)"
| ls_mount: "a \<in> set hs \<Longrightarrow> mount_helper e a st = Some (r, st') \<Longrightarrow> lstep (st, hs) (st', hs)"
| ls_umount: "a \<in> set hs \<Longrightarrow> umount_helper e a force st = Some (n, st') \<Longrightarrow> lstep (st, hs) (st', hs)"
| ls_drop: "a \<in> set hs \<Longrightarrow> layer_ref_dec (Some a) st = Some st' \<Longrightarrow> lstep (st, hs) (st', remove1 a hs)"
| ls_create: "room hs \<Longrightarrow> layers st (lv_addr e) = None \<Longrightarrow> create_section e p opts diff st = Some (n, i, la, st') \<Longrightarrow>
     lstep (st, hs) (st', case la of None \<Rightarrow> hs | Some a \<Rightarrow> a # hs)"
| ls_delete: "room hs \<Longrightarrow> layer_store_delete e p st = Some (n, st') \<Longrightarrow> lstep (st, hs) (st', hs)"
| ls_hold: "layer_set_hold_refs e p inc st = Some (n, st') \<Longrightarrow> lstep (st, hs) (st', hs)"
| ls_by_digest: "room hs \<Longrightarrow> layer_store_by_compress_digest e p st = Some (n, ls, st') \<Longrightarrow> lstep (st, hs) (st', hs)"

inductive ls_reach :: "shared \<Rightarrow> shared \<Rightarrow> bool" for y0 where
  ls_here: "ls_reach y0 y0"
| ls_further: "ls_reach y0 y \<Longrightarrow> lstep y y' \<Longrightarrow> ls_reach y0 y'"

section \<open>The invariant\<close>

definition shared_ok :: "shared \<Rightarrow> bool" where
  "shared_ok y \<longleftrightarrow> store_ok (fst y) (count_list (snd y)) \<and> length (snd y) + 7 < 2 ^ 64"

lemma count_take: "count_list (a # hs) = (count_list hs)(a := count_list hs a + 1)"
  by auto

lemma count_drop: "count_list (remove1 a hs) = (count_list hs)(a := count_list hs a - 1)"
  by (induction hs) (auto simp: fun_eq_iff)

lemma count_hand: "a \<in> set hs \<longleftrightarrow> 0 < count_list hs a"
  by (induction hs) auto

lemma room_bounded: "room hs \<Longrightarrow> n \<le> 8 \<Longrightarrow> bounded (count_list hs) n"
  unfolding room_def bounded_def by (metis add.commute add_le_mono count_le_length le_less_trans)

lemma hands_bounded: "shared_ok (st, hs) \<Longrightarrow> bounded (count_list hs) 1"
proof -
  assume "shared_ok (st, hs)"
  then have "length hs + 1 < 2 ^ 64" by (simp add: shared_ok_def)
  then have "count_list hs a + 1 < 2 ^ 64" for a using count_le_length [of hs a] by linarith
  then show ?thesis unfolding bounded_def by blast
qed

lemma holding_count: "holding la (count_list hs) = count_list (case la of None \<Rightarrow> hs | Some a \<Rightarrow> a # hs)"
  by (auto simp: holding_def count_take split: option.split)

text \<open>A layer in the hands of a thread is alive, whether it is still listed or not.\<close>

lemma hand_alive:
  assumes "store_ok st (count_list hs)" and "a \<in> set hs"
  obtains l s where "layers st a = Some l" "slayer l = Some s"
proof -
  have "ref_at (layers st a) (count_list hs a + listed st a)" using assms(1) by (simp add: store_ok_def refs_ok_def)
  then show ?thesis using that assms(2) by (auto simp: ref_at_def count_hand split: option.splits)
qed

lemma take_run:
  assumes "store_ok st (count_list hs)" and "room hs"
  shows "\<exists>la st'. lookup_with_lock e p st = Some (la, st') \<and> store_ok st' (holding la (count_list hs))"
proof (cases "lv_mem e M_Lock")
  case False
  then show ?thesis using assms(1) by (simp add: lookup_with_lock_def holding_def)
next
  case True
  from lookup_ok [OF assms(1) room_bounded [OF assms(2)], of p] show ?thesis
    using True assms(1) by (cases "find_addr p st") (auto simp: lookup_with_lock_def holding_def)
qed

lemma create_run:
  assumes "store_ok st (count_list hs)" and "room hs" and "layers st (lv_addr e) = None"
  shows "\<exists>n i la st'. create_section e p opts diff st = Some (n, i, la, st') \<and> store_ok st' (holding la (count_list hs))"
proof (cases "find_addr p st")
  case None
  then show ?thesis using create_new [OF assms(1) room_bounded [OF assms(2)] None assms(3), of opts diff] by auto
next
  case (Some a)
  from lookup_ok [OF assms(1) room_bounded [OF assms(2)], of p] Some obtain l where
    l: "lookup p st = Some (Some a, put_layer a (l\<lparr>l_refcnt := l_refcnt l + 1\<rparr>) st)"
      "store_ok (put_layer a (l\<lparr>l_refcnt := l_refcnt l + 1\<rparr>) st) (holding (Some a) (count_list hs))"
    by (auto simp: holding_def)
  then have ok: "store_ok (put_layer a (l\<lparr>l_refcnt := l_refcnt l + 1\<rparr>) st) (count_list (a # hs))" by (simp add: holding_count)
  obtain l' s where l': "layers (put_layer a (l\<lparr>l_refcnt := l_refcnt l + 1\<rparr>) st) a = Some l'" "slayer l' = Some s"
    using hand_alive [OF ok, of a] by auto
  from hold_more_run [OF l'(1), of 1] l'(2) touch_ok [OF _ ok] obtain st' where
    "hold_more a 1 (put_layer a (l\<lparr>l_refcnt := l_refcnt l + 1\<rparr>) st) = Some st'" "store_ok st' (count_list (a # hs))" by auto
  then have "create_section e p opts diff st = Some (0, None, Some a, st')" "store_ok st' (holding (Some a) (count_list hs))"
    using l(1) by (simp_all add: create_section_def holding_count)
  then show ?thesis by blast
qed

lemma lstep_ok:
  assumes "lstep y y'" and "shared_ok y"
  shows "shared_ok y'"
  using assms
proof (cases rule: lstep.cases)
  case (ls_take hs e p st la st')
  then show ?thesis using assms(2) take_run [of st hs e p] by (auto simp: shared_ok_def holding_count room_def split: option.splits)
next
  case (ls_mount a hs e st r st')
  then obtain l s where "layers st a = Some l" "slayer l = Some s" using assms(2) hand_alive [of st hs a] by (auto simp: shared_ok_def)
  from mount_helper_run [OF this, of e] ls_mount(4) have "touch a st st'" by auto
  then show ?thesis using ls_mount assms(2) touch_ok [of a st st'] by (simp add: shared_ok_def)
next
  case (ls_umount a hs e force st n st')
  then obtain l s where "layers st a = Some l" "slayer l = Some s" using assms(2) hand_alive [of st hs a] by (auto simp: shared_ok_def)
  from umount_helper_run [OF this, of e force] ls_umount(4) have "touch a st st'" by auto
  then show ?thesis using ls_umount assms(2) touch_ok [of a st st'] by (simp add: shared_ok_def)
next
  case (ls_drop a hs st st')
  from dec_ok [of st "count_list hs" a] ls_drop assms(2) hands_bounded [of st hs] have
    "store_ok st' (count_list (remove1 a hs))" unfolding count_drop by (auto simp: shared_ok_def count_hand)
  then show ?thesis using ls_drop assms(2) by (auto simp: shared_ok_def length_remove1)
next
  case (ls_create hs st e p opts diff n i la st')
  then show ?thesis using assms(2) create_run [of st hs e p opts diff] by (auto simp: shared_ok_def holding_count room_def split: option.splits)
next
  case (ls_delete hs e p st n st')
  then show ?thesis using assms(2) delete_step [of st "count_list hs" e p] room_bounded [of hs 4] by (simp add: shared_ok_def)
next
  case (ls_hold e p inc st n st' hs)
  then show ?thesis using assms(2) hold_step [of st "count_list hs" e p inc] by (simp add: shared_ok_def)
next
  case (ls_by_digest hs e p st n ls st')
  then show ?thesis using assms(2) digest_step [of st "count_list hs" e p] room_bounded [of hs 2] by (simp add: shared_ok_def)
qed

lemma reach_ok: "ls_reach y0 y \<Longrightarrow> shared_ok y0 \<Longrightarrow> shared_ok y"
  by (induction rule: ls_reach.induct) (auto intro: lstep_ok)

lemma start_ok: "store_ok st (\<lambda>_. 0) \<Longrightarrow> shared_ok (st, [])"
proof -
  assume "store_ok st (\<lambda>_. 0)"
  moreover have "count_list [] = (\<lambda>_ :: addr. 0)" by (simp add: fun_eq_iff)
  ultimately show ?thesis by (simp add: shared_ok_def)
qed

lemma hand_runs:
  assumes "shared_ok (st, hs)" and "a \<in> set hs"
  shows "layers st a \<noteq> None" "mount_helper e a st \<noteq> None" "umount_helper e a force st \<noteq> None" "layer_ref_dec (Some a) st \<noteq> None"
proof -
  have ok: "store_ok st (count_list hs)" using assms(1) by (simp add: shared_ok_def)
  obtain l s where l: "layers st a = Some l" "slayer l = Some s" using hand_alive [OF ok assms(2)] .
  show "layers st a \<noteq> None" using l(1) by simp
  show "mount_helper e a st \<noteq> None" using mount_helper_run [OF l, of e] by auto
  show "umount_helper e a force st \<noteq> None" using umount_helper_run [OF l, of e force] by auto
  show "layer_ref_dec (Some a) st \<noteq> None"
    using dec_ok [OF ok _ hands_bounded [OF assms(1)], of a] assms(2) by (auto simp: count_hand)
qed

lemma section_runs:
  assumes "store_ok st (count_list hs)" and "room hs"
  shows "lookup_with_lock e p st \<noteq> None" "layer_store_delete e p st \<noteq> None" "layer_store_by_compress_digest e p st \<noteq> None"
    "layers st (lv_addr e) = None \<Longrightarrow> create_section e p opts diff st \<noteq> None"
  using take_run [OF assms, of e p] delete_step [OF assms(1) room_bounded [OF assms(2)], of e p]
    digest_step [OF assms(1) room_bounded [OF assms(2)], of e p] create_run [OF assms, of e p opts diff] by auto

lemma no_leak:
  assumes "store_ok st (count_list hs)"
  shows "layers st a \<noteq> None \<longleftrightarrow> a \<in> set hs \<or> a \<in> set (layers_list st)"
proof -
  have "ref_at (layers st a) (count_list hs a + listed st a)" using assms by (simp add: store_ok_def refs_ok_def)
  then show ?thesis by (auto simp: ref_at_def count_hand listed_def split: option.splits if_splits)
qed

text \<open>C8. However the sections of the layer store's calls are interleaved by threads, no layer is used after it was freed:
  in every state that can be reached, a thread that holds a reference finds its layer alive, even if another thread
  has deleted it from the store meanwhile, and can mount it, unmount it and drop the reference; every section
  under the store's lock returns, whatever fails in it; and a layer is in memory exactly when it is listed
  or in the hands of a thread, so that none leaks.\<close>

theorem layer_threads_safe:
  assumes "store_ok st0 (\<lambda>_. 0)" and "ls_reach (st0, []) (st, hs)"
  shows "(\<forall>a \<in> set hs. layers st a \<noteq> None \<and> mount_helper e a st \<noteq> None \<and> umount_helper e a force st \<noteq> None \<and>
      layer_ref_dec (Some a) st \<noteq> None) \<and>
    (room hs \<longrightarrow> lookup_with_lock e p st \<noteq> None \<and> layer_store_delete e p st \<noteq> None \<and>
      layer_store_by_compress_digest e p st \<noteq> None \<and>
      (layers st (lv_addr e) = None \<longrightarrow> create_section e p opts diff st \<noteq> None)) \<and>
    layer_set_hold_refs e p inc st \<noteq> None \<and> layer_store_list e st \<noteq> None \<and>
    (\<forall>a. layers st a \<noteq> None \<longleftrightarrow> a \<in> set hs \<or> a \<in> set (layers_list st))"
proof -
  have sh: "shared_ok (st, hs)" by (rule reach_ok [OF assms(2) start_ok [OF assms(1)]])
  then have ok: "store_ok st (count_list hs)" by (simp add: shared_ok_def)
  have "layer_set_hold_refs e p inc st \<noteq> None" using hold_step [OF ok, of e p inc] by auto
  moreover have "layer_store_list e st \<noteq> None" using list_step [OF ok, of e] by auto
  ultimately show ?thesis using hand_runs [OF sh] section_runs [OF ok] no_leak [OF ok] by blast
qed

text \<open>A thread takes a reference, another one deletes the layer, and the first still holds it.\<close>

definition busy_store :: lstore where
  "busy_store = (new_store ''/run'' ''/root'')\<lparr>layers := [1 \<mapsto> empty_layer\<lparr>slayer := Some \<lparr>sl_id = ''a'', sl_parent = None,
       sl_writable = False, sl_mountlabel = None, sl_created = None, sl_names = [], sl_diff_digest = None,
       sl_compressed_diff_digest = None, sl_diff_size = 0, sl_compressed_size = 0, sl_incompelte = False\<rparr>\<rparr>],
     by_id := [(''a'', 1)], layers_list := [1], layers_list_len := 1\<rparr>"

lemma busy_ok: "store_ok busy_store (\<lambda>_. 0)"
  by (auto simp: busy_store_def new_store_def store_ok_def indexed_def refs_ok_def entries_of_def slayer_at_def
      norm_def entries_ok_def indexes_def id_index_def name_index_def digest_index_def digest_of_def ids_with_def listed_def
      ref_at_def smap_search_def name_pairs_def empty_layer_def fun_eq_iff)

theorem layer_threads_safe_witness:
  "\<exists>st hs. store_ok busy_store (\<lambda>_. 0) \<and> ls_reach (busy_store, []) (st, hs) \<and> 1 \<in> set hs \<and> 1 \<notin> set (layers_list st) \<and>
     layers st 1 \<noteq> None \<and> mount_helper calm_env 1 st \<noteq> None"
proof -
  have sh: "shared_ok (busy_store, [])" by (rule start_ok [OF busy_ok])
  then have ok: "store_ok busy_store (count_list [])" by (simp add: shared_ok_def)
  have fa: "find_addr (Some ''a'') busy_store = Some 1" by (simp add: find_addr_def busy_store_def smap_search_def)
  have rm: "room []" "room [1]" by (simp_all add: room_def)
  obtain st1 where t: "lookup_with_lock calm_env (Some ''a'') busy_store = Some (Some 1, st1)" "layers_list st1 = [1]"
    "view st1 = view busy_store"
    using lookup_ok [OF ok room_bounded [OF rm(1)], of "Some ''a''"] fa
    by (auto simp: lookup_with_lock_def calm_env_def busy_store_def new_store_def)
  have r1: "ls_reach (busy_store, []) (st1, [1])" using ls_further [OF ls_here ls_take [OF rm(1) t(1)]] by simp
  then have ok1: "store_ok st1 (count_list [1])" using reach_ok [OF r1 sh] by (simp add: shared_ok_def)
  from delete_step [OF ok1 room_bounded [OF rm(2)], of calm_env "Some ''a''"] obtain n st2 where
    d: "layer_store_delete calm_env (Some ''a'') st1 = Some (n, st2)" "delete_spec calm_env (Some ''a'') (view st1) n (view st2)" by auto
  have "view st2 = []" using d(2) t(3)
    by (simp add: delete_spec_def calm_env_def busy_store_def new_store_def view_def v_find_def v_id_def v_del_def)
  then have nl: "layers_list st2 = []" by (simp add: view_def)
  have r2: "ls_reach (busy_store, []) (st2, [1])" by (rule ls_further [OF r1 ls_delete [OF rm(2) d(1)]])
  have "\<forall>a \<in> set [1]. layers st2 a \<noteq> None \<and> mount_helper calm_env a st2 \<noteq> None \<and> umount_helper calm_env a True st2 \<noteq> None \<and>
      layer_ref_dec (Some a) st2 \<noteq> None"
    by (rule conjunct1 [OF layer_threads_safe [OF busy_ok r2, of calm_env True None undefined True True]])
  then show ?thesis using busy_ok r2 nl by (intro exI [of _ st2] exI [of _ "[1]"]) simp
qed

end
