(* ===== verification/Storage.thy ===== *)
theory Storage
  imports Layer_Spec Utils_Verify
begin

text \<open>
  The storage module, \<^verbatim>\<open>src/daemon/modules/image/oci/storage/storage.c\<close>: what it does with layers when images and
  container root file systems come and go. The layer store is the one of \<open>Layer_Store\<close>; the image store and
  the store of root file systems are known by their answers, fields of \<open>storage_env\<close>, and the calls that
  change them are logged with their results. The layer store is used through the contract \<open>layer_service\<close>
  alone, which the calls of \<open>Layer_Store\<close> are shown to satisfy.
\<close>

section \<open>The interface to the other stores\<close>

record image_info =
  im_id :: string
  im_top_layer :: "string option"
  im_size :: nat

record rootfs_info =
  rf_id :: string
  rf_image :: string
  rf_layer :: "string option"

datatype store_call =
    Img_Create string
  | Img_Delete string
  | Img_Set_Size string int
  | Rootfs_Create string string
  | Rootfs_Delete string

datatype store_site = S_Images | S_Layers | S_Rootfs | S_Opts | S_Mount_Opts | S_Storage_Opts | S_Dup | S_Reader | S_Fd

text \<open>
  The image store answers whether a name is known (\<^verbatim>\<open>image_store_exists\<close>), its summary, its full id
  (\<^verbatim>\<open>image_store_lookup\<close>), its top layer, the sizes of its big data and the list of all images (\<open>se_images\<close>; images
  without a readable summary are missing there). The layer store calls get an environment of their own per layer: \<open>se_hold\<close> to read the hold count, \<open>se_find\<close> to
  look up, \<open>se_del\<close> to delete, \<open>se_new\<close> to create, \<open>se_list\<close> to list.
\<close>

record storage_env =
  se_lock :: bool
  se_mem :: "store_site \<Rightarrow> bool"
  se_open :: "string \<Rightarrow> bool"
  se_ret :: "store_call \<Rightarrow> int"
  se_normalize :: "string \<Rightarrow> string option"
  se_exists :: "string \<Rightarrow> bool"
  se_summary :: "string \<Rightarrow> image_info option"
  se_long_id :: "string \<Rightarrow> string option"
  se_top_layer :: "string \<Rightarrow> string option"
  se_images :: "image_info list option"
  se_rootfs :: "rootfs_info list option"
  se_big_names :: "string \<Rightarrow> string list option"
  se_big_size :: "string \<Rightarrow> string \<Rightarrow> int"
  se_has_rootfs :: "string \<Rightarrow> bool"
  se_get_rootfs :: "string \<Rightarrow> rootfs_info option"
  se_list :: layer_env
  se_hold :: "string \<Rightarrow> layer_env"
  se_find :: "string \<Rightarrow> layer_env"
  se_del :: "string \<Rightarrow> layer_env"
  se_new :: "string \<Rightarrow> layer_env"
  se_mnt :: "string \<Rightarrow> layer_env"

record storage =
  ss_layers :: lstore
  ss_calls :: "(store_call \<times> int) list"

definition call :: "storage_env \<Rightarrow> store_call \<Rightarrow> storage \<Rightarrow> int \<times> storage" where
  "call e c s = (se_ret e c, s\<lparr>ss_calls := ss_calls s @ [(c, se_ret e c)]\<rparr>)"

section \<open>Holding and creating layers\<close>

definition storage_inc_hold_refs :: "storage_env \<Rightarrow> string option \<Rightarrow> lstore \<Rightarrow> (int \<times> lstore) option" where
  "storage_inc_hold_refs e p st =
     (case p of
        None \<Rightarrow> Some (-1, st)
      | Some x \<Rightarrow> if \<not> se_lock e then Some (-1, st) else layer_inc_hold_refs (se_hold e x) p st)"

definition storage_dec_hold_refs :: "storage_env \<Rightarrow> string option \<Rightarrow> lstore \<Rightarrow> (int \<times> lstore) option" where
  "storage_dec_hold_refs e p st =
     (case p of
        None \<Rightarrow> Some (-1, st)
      | Some x \<Rightarrow> if \<not> se_lock e then Some (-1, st) else layer_dec_hold_refs (se_hold e x) p st)"

record storage_layer_create_opts =
  co_parent :: "string option"
  co_uncompress_digest :: "string option"
  co_compressed_digest :: "string option"
  co_layer_data_path :: "string option"
  co_writable :: bool
  co_storage_opts :: "(string \<times> string) list option"

definition fill_create_layer_opts :: "storage_env \<Rightarrow> storage_layer_create_opts \<Rightarrow> string option \<Rightarrow> layer_opts option" where
  "fill_create_layer_opts e c mount_label =
     (if \<not> se_mem e S_Opts then None
      else if \<not> se_mem e S_Mount_Opts then None
      else if co_storage_opts c \<noteq> None \<and> \<not> (se_mem e S_Storage_Opts \<and> se_mem e S_Dup) then None
      else Some \<lparr>lo_parent = co_parent c, lo_names = [], lo_writable = co_writable c,
             lo_uncompressed_digest = co_uncompress_digest c, lo_compressed_digest = co_compressed_digest c,
             lo_opts = Some \<lparr>lo_mount_label = mount_label, lo_mount_opts = co_storage_opts c\<rparr>\<rparr>)"

text \<open>Whether there is a reader; None when it cannot be made.\<close>

definition fill_read_wrapper :: "storage_env \<Rightarrow> string option \<Rightarrow> bool option" where
  "fill_read_wrapper e p =
     (case p of
        None \<Rightarrow> Some False
      | Some f \<Rightarrow> if \<not> se_mem e S_Reader \<or> \<not> se_mem e S_Fd \<or> \<not> se_open e f then None else Some True)"

definition storage_layer_create ::
  "storage_env \<Rightarrow> string \<Rightarrow> storage_layer_create_opts option \<Rightarrow> lstore \<Rightarrow> (int \<times> lstore) option" where
  "storage_layer_create e x copts st =
     (case copts of
        None \<Rightarrow> Some (-1, st)
      | Some c \<Rightarrow>
          if \<not> co_writable c \<and> co_layer_data_path c = None then Some (-1, st)
          else (case fill_read_wrapper e (co_layer_data_path c) of
              None \<Rightarrow> Some (-1, st)
            | Some reader \<Rightarrow>
                (case fill_create_layer_opts e c None of
                   None \<Rightarrow> Some (-1, st)
                 | Some opts \<Rightarrow>
                     if \<not> se_lock e then Some (-1, st)
                     else do {
                       (r, _, st1) \<leftarrow> layer_store_create (se_new e x) (Some x) (Some opts) reader st;
                       Some (if r \<noteq> 0 then -1 else 0, st1)
                     })))"

definition storage_layers_get_by_compress_digest ::
  "storage_env \<Rightarrow> string option \<Rightarrow> lstore \<Rightarrow> (layer list option \<times> lstore) option" where
  "storage_layers_get_by_compress_digest e p st =
     (if p = None then Some (None, st)
      else if \<not> se_mem e S_Layers then Some (None, st)
      else do {
        (r, ls, st1) \<leftarrow> layer_store_by_compress_digest (se_list e) p st;
        Some (if r \<noteq> 0 then None else Some ls, st1)
      })"

definition storage_broken_rw_layer_delete :: "storage_env \<Rightarrow> string option \<Rightarrow> lstore \<Rightarrow> (int \<times> lstore) option" where
  "storage_broken_rw_layer_delete e p st =
     (case p of
        None \<Rightarrow> Some (-1, st)
      | Some x \<Rightarrow> do {
          (info, st1) \<leftarrow> layer_store_lookup (se_find e x) (Some x) st;
          (case info of
             None \<Rightarrow> Some (-1, st1)
           | Some i \<Rightarrow>
               if \<not> li_writable i then Some (-1, st1)
               else do { (r, st2) \<leftarrow> layer_store_delete (se_del e x) (li_id i) st1; Some (if r \<noteq> 0 then -1 else 0, st2) })
        })"

section \<open>Deleting the layers of an image\<close>

fun is_top_layer_of_other_image :: "string \<Rightarrow> image_info list \<Rightarrow> string \<Rightarrow> bool option" where
  "is_top_layer_of_other_image img_id [] x = Some False"
| "is_top_layer_of_other_image img_id (i # all) x = do {
     t \<leftarrow> im_top_layer i;
     if t = x \<and> im_id i \<noteq> x then Some True else is_top_layer_of_other_image img_id all x
   }"

fun is_parent_layer_of_other_layer :: "string \<Rightarrow> string option \<Rightarrow> layer list \<Rightarrow> bool option" where
  "is_parent_layer_of_other_layer x last_deleted [] = Some False"
| "is_parent_layer_of_other_layer x last_deleted (l # ls) =
     (if li_parent l = Some x
      then (case last_deleted of
          None \<Rightarrow> Some True
        | Some d \<Rightarrow> do { i \<leftarrow> li_id l; if i \<noteq> d then Some True else is_parent_layer_of_other_layer x last_deleted ls })
      else is_parent_layer_of_other_layer x last_deleted ls)"

partial_function (option) delete_chain ::
  "storage_env \<Rightarrow> string \<Rightarrow> image_info list \<Rightarrow> layer list \<Rightarrow> string option \<Rightarrow> string option \<Rightarrow> lstore \<Rightarrow> (int \<times> lstore) option" where
  "delete_chain e img_id all_images all_layers layer_id last_deleted st =
     (case layer_id of
        None \<Rightarrow> Some (0, st)
      | Some x \<Rightarrow> do {
          (r, n) \<leftarrow> layer_get_hold_refs (se_hold e x) (Some x) st;
          if r \<noteq> 0 then Some (r, st)
          else do {
            refs_num \<leftarrow> n;
            if refs_num > 0 then Some (0, st)
            else do {
              top \<leftarrow> is_top_layer_of_other_image img_id all_images x;
              if top then Some (0, st)
              else do {
                par \<leftarrow> is_parent_layer_of_other_layer x last_deleted all_layers;
                if par then Some (0, st)
                else do {
                  (info, st1) \<leftarrow> layer_store_lookup (se_find e x) (Some x) st;
                  (case info of
                     None \<Rightarrow> Some (-1, st1)
                   | Some i \<Rightarrow> do {
                       (r, st2) \<leftarrow> layer_store_delete (se_del e x) (Some x) st1;
                       if r \<noteq> 0 then Some (-1, st2)
                       else delete_chain e img_id all_images all_layers (li_parent i) (Some x) st2
                     })
                }
              }
            }
          }
        })"

definition do_delete_related_layers ::
  "storage_env \<Rightarrow> string \<Rightarrow> string option \<Rightarrow> image_info list \<Rightarrow> layer list \<Rightarrow> lstore \<Rightarrow> (int \<times> lstore) option" where
  "do_delete_related_layers e img_id img_top_layer_id all_images all_layers st =
     (if img_top_layer_id = None then Some (-1, st)
      else delete_chain e img_id all_images all_layers img_top_layer_id None st)"

definition delete_img_related_layers :: "storage_env \<Rightarrow> string \<Rightarrow> string option \<Rightarrow> lstore \<Rightarrow> (int \<times> lstore) option" where
  "delete_img_related_layers e img_id img_top_layer_id st =
     (if \<not> se_mem e S_Images then Some (-1, st)
      else if \<not> se_mem e S_Layers then Some (-1, st)
      else (case se_images e of
          None \<Rightarrow> Some (-1, st)
        | Some all_images \<Rightarrow> do {
            (r, all_layers) \<leftarrow> layer_store_list (se_list e) st;
            if r \<noteq> 0 then Some (-1, st)
            else do_delete_related_layers e img_id img_top_layer_id all_images all_layers st
          }))"

definition storage_layer_chain_delete :: "storage_env \<Rightarrow> string option \<Rightarrow> lstore \<Rightarrow> (int \<times> lstore) option" where
  "storage_layer_chain_delete e p st = (if \<not> se_lock e then Some (-1, st) else delete_img_related_layers e [] p st)"

section \<open>Deleting an image\<close>

text \<open>
  The result and whether the image is in use. The result variable of the source is a \<^verbatim>\<open>bool\<close>, so a failure after
  the image was found is returned as 1.
\<close>

definition check_image_occupancy_status :: "storage_env \<Rightarrow> string \<Rightarrow> int \<times> bool" where
  "check_image_occupancy_status e img_id =
     (case se_long_id e img_id of
        None \<Rightarrow> (-1, False)
      | Some img_long_id \<Rightarrow>
          if \<not> se_mem e S_Rootfs then (1, False)
          else (case se_rootfs e of
              None \<Rightarrow> (1, False)
            | Some all_rootfs \<Rightarrow> (0, list_ex (\<lambda>r. rf_image r = img_long_id) all_rootfs)))"

definition do_storage_img_delete :: "storage_env \<Rightarrow> string \<Rightarrow> storage \<Rightarrow> (int \<times> storage) option" where
  "do_storage_img_delete e img_id s =
     (if \<not> se_exists e img_id then Some (0, s)
      else (case se_summary e img_id of
          None \<Rightarrow> Some (-1, s)
        | Some image_info \<Rightarrow>
            (case check_image_occupancy_status e img_id of
               (r, in_using) \<Rightarrow>
                 if r \<noteq> 0 then Some (-1, s)
                 else if in_using then Some (-1, s)
                 else (case call e (Img_Delete (im_id image_info)) s of
                     (r, s1) \<Rightarrow>
                       if r \<noteq> 0 then Some (-1, s1)
                       else do {
                         (r, st) \<leftarrow> delete_img_related_layers e (im_id image_info) (im_top_layer image_info) (ss_layers s1);
                         Some (if r \<noteq> 0 then -1 else 0, s1\<lparr>ss_layers := st\<rparr>)
                       }))))"

definition storage_img_delete :: "storage_env \<Rightarrow> string option \<Rightarrow> storage \<Rightarrow> (int \<times> storage) option" where
  "storage_img_delete e p s =
     (case p of
        None \<Rightarrow> Some (-1, s)
      | Some img_id \<Rightarrow> if \<not> se_lock e then Some (-1, s) else do_storage_img_delete e img_id s)"

section \<open>The size and the layers of an image\<close>

text \<open>64-bit sums; None when they overflow, which C leaves undefined.\<close>

definition add64 :: "int \<Rightarrow> int \<Rightarrow> int option" where
  "add64 a b = (if - (2 ^ 63) \<le> a + b \<and> a + b < 2 ^ 63 then Some (a + b) else None)"

text \<open>The sum of the big data, None inside for a failure.\<close>

fun big_data_total :: "storage_env \<Rightarrow> string \<Rightarrow> string list \<Rightarrow> int \<Rightarrow> int option option" where
  "big_data_total e image_id [] acc = Some (Some acc)"
| "big_data_total e image_id (n # ns) acc =
     (let tmp = se_big_size e image_id n
      in if tmp = -1 then Some None else do { t \<leftarrow> add64 acc tmp; big_data_total e image_id ns t })"

partial_function (option) layers_total :: "storage_env \<Rightarrow> string option \<Rightarrow> int \<Rightarrow> lstore \<Rightarrow> (int \<times> lstore) option" where
  "layers_total e layer_id acc st =
     (case layer_id of
        None \<Rightarrow> Some (acc, st)
      | Some x \<Rightarrow> do {
          (info, st1) \<leftarrow> layer_store_lookup (se_find e x) (Some x) st;
          (case info of
             None \<Rightarrow> Some (-1, st1)
           | Some i \<Rightarrow>
               if li_uncompress_size i < 0 \<or> li_uncompressed_digest i = None then Some (-1, st1)
               else do { t \<leftarrow> add64 acc (li_uncompress_size i); layers_total e (li_parent i) t st1 })
        })"

definition storage_img_cal_image_size :: "storage_env \<Rightarrow> string option \<Rightarrow> lstore \<Rightarrow> (int \<times> lstore) option" where
  "storage_img_cal_image_size e p st =
     (case p of
        None \<Rightarrow> Some (-1, st)
      | Some image_id \<Rightarrow>
          (case se_big_names e image_id of
             None \<Rightarrow> Some (-1, st)
           | Some names \<Rightarrow> do {
               t \<leftarrow> big_data_total e image_id names (-1);
               (case t of
                  None \<Rightarrow> Some (-1, st)
                | Some acc \<Rightarrow>
                    (case se_top_layer e image_id of
                       None \<Rightarrow> Some (-1, st)
                     | Some x \<Rightarrow> layers_total e (Some x) acc st))
             }))"

definition storage_img_set_image_size :: "storage_env \<Rightarrow> string option \<Rightarrow> storage \<Rightarrow> (int \<times> storage) option" where
  "storage_img_set_image_size e p s =
     (case p of
        None \<Rightarrow> Some (-1, s)
      | Some image_id \<Rightarrow> do {
          (image_size, st) \<leftarrow> storage_img_cal_image_size e p (ss_layers s);
          let s1 = s\<lparr>ss_layers := st\<rparr>;
          if image_size < 0 then Some (-1, s1)
          else let (r, s2) = call e (Img_Set_Size image_id image_size) s1 in Some (if r \<noteq> 0 then -1 else 0, s2)
        })"

partial_function (option) layers_exist :: "storage_env \<Rightarrow> string option \<Rightarrow> lstore \<Rightarrow> (int \<times> lstore) option" where
  "layers_exist e layer_id st =
     (case layer_id of
        None \<Rightarrow> Some (0, st)
      | Some x \<Rightarrow> do {
          (info, st1) \<leftarrow> layer_store_lookup (se_find e x) (Some x) st;
          (case info of None \<Rightarrow> Some (-1, st1) | Some i \<Rightarrow> layers_exist e (li_parent i) st1)
        })"

definition do_check_img_layers_exist :: "storage_env \<Rightarrow> string option \<Rightarrow> lstore \<Rightarrow> (int \<times> lstore) option" where
  "do_check_img_layers_exist e p st =
     (case p of
        None \<Rightarrow> Some (-1, st)
      | Some img_id \<Rightarrow>
          (case se_top_layer e img_id of None \<Rightarrow> Some (-1, st) | Some x \<Rightarrow> layers_exist e (Some x) st))"

section \<open>Root file systems of containers\<close>

definition storage_img_get_summary :: "storage_env \<Rightarrow> string option \<Rightarrow> image_info option" where
  "storage_img_get_summary e p = do {
     img_id \<leftarrow> p;
     if util_valid_short_sha256_id (Some img_id) \<and> se_exists e img_id then se_summary e img_id
     else do { n \<leftarrow> se_normalize e img_id; se_summary e n }
   }"

definition do_create_container_rw_layer ::
  "storage_env \<Rightarrow> string \<Rightarrow> string option \<Rightarrow> string option \<Rightarrow> (string \<times> string) list option \<Rightarrow> lstore \<Rightarrow> (int \<times> lstore) option" where
  "do_create_container_rw_layer e container_id image_top_layer mount_label storage_opts st =
     (case fill_create_layer_opts e \<lparr>co_parent = image_top_layer, co_uncompress_digest = None, co_compressed_digest = None,
             co_layer_data_path = None, co_writable = True, co_storage_opts = storage_opts\<rparr> mount_label of
        None \<Rightarrow> Some (-1, st)
      | Some opts \<Rightarrow> do {
          (r, _, st1) \<leftarrow> layer_store_create (se_new e container_id) (Some container_id) (Some opts) False st;
          Some (if r \<noteq> 0 then -1 else 0, st1)
        })"

text \<open>The result, the mount point and the stores; a failure after the layer is made deletes it again.\<close>

definition storage_rootfs_create ::
  "storage_env \<Rightarrow> string option \<Rightarrow> string option \<Rightarrow> string option \<Rightarrow> (string \<times> string) list option \<Rightarrow> storage
     \<Rightarrow> (int \<times> string option \<times> storage) option" where
  "storage_rootfs_create e cid img mount_label storage_opts s =
     (case cid of
        None \<Rightarrow> Some (-1, None, s)
      | Some c \<Rightarrow>
          if img = None \<or> \<not> se_lock e then Some (-1, None, s)
          else (case storage_img_get_summary e img of
              None \<Rightarrow> Some (-1, None, s)
            | Some summary \<Rightarrow> do {
                (r, st1) \<leftarrow> do_create_container_rw_layer e c (im_top_layer summary) mount_label storage_opts (ss_layers s);
                let s1 = s\<lparr>ss_layers := st1\<rparr>;
                if r \<noteq> 0 then Some (-1, None, s1)
                else do {
                  let (r, s2) = call e (Rootfs_Create c (im_id summary)) s1;
                  (info, st2) \<leftarrow> (if r \<noteq> 0 then Some (None, ss_layers s2)
                    else layer_store_lookup (se_find e c) (Some c) (ss_layers s2));
                  (case info of
                     Some i \<Rightarrow> Some (0, li_mount_point i, s2\<lparr>ss_layers := st2\<rparr>)
                   | None \<Rightarrow> do {
                       (_, st3) \<leftarrow> layer_store_delete (se_del e c) (Some c) st2;
                       Some (-1, None, s2\<lparr>ss_layers := st3\<rparr>)
                     })
                }
              }))"

definition do_storage_rootfs_delete :: "storage_env \<Rightarrow> string \<Rightarrow> storage \<Rightarrow> (int \<times> storage) option" where
  "do_storage_rootfs_delete e c s =
     (if \<not> se_has_rootfs e c then Some (0, s)
      else (case se_get_rootfs e c of
          None \<Rightarrow> Some (-1, s)
        | Some info \<Rightarrow> do {
            (r, st) \<leftarrow> layer_store_delete (se_del e c) (rf_layer info) (ss_layers s);
            let s1 = s\<lparr>ss_layers := st\<rparr>;
            if r \<noteq> 0 then Some (-1, s1)
            else let (r, s2) = call e (Rootfs_Delete c) s1 in Some (if r \<noteq> 0 then -1 else 0, s2)
          }))"

definition storage_rootfs_delete :: "storage_env \<Rightarrow> string option \<Rightarrow> storage \<Rightarrow> (int \<times> storage) option" where
  "storage_rootfs_delete e cid s =
     (case cid of None \<Rightarrow> Some (-1, s) | Some c \<Rightarrow> if \<not> se_lock e then Some (-1, s) else do_storage_rootfs_delete e c s)"

definition storage_rootfs_mount :: "storage_env \<Rightarrow> string option \<Rightarrow> lstore \<Rightarrow> (string option \<times> lstore) option" where
  "storage_rootfs_mount e cid st =
     (case Option.bind cid (se_get_rootfs e) of
        None \<Rightarrow> Some (None, st)
      | Some info \<Rightarrow>
          if rf_layer info = None then Some (None, st) else layer_store_mount (se_mnt e (rf_id info)) (rf_layer info) st)"

definition storage_rootfs_umount :: "storage_env \<Rightarrow> string option \<Rightarrow> bool \<Rightarrow> lstore \<Rightarrow> (int \<times> lstore) option" where
  "storage_rootfs_umount e cid force st =
     (case cid of
        None \<Rightarrow> Some (-1, st)
      | Some c \<Rightarrow>
          (case se_get_rootfs e c of
             None \<Rightarrow> Some (0, st)
           | Some info \<Rightarrow> do {
               (r, st1) \<leftarrow> layer_store_umount (se_mnt e c) (rf_layer info) force st;
               Some (if r \<noteq> 0 then -1 else 0, st1)
             }))"

definition is_rootfs_layer :: "string option \<Rightarrow> rootfs_info list option \<Rightarrow> bool" where
  "is_rootfs_layer p all_rootfs =
     (case all_rootfs of None \<Rightarrow> False | Some rs \<Rightarrow> p \<noteq> None \<and> list_ex (\<lambda>r. rf_layer r = p) rs)"

text \<open>The ids of the chain from the top layer on; None inside when memory runs out at the \<open>i\<close>-th.\<close>

partial_function (option) image_layers_from ::
  "storage_env \<Rightarrow> (nat \<Rightarrow> bool) \<Rightarrow> nat \<Rightarrow> string option \<Rightarrow> string list \<Rightarrow> lstore \<Rightarrow> (string list option \<times> lstore) option" where
  "image_layers_from e mem i par acc st =
     (case par of
        None \<Rightarrow> Some (Some acc, st)
      | Some x \<Rightarrow>
          if \<not> mem i then Some (None, st)
          else do {
            (l, st1) \<leftarrow> layer_store_lookup (se_find e x) (Some x) st;
            (case l of
               None \<Rightarrow> Some (Some (acc @ [x]), st1)
             | Some j \<Rightarrow> image_layers_from e mem (Suc i) (li_parent j) (acc @ [x]) st1)
          })"

definition get_image_layers ::
  "storage_env \<Rightarrow> (nat \<Rightarrow> bool) \<Rightarrow> bool \<Rightarrow> string option \<Rightarrow> lstore \<Rightarrow> (string list option \<times> lstore) option" where
  "get_image_layers e mem head top_lid st =
     (if top_lid = None then Some (None, st)
      else if \<not> head then Some (None, st)
      else image_layers_from e mem 0 top_lid [] st)"

text \<open>The layers in \<open>checked\<close> and those of containers are kept, every other one is deleted.\<close>

fun delete_unchecked_loop :: "storage_env \<Rightarrow> (string \<rightharpoonup> bool) \<Rightarrow> rootfs_info list \<Rightarrow> layer list \<Rightarrow> lstore \<Rightarrow> lstore option" where
  "delete_unchecked_loop e checked rs [] st = Some st"
| "delete_unchecked_loop e checked rs (l # ls) st = do {
     x \<leftarrow> li_id l;
     if checked x \<noteq> None \<or> is_rootfs_layer (Some x) (Some rs) then delete_unchecked_loop e checked rs ls st
     else do { (_, st1) \<leftarrow> layer_store_delete (se_del e x) (Some x) st; delete_unchecked_loop e checked rs ls st1 }
   }"

definition delete_unchecked_layers :: "storage_env \<Rightarrow> (string \<rightharpoonup> bool) \<Rightarrow> lstore \<Rightarrow> lstore option" where
  "delete_unchecked_layers e checked st =
     (if \<not> se_mem e S_Layers then Some st
      else do {
        (r, ls) \<leftarrow> layer_store_list (se_list e) st;
        if r \<noteq> 0 \<or> \<not> se_mem e S_Rootfs then Some st
        else (case se_rootfs e of None \<Rightarrow> Some st | Some rs \<Rightarrow> delete_unchecked_loop e checked rs ls st)
      })"

definition storage_img_create :: "storage_env \<Rightarrow> string option \<Rightarrow> bool \<Rightarrow> storage \<Rightarrow> int \<times> storage" where
  "storage_img_create e p has_opts s =
     (case p of
        None \<Rightarrow> (-1, s)
      | Some x \<Rightarrow>
          if \<not> has_opts \<or> \<not> se_lock e then (-1, s)
          else let (r, s1) = call e (Img_Create x) s in (if r \<noteq> 0 then -1 else 0, s1))"

section \<open>The contract of the layer store\<close>

text \<open>What storage relies on: visible layers with distinct ids, and calls that do what \<open>Layer_Spec\<close> says.\<close>

locale layer_service =
  fixes ok :: "'s \<Rightarrow> bool" and vw :: "'s \<Rightarrow> layer_t list"
    and get_hold :: "layer_env \<Rightarrow> string option \<Rightarrow> 's \<Rightarrow> (int \<times> int option) option"
    and look :: "layer_env \<Rightarrow> string option \<Rightarrow> 's \<Rightarrow> (layer option \<times> 's) option"
    and del :: "layer_env \<Rightarrow> string option \<Rightarrow> 's \<Rightarrow> (int \<times> 's) option"
    and all :: "layer_env \<Rightarrow> 's \<Rightarrow> (int \<times> layer list) option"
  assumes ids: "ok s \<Longrightarrow> distinct (map v_id (vw s))"
    and known: "ok s \<Longrightarrow> l \<in> set (vw s) \<Longrightarrow> slayer l \<noteq> None"
    and hold_law: "ok s \<Longrightarrow> \<exists>r n. get_hold e p s = Some (r, n) \<and> get_hold_spec e p (vw s) r n"
    and look_law: "ok s \<Longrightarrow> \<exists>r. look e p s = Some (r, s) \<and> lookup_spec e p (vw s) r"
    and del_law: "ok s \<Longrightarrow> \<exists>r s'. del e p s = Some (r, s') \<and> ok s' \<and> delete_spec e p (vw s) r (vw s')"
    and all_law: "ok s \<Longrightarrow> \<exists>r ls. all e s = Some (r, ls) \<and> list_spec (vw s) r ls"
begin

lemma find_id:
  assumes "ok s" and "l \<in> set (vw s)"
  shows "find (\<lambda>k. v_id k = v_id l) (vw s) = Some l" "v_find (Some (v_id l)) (vw s) = Some l"
proof -
  from assms(2) obtain i where i: "i < length (vw s)" "vw s ! i = l" by (auto simp: in_set_conv_nth)
  have "\<forall>j < i. v_id (vw s ! j) \<noteq> v_id l"
    using ids [OF assms(1)] i by (auto simp: distinct_conv_nth)
  then show "find (\<lambda>k. v_id k = v_id l) (vw s) = Some l" using i by (auto simp: find_Some_iff)
  then show "v_find (Some (v_id l)) (vw s) = Some l" by (simp add: v_find_def)
qed

lemma hold_id:
  assumes "ok s"
  shows "\<exists>r n. get_hold e (Some x) s = Some (r, n) \<and>
    (r \<noteq> 0 \<or> (\<exists>l \<in> set (vw s). v_id l = x \<and> n = Some (hold_refs_num l)))"
proof -
  from hold_law [OF assms, of e "Some x"] obtain r n where h: "get_hold e (Some x) s = Some (r, n)"
    "get_hold_spec e (Some x) (vw s) r n" by blast
  then show ?thesis by (auto simp: get_hold_spec_def find_Some_iff split: option.splits if_splits)
qed

lemma look_id:
  assumes "ok s" and "l \<in> set (vw s)"
  shows "\<exists>r. look e (Some (v_id l)) s = Some (r, s) \<and> (r = None \<or> r = Some (copy_json_to_layer l))"
  using look_law [OF assms(1), of e "Some (v_id l)"] find_id [OF assms] by (auto simp: lookup_spec_def)

lemma del_id:
  assumes "ok s" and "l \<in> set (vw s)"
  shows "\<exists>r s'. del e (Some (v_id l)) s = Some (r, s') \<and> ok s' \<and> (vw s' = v_del l (vw s) \<or> r = -1 \<and> vw s' = vw s)"
  using del_law [OF assms(1), of e "Some (v_id l)"] find_id [OF assms] by (auto simp: delete_spec_def split: if_splits)

lemma all_layers: "ok s \<Longrightarrow> \<exists>r ls. all e s = Some (r, ls) \<and> (r = 0 \<longrightarrow> ls = map copy_json_to_layer (vw s))"
  using all_law [of s e] by (auto simp: list_spec_def)

end

lemma store_ids: "store_ok st held \<Longrightarrow> distinct (map v_id (view st))"
proof -
  assume "store_ok st held"
  then have "entries_ok (entries_of st)" by (simp add: store_ok_def indexed_def)
  then have "distinct (map (\<lambda>a. sl_id (slayer_at (layers st) a)) (layers_list st))"
    by (simp add: entries_ok_def entries_of_def o_def)
  then show ?thesis by (simp add: view_def o_def slayer_at_v)
qed

interpretation ls: layer_service "\<lambda>st. store_ok st held \<and> bounded held 4" view layer_get_hold_refs layer_store_lookup
  layer_store_delete layer_store_list for held
proof
  fix s e p assume ok: "store_ok s held \<and> bounded held 4"
  then have b: "bounded held 2" using bounded_le [of held 4 2] by simp
  show "distinct (map v_id (view s))" using ok store_ids by blast
  show "slayer l \<noteq> None" if "l \<in> set (view s)" for l
    using that alive [of s held] ok by (fastforce simp: view_def store_ok_def)
  show "\<exists>r n. layer_get_hold_refs e p s = Some (r, n) \<and> get_hold_spec e p (view s) r n" using ok get_hold_step by blast
  show "\<exists>r. layer_store_lookup e p s = Some (r, s) \<and> lookup_spec e p (view s) r" using ok b lookup_step by blast
  show "\<exists>r s'. layer_store_delete e p s = Some (r, s') \<and> (store_ok s' held \<and> bounded held 4) \<and> delete_spec e p (view s) r (view s')"
    using ok delete_step [of s held e p] by blast
  show "\<exists>r ls. layer_store_list e s = Some (r, ls) \<and> list_spec (view s) r ls" using ok list_step by blast
qed

section \<open>Chains of layers\<close>

definition v_parent :: "layer_t \<Rightarrow> string option" where
  "v_parent l = sl_parent (the (slayer l))"

text \<open>Every parent is there.\<close>

definition closed_under_parents :: "layer_t list \<Rightarrow> bool" where
  "closed_under_parents vs \<longleftrightarrow> (\<forall>l \<in> set vs. \<forall>p. v_parent l = Some p \<longrightarrow> p \<in> v_id ` set vs)"

definition parents :: "layer_t list \<Rightarrow> (string \<times> string) set" where
  "parents vs = {(v_id l, p) |l p. l \<in> set vs \<and> v_parent l = Some p}"

text \<open>A layer that may go: nobody holds it and no image of the list has it on top.\<close>

definition loose :: "image_info list \<Rightarrow> layer_t \<Rightarrow> bool" where
  "loose imgs l \<longleftrightarrow> hold_refs_num l \<le> 0 \<and> (\<forall>i \<in> set imgs. im_top_layer i = Some (v_id l) \<longrightarrow> im_id i = v_id l)"

definition pruned :: "(string \<times> string) set \<Rightarrow> image_info list \<Rightarrow> string option \<Rightarrow> layer_t list \<Rightarrow> layer_t list \<Rightarrow> bool" where
  "pruned R imgs x vs vs' \<longleftrightarrow> (\<exists>P. vs' = filter P vs) \<and> closed_under_parents vs' \<and>
     (\<forall>l \<in> set vs. l \<notin> set vs' \<longrightarrow> loose imgs l \<and> (\<exists>y. x = Some y \<and> (y, v_id l) \<in> R\<^sup>*))"

lemma pruned_refl: "closed_under_parents vs \<Longrightarrow> pruned R imgs x vs vs"
proof -
  assume "closed_under_parents vs"
  moreover have "vs = filter (\<lambda>_. True) vs" by simp
  ultimately show ?thesis unfolding pruned_def by blast
qed

lemma pruned_step:
  assumes "pruned R imgs (v_parent l) (v_del l vs) vs'" and "l \<in> set vs" and "distinct (map v_id vs)" and "loose imgs l"
    and "\<And>p. v_parent l = Some p \<Longrightarrow> (v_id l, p) \<in> R"
  shows "pruned R imgs (Some (v_id l)) vs vs'"
proof -
  obtain P where P: "vs' = filter P (v_del l vs)" using assms(1) by (auto simp: pruned_def)
  have same: "k = l" if "k \<in> set vs" "v_id k = v_id l" for k
    using that assms(2,3) by (auto simp: distinct_map dest: inj_onD)
  have "loose imgs k \<and> (v_id l, v_id k) \<in> R\<^sup>*" if k: "k \<in> set vs" "k \<notin> set vs'" for k
  proof (cases "k = l")
    case True
    then show ?thesis using assms(4) by simp
  next
    case False
    then have "k \<in> set (v_del l vs)" using k same by (auto simp: v_del_def)
    then obtain y where "loose imgs k" "v_parent l = Some y" "(y, v_id k) \<in> R\<^sup>*" using assms(1) k(2) by (auto simp: pruned_def)
    then show ?thesis using assms(5) by (meson converse_rtrancl_into_rtrancl)
  qed
  moreover have "vs' = filter (\<lambda>k. P k \<and> v_id k \<noteq> v_id l) vs" using P by (simp add: v_del_def conj_commute)
  ultimately show ?thesis using assms(1) unfolding pruned_def by blast
qed

lemma top_check:
  assumes "\<forall>i \<in> set imgs. im_top_layer i \<noteq> None"
  shows "is_top_layer_of_other_image img imgs x = Some (\<exists>i \<in> set imgs. im_top_layer i = Some x \<and> im_id i \<noteq> x)"
  using assms by (induction imgs) auto

lemma parent_check:
  assumes "\<forall>l \<in> set vs. slayer l \<noteq> None"
  shows "is_parent_layer_of_other_layer x d (map copy_json_to_layer vs) =
    Some (\<exists>l \<in> set vs. v_parent l = Some x \<and> d \<noteq> Some (v_id l))"
  using assms by (induction vs) (auto simp: copy_json_to_layer_def v_parent_def v_id_def split: option.splits)

lemma copy_parent: "slayer l \<noteq> None \<Longrightarrow> li_parent (copy_json_to_layer l) = v_parent l"
  by (auto simp: copy_json_to_layer_def v_parent_def)

lemma closed_del:
  assumes "closed_under_parents vs" and "\<And>k. k \<in> set vs \<Longrightarrow> v_parent k \<noteq> Some (v_id l)"
  shows "closed_under_parents (v_del l vs)"
  using assms unfolding closed_under_parents_def v_del_def by (auto simp: image_iff) metis

lemma delete_chain_round:
  assumes "\<forall>i \<in> set imgs. im_top_layer i \<noteq> None" and "\<forall>l \<in> set vs0. slayer l \<noteq> None"
    and "layer_get_hold_refs (se_hold e y) (Some y) st = Some (r, n)" and "r = 0 \<Longrightarrow> n = Some m"
  shows "delete_chain e img imgs (map copy_json_to_layer vs0) (Some y) lst st =
    (if r \<noteq> 0 then Some (r, st)
     else if m > 0 \<or> (\<exists>i \<in> set imgs. im_top_layer i = Some y \<and> im_id i \<noteq> y) \<or>
             (\<exists>l \<in> set vs0. v_parent l = Some y \<and> lst \<noteq> Some (v_id l)) then Some (0, st)
     else do {
       (info, st1) \<leftarrow> layer_store_lookup (se_find e y) (Some y) st;
       (case info of
          None \<Rightarrow> Some (-1, st1)
        | Some i \<Rightarrow> do {
            (r, st2) \<leftarrow> layer_store_delete (se_del e y) (Some y) st1;
            if r \<noteq> 0 then Some (-1, st2)
            else delete_chain e img imgs (map copy_json_to_layer vs0) (li_parent i) (Some y) st2
          })
     })"
  using assms(3,4) top_check [OF assms(1), of img y] parent_check [OF assms(2), of y lst]
  by (subst delete_chain.simps) auto

lemma prune_one:
  assumes ok: "store_ok st held \<and> bounded held 4" and l: "l \<in> set (view st)" and cl: "closed_under_parents (view st)"
    and "\<And>k. k \<in> set (view st) \<Longrightarrow> v_parent k \<noteq> Some (v_id l)"
  shows "\<exists>i r st2. layer_store_lookup e1 (Some (v_id l)) st = Some (i, st) \<and>
    (i = None \<or> (\<exists>j. i = Some j \<and> li_parent j = v_parent l)) \<and>
    layer_store_delete e2 (Some (v_id l)) st = Some (r, st2) \<and> (store_ok st2 held \<and> bounded held 4) \<and>
    (view st2 = v_del l (view st) \<or> r = -1 \<and> view st2 = view st) \<and> closed_under_parents (v_del l (view st))"
  using ls.look_id [OF ok l, of e1] ls.del_id [OF ok l, of e2] copy_parent [OF ls.known [OF ok l]] closed_del [OF cl assms(4)]
  by auto

lemma parent_edge: "l \<in> set vs \<Longrightarrow> v_parent l = Some p \<Longrightarrow> (v_id l, p) \<in> parents vs"
  by (auto simp: parents_def)

text \<open>
  A round at \<open>y\<close> ends the loop, or deletes the layer \<open>y\<close> and goes on with its parent; \<open>vs0\<close> are the layers when the list
  was taken, of which some are deleted already.
\<close>

lemma delete_chain_step:
  assumes ok: "store_ok st held \<and> bounded held 4" and tops: "\<forall>i \<in> set imgs. im_top_layer i \<noteq> None"
    and sub: "set (view st) \<subseteq> set vs0" and known0: "\<forall>l \<in> set vs0. slayer l \<noteq> None" and cl: "closed_under_parents (view st)"
    and lst: "\<forall>d. lst = Some d \<longrightarrow> d \<notin> v_id ` set (view st)"
  shows "(\<exists>r st2. delete_chain e img imgs (map copy_json_to_layer vs0) (Some y) lst st = Some (r, st2) \<and>
      (store_ok st2 held \<and> bounded held 4) \<and> pruned (parents vs0) imgs (Some y) (view st) (view st2)) \<or>
    (\<exists>l st2. l \<in> set (view st) \<and> v_id l = y \<and> loose imgs l \<and> (store_ok st2 held \<and> bounded held 4) \<and>
      view st2 = v_del l (view st) \<and> closed_under_parents (view st2) \<and>
      delete_chain e img imgs (map copy_json_to_layer vs0) (Some y) lst st =
        delete_chain e img imgs (map copy_json_to_layer vs0) (v_parent l) (Some y) st2)"
proof -
  obtain r n where h: "layer_get_hold_refs (se_hold e y) (Some y) st = Some (r, n)"
    "r \<noteq> 0 \<or> (\<exists>l \<in> set (view st). v_id l = y \<and> n = Some (hold_refs_num l))" using ls.hold_id [OF ok] by blast
  note round = delete_chain_round [where img = img and lst = lst, OF tops known0 h(1)]
  show ?thesis
  proof (cases "r \<noteq> 0 \<or> the n > 0 \<or> (\<exists>i \<in> set imgs. im_top_layer i = Some y \<and> im_id i \<noteq> y) \<or>
      (\<exists>l \<in> set vs0. v_parent l = Some y \<and> lst \<noteq> Some (v_id l))")
    case True
    then have "\<exists>r. delete_chain e img imgs (map copy_json_to_layer vs0) (Some y) lst st = Some (r, st)"
      using h(2) by (subst round [of "the n"]) auto
    then show ?thesis using ok pruned_refl [OF cl] by blast
  next
    case False
    then obtain l where l: "l \<in> set (view st)" "v_id l = y" "n = Some (hold_refs_num l)" "hold_refs_num l \<le> 0"
      using h(2) by auto
    have free: "v_parent k \<noteq> Some (v_id l)" if "k \<in> set (view st)" for k
      using that False sub l(2) lst by (metis image_eqI subset_eq)
    have loose: "loose imgs l" using False l by (auto simp: loose_def)
    obtain i r2 st2 where o: "layer_store_lookup (se_find e y) (Some y) st = Some (i, st)"
      "i = None \<or> (\<exists>j. i = Some j \<and> li_parent j = v_parent l)"
      "layer_store_delete (se_del e y) (Some y) st = Some (r2, st2)" "store_ok st2 held \<and> bounded held 4"
      "view st2 = v_del l (view st) \<or> r2 = -1 \<and> view st2 = view st" "closed_under_parents (v_del l (view st))"
      using prune_one [OF ok l(1) cl free, of "se_find e y" "se_del e y"] unfolding l(2) by blast
    have step: "delete_chain e img imgs (map copy_json_to_layer vs0) (Some y) lst st =
       (case i of None \<Rightarrow> Some (-1, st) | Some j \<Rightarrow> if r2 \<noteq> 0 then Some (-1, st2)
          else delete_chain e img imgs (map copy_json_to_layer vs0) (li_parent j) (Some y) st2)"
      using False l(3) o(1,3) by (subst round [of "hold_refs_num l"]) (auto cong: option.case_cong)
    have "pruned (parents vs0) imgs (Some y) (view st) (v_del l (view st))"
      using pruned_step [OF pruned_refl [OF o(6)] l(1) ls.ids [OF ok] loose parent_edge] l(1,2) sub by auto
    then have "pruned (parents vs0) imgs (Some y) (view st) (view st2)" using o(5) pruned_refl [OF cl] by auto
    then have "\<exists>r st2. delete_chain e img imgs (map copy_json_to_layer vs0) (Some y) lst st = Some (r, st2) \<and>
        (store_ok st2 held \<and> bounded held 4) \<and> pruned (parents vs0) imgs (Some y) (view st) (view st2)" if "i = None \<or> r2 \<noteq> 0"
      using that step o(4) ok pruned_refl [OF cl] by (cases i) auto
    moreover have "view st2 = v_del l (view st)" "delete_chain e img imgs (map copy_json_to_layer vs0) (Some y) lst st =
        delete_chain e img imgs (map copy_json_to_layer vs0) (v_parent l) (Some y) st2" if "\<not> (i = None \<or> r2 \<noteq> 0)"
      using that step o(2,5) by auto
    ultimately show ?thesis using o(4,6) l(1,2) loose by metis
  qed
qed

lemma delete_chain_run:
  assumes "store_ok st held \<and> bounded held 4" and tops: "\<forall>i \<in> set imgs. im_top_layer i \<noteq> None"
    and "set (view st) \<subseteq> set vs0" and known0: "\<forall>l \<in> set vs0. slayer l \<noteq> None" and "closed_under_parents (view st)"
    and "\<forall>d. lst = Some d \<longrightarrow> d \<notin> v_id ` set (view st)"
  shows "\<exists>r st'. delete_chain e img imgs (map copy_json_to_layer vs0) x lst st = Some (r, st') \<and>
    (store_ok st' held \<and> bounded held 4) \<and> pruned (parents vs0) imgs x (view st) (view st')"
  using assms(1,3,5,6)
proof (induction "length (view st)" arbitrary: st x lst rule: less_induct)
  case less
  note ok = less.prems(1) and sub = less.prems(2) and cl = less.prems(3)
  show ?case
  proof (cases x)
    case None
    then show ?thesis using ok pruned_refl [OF cl] by (simp add: delete_chain.simps)
  next
    case (Some y)
    from delete_chain_step [where e = e and img = img and y = y, OF ok tops sub known0 cl less.prems(4)] show ?thesis unfolding Some
    proof (elim disjE exE conjE)
      fix l st2
      assume l: "l \<in> set (view st)" "v_id l = y" "loose imgs l" "store_ok st2 held" "bounded held 4" "view st2 = v_del l (view st)"
        "closed_under_parents (view st2)" and go: "delete_chain e img imgs (map copy_json_to_layer vs0) (Some y) lst st =
          delete_chain e img imgs (map copy_json_to_layer vs0) (v_parent l) (Some y) st2"
      have "length (view st2) < length (view st)" unfolding l(6) v_del_def using l(1) by (intro length_filter_less) auto
      moreover have "set (view st2) \<subseteq> set vs0" "\<forall>d. Some y = Some d \<longrightarrow> d \<notin> v_id ` set (view st2)"
        using l(2,6) sub by (auto simp: v_del_def)
      ultimately obtain r3 st3 where st3:
        "delete_chain e img imgs (map copy_json_to_layer vs0) (v_parent l) (Some y) st2 = Some (r3, st3)"
        "store_ok st3 held \<and> bounded held 4" "pruned (parents vs0) imgs (v_parent l) (view st2) (view st3)"
        using less.hyps [of st2 "Some y" "v_parent l"] l(4,5,7) by blast
      have "pruned (parents vs0) imgs (Some y) (view st) (view st3)"
        using pruned_step [OF st3(3) [unfolded l(6)] l(1) ls.ids [OF ok] l(3) parent_edge] l(1,2) sub by auto
      then show "\<exists>r st'. delete_chain e img imgs (map copy_json_to_layer vs0) (Some y) lst st = Some (r, st') \<and>
        (store_ok st' held \<and> bounded held 4) \<and> pruned (parents vs0) imgs (Some y) (view st) (view st')" using go st3(1,2) by simp
    qed blast
  qed
qed

definition tops_known :: "storage_env \<Rightarrow> bool" where
  "tops_known e \<longleftrightarrow> (\<forall>imgs. se_images e = Some imgs \<longrightarrow> (\<forall>i \<in> set imgs. im_top_layer i \<noteq> None))"

lemma delete_related_run:
  assumes ok: "store_ok st held \<and> bounded held 4" and "closed_under_parents (view st)" and "tops_known e"
  shows "\<exists>r st'. delete_img_related_layers e img x st = Some (r, st') \<and> (store_ok st' held \<and> bounded held 4) \<and>
    (st' = st \<or> (\<exists>imgs. se_images e = Some imgs \<and> pruned (parents (view st)) imgs x (view st) (view st')))"
proof -
  obtain r ls where a: "layer_store_list (se_list e) st = Some (r, ls)" "r = 0 \<longrightarrow> ls = map copy_json_to_layer (view st)"
    using ls.all_layers [OF ok, of "se_list e"] by blast
  show ?thesis
  proof (cases "se_mem e S_Images \<and> se_mem e S_Layers \<and> se_images e \<noteq> None \<and> r = 0 \<and> x \<noteq> None")
    case False
    then have "\<exists>r. delete_img_related_layers e img x st = Some (r, st)"
      using a by (auto simp: delete_img_related_layers_def do_delete_related_layers_def split: option.splits)
    then show ?thesis using ok by blast
  next
    case True
    then obtain imgs where i: "se_images e = Some imgs" by auto
    then have "\<forall>i \<in> set imgs. im_top_layer i \<noteq> None" using assms(3) by (simp add: tops_known_def)
    from delete_chain_run [OF ok this subset_refl _ assms(2), of None e img x] ls.known [OF ok] obtain r' st' where
      "delete_chain e img imgs (map copy_json_to_layer (view st)) x None st = Some (r', st')"
      "store_ok st' held \<and> bounded held 4" "pruned (parents (view st)) imgs x (view st) (view st')" by blast
    then show ?thesis using True a i by (auto simp: delete_img_related_layers_def do_delete_related_layers_def)
  qed
qed

definition in_use :: "storage_env \<Rightarrow> string \<Rightarrow> bool" where
  "in_use e img \<longleftrightarrow> (\<exists>x rs. se_long_id e img = Some x \<and> se_rootfs e = Some rs \<and> (\<exists>r \<in> set rs. rf_image r = x))"

lemma img_delete_run:
  assumes "store_ok (ss_layers s) held" and "bounded held 4" and "closed_under_parents (view (ss_layers s))" and "tops_known e"
  shows "\<exists>r s'. storage_img_delete e p s = Some (r, s') \<and> store_ok (ss_layers s') held \<and>
    (ss_layers s' = ss_layers s \<or>
     (\<exists>img i imgs. p = Some img \<and> se_summary e img = Some i \<and> se_images e = Some imgs \<and> \<not> in_use e img \<and>
        ss_calls s' = ss_calls s @ [(Img_Delete (im_id i), 0)] \<and>
        pruned (parents (view (ss_layers s))) imgs (im_top_layer i) (view (ss_layers s)) (view (ss_layers s'))))"
proof (cases "\<exists>img i. p = Some img \<and> se_lock e \<and> se_exists e img \<and> se_summary e img = Some i \<and>
    check_image_occupancy_status e img = (0, False) \<and> se_ret e (Img_Delete (im_id i)) = 0")
  case False
  then have "\<exists>r s'. storage_img_delete e p s = Some (r, s') \<and> ss_layers s' = ss_layers s"
    by (auto simp: storage_img_delete_def do_storage_img_delete_def call_def split: option.splits prod.splits)
  then show ?thesis using assms(1) by fastforce
next
  case True
  then obtain img i where i: "p = Some img" "se_lock e" "se_exists e img" "se_summary e img = Some i"
    "check_image_occupancy_status e img = (0, False)" "se_ret e (Img_Delete (im_id i)) = 0" by blast
  have free: "\<not> in_use e img" using i(5)
    by (auto simp: in_use_def check_image_occupancy_status_def list_ex_iff split: option.splits if_splits)
  obtain r st' where d: "delete_img_related_layers e (im_id i) (im_top_layer i) (ss_layers s) = Some (r, st')"
    "store_ok st' held" "st' = ss_layers s \<or> (\<exists>imgs. se_images e = Some imgs \<and>
       pruned (parents (view (ss_layers s))) imgs (im_top_layer i) (view (ss_layers s)) (view st'))"
    using delete_related_run [of "ss_layers s" held e "im_id i" "im_top_layer i"] assms by blast
  have "storage_img_delete e p s = Some (if r \<noteq> 0 then -1 else 0,
      s\<lparr>ss_calls := ss_calls s @ [(Img_Delete (im_id i), 0)], ss_layers := st'\<rparr>)"
    using i d(1) by (simp add: storage_img_delete_def do_storage_img_delete_def call_def)
  then show ?thesis using d(2,3) i(1,4) free by auto
qed

lemma used_image_kept: "in_use e img \<Longrightarrow> \<exists>r. storage_img_delete e (Some img) s = Some (r, s)"
  by (auto simp: storage_img_delete_def do_storage_img_delete_def check_image_occupancy_status_def in_use_def list_ex_iff
      split: option.splits)

text \<open>C15. Deleting an image, whatever fails on the way, leaves a layer store that is consistent and in which every layer
  still has its parent. When layers go, the image was not in use by a container and its record was deleted
  first; each layer that goes is the top layer of the image or an ancestor of it, is held by nobody,
  and is not the top layer of an image the image store lists (images whose id equals the id of their top
  layer excepted, which the code does not protect). The images listed have a top layer.\<close>

theorem image_deletion_prunes:
  assumes "store_ok (ss_layers s) held" and "bounded held 4" and "closed_under_parents (view (ss_layers s))" and "tops_known e"
  shows "\<exists>r s'. storage_img_delete e p s = Some (r, s') \<and> store_ok (ss_layers s') held \<and>
    closed_under_parents (view (ss_layers s')) \<and> (\<exists>P. view (ss_layers s') = filter P (view (ss_layers s))) \<and>
    (\<forall>img. p = Some img \<and> in_use e img \<longrightarrow> s' = s) \<and>
    (\<forall>l \<in> set (view (ss_layers s)). l \<notin> set (view (ss_layers s')) \<longrightarrow>
       (\<exists>img i imgs t. p = Some img \<and> se_summary e img = Some i \<and> se_images e = Some imgs \<and>
          ss_calls s' = ss_calls s @ [(Img_Delete (im_id i), 0)] \<and> loose imgs l \<and>
          im_top_layer i = Some t \<and> (t, v_id l) \<in> (parents (view (ss_layers s)))\<^sup>*))"
proof -
  obtain r s' where d: "storage_img_delete e p s = Some (r, s')" "store_ok (ss_layers s') held"
    "ss_layers s' = ss_layers s \<or> (\<exists>img i imgs. p = Some img \<and> se_summary e img = Some i \<and> se_images e = Some imgs \<and>
        \<not> in_use e img \<and> ss_calls s' = ss_calls s @ [(Img_Delete (im_id i), 0)] \<and>
        pruned (parents (view (ss_layers s))) imgs (im_top_layer i) (view (ss_layers s)) (view (ss_layers s')))"
    using img_delete_run [OF assms, of p] by blast
  have used: "\<forall>img. p = Some img \<and> in_use e img \<longrightarrow> s' = s" using used_image_kept d(1) by (metis Pair_inject option.inject)
  have id: "\<exists>P. xs = filter P xs" for xs :: "layer_t list" by (rule exI [of _ "\<lambda>_. True"]) simp
  show ?thesis
  proof (cases "ss_layers s' = ss_layers s")
    case True
    have "closed_under_parents (view (ss_layers s'))" "\<exists>P. view (ss_layers s') = filter P (view (ss_layers s))"
      using assms(3) id [of "view (ss_layers s)"] unfolding True by simp_all
    moreover have "\<forall>l \<in> set (view (ss_layers s)). l \<in> set (view (ss_layers s'))" unfolding True by simp
    ultimately show ?thesis using d(1,2) used by blast
  next
    case False
    then obtain img i imgs where i: "p = Some img" "se_summary e img = Some i" "se_images e = Some imgs"
      "ss_calls s' = ss_calls s @ [(Img_Delete (im_id i), 0)]"
      "pruned (parents (view (ss_layers s))) imgs (im_top_layer i) (view (ss_layers s)) (view (ss_layers s'))"
      using d(3) by blast
    note pr = i(5) [unfolded pruned_def]
    show ?thesis by (intro exI [of _ r] exI [of _ s'] conjI d(1,2) used) (use pr i(1-4) in blast)+
  qed
qed

definition demo_layer :: "string \<Rightarrow> string option \<Rightarrow> layer_t" where
  "demo_layer x par = empty_layer\<lparr>slayer := Some \<lparr>sl_id = x, sl_parent = par, sl_writable = False, sl_mountlabel = None,
     sl_created = None, sl_names = [], sl_diff_digest = Some ''d'', sl_compressed_diff_digest = None, sl_diff_size = 5,
     sl_compressed_size = 0, sl_incompelte = False\<rparr>\<rparr>"

text \<open>A store of two layers, the second on top of the first.\<close>

definition demo_store :: lstore where
  "demo_store = (new_store ''/run'' ''/root'')\<lparr>layers := [1 \<mapsto> demo_layer ''a'' None, 2 \<mapsto> demo_layer ''b'' (Some ''a'')],
     by_id := [(''a'', 1), (''b'', 2)], by_uncompress_digest := [(''d'', \<lparr>layer_list = [''a'', ''b''], layer_list_len = 2\<rparr>)],
     layers_list := [1, 2], layers_list_len := 2\<rparr>"

definition demo_env :: storage_env where
  "demo_env = \<lparr>se_lock = True, se_mem = (\<lambda>_. True), se_open = (\<lambda>_. True), se_ret = (\<lambda>_. 0), se_normalize = Some,
     se_exists = (\<lambda>x. x = ''img''), se_summary = (\<lambda>_. Some \<lparr>im_id = ''img'', im_top_layer = Some ''b'', im_size = 0\<rparr>),
     se_long_id = (\<lambda>_. Some ''img''), se_top_layer = (\<lambda>_. Some ''b''),
     se_images = Some [\<lparr>im_id = ''other'', im_top_layer = Some ''a'', im_size = 0\<rparr>], se_rootfs = Some [],
     se_big_names = (\<lambda>_. Some [''manifest'']), se_big_size = (\<lambda>_ _. 100), se_has_rootfs = (\<lambda>_. False), se_get_rootfs = (\<lambda>_. None),
     se_list = calm_env, se_hold = (\<lambda>_. calm_env), se_find = (\<lambda>_. calm_env), se_del = (\<lambda>_. calm_env), se_new = (\<lambda>_. calm_env),
     se_mnt = (\<lambda>_. calm_env)\<rparr>"

lemma demo_ok: "store_ok demo_store (\<lambda>_. 0)" "bounded (\<lambda>_. 0) 4"
  by (auto simp: demo_store_def demo_layer_def new_store_def store_ok_def indexed_def refs_ok_def entries_of_def slayer_at_def
      norm_def entries_ok_def indexes_def id_index_def name_index_def digest_index_def digest_of_def ids_with_def listed_def
      ref_at_def bounded_def smap_search_def name_pairs_def empty_layer_def fun_eq_iff)

lemma demo_view: "view demo_store = [content (demo_layer ''a'' None), content (demo_layer ''b'' (Some ''a''))]"
  by (simp add: view_def demo_store_def)

lemma demo_closed: "closed_under_parents (view demo_store)" "tops_known demo_env"
  by (simp_all add: demo_view closed_under_parents_def v_parent_def v_id_def demo_layer_def tops_known_def demo_env_def)

theorem image_deletion_prunes_witness:
  "let s = \<lparr>ss_layers = demo_store, ss_calls = []\<rparr>
   in store_ok (ss_layers s) (\<lambda>_. 0) \<and> bounded (\<lambda>_. 0) 4 \<and> closed_under_parents (view (ss_layers s)) \<and> tops_known demo_env \<and>
      (\<exists>r s'. storage_img_delete demo_env (Some ''img'') s = Some (r, s') \<and> store_ok (ss_layers s') (\<lambda>_. 0) \<and>
        closed_under_parents (view (ss_layers s')) \<and> (\<exists>P. view (ss_layers s') = filter P (view (ss_layers s))))"
proof -
  let ?s = "\<lparr>ss_layers = demo_store, ss_calls = []\<rparr>"
  have h: "store_ok (ss_layers ?s) (\<lambda>_. 0)" "closed_under_parents (view (ss_layers ?s))" using demo_ok demo_closed by simp_all
  from image_deletion_prunes [OF h(1) demo_ok(2) h(2) demo_closed(2), of "Some ''img''"] show ?thesis
    unfolding Let_def by (elim exE conjE) (intro conjI h demo_ok(2) demo_closed(2) exI, assumption+)
qed

section \<open>Complete chains\<close>

fun chain_of :: "layer_t list \<Rightarrow> string option \<Rightarrow> layer_t list \<Rightarrow> bool" where
  "chain_of vs None ks \<longleftrightarrow> ks = []"
| "chain_of vs (Some x) [] \<longleftrightarrow> False"
| "chain_of vs (Some x) (k # ks) \<longleftrightarrow> k \<in> set vs \<and> v_id k = x \<and> chain_of vs (v_parent k) ks"

text \<open>The look-ups find their lock free and memory for the answer.\<close>

definition finds :: "storage_env \<Rightarrow> bool" where
  "finds e \<longleftrightarrow> (\<forall>x. lv_mem (se_find e x) M_Lock \<and> lv_mem (se_find e x) (M_Array_Item 0))"

lemma find_listed_layer:
  assumes "store_ok st held \<and> bounded held 4" and "k \<in> set (view st)" and "finds e"
  shows "layer_store_lookup (se_find e (v_id k)) (Some (v_id k)) st = Some (Some (copy_json_to_layer k), st)"
proof -
  from ls.look_law [OF assms(1), of "se_find e (v_id k)" "Some (v_id k)"] obtain r where
    "layer_store_lookup (se_find e (v_id k)) (Some (v_id k)) st = Some (r, st)"
    "lookup_spec (se_find e (v_id k)) (Some (v_id k)) (view st) r" by blast
  then show ?thesis using assms(3) ls.find_id [OF assms(1,2)] by (simp add: lookup_spec_def finds_def)
qed

lemma layers_exist_complete:
  assumes "store_ok st held \<and> bounded held 4" and "finds e" and "chain_of (view st) x ks"
  shows "layers_exist e x st = Some (0, st)"
  using assms(3)
proof (induction ks arbitrary: x)
  case Nil
  then show ?case by (cases x) (simp_all add: layers_exist.simps)
next
  case (Cons k ks)
  then obtain y where x: "x = Some y" by (cases x) simp_all
  with Cons.prems have k: "k \<in> set (view st)" "v_id k = y" "chain_of (view st) (v_parent k) ks" by simp_all
  note f = find_listed_layer [OF assms(1) k(1) assms(2)] and p = copy_parent [OF ls.known [OF assms(1) k(1)]]
  show ?case using f Cons.IH [OF k(3)] p k(2) unfolding x by (subst layers_exist.simps) simp
qed

text \<open>A chain survives a deletion that keeps its top.\<close>

lemma chain_survives:
  assumes "closed_under_parents (filter P vs)" and "distinct (map v_id vs)" and "chain_of vs x ks"
    and "\<And>y. x = Some y \<Longrightarrow> y \<in> v_id ` set (filter P vs)"
  shows "chain_of (filter P vs) x ks"
  using assms(3,4)
proof (induction ks arbitrary: x)
  case Nil
  then show ?case by (cases x) simp_all
next
  case (Cons k ks)
  then obtain y where x: "x = Some y" by (cases x) simp_all
  with Cons.prems have k: "k \<in> set vs" "v_id k = y" "chain_of vs (v_parent k) ks" by simp_all
  obtain k' where k': "k' \<in> set (filter P vs)" "v_id k' = y" using Cons.prems(2) [OF x] by auto
  then have "k' = k" using k assms(2) by (auto simp: distinct_map dest: inj_onD)
  then have kf: "k \<in> set (filter P vs)" using k'(1) by simp
  then have "\<And>z. v_parent k = Some z \<Longrightarrow> z \<in> v_id ` set (filter P vs)" using assms(1) unfolding closed_under_parents_def by blast
  then show ?case using Cons.IH [OF k(3)] kf k(2) x by simp
qed

lemma chain_after_prune:
  assumes "store_ok st held" and "pruned R imgs x (view st) vs'" and "chain_of (view st) (Some t) ks"
    and "i \<in> set imgs" "im_top_layer i = Some t" "im_id i \<noteq> t"
  shows "chain_of vs' (Some t) ks"
proof -
  obtain k where k: "k \<in> set (view st)" "v_id k = t" using assms(3) by (cases ks) auto
  have "\<not> loose imgs k" using assms(4-6) k(2) by (auto simp: loose_def)
  then have "k \<in> set vs'" using assms(2) k(1) by (auto simp: pruned_def)
  moreover obtain P where "vs' = filter P (view st)" "closed_under_parents vs'" using assms(2) by (auto simp: pruned_def)
  ultimately show ?thesis using chain_survives [of P "view st" "Some t" ks] store_ids [OF assms(1)] assms(3) k(2) by auto
qed

section \<open>The size of an image\<close>

lemma big_data_sum:
  assumes "\<forall>n \<in> set ns. 0 \<le> se_big_size e img n" and "- 1 \<le> a" and "a + (\<Sum>n \<leftarrow> ns. se_big_size e img n) < 2 ^ 63"
  shows "big_data_total e img ns a = Some (Some (a + (\<Sum>n \<leftarrow> ns. se_big_size e img n)))"
  using assms
proof (induction ns arbitrary: a)
  case Nil
  then show ?case by simp
next
  case (Cons n ns)
  have "0 \<le> (\<Sum>n \<leftarrow> ns. se_big_size e img n)" using Cons.prems(1) by (intro sum_list_nonneg) auto
  then have "add64 a (se_big_size e img n) = Some (a + se_big_size e img n)" using Cons.prems by (simp add: add64_def)
  then show ?case using Cons.IH [of "a + se_big_size e img n"] Cons.prems by (simp add: Let_def add.assoc)
qed

definition v_size :: "layer_t \<Rightarrow> int" where
  "v_size l = sl_diff_size (the (slayer l))"

definition sized :: "layer_t \<Rightarrow> bool" where
  "sized l \<longleftrightarrow> 0 \<le> v_size l \<and> sl_diff_digest (the (slayer l)) \<noteq> None"

lemma layers_sum:
  assumes "store_ok st held \<and> bounded held 4" and "finds e" and "chain_of (view st) x ks" and "\<forall>k \<in> set ks. sized k"
    and "- 1 \<le> a" and "a + (\<Sum>k \<leftarrow> ks. v_size k) < 2 ^ 63"
  shows "layers_total e x a st = Some (a + (\<Sum>k \<leftarrow> ks. v_size k), st)"
  using assms(3-6)
proof (induction ks arbitrary: x a)
  case Nil
  then show ?case by (cases x) (simp_all add: layers_total.simps)
next
  case (Cons k ks)
  then obtain y where x: "x = Some y" by (cases x) simp_all
  with Cons.prems(1) have k: "k \<in> set (view st)" "v_id k = y" "chain_of (view st) (v_parent k) ks" by simp_all
  note f = find_listed_layer [OF assms(1) k(1) assms(2)] and kn = ls.known [OF assms(1) k(1)]
  have c: "li_uncompress_size (copy_json_to_layer k) = v_size k"
    "li_uncompressed_digest (copy_json_to_layer k) = sl_diff_digest (the (slayer k))"
    using kn by (auto simp: copy_json_to_layer_def v_size_def)
  have "0 \<le> (\<Sum>k \<leftarrow> ks. v_size k)" using Cons.prems(2) by (intro sum_list_nonneg) (auto simp: sized_def)
  then have "add64 a (v_size k) = Some (a + v_size k)" using Cons.prems(2-4) by (simp add: add64_def sized_def)
  then show ?case using f Cons.IH [OF k(3), of "a + v_size k"] copy_parent [OF kn] c k(2) Cons.prems(2-4) unfolding x
    by (subst layers_total.simps) (auto simp: sized_def add.assoc)
qed

text \<open>C27. The size storage computes for an image with a complete chain of layers, all of known size, is the sum of the
  sizes of its big data and of its layers minus one: the sum starts at the error value.\<close>

theorem image_size_one_short:
  assumes "store_ok st held" and "bounded held 4" and "finds e" and "se_top_layer e img = Some t"
    and "chain_of (view st) (Some t) ks" and "\<forall>k \<in> set ks. sized k" and "se_big_names e img = Some ns"
    and "\<forall>n \<in> set ns. 0 \<le> se_big_size e img n" and "(\<Sum>n \<leftarrow> ns. se_big_size e img n) + (\<Sum>k \<leftarrow> ks. v_size k) < 2 ^ 63"
  shows "storage_img_cal_image_size e (Some img) st =
    Some ((\<Sum>n \<leftarrow> ns. se_big_size e img n) + (\<Sum>k \<leftarrow> ks. v_size k) - 1, st)"
proof -
  have pos: "0 \<le> (\<Sum>n \<leftarrow> ns. se_big_size e img n)" "0 \<le> (\<Sum>k \<leftarrow> ks. v_size k)"
    using assms(6,8) by (auto intro!: sum_list_nonneg simp: sized_def)
  have "big_data_total e img ns (-1) = Some (Some (-1 + (\<Sum>n \<leftarrow> ns. se_big_size e img n)))"
    using big_data_sum [of ns e img "-1"] assms(8,9) pos by simp
  moreover have "layers_total e (Some t) (-1 + (\<Sum>n \<leftarrow> ns. se_big_size e img n)) st =
      Some (-1 + (\<Sum>n \<leftarrow> ns. se_big_size e img n) + (\<Sum>k \<leftarrow> ks. v_size k), st)"
    using layers_sum [OF _ assms(3,5,6), of held "-1 + (\<Sum>n \<leftarrow> ns. se_big_size e img n)"] assms(1,2,9) pos by simp
  ultimately show ?thesis using assms(4,7) by (simp add: storage_img_cal_image_size_def)
qed

theorem image_size_one_short_witness:
  "let ks = [content (demo_layer ''b'' (Some ''a'')), content (demo_layer ''a'' None)]
   in store_ok demo_store (\<lambda>_. 0) \<and> bounded (\<lambda>_. 0) 4 \<and> finds demo_env \<and> chain_of (view demo_store) (Some ''b'') ks \<and>
      storage_img_cal_image_size demo_env (Some ''img'') demo_store = Some (109, demo_store)"
proof -
  let ?ks = "[content (demo_layer ''b'' (Some ''a'')), content (demo_layer ''a'' None)]"
  have h: "finds demo_env" "chain_of (view demo_store) (Some ''b'') ?ks" "\<forall>k \<in> set ?ks. sized k"
    "se_top_layer demo_env ''img'' = Some ''b''" "se_big_names demo_env ''img'' = Some [''manifest'']"
    "\<forall>n \<in> set [''manifest'']. 0 \<le> se_big_size demo_env ''img'' n"
    "(\<Sum>n \<leftarrow> [''manifest'']. se_big_size demo_env ''img'' n) + (\<Sum>k \<leftarrow> ?ks. v_size k) = 110"
    by (simp_all add: finds_def demo_env_def calm_env_def demo_view v_id_def v_parent_def demo_layer_def sized_def v_size_def)
  from image_size_one_short [OF demo_ok h(1,4,2,3,5,6)] h demo_ok show ?thesis by (simp add: Let_def)
qed

section \<open>The layer of a container\<close>

text \<open>The writable layer of container \<open>c\<close> on top of \<open>t\<close>.\<close>

definition rw_layer :: "string \<Rightarrow> string option \<Rightarrow> layer_t \<Rightarrow> bool" where
  "rw_layer c t l \<longleftrightarrow> v_id l = c \<and> v_parent l = t \<and> sl_writable (the (slayer l)) \<and> hold_refs_num l = 1"

lemma create_rw_layer_run:
  assumes "store_ok st held \<and> bounded held 4" and "v_find (Some c) (view st) = None" and "layers st (lv_addr (se_new e c)) = None"
  shows "\<exists>r st'. do_create_container_rw_layer e c t label sopts st = Some (r, st') \<and> (store_ok st' held \<and> bounded held 4) \<and>
    (if r = 0 then \<exists>l. view st' = view st @ [l] \<and> rw_layer c t l else view st' = view st)"
proof -
  let ?c = "\<lparr>co_parent = t, co_uncompress_digest = None, co_compressed_digest = None, co_layer_data_path = None, co_writable = True,
    co_storage_opts = sopts\<rparr>"
  show ?thesis
  proof (cases "fill_create_layer_opts e ?c label")
    case None
    then show ?thesis using assms(1) by (simp add: do_create_container_rw_layer_def)
  next
    case (Some opts)
    then have o: "lo_parent opts = t" "lo_writable opts" by (auto simp: fill_create_layer_opts_def split: if_splits)
    from create_step [of st held "se_new e c" "Some c" "Some opts" False] assms(1,3) obtain r i st' where
      c: "layer_store_create (se_new e c) (Some c) (Some opts) False st = Some (r, i, st')" "store_ok st' held"
        "create_spec (se_new e c) (Some c) (Some opts) (view st) r i (view st')" by blast
    have run: "do_create_container_rw_layer e c t label sopts st = Some (if r \<noteq> 0 then -1 else 0, st')"
      using Some c(1) by (simp add: do_create_container_rw_layer_def)
    show ?thesis
    proof (cases "r = 0")
      case True
      then obtain l where l: "view st' = view st @ [l]" "is_new (se_new e c) c opts l"
        using c(3) assms(2) by (auto simp: create_spec_def split: if_splits)
      then obtain s where s: "slayer l = Some s" "norm s = norm (fresh_slayer (se_new e c) c opts)" "hold_refs_num l = 1"
        by (auto simp: is_new_def)
      have "rw_layer c t l" using arg_cong [OF s(2), of sl_id] arg_cong [OF s(2), of sl_parent] arg_cong [OF s(2), of sl_writable] s(1,3) o
        by (simp add: rw_layer_def v_id_def v_parent_def norm_def fresh_slayer_def)
      then show ?thesis using run True l(1) c(2) assms(1) by auto
    next
      case False
      then have "view st' = view st" using c(3) assms(2) by (auto simp: create_spec_def split: if_splits)
      then show ?thesis using run False c(2) assms(1) by auto
    qed
  qed
qed

lemma delete_new_layer:
  assumes "store_ok st held \<and> bounded held 4" and "view st = vs @ [l]" and "v_find (Some (v_id l)) vs = None"
  shows "\<exists>r st'. layer_store_delete e (Some (v_id l)) st = Some (r, st') \<and> store_ok st' held \<and>
    (view st' = vs \<or> view st' = vs @ [l] \<and> lv_ret e (Drv_Umount (v_id l)) \<noteq> 0 \<or> view st' = vs @ [l] \<and> \<not> lv_mem e M_Lock)"
proof -
  have "l \<in> set (view st)" using assms(2) by simp
  note f = ls.find_id [OF assms(1) this]
  have "v_del l (vs @ [l]) = vs" using not_found_id [OF assms(3)] by (intro v_del_new) auto
  then show ?thesis using ls.del_law [OF assms(1), of e "Some (v_id l)"] f(2) assms(2) by (auto simp: delete_spec_def split: if_splits)
qed

text \<open>C26. Creating the root file system of a new container succeeds with exactly one new layer, writable, held once and on
  top of the image's top layer, and with the record that names the image; or it fails and the layers
  are as before, unless the new layer could not be deleted again because the lock or the unmount failed.\<close>

theorem rootfs_create_layer:
  assumes "store_ok (ss_layers s) held" and "bounded held 4" and "v_find (Some c) (view (ss_layers s)) = None"
    and "layers (ss_layers s) (lv_addr (se_new e c)) = None"
  shows "\<exists>r m s'. storage_rootfs_create e (Some c) img label sopts s = Some (r, m, s') \<and> store_ok (ss_layers s') held \<and>
    (if r = 0
     then \<exists>i l. storage_img_get_summary e img = Some i \<and> view (ss_layers s') = view (ss_layers s) @ [l] \<and>
        rw_layer c (im_top_layer i) l \<and> ss_calls s' = ss_calls s @ [(Rootfs_Create c (im_id i), 0)]
     else view (ss_layers s') = view (ss_layers s) \<or>
        (\<exists>l. view (ss_layers s') = view (ss_layers s) @ [l] \<and> v_id l = c \<and>
           (lv_ret (se_del e c) (Drv_Umount c) \<noteq> 0 \<or> \<not> lv_mem (se_del e c) M_Lock)))"
proof (cases "img = None \<or> \<not> se_lock e \<or> storage_img_get_summary e img = None")
  case True
  then have "storage_rootfs_create e (Some c) img label sopts s = Some (-1, None, s)" by (auto simp: storage_rootfs_create_def)
  then show ?thesis using assms(1) by simp
next
  case False
  then obtain i where i: "storage_img_get_summary e img = Some i" and g: "img \<noteq> None" "se_lock e" by auto
  let ?st = "ss_layers s"
  obtain r1 st1 where c: "do_create_container_rw_layer e c (im_top_layer i) label sopts ?st = Some (r1, st1)"
    "store_ok st1 held \<and> bounded held 4"
    "if r1 = 0 then \<exists>l. view st1 = view ?st @ [l] \<and> rw_layer c (im_top_layer i) l else view st1 = view ?st"
    using create_rw_layer_run [of ?st held c e "im_top_layer i" label sopts] assms by blast
  show ?thesis
  proof (cases "r1 = 0")
    case False
    then have "storage_rootfs_create e (Some c) img label sopts s = Some (-1, None, s\<lparr>ss_layers := st1\<rparr>)"
      using i g c(1) by (auto simp: storage_rootfs_create_def)
    then show ?thesis using False c(2,3) by simp
  next
    case True
    then obtain l where l: "view st1 = view ?st @ [l]" "rw_layer c (im_top_layer i) l" using c(3) by auto
    then have vid: "v_id l = c" by (simp add: rw_layer_def)
    let ?rc = "se_ret e (Rootfs_Create c (im_id i))"
    define s2 where "s2 = s\<lparr>ss_layers := st1, ss_calls := ss_calls s @ [(Rootfs_Create c (im_id i), ?rc)]\<rparr>"
    obtain j where j: "layer_store_lookup (se_find e c) (Some c) st1 = Some (j, st1)" using ls.look_law [OF c(2)] by blast
    obtain r3 st3 where d: "layer_store_delete (se_del e c) (Some c) st1 = Some (r3, st3)" "store_ok st3 held"
      "view st3 = view ?st \<or> view st3 = view ?st @ [l] \<and> lv_ret (se_del e c) (Drv_Umount c) \<noteq> 0 \<or>
       view st3 = view ?st @ [l] \<and> \<not> lv_mem (se_del e c) M_Lock"
      using delete_new_layer [OF c(2) l(1), of "se_del e c"] assms(3) unfolding vid by blast
    have run: "storage_rootfs_create e (Some c) img label sopts s =
       (if ?rc = 0 \<and> j \<noteq> None then Some (0, li_mount_point (the j), s2\<lparr>ss_layers := st1\<rparr>)
        else Some (-1, None, s2\<lparr>ss_layers := st3\<rparr>))"
      using i g c(1) True j d(1) by (auto simp: storage_rootfs_create_def call_def s2_def Let_def)
    show ?thesis
    proof (cases "?rc = 0 \<and> j \<noteq> None")
      case True
      then show ?thesis using run i l c(2) by (auto simp: s2_def)
    next
      case False
      then show ?thesis using run d(2,3) vid by (auto simp: s2_def)
    qed
  qed
qed

theorem rootfs_create_layer_witness:
  "let s = \<lparr>ss_layers = demo_store, ss_calls = []\<rparr>
   in store_ok (ss_layers s) (\<lambda>_. 0) \<and> bounded (\<lambda>_. 0) 4 \<and> v_find (Some ''c'') (view (ss_layers s)) = None \<and>
      layers (ss_layers s) (lv_addr (se_new demo_env ''c'')) = None \<and>
      (\<exists>r m s'. storage_rootfs_create demo_env (Some ''c'') (Some ''img'') None None s = Some (r, m, s') \<and>
        store_ok (ss_layers s') (\<lambda>_. 0))"
proof -
  let ?s = "\<lparr>ss_layers = demo_store, ss_calls = []\<rparr>"
  have h: "store_ok (ss_layers ?s) (\<lambda>_. 0)" "v_find (Some ''c'') (view (ss_layers ?s)) = None"
    "layers (ss_layers ?s) (lv_addr (se_new demo_env ''c'')) = None"
    using demo_ok(1) by (simp_all add: demo_view v_find_def v_id_def v_names_def demo_layer_def)
      (simp add: demo_store_def demo_env_def calm_env_def)
  from rootfs_create_layer [OF h(1) demo_ok(2) h(2,3), of "Some ''img''" None None] show ?thesis
    unfolding Let_def using h demo_ok(2) by blast
qed

section \<open>Checking the layers of images\<close>

lemma image_layers_run:
  assumes "store_ok st held \<and> bounded held 4" and "finds e" and "\<And>i. mem i" and "chain_of (view st) x ks"
  shows "image_layers_from e mem i x acc st = Some (Some (acc @ map v_id ks), st)"
  using assms(4)
proof (induction ks arbitrary: x i acc)
  case Nil
  then show ?case by (cases x) (simp_all add: image_layers_from.simps)
next
  case (Cons k ks)
  then obtain y where x: "x = Some y" by (cases x) simp_all
  with Cons.prems have k: "k \<in> set (view st)" "v_id k = y" "chain_of (view st) (v_parent k) ks" by simp_all
  note f = find_listed_layer [OF assms(1) k(1) assms(2)] and p = copy_parent [OF ls.known [OF assms(1) k(1)]]
  show ?case using f Cons.IH [OF k(3)] p k(2) assms(3) [of i] unfolding x by (subst image_layers_from.simps) simp
qed

text \<open>Deleting the unchecked layers keeps the store consistent and every layer that is checked or of a container.\<close>

lemma delete_unchecked_run:
  assumes "store_ok st held \<and> bounded held 4" and "set vs \<subseteq> set (view st)" and "distinct (map v_id vs)"
  shows "\<exists>st'. delete_unchecked_loop e checked rs (map copy_json_to_layer vs) st = Some st' \<and> (store_ok st' held \<and> bounded held 4) \<and>
    (\<forall>l \<in> set (view st). l \<notin> set vs \<or> checked (v_id l) \<noteq> None \<or> is_rootfs_layer (Some (v_id l)) (Some rs) \<longrightarrow> l \<in> set (view st'))"
  using assms
proof (induction vs arbitrary: st)
  case Nil
  then show ?case by simp
next
  case (Cons l vs)
  have l: "l \<in> set (view st)" using Cons.prems(2) by simp
  have li: "li_id (copy_json_to_layer l) = Some (v_id l)"
    using ls.known [OF Cons.prems(1) l] by (auto simp: copy_json_to_layer_def v_id_def)
  show ?case
  proof (cases "checked (v_id l) \<noteq> None \<or> is_rootfs_layer (Some (v_id l)) (Some rs)")
    case True
    then show ?thesis using Cons.IH [of st] Cons.prems li by auto
  next
    case False
    obtain r st1 where d: "layer_store_delete (se_del e (v_id l)) (Some (v_id l)) st = Some (r, st1)"
      "store_ok st1 held \<and> bounded held 4" "view st1 = v_del l (view st) \<or> r = -1 \<and> view st1 = view st"
      using ls.del_id [OF Cons.prems(1) l] by blast
    have keep: "k \<in> set (view st1)" if "k \<in> set (view st)" "k \<noteq> l" for k
      using that d(3) l ls.ids [OF Cons.prems(1)] by (auto simp: v_del_def distinct_map dest: inj_onD)
    then have "set vs \<subseteq> set (view st1)" using Cons.prems(2,3) by auto
    with Cons.IH [of st1] d(2) Cons.prems(3) obtain st' where
      o: "delete_unchecked_loop e checked rs (map copy_json_to_layer vs) st1 = Some st'" "store_ok st' held \<and> bounded held 4"
      "\<forall>l \<in> set (view st1). l \<notin> set vs \<or> checked (v_id l) \<noteq> None \<or> is_rootfs_layer (Some (v_id l)) (Some rs) \<longrightarrow> l \<in> set (view st')"
      by auto
    have "k \<in> set (view st')" if k: "k \<in> set (view st)"
      "k \<notin> set (l # vs) \<or> checked (v_id k) \<noteq> None \<or> is_rootfs_layer (Some (v_id k)) (Some rs)" for k
    proof -
      have "k \<noteq> l" using k(2) False by auto
      then show ?thesis using keep [OF k(1)] o(3) k(2) by (metis list.set_intros(2))
    qed
    moreover have "delete_unchecked_loop e checked rs (map copy_json_to_layer (l # vs)) st = Some st'"
      using False li d(1) o(1) by auto
    ultimately show ?thesis using o(2) by blast
  qed
qed

end
