(* ===== verification/Spec2Isabelle.thy ===== *)
theory Spec2Isabelle
  imports Map_Refine Container_Lifecycle Volume_Store Layer_Threads Storage
begin

text \<open>
  A verification development of iSulad, a container engine written in C. The daemon keeps containers,
  volumes and image layers in registries built on one map, validates what clients send with a set of string and
  path utilities, and drives each container through its life with the help of restart threads. The
  development models these parts and proves what they promise to each other and to the outside.

  \<^bold>\<open>How C becomes HOL\<close> (theory \<open>Prelude\<close>). A pointer that may be NULL is an \<open>option\<close>; result codes keep the
  values 0 and -1. Signed counters are \<open>int\<close> with their wrap-around written out, reference counts are \<open>nat\<close> modulo
  \<open>2 ^ 64\<close> (\<open>Util_Atomic\<close>). Code with pointers, buffers or loops that might not end runs in the option monad: \<open>None\<close>
  stands for a use after free, an access outside a buffer, a call of NULL, a lock that is never released or a
  loop that does not end, so a theorem of the form \<open>\<exists>r st'. f x st = Some (r, st') \<and> \<dots>\<close> also says that none of these
  happens. What the code asks of the world (allocator, locks, clock, kernel, runtime, graph driver) is an
  argument, usually a record of answers, over which the theorems quantify.

  \<^bold>\<open>The map\<close> (\<^verbatim>\<open>src/utils/cutils/map/\<close>). \<open>Rb_Tree\<close> has every function of \<^verbatim>\<open>rb_tree.c\<close> on a heap of linked nodes, \<open>Cmap\<close>
  the typed map of \<^verbatim>\<open>map.c\<close>. \<open>Rb_Shape\<close> relates the heap to trees by zippers, \<open>Rb_Balance\<close>, \<open>Rb_Insert\<close>, \<open>Rb_Remove\<close>,
  \<open>Rb_Erase\<close> and \<open>Rb_Iter\<close> prove the colour invariants and the functional behaviour of insertion, deletion and
  iteration for every key order that satisfies the locale \<open>key_order\<close> (interpreted for pointers, integers and
  strings, and for the comparison a map is made with). \<open>Map_Refine\<close> shows that any program over a string
  map returns what the abstract association list returns, that iteration yields each entry once in order and
  that freeing passes each entry to the call-back once. The locale \<open>string_map\<close> is the contract the
  other components use; it is interpreted on the abstract operations \<open>smap_*\<close>.

  \<^bold>\<open>Utilities\<close> (\<^verbatim>\<open>src/utils/cutils/\<close>). \<open>Utils_Array\<close> (\<^verbatim>\<open>utils_array.c\<close>), \<open>Utils_Convert\<close> (\<^verbatim>\<open>utils_convert.c\<close>), \<open>Utils_String\<close>
  (\<^verbatim>\<open>utils_string.c\<close>), \<open>Regex\<close> (\<^verbatim>\<open>utils_regex.c\<close> with a POSIX matcher proved against the language of an expression),
  \<open>Utils_Verify\<close> (\<^verbatim>\<open>utils_verify.c\<close>) and \<open>Utils_Path\<close> (\<^verbatim>\<open>path.c\<close>). Shown are bounds, round trips, exact accepted
  languages and, in \<open>Path_Scope\<close>, that resolving a path below a root ends, stays in its buffers and never
  leaves the root whatever symbolic links there are. The link loop is shown
  to end after at most \<open>(MAXSYMLINKS + 1) * PATH_MAX\<close> rounds. The only fuel is that of the expression
  parser in \<open>Regex\<close>, three times the length of the pattern and three more: every call consumes a character
  or goes one of three levels down. Loops over
  linked nodes and chains of layers are \<open>partial_function\<close>s that are proved to return.

  \<^bold>\<open>Containers\<close> (\<^verbatim>\<open>src/daemon/\<close>). \<open>Id_Name_Manager\<close> (\<^verbatim>\<open>common/id_name_manager.c\<close>) reserves ids and names, interleaved by
  concurrent clients. \<open>Containers_Store\<close> (\<^verbatim>\<open>containers_store.c\<close>) keeps the reference-counted registry.
  \<open>Container_State\<close> (\<^verbatim>\<open>container_state.c\<close>) and \<open>Restart_Manager\<close> (\<^verbatim>\<open>restartmanager.c\<close>) are the two parts of a container
  that \<open>Container_Unix\<close> (\<^verbatim>\<open>container_unix.c\<close>) puts together. \<open>Container_Service\<close> has start, stop, kill, pause,
  resume, restart, the exit handler and the restart thread (\<^verbatim>\<open>service_container.c\<close>, \<^verbatim>\<open>container_events_handler.c\<close>,
  \<^verbatim>\<open>execution.c\<close>, \<^verbatim>\<open>execution_extend.c\<close>) as atomic sections; \<open>Container_Lifecycle\<close> interleaves them as an inductive step
  relation and proves the invariant of the flags, that no restart manager is used after it is freed,
  that a stopped container is not restarted, and that a restart ends.

  \<^bold>\<open>Volumes\<close> (\<^verbatim>\<open>src/daemon/modules/volume/\<close>). \<open>Volume_Local\<close> (\<^verbatim>\<open>local.c\<close>) is the driver with its directories, \<open>Volume_Store\<close>
  (\<^verbatim>\<open>volume.c\<close>) the registered drivers and the references of containers to volumes. The store uses a driver
  through the locale \<open>volume_provider\<close>, interpreted on the local driver. Shown are the form of the volume table
  and that a volume in use is never removed.

  \<^bold>\<open>Layers and images\<close> (\<^verbatim>\<open>src/daemon/modules/image/oci/storage/\<close>). \<open>Layer_Store\<close> has every operation of
  \<^verbatim>\<open>layer_store.c\<close> and \<^verbatim>\<open>layer.c\<close>; \<open>Layer_Refine\<close> proves that its indexes and reference counts stay consistent through
  every operation and failure, and \<open>Layer_Spec\<close> that any sequence of calls refines an abstract list of layers
  and that creation is atomic. \<open>Layer_Threads\<close> interleaves the sections of the calls as threads do and shows that no layer
  is used after it is freed and none leaks. The theorems leave four references of room below \<open>2 ^ 64\<close> (\<open>bounded held 4\<close>): a call
  takes at most that many at a time. \<open>Storage\<close> (\<^verbatim>\<open>storage.c\<close>) deletes and measures images and makes root file
  systems on top of the layer store, which it uses through the locale \<open>layer_service\<close>, interpreted on \<open>Layer_Store\<close>.
  The theorem below joins the two: deleting one image never takes a layer away from another.

  \<^bold>\<open>Not modelled\<close>, because a faithful model would be of code outside the repository or of nothing but calls:
  the runtimes and shims, the graph drivers (overlay, device mapper), the network plug-ins, the CRI and gRPC
  front ends, registry traffic and archives (libcurl, libarchive, OpenSSL), the event streams, console and
  log descriptors, and the start-up of the processes. Their answers are arguments where a modelled part
  asks for them. Of the parts that are modelled, these are left out: JSON files and the structures generated
  from schemas (their reading and writing is an answer of the environment), the log configuration and the
  exec and attach paths of a container, validators that read the host, the image and root file system stores
  (known to \<open>Storage\<close> by their answers) with the integrity check of whole images, and the code compiled only
  with \<^verbatim>\<open>ENABLE_REMOTE_LAYER_STORE\<close>.
\<close>

section \<open>Images share layers safely\<close>

text \<open>C6. Storage and the layer store together: let every layer have its parent, and let an image that the image store
  lists after the deletion have a complete chain of layers. Then, whatever image is deleted and whatever
  fails, the deletion returns, and the check storage makes at start-up for that image still succeeds: none
  of its layers has gone.\<close>

theorem other_images_survive:
  assumes "store_ok (ss_layers s) rf" and "bounded rf 4" and "closed_under_parents (view (ss_layers s))" and "tops_known e"
    and "se_images e = Some imgs" and "i \<in> set imgs" and "im_top_layer i = Some t" and "im_id i \<noteq> t"
    and "chain_of (view (ss_layers s)) (Some t) ks" and "finds e'" and "se_top_layer e' (im_id i) = Some t"
  shows "\<exists>r s'. storage_img_delete e p s = Some (r, s') \<and>
    do_check_img_layers_exist e' (Some (im_id i)) (ss_layers s') = Some (0, ss_layers s')"
proof -
  obtain r s' where d: "storage_img_delete e p s = Some (r, s')" "store_ok (ss_layers s') rf"
    "ss_layers s' = ss_layers s \<or> (\<exists>img j imgs. p = Some img \<and> se_summary e img = Some j \<and> se_images e = Some imgs \<and>
        \<not> in_use e img \<and> ss_calls s' = ss_calls s @ [(Img_Delete (im_id j), 0)] \<and>
        pruned (parents (view (ss_layers s))) imgs (im_top_layer j) (view (ss_layers s)) (view (ss_layers s')))"
    using img_delete_run [OF assms(1-4), of p] by blast
  have "chain_of (view (ss_layers s')) (Some t) ks"
    using d(3)
  proof
    assume "ss_layers s' = ss_layers s"
    then show ?thesis using assms(9) by simp
  next
    assume "\<exists>img j imgs. p = Some img \<and> se_summary e img = Some j \<and> se_images e = Some imgs \<and>
      \<not> in_use e img \<and> ss_calls s' = ss_calls s @ [(Img_Delete (im_id j), 0)] \<and>
      pruned (parents (view (ss_layers s))) imgs (im_top_layer j) (view (ss_layers s)) (view (ss_layers s'))"
    then show ?thesis using chain_after_prune [OF assms(1) _ assms(9,6,7,8)] assms(5) by auto
  qed
  then have "layers_exist e' (Some t) (ss_layers s') = Some (0, ss_layers s')"
    using layers_exist_complete [of "ss_layers s'" rf e' "Some t" ks] d(2) assms(2,10) by blast
  then show ?thesis using d(1) assms(11) by (simp add: do_check_img_layers_exist_def)
qed

theorem other_images_survive_witness:
  "let s = \<lparr>ss_layers = demo_store, ss_calls = []\<rparr>; e' = demo_env\<lparr>se_top_layer := (\<lambda>_. Some ''a'')\<rparr>
   in store_ok (ss_layers s) (\<lambda>_. 0) \<and> bounded (\<lambda>_. 0) 4 \<and> closed_under_parents (view (ss_layers s)) \<and> tops_known demo_env \<and>
      chain_of (view (ss_layers s)) (Some ''a'') [content (demo_layer ''a'' None)] \<and> finds e' \<and>
      (\<exists>r s'. storage_img_delete demo_env (Some ''img'') s = Some (r, s') \<and>
        do_check_img_layers_exist e' (Some ''other'') (ss_layers s') = Some (0, ss_layers s'))"
proof -
  let ?s = "\<lparr>ss_layers = demo_store, ss_calls = []\<rparr>" and ?e = "demo_env\<lparr>se_top_layer := (\<lambda>_. Some ''a'')\<rparr>"
  let ?i = "\<lparr>im_id = ''other'', im_top_layer = Some ''a'', im_size = 0\<rparr>"
  have h: "store_ok (ss_layers ?s) (\<lambda>_. 0)" "closed_under_parents (view (ss_layers ?s))" "se_images demo_env = Some [?i]" "?i \<in> set [?i]"
    "im_top_layer ?i = Some ''a''" "im_id ?i \<noteq> ''a''"
    "chain_of (view (ss_layers ?s)) (Some ''a'') [content (demo_layer ''a'' None)]" "finds ?e" "se_top_layer ?e (im_id ?i) = Some ''a''"
    using demo_ok(1) demo_closed(1)
    by (simp_all add: demo_env_def demo_view v_id_def v_parent_def demo_layer_def finds_def calm_env_def)
  from other_images_survive [OF h(1) demo_ok(2) h(2) demo_closed(2) h(3-9), of "Some ''img''"]
  show ?thesis unfolding Let_def by (intro conjI h demo_ok(2) demo_closed(2)) simp
qed

end
